(* ===== verification/Prelude.thy ===== *)
theory Prelude
  imports Main "HOL-Library.AList" "HOL-Library.Char_ord" "HOL-Library.List_Lexorder"
begin

section \<open>Shared vocabulary: errors, tables, transactions\<close>

text \<open>
  What every component of the model uses.
  \<^item> \<open>go_error\<close>: the errors the code returns, one constructor per sentinel and one for a
    message; a fallible function returns \<open>go_error + 'a\<close>.
  \<^item> tables: a SQLite table with a primary key is an association list from keys to rows, in
    rowid order. The SQL statements the code issues (\<open>INSERT .. ON CONFLICT DO UPDATE\<close>,
    \<open>INSERT OR IGNORE\<close>, \<open>DELETE .. WHERE\<close>, \<open>UPDATE .. WHERE\<close>, \<open>SELECT .. ORDER BY\<close>) are
    functions on such lists. Go maps are association lists as well: the list order stands for
    one iteration order.
  \<^item> \<open>store\<close>: the contract the clients of a keyed table rely on, as a locale, and its
    interpretation on the association lists.
  \<^item> \<open>with_tx\<close>: a transaction commits all of its writes or none.
\<close>

named_theorems table_simps \<open>lookup equations for the table operations\<close>
named_theorems inv_intros \<open>invariant preservation, one rule per operation\<close>

subsection \<open>Errors\<close>

datatype go_error =
    ErrDb string            \<comment> \<open>a failing SQL statement\<close>
  | ErrMsg string           \<comment> \<open>errors.New / fmt.Errorf\<close>
  | ErrBadRequest string    \<comment> \<open>catalog.errBadRequest\<close>
  | ErrNoSuchItem           \<comment> \<open>catalog.errNoSuchItem\<close>
  | ErrFeedUnsupported      \<comment> \<open>catalog.errFeedUnsupported\<close>
  | ErrNotFound             \<comment> \<open>peerauth.ErrNotFound\<close>
  | ErrInviteInvalid        \<comment> \<open>peerauth.ErrInviteInvalid\<close>
  | ErrIDTaken              \<comment> \<open>peerauth.ErrIDTaken\<close>
  | ErrPinMismatch          \<comment> \<open>peerauth.ErrPinMismatch\<close>
  | ErrInviteRejected       \<comment> \<open>peerauth.ErrInviteRejected\<close>

subsection \<open>Tables\<close>

type_synonym ('k, 'r) tbl = "('k \<times> 'r) list"

definition keyed :: "('k, 'r) tbl \<Rightarrow> bool" where
  "keyed t \<longleftrightarrow> distinct (map fst t)"

definition tbl_upsert :: "'k \<Rightarrow> 'r \<Rightarrow> ('k, 'r) tbl \<Rightarrow> ('k, 'r) tbl" where
  "tbl_upsert k r t = AList.update k r t"

definition tbl_insert_ignore :: "'k \<Rightarrow> 'r \<Rightarrow> ('k, 'r) tbl \<Rightarrow> ('k, 'r) tbl" where
  "tbl_insert_ignore k r t = (case map_of t k of None \<Rightarrow> t @ [(k, r)] | Some _ \<Rightarrow> t)"

definition tbl_delete :: "'k \<Rightarrow> ('k, 'r) tbl \<Rightarrow> ('k, 'r) tbl" where
  "tbl_delete k t = AList.delete k t"

definition tbl_delete_where :: "('k \<Rightarrow> 'r \<Rightarrow> bool) \<Rightarrow> ('k, 'r) tbl \<Rightarrow> ('k, 'r) tbl" where
  "tbl_delete_where P t = filter (\<lambda>(k, r). \<not> P k r) t"

definition tbl_count :: "('k \<Rightarrow> 'r \<Rightarrow> bool) \<Rightarrow> ('k, 'r) tbl \<Rightarrow> nat" where
  "tbl_count P t = length (filter (\<lambda>(k, r). P k r) t)"

definition tbl_update_where :: "('k \<Rightarrow> 'r \<Rightarrow> bool) \<Rightarrow> ('r \<Rightarrow> 'r) \<Rightarrow> ('k, 'r) tbl \<Rightarrow> ('k, 'r) tbl" where
  "tbl_update_where P f t = map (\<lambda>(k, r). (k, if P k r then f r else r)) t"

lemma keyed_Nil [simp, intro]: "keyed []"
  by (simp add: keyed_def)

lemma keyed_upsert [simp, inv_intros]: "keyed t \<Longrightarrow> keyed (tbl_upsert k r t)"
  by (simp add: keyed_def tbl_upsert_def distinct_update)

lemma keyed_insert_ignore [simp, inv_intros]: "keyed t \<Longrightarrow> keyed (tbl_insert_ignore k r t)"
  by (auto simp: keyed_def tbl_insert_ignore_def map_of_eq_None_iff split: option.splits)

lemma keyed_delete [simp, inv_intros]: "keyed t \<Longrightarrow> keyed (tbl_delete k t)"
  by (simp add: keyed_def tbl_delete_def distinct_delete)

lemma keyed_delete_where [simp, inv_intros]: "keyed t \<Longrightarrow> keyed (tbl_delete_where P t)"
  by (simp add: keyed_def tbl_delete_where_def distinct_map_filter)

lemma map_fst_update_where [simp]: "map fst (tbl_update_where P f t) = map fst t"
  by (induction t) (auto simp: tbl_update_where_def)

lemma keyed_update_where [simp, inv_intros]: "keyed t \<Longrightarrow> keyed (tbl_update_where P f t)"
  by (simp add: keyed_def)

lemma get_upsert [simp, table_simps]: "map_of (tbl_upsert k r t) j = (if j = k then Some r else map_of t j)"
  by (simp add: tbl_upsert_def update_conv)

lemma get_delete [simp, table_simps]: "map_of (tbl_delete k t) j = (if j = k then None else map_of t j)"
  by (simp add: tbl_delete_def delete_conv)

lemma get_insert_ignore [simp, table_simps]:
  "map_of (tbl_insert_ignore k r t) j = (if j = k \<and> map_of t k = None then Some r else map_of t j)"
  by (auto simp: tbl_insert_ignore_def map_add_def split: option.splits)

lemma get_update_where [simp, table_simps]:
  "map_of (tbl_update_where P f t) j = map_option (\<lambda>r. if P j r then f r else r) (map_of t j)"
  by (induction t) (auto simp: tbl_update_where_def)

lemma get_delete_where [simp, table_simps]:
  "keyed t \<Longrightarrow> map_of (tbl_delete_where P t) j
     = (case map_of t j of None \<Rightarrow> None | Some r \<Rightarrow> if P j r then None else Some r)"
proof (induction t)
  case Nil
  then show ?case by (simp add: tbl_delete_where_def)
next
  case (Cons a t)
  obtain k r where a: "a = (k, r)" by (cases a)
  from Cons.prems have kt: "keyed t" and nk: "k \<notin> fst ` set t"
    by (auto simp: keyed_def a)
  from nk have none: "map_of t k = None" by (simp add: map_of_eq_None_iff)
  show ?case
    using Cons.IH [OF kt] none
    by (auto simp: tbl_delete_where_def a split: option.splits)
qed

lemma map_of_in_set: "map_of t k = Some r \<Longrightarrow> (k, r) \<in> set t"
  by (rule map_of_SomeD)

lemma keyed_map_of_eq: "keyed t \<Longrightarrow> (map_of t k = Some r) = ((k, r) \<in> set t)"
  by (simp add: keyed_def)

lemma tbl_upsert_id: "map_of t k = Some r \<Longrightarrow> tbl_upsert k r t = t"
  unfolding tbl_upsert_def by (induction t) auto

lemma tbl_delete_where_none: "(\<And>k r. (k, r) \<in> set t \<Longrightarrow> \<not> P k r) \<Longrightarrow> tbl_delete_where P t = t"
  by (induction t) (auto simp: tbl_delete_where_def)

lemma set_tbl_delete_where: "set (tbl_delete_where P t) = {(k, r) \<in> set t. \<not> P k r}"
  by (auto simp: tbl_delete_where_def)

subsection \<open>The contract of a keyed store\<close>

text \<open>
  The clients of a table (the change feed, the mirrors, the election) only need these laws.
\<close>

locale store =
  fixes get :: "'t \<Rightarrow> 'k \<Rightarrow> 'r option"
    and put :: "'k \<Rightarrow> 'r \<Rightarrow> 't \<Rightarrow> 't"
    and del :: "'k \<Rightarrow> 't \<Rightarrow> 't"
    and wf :: "'t \<Rightarrow> bool"
  assumes get_put: "wf t \<Longrightarrow> get (put k r t) j = (if j = k then Some r else get t j)"
    and get_del: "wf t \<Longrightarrow> get (del k t) j = (if j = k then None else get t j)"
    and wf_put: "wf t \<Longrightarrow> wf (put k r t)"
    and wf_del: "wf t \<Longrightarrow> wf (del k t)"
begin

lemma wf_fold_write:
  "wf t \<Longrightarrow> wf (fold (\<lambda>(k, x). case x of None \<Rightarrow> del k | Some r \<Rightarrow> put k r) ws t)"
  by (induction ws arbitrary: t) (auto simp: wf_put wf_del split: option.split)

lemma get_fold_write:
  "wf t \<Longrightarrow> get (fold (\<lambda>(k, x). case x of None \<Rightarrow> del k | Some r \<Rightarrow> put k r) ws t) j
     = (case map_of (rev ws) j of None \<Rightarrow> get t j | Some x \<Rightarrow> x)"
proof (induction ws arbitrary: t)
  case Nil
  then show ?case by simp
next
  case (Cons w ws)
  obtain k x where w: "w = (k, x)" by (cases w)
  have wf': "wf (case x of None \<Rightarrow> del k t | Some r \<Rightarrow> put k r t)"
    using Cons.prems by (simp add: wf_put wf_del split: option.split)
  have step: "get (case x of None \<Rightarrow> del k t | Some r \<Rightarrow> put k r t) j = (if j = k then x else get t j)"
    using Cons.prems by (simp add: get_put get_del split: option.split)
  have fold_eq: "fold (\<lambda>(k, x). case x of None \<Rightarrow> del k | Some r \<Rightarrow> put k r) (w # ws) t
      = fold (\<lambda>(k, x). case x of None \<Rightarrow> del k | Some r \<Rightarrow> put k r) ws
          (case x of None \<Rightarrow> del k t | Some r \<Rightarrow> put k r t)"
    by (simp add: w split: option.split)
  show ?case
    unfolding fold_eq Cons.IH [OF wf'] step
    by (simp add: w map_add_def split: option.split)
qed

lemma get_fold_put:
  "wf t \<Longrightarrow> get (fold (\<lambda>(k, r). put k r) ws t) j
     = (case map_of (rev ws) j of None \<Rightarrow> get t j | Some r \<Rightarrow> Some r)"
proof (induction ws arbitrary: t)
  case Nil
  then show ?case by simp
next
  case (Cons w ws)
  then show ?case
    by (cases w) (simp add: wf_put get_put map_add_def split: option.split)
qed

lemma wf_fold_put: "wf t \<Longrightarrow> wf (fold (\<lambda>(k, r). put k r) ws t)"
  by (induction ws arbitrary: t) (auto simp: wf_put)

end

interpretation tbl: store map_of tbl_upsert tbl_delete keyed
  by unfold_locales auto

subsection \<open>Transactions\<close>

text \<open>
  \<open>withTx\<close> runs its body in a transaction. Every SQL error inside it, and a failing commit, end
  the same way: nothing of the transaction is kept. So one optional fault per transaction stands
  for all of them, and a body may still return an error of its own.
\<close>

definition with_tx :: "go_error option \<Rightarrow> ('d \<Rightarrow> go_error + ('a \<times> 'd)) \<Rightarrow> 'd \<Rightarrow> (go_error + 'a) \<times> 'd" where
  "with_tx fault body d =
     (case fault of
        Some e \<Rightarrow> (Inl e, d)
      | None \<Rightarrow> (case body d of Inl e \<Rightarrow> (Inl e, d) | Inr (a, d') \<Rightarrow> (Inr a, d')))"

lemma with_tx_error: "with_tx fault body d = (Inl e, d') \<Longrightarrow> d' = d"
  by (auto simp: with_tx_def split: option.splits sum.splits)

lemma with_tx_ok: "with_tx fault body d = (Inr a, d') \<Longrightarrow> fault = None \<and> body d = Inr (a, d')"
  by (auto simp: with_tx_def split: option.splits sum.splits)

subsection \<open>Lists\<close>

lemma sort_distinct_set: "sort xs = sort (ys :: 'a :: linorder list) \<Longrightarrow> set xs = set ys"
  by (metis set_sort)

lemma length_filter_split:
  "length (filter P xs) + length (filter (\<lambda>x. \<not> P x) xs) = length xs"
  by (induction xs) auto

end
