(* ===== verification/GoStrings.thy ===== *)
theory GoStrings
  imports Prelude
begin

section \<open>Go strings, numbers and paths\<close>

text \<open>
  The functions of Go's \<open>strings\<close>, \<open>strconv\<close>, \<open>unicode/utf8\<close> and \<open>path/filepath\<close> packages that
  the code uses, on byte strings: a Go string is a list of bytes, a \<open>char\<close> of HOL is a byte,
  \<open>length\<close> is Go's \<open>len\<close>, and \<open><\<close> is Go's (and SQLite's BINARY) bytewise order.
\<close>

subsection \<open>strings\<close>

definition has_prefix :: "string \<Rightarrow> string \<Rightarrow> bool" where
  "has_prefix p s \<longleftrightarrow> take (length p) s = p"

definition has_suffix :: "string \<Rightarrow> string \<Rightarrow> bool" where
  "has_suffix p s \<longleftrightarrow> length p \<le> length s \<and> drop (length s - length p) s = p"

definition trim_right_set :: "char list \<Rightarrow> string \<Rightarrow> string" where
  "trim_right_set cs s = rev (dropWhile (\<lambda>c. c \<in> set cs) (rev s))"

definition trim_set :: "char list \<Rightarrow> string \<Rightarrow> string" where
  "trim_set cs s = trim_right_set cs (dropWhile (\<lambda>c. c \<in> set cs) s)"

definition replace_char :: "char \<Rightarrow> char \<Rightarrow> string \<Rightarrow> string" where
  "replace_char a b s = map (\<lambda>c. if c = a then b else c) s"

fun split_on :: "char \<Rightarrow> string \<Rightarrow> string list" where
  "split_on sep [] = [[]]"
| "split_on sep (c # cs) =
     (if c = sep then [] # split_on sep cs
      else (case split_on sep cs of [] \<Rightarrow> [[c]] | w # ws \<Rightarrow> (c # w) # ws))"

fun join_with :: "string \<Rightarrow> string list \<Rightarrow> string" where
  "join_with sep [] = []"
| "join_with sep [w] = w"
| "join_with sep (w # v # ws) = w @ sep @ join_with sep (v # ws)"

definition cut_at :: "char \<Rightarrow> string \<Rightarrow> string \<times> string \<times> bool" where
  "cut_at sep s =
     (case dropWhile (\<lambda>c. c \<noteq> sep) s of
        [] \<Rightarrow> (s, [], False)
      | _ # after \<Rightarrow> (takeWhile (\<lambda>c. c \<noteq> sep) s, after, True))"

text \<open>
  \<open>strings.TrimSpace\<close>: the UTF-8 encodings of the code points \<open>unicode.IsSpace\<close> accepts.
\<close>

definition space_seqs :: "string list" where
  "space_seqs =
     [[CHR 0x09], [CHR 0x0A], [CHR 0x0B], [CHR 0x0C], [CHR 0x0D], [CHR 0x20],
      [CHR 0xC2, CHR 0x85], [CHR 0xC2, CHR 0xA0], [CHR 0xE1, CHR 0x9A, CHR 0x80],
      [CHR 0xE2, CHR 0x80, CHR 0x80], [CHR 0xE2, CHR 0x80, CHR 0x81], [CHR 0xE2, CHR 0x80, CHR 0x82],
      [CHR 0xE2, CHR 0x80, CHR 0x83], [CHR 0xE2, CHR 0x80, CHR 0x84], [CHR 0xE2, CHR 0x80, CHR 0x85],
      [CHR 0xE2, CHR 0x80, CHR 0x86], [CHR 0xE2, CHR 0x80, CHR 0x87], [CHR 0xE2, CHR 0x80, CHR 0x88],
      [CHR 0xE2, CHR 0x80, CHR 0x89], [CHR 0xE2, CHR 0x80, CHR 0x8A], [CHR 0xE2, CHR 0x80, CHR 0xA8],
      [CHR 0xE2, CHR 0x80, CHR 0xA9], [CHR 0xE2, CHR 0x80, CHR 0xAF], [CHR 0xE2, CHR 0x81, CHR 0x9F],
      [CHR 0xE3, CHR 0x80, CHR 0x80]]"

definition starting :: "string list \<Rightarrow> string \<Rightarrow> string option" where
  "starting ps s = find (\<lambda>p. has_prefix p s) ps"

lemma starting_Some: "starting ps s = Some p \<Longrightarrow> p \<in> set ps \<and> has_prefix p s"
  by (auto simp: starting_def find_Some_iff)

lemma drop_prefix_shorter: "has_prefix p s \<Longrightarrow> p \<noteq> [] \<Longrightarrow> length s - length p < length s"
  by (cases s) (auto simp: has_prefix_def)

function drop_spaces :: "string list \<Rightarrow> string \<Rightarrow> string" where
  "drop_spaces ps s =
     (case starting ps s of
        None \<Rightarrow> s
      | Some p \<Rightarrow> if p = [] then s else drop_spaces ps (drop (length p) s))"
  by pat_completeness auto
termination
  by (relation "measure (\<lambda>(ps, s). length s)")
     (auto dest!: starting_Some drop_prefix_shorter)

declare drop_spaces.simps [simp del]

definition trim_space :: "string \<Rightarrow> string" where
  "trim_space s = rev (drop_spaces (map rev space_seqs) (rev (drop_spaces space_seqs s)))"

text \<open>
  \<open>strings.ToLower\<close>, exact where the code looks at the result: ASCII letters, and the two
  non-ASCII letters whose lower case is ASCII (U+0130 and the Kelvin sign U+212A). Other
  non-ASCII letters stay non-ASCII under both, and every caller either replaces non-ASCII
  bytes or compares with an ASCII word.
\<close>

definition lower_char :: "char \<Rightarrow> char" where
  "lower_char c = (if CHR ''A'' \<le> c \<and> c \<le> CHR ''Z'' then char_of (of_char c + 32 :: nat) else c)"

fun to_lower :: "string \<Rightarrow> string" where
  "to_lower [] = []"
| "to_lower (a # s) =
     (case s of
        b # s' \<Rightarrow>
          (if a = CHR 0xC4 \<and> b = CHR 0xB0 then CHR ''i'' # to_lower s'
           else (case s' of
                   c # s'' \<Rightarrow>
                     if a = CHR 0xE2 \<and> b = CHR 0x84 \<and> c = CHR 0xAA then CHR ''k'' # to_lower s''
                     else lower_char a # to_lower s
                 | [] \<Rightarrow> lower_char a # to_lower s))
      | [] \<Rightarrow> [lower_char a])"

text \<open>
  \<open>strings.EqualFold\<close> against an ASCII word: besides the case of ASCII letters, simple folding
  relates the long s (U+017F) to \<open>s\<close> and the Kelvin sign to \<open>k\<close>.
\<close>

fun fold_ascii :: "string \<Rightarrow> string" where
  "fold_ascii [] = []"
| "fold_ascii (a # s) =
     (case s of
        b # s' \<Rightarrow>
          (if a = CHR 0xC5 \<and> b = CHR 0xBF then CHR ''s'' # fold_ascii s'
           else (case s' of
                   c # s'' \<Rightarrow>
                     if a = CHR 0xE2 \<and> b = CHR 0x84 \<and> c = CHR 0xAA then CHR ''k'' # fold_ascii s''
                     else lower_char a # fold_ascii s
                 | [] \<Rightarrow> lower_char a # fold_ascii s))
      | [] \<Rightarrow> [lower_char a])"

definition equal_fold :: "string \<Rightarrow> string \<Rightarrow> bool" where
  "equal_fold s t \<longleftrightarrow> fold_ascii s = fold_ascii t"

text \<open>
  \<open>regexp.MustCompile("[^..]+").ReplaceAllString(s, "-")\<close>: every maximal run of characters
  outside the class becomes one dash.
\<close>

fun dash_runs :: "(char \<Rightarrow> bool) \<Rightarrow> bool \<Rightarrow> string \<Rightarrow> string" where
  "dash_runs ok in_run [] = []"
| "dash_runs ok in_run (c # cs) =
     (if ok c then c # dash_runs ok False cs
      else if in_run then dash_runs ok True cs
      else CHR ''-'' # dash_runs ok True cs)"

definition replace_runs :: "(char \<Rightarrow> bool) \<Rightarrow> string \<Rightarrow> string" where
  "replace_runs ok s = dash_runs ok False s"

definition is_lower_alnum :: "char \<Rightarrow> bool" where
  "is_lower_alnum c \<longleftrightarrow> (CHR ''a'' \<le> c \<and> c \<le> CHR ''z'') \<or> (CHR ''0'' \<le> c \<and> c \<le> CHR ''9'')"

subsection \<open>strconv and fmt\<close>

definition digit_char :: "nat \<Rightarrow> char" where
  "digit_char d = char_of (48 + d)"

definition digit_val :: "char \<Rightarrow> nat option" where
  "digit_val c = (let n = of_char c :: nat in if 48 \<le> n \<and> n \<le> 57 then Some (n - 48) else None)"

fun fmt_nat :: "nat \<Rightarrow> string" where
  "fmt_nat n = (if n < 10 then [digit_char n] else fmt_nat (n div 10) @ [digit_char (n mod 10)])"

declare fmt_nat.simps [simp del]

definition fmt_int :: "int \<Rightarrow> string" where
  "fmt_int i = (if i < 0 then CHR ''-'' # fmt_nat (nat (- i)) else fmt_nat (nat i))"

text \<open>\<open>%02d\<close>: zero-padded to two bytes, the sign included.\<close>

definition fmt_02d :: "int \<Rightarrow> string" where
  "fmt_02d i = (if 0 \<le> i \<and> i < 10 then CHR ''0'' # fmt_int i else fmt_int i)"

fun parse_digits :: "nat \<Rightarrow> string \<Rightarrow> nat option" where
  "parse_digits acc [] = Some acc"
| "parse_digits acc (c # cs) =
     (case digit_val c of None \<Rightarrow> None | Some d \<Rightarrow> parse_digits (10 * acc + d) cs)"

definition parse_nat :: "string \<Rightarrow> nat option" where
  "parse_nat s = (if s = [] then None else parse_digits 0 s)"

definition in_int64 :: "int \<Rightarrow> bool" where
  "in_int64 i \<longleftrightarrow> - (2 ^ 63) \<le> i \<and> i < 2 ^ 63"

text \<open>\<open>strconv.ParseInt(s, 10, 64)\<close> and \<open>strconv.Atoi\<close> (\<open>int\<close> is 64 bits): \<open>None\<close> is an error.\<close>

definition parse_int64 :: "string \<Rightarrow> int option" where
  "parse_int64 s =
     (case s of
        [] \<Rightarrow> None
      | c # cs \<Rightarrow>
          (case (if c = CHR ''-'' then map_option (\<lambda>n. - int n) (parse_nat cs)
                 else if c = CHR ''+'' then map_option int (parse_nat cs)
                 else map_option int (parse_nat s)) of
             None \<Rightarrow> None
           | Some i \<Rightarrow> if in_int64 i then Some i else None))"

lemma digit_val_char [simp]: "d < 10 \<Longrightarrow> digit_val (digit_char d) = Some d"
  by (simp add: digit_val_def digit_char_def Let_def of_char_of)

lemma parse_digits_append:
  "parse_digits acc (xs @ ys) = Option.bind (parse_digits acc xs) (\<lambda>a. parse_digits a ys)"
  by (induction xs arbitrary: acc) (auto split: option.splits)

lemma fmt_nat_nonempty [simp]: "fmt_nat n \<noteq> []"
  by (subst fmt_nat.simps) simp

lemma parse_digits_fmt: "parse_digits 0 (fmt_nat n) = Some n"
proof (induction n rule: fmt_nat.induct)
  case (1 n)
  show ?case
  proof (cases "n < 10")
    case True
    then show ?thesis by (subst fmt_nat.simps) simp
  next
    case False
    with 1 have "parse_digits 0 (fmt_nat (n div 10)) = Some (n div 10)" by simp
    moreover have "10 * (n div 10) + n mod 10 = n" by simp
    ultimately show ?thesis
      using False by (subst fmt_nat.simps) (simp add: parse_digits_append)
  qed
qed

lemma parse_nat_fmt [simp]: "parse_nat (fmt_nat n) = Some n"
  by (simp add: parse_nat_def parse_digits_fmt)

lemma fmt_nat_inj: "fmt_nat a = fmt_nat b \<Longrightarrow> a = b"
  by (metis option.inject parse_nat_fmt)

lemma parse_digits_set: "parse_digits acc s = Some n \<Longrightarrow> c \<in> set s \<Longrightarrow> digit_val c \<noteq> None"
  by (induction s arbitrary: acc) (auto split: option.splits)

lemma fmt_nat_digits: "c \<in> set (fmt_nat n) \<Longrightarrow> digit_val c \<noteq> None"
  using parse_digits_fmt by (rule parse_digits_set)

lemma fmt_nat_hd_not_sign: "hd (fmt_nat n) \<noteq> CHR ''-'' \<and> hd (fmt_nat n) \<noteq> CHR ''+''"
proof -
  have "digit_val (hd (fmt_nat n)) \<noteq> None" by (rule fmt_nat_digits [of _ n]) simp
  then show ?thesis by (auto simp: digit_val_def)
qed

lemma parse_fmt_int [simp]: "in_int64 i \<Longrightarrow> parse_int64 (fmt_int i) = Some i"
proof (cases "i < 0")
  case True
  assume "in_int64 i"
  with True show ?thesis by (simp add: parse_int64_def fmt_int_def)
next
  case False
  assume "in_int64 i"
  obtain c cs where "fmt_nat (nat i) = c # cs" by (cases "fmt_nat (nat i)") auto
  moreover from this have "c \<noteq> CHR ''-''" "c \<noteq> CHR ''+''"
    using fmt_nat_hd_not_sign [of "nat i"] by auto
  moreover have "parse_nat (fmt_nat (nat i)) = Some (nat i)" by simp
  ultimately show ?thesis
    using False \<open>in_int64 i\<close> by (simp add: parse_int64_def fmt_int_def)
qed

lemma parse_int64_range: "parse_int64 s = Some i \<Longrightarrow> in_int64 i"
  by (auto simp: parse_int64_def split: list.splits option.splits if_splits)

subsection \<open>unicode/utf8\<close>

definition rune_start :: "char \<Rightarrow> bool" where
  "rune_start c = (let n = of_char c :: nat in \<not> (128 \<le> n \<and> n < 192))"

subsection \<open>path/filepath on Unix\<close>

text \<open>
  \<open>filepath.Clean\<close> processes the path's elements from left to right: empty elements and \<open>.\<close>
  go, \<open>..\<close> removes the element before it, is dropped at the root and kept at the start of a
  relative path. The stack holds the elements kept so far, the last one first.
\<close>

fun clean_elems :: "bool \<Rightarrow> string list \<Rightarrow> string list \<Rightarrow> string list" where
  "clean_elems rooted st [] = rev st"
| "clean_elems rooted st (c # cs) =
     (if c = [] \<or> c = ''.'' then clean_elems rooted st cs
      else if c = ''..'' then
        (case st of
           [] \<Rightarrow> if rooted then clean_elems rooted [] cs else clean_elems rooted [''..''] cs
         | x # st' \<Rightarrow> if x = ''..'' then clean_elems rooted (''..'' # st) cs
                      else clean_elems rooted st' cs)
      else clean_elems rooted (c # st) cs)"

definition is_abs :: "string \<Rightarrow> bool" where
  "is_abs p \<longleftrightarrow> has_prefix ''/'' p"

definition path_elems :: "string \<Rightarrow> string list" where
  "path_elems p = clean_elems (is_abs p) [] (split_on CHR ''/'' p)"

definition unsplit :: "bool \<Rightarrow> string list \<Rightarrow> string" where
  "unsplit rooted es =
     (if rooted then CHR ''/'' # join_with ''/'' es
      else if es = [] then ''.'' else join_with ''/'' es)"

definition path_clean :: "string \<Rightarrow> string" where
  "path_clean p = unsplit (is_abs p) (path_elems p)"

definition path_join :: "string list \<Rightarrow> string" where
  "path_join es =
     (case dropWhile (\<lambda>e. e = []) es of
        [] \<Rightarrow> []
      | ws \<Rightarrow> path_clean (join_with ''/'' ws))"

text \<open>\<open>filepath.Dir\<close>: everything up to the last slash, cleaned.\<close>

definition path_dir :: "string \<Rightarrow> string" where
  "path_dir p = path_clean (rev (dropWhile (\<lambda>c. c \<noteq> CHR ''/'') (rev p)))"

text \<open>\<open>filepath.Ext\<close>: the suffix from the last dot of the last element, or nothing.\<close>

definition path_ext :: "string \<Rightarrow> string" where
  "path_ext p =
     (let last_elem = takeWhile (\<lambda>c. c \<noteq> CHR ''/'') (rev p)
      in if CHR ''.'' \<in> set last_elem
         then rev (takeWhile (\<lambda>c. c \<noteq> CHR ''.'') last_elem @ ''.'') else [])"

text \<open>\<open>filepath.Base\<close> of a cleaned path that is not a root: the last element.\<close>

definition path_base :: "string \<Rightarrow> string" where
  "path_base p = rev (takeWhile (\<lambda>c. c \<noteq> CHR ''/'') (rev p))"

fun strip_common :: "string list \<Rightarrow> string list \<Rightarrow> string list \<times> string list" where
  "strip_common (b # bs) (t # ts) = (if b = t then strip_common bs ts else (b # bs, t # ts))"
| "strip_common bs ts = (bs, ts)"

text \<open>\<open>filepath.Rel\<close>; \<open>None\<close> is its error (\<open>can't make target relative to base\<close>).\<close>

definition path_rel :: "string \<Rightarrow> string \<Rightarrow> string option" where
  "path_rel base target =
     (if is_abs base \<noteq> is_abs target then None
      else case strip_common (path_elems base) (path_elems target) of (bs, ts) \<Rightarrow>
        if bs \<noteq> [] \<and> hd bs = ''..'' then None
        else Some (unsplit False (replicate (length bs) ''..'' @ ts)))"

subsection \<open>Lemmas on splitting, joining and cleaning\<close>

lemma split_on_nonempty [simp]: "split_on sep s \<noteq> []"
  by (induction s) (auto split: list.split)

lemma split_on_no_sep: "sep \<notin> set s \<Longrightarrow> split_on sep s = [s]"
  by (induction s) auto

lemma split_on_append_sep: "split_on sep (a @ sep # b) = split_on sep a @ split_on sep b"
proof (induction a)
  case Nil
  then show ?case by simp
next
  case (Cons c a)
  obtain w ws where "split_on sep a = w # ws" by (cases "split_on sep a") auto
  with Cons show ?case by simp
qed

lemma split_join:
  "ws \<noteq> [] \<Longrightarrow> (\<And>w. w \<in> set ws \<Longrightarrow> sep \<notin> set w) \<Longrightarrow> split_on sep (join_with [sep] ws) = ws"
proof (induction "[sep]" ws rule: join_with.induct)
  case (3 w v ws)
  then show ?case by (simp add: split_on_append_sep split_on_no_sep)
qed (auto simp: split_on_no_sep)

lemma split_on_parts: "w \<in> set (split_on sep s) \<Longrightarrow> sep \<notin> set w"
proof (induction s arbitrary: w)
  case Nil
  then show ?case by simp
next
  case (Cons c s)
  obtain v vs where v: "split_on sep s = v # vs" by (cases "split_on sep s") auto
  show ?case
    using Cons.prems Cons.IH v by (auto split: if_splits)
qed

text \<open>An ordinary path element: a name that cleaning keeps as it is.\<close>

definition plain_elem :: "string \<Rightarrow> bool" where
  "plain_elem e \<longleftrightarrow> e \<noteq> [] \<and> e \<noteq> ''.'' \<and> e \<noteq> ''..'' \<and> CHR ''/'' \<notin> set e"

lemma clean_elems_plain:
  "(\<And>e. e \<in> set cs \<Longrightarrow> plain_elem e) \<Longrightarrow> clean_elems rooted st cs = rev st @ cs"
  by (induction cs arbitrary: st) (auto simp: plain_elem_def)

lemma clean_elems_append:
  "clean_elems rooted st (cs @ ds) = clean_elems rooted (rev (clean_elems rooted st cs)) ds"
  by (induction rooted st cs rule: clean_elems.induct) (auto split: list.split)

text \<open>What cleaning produces: leading \<open>..\<close> elements of a relative path, then ordinary ones.\<close>

definition canon :: "bool \<Rightarrow> string list \<Rightarrow> bool" where
  "canon rooted es \<longleftrightarrow>
     (\<exists>k ps. es = replicate k ''..'' @ ps \<and> (\<forall>p \<in> set ps. plain_elem p) \<and> (rooted \<longrightarrow> k = 0))"

lemma canonI: "es = replicate k ''..'' @ ps \<Longrightarrow> (\<And>p. p \<in> set ps \<Longrightarrow> plain_elem p) \<Longrightarrow> (rooted \<Longrightarrow> k = 0)
    \<Longrightarrow> canon rooted es"
  unfolding canon_def by blast

lemma plain_not_dots [simp]: "\<not> plain_elem ''..''" "\<not> plain_elem ''.''" "\<not> plain_elem []"
  by (auto simp: plain_elem_def)

lemma canon_Nil [simp]: "canon rooted []"
  by (rule canonI [of _ 0 "[]"]) auto

lemma canon_snoc_plain: "canon rooted es \<Longrightarrow> plain_elem e \<Longrightarrow> canon rooted (es @ [e])"
  unfolding canon_def by (metis (no_types, lifting) append.assoc rotate1.simps(2) set_ConsD set_rotate1)

lemma canon_snoc_dots: "canon False (es @ [''..'']) \<Longrightarrow> canon False (es @ [''..'', ''..''])"
proof -
  assume "canon False (es @ [''..''])"
  then obtain k ps where e: "es @ [''..''] = replicate k ''..'' @ ps" and p: "\<forall>p \<in> set ps. plain_elem p"
    by (auto simp: canon_def)
  have "ps = []"
  proof (cases ps rule: rev_cases)
    case (snoc qs q)
    with e have "q = ''..''" by simp
    with p snoc show ?thesis by simp
  qed simp
  with e have "es @ [''..'', ''..''] = replicate (Suc k) ''..'' @ []"
    by (metis append.assoc append_Cons append_Nil append_Nil2 replicate_append_same replicate_Suc)
  then show ?thesis by (rule canonI) auto
qed

lemma canon_rooted_no_dots: "canon True es \<Longrightarrow> e \<in> set es \<Longrightarrow> plain_elem e"
  by (auto simp: canon_def)

lemma canon_butlast: "canon rooted (es @ [x]) \<Longrightarrow> x \<noteq> ''..'' \<Longrightarrow> canon rooted es"
proof -
  assume "canon rooted (es @ [x])" and x: "x \<noteq> ''..''"
  then obtain k ps where e: "es @ [x] = replicate k ''..'' @ ps" and p: "\<forall>p \<in> set ps. plain_elem p"
    and r: "rooted \<longrightarrow> k = 0" by (auto simp: canon_def)
  show ?thesis
  proof (cases ps rule: rev_cases)
    case Nil
    with e have "x \<in> set (replicate k ''..'')" by (metis append_Nil2 in_set_conv_decomp)
    with x show ?thesis by simp
  next
    case (snoc qs q)
    with e have "es = replicate k ''..'' @ qs" by simp
    then show ?thesis by (rule canonI) (use p r snoc in auto)
  qed
qed

lemma canon_clean_elems:
  "canon rooted (rev st) \<Longrightarrow> (\<And>c. c \<in> set cs \<Longrightarrow> CHR ''/'' \<notin> set c) \<Longrightarrow> canon rooted (clean_elems rooted st cs)"
proof (induction cs arbitrary: st)
  case Nil
  then show ?case by simp
next
  case (Cons c cs)
  note IH = Cons.IH [OF _ Cons.prems(2)]
  consider "c = [] \<or> c = ''.''" | "c = ''..''" "st = []" | x st' where "c = ''..''" "st = x # st'"
    | "plain_elem c"
    using Cons.prems(2) by (cases st) (auto simp: plain_elem_def)
  then show ?case
  proof cases
    case 1
    then show ?thesis using IH [OF Cons.prems(1)] by auto
  next
    case 2
    have "canon False (rev [''..''])" by (rule canonI [of _ 1 "[]"]) auto
    then show ?thesis using 2 IH [of "[''..'']"] IH [of "[]"] by (cases rooted) auto
  next
    case 3
    show ?thesis
    proof (cases "x = ''..''")
      case True
      have "\<not> rooted"
        using Cons.prems(1) 3 True canon_rooted_no_dots [of "rev st" "''..''"] by (cases rooted) auto
      with Cons.prems(1) 3 True have "canon rooted (rev (''..'' # st))"
        using canon_snoc_dots [of "rev st'"] by simp
      then show ?thesis using IH [of "''..'' # st"] 3 True by simp
    next
      case False
      with Cons.prems(1) 3 have "canon rooted (rev st')"
        using canon_butlast [of rooted "rev st'" x] by simp
      then show ?thesis using IH [of st'] 3 False by simp
    qed
  next
    case 4
    then have "canon rooted (rev (c # st))" using Cons.prems(1) by (simp add: canon_snoc_plain)
    then show ?thesis using IH [of "c # st"] 4 by (auto simp: plain_elem_def)
  qed
qed

lemma canon_path_elems: "canon (is_abs p) (path_elems p)"
  unfolding path_elems_def by (rule canon_clean_elems) (auto dest: split_on_parts)

lemma clean_elems_dots: "clean_elems False (replicate j ''..'') (replicate k ''..'' @ ps)
    = clean_elems False (replicate (j + k) ''..'') ps"
proof (induction k arbitrary: j)
  case 0
  then show ?case by simp
next
  case (Suc k)
  show ?case
    using Suc.IH [of "Suc j"] by (cases j) auto
qed

lemma clean_elems_canon: "canon rooted es \<Longrightarrow> clean_elems rooted [] es = es"
proof -
  assume "canon rooted es"
  then obtain k ps where e: "es = replicate k ''..'' @ ps" and p: "\<And>p. p \<in> set ps \<Longrightarrow> plain_elem p"
    and r: "rooted \<longrightarrow> k = 0" by (auto simp: canon_def)
  show ?thesis
  proof (cases rooted)
    case True
    then show ?thesis using e r p by (simp add: clean_elems_plain)
  next
    case False
    then show ?thesis
      using e p clean_elems_dots [of 0 k ps] by (simp add: clean_elems_plain)
  qed
qed

lemma canon_elem: "canon rooted es \<Longrightarrow> e \<in> set es \<Longrightarrow> e \<noteq> [] \<and> CHR ''/'' \<notin> set e"
proof -
  assume "canon rooted es" and e: "e \<in> set es"
  then obtain k ps where es: "es = replicate k ''..'' @ ps" and p: "\<forall>p \<in> set ps. plain_elem p"
    by (auto simp: canon_def)
  from e es have "e = ''..'' \<or> e \<in> set ps" by (metis Un_iff in_set_replicate set_append)
  then show ?thesis
  proof
    assume "e \<in> set ps"
    with p have "plain_elem e" by simp
    then show ?thesis by (simp add: plain_elem_def)
  qed simp
qed

lemma join_with_hd: "w \<noteq> [] \<Longrightarrow> \<exists>v. join_with sep (w # ws) = hd w # v"
  by (cases ws; cases w) auto

lemma is_abs_unsplit: "canon rooted es \<Longrightarrow> is_abs (unsplit rooted es) = rooted"
proof (cases es)
  case Nil
  then show ?thesis by (auto simp: unsplit_def is_abs_def has_prefix_def)
next
  case (Cons e es')
  assume "canon rooted es"
  with Cons have e: "e \<noteq> []" "CHR ''/'' \<notin> set e" using canon_elem [of rooted es e] by auto
  obtain v where "join_with ''/'' (e # es') = hd e # v" using join_with_hd [OF e(1)] by blast
  moreover have "hd e \<noteq> CHR ''/''" using e by (metis hd_in_set)
  ultimately show ?thesis using Cons by (auto simp: unsplit_def is_abs_def has_prefix_def)
qed

text \<open>A cleaned path has the elements it was built from, so cleaning is idempotent.\<close>

lemma path_elems_unsplit: "canon rooted es \<Longrightarrow> path_elems (unsplit rooted es) = es"
proof -
  assume c: "canon rooted es"
  have s: "es \<noteq> [] \<Longrightarrow> split_on CHR ''/'' (join_with ''/'' es) = es"
    using canon_elem [OF c] by (intro split_join) auto
  show ?thesis
    unfolding path_elems_def is_abs_unsplit [OF c]
    using clean_elems_canon [OF c] s by (auto simp: unsplit_def)
qed

lemma path_elems_clean [simp]: "path_elems (path_clean p) = path_elems p"
  by (simp add: path_clean_def path_elems_unsplit canon_path_elems)

lemma is_abs_clean [simp]: "is_abs (path_clean p) = is_abs p"
  by (simp add: path_clean_def is_abs_unsplit canon_path_elems)

lemma path_clean_idem [simp]: "path_clean (path_clean p) = path_clean p"
  by (simp add: path_clean_def [of "path_clean p"]) (simp add: path_clean_def)

lemma join_with_Cons: "ws \<noteq> [] \<Longrightarrow> join_with sep (w # ws) = w @ sep @ join_with sep ws"
  by (cases ws) auto

lemma join_split [simp]: "join_with [sep] (split_on sep s) = s"
proof (induction s)
  case Nil
  then show ?case by simp
next
  case (Cons c s)
  obtain w ws where w: "split_on sep s = w # ws" by (cases "split_on sep s") auto
  with Cons show ?case by (cases ws) (auto simp: join_with_Cons)
qed

lemma join_with_append:
  "xs \<noteq> [] \<Longrightarrow> ys \<noteq> [] \<Longrightarrow> join_with sep (xs @ ys) = join_with sep xs @ sep @ join_with sep ys"
proof (induction xs)
  case (Cons x xs)
  then show ?case by (cases xs) (auto simp: join_with_Cons)
qed simp

text \<open>Joining ordinary elements to a directory appends them to its cleaned elements.\<close>

lemma path_join_plain:
  assumes "d \<noteq> []" and "es \<noteq> []" and p: "\<And>e. e \<in> set es \<Longrightarrow> plain_elem e"
  shows "path_join (d # es) = unsplit (is_abs d) (path_elems d @ es)"
proof -
  have s: "split_on CHR ''/'' (join_with ''/'' es) = es"
    using p \<open>es \<noteq> []\<close> by (intro split_join) (auto simp: plain_elem_def)
  have a: "is_abs (d @ CHR ''/'' # join_with ''/'' es) = is_abs d"
    using \<open>d \<noteq> []\<close> by (cases d) (auto simp: is_abs_def has_prefix_def)
  have e: "path_elems (d @ CHR ''/'' # join_with ''/'' es) = path_elems d @ es"
    unfolding path_elems_def a
    by (simp add: split_on_append_sep s clean_elems_append clean_elems_plain p)
  show ?thesis
    using assms(1,2) by (simp add: path_join_def join_with_Cons path_clean_def a e)
qed

lemma canon_append_plain: "canon r es \<Longrightarrow> (\<And>e. e \<in> set ps \<Longrightarrow> plain_elem e) \<Longrightarrow> canon r (es @ ps)"
  by (induction ps rule: rev_induct) (auto simp: canon_snoc_plain simp flip: append_assoc)

lemma path_join_plain_elems:
  assumes "d \<noteq> []" and "es \<noteq> []" and "\<And>e. e \<in> set es \<Longrightarrow> plain_elem e"
  shows "path_elems (path_join (d # es)) = path_elems d @ es"
    and "is_abs (path_join (d # es)) = is_abs d"
  using assms canon_append_plain [OF canon_path_elems [of d] assms(3)]
  by (simp_all add: path_join_plain path_elems_unsplit is_abs_unsplit)

end
