(* ===== verification/Schema.thy ===== *)
theory Schema
  imports GoStrings "HOL-Library.Product_Lexorder"
begin

section \<open>The wire entry and the node's SQLite schema\<close>

text \<open>
  The data every component shares: \<open>catalog.Entry\<close>, the item exchanged between nodes, and the
  tables of \<open>internal/db/db.go\<close>, each a keyed list of records with the columns of the schema. A
  nullable column is an \<open>option\<close>. The JSON text of an \<open>entry\<close> column is represented by the entry
  it encodes (EntryJson shows that this loses nothing). Times in the database are unix seconds.
\<close>

subsection \<open>catalog.Entry\<close>

record entry =
  e_global_id :: string
  e_item_id :: string
  e_name :: string
  e_year :: int
  e_media_type :: string
  e_tmdb_id :: string
  e_tvdb_id :: string
  e_imdb_id :: string
  e_path :: string
  e_series_global_id :: string
  e_series_name :: string
  e_season_number :: int
  e_episode_number :: int

subsection \<open>Rows\<close>

record peer_row =
  pr_url :: string
  pr_state :: string
  pr_last_seen_at :: "int option"
  pr_version :: string
  pr_name :: string
  pr_pin :: string

record item_row =
  i_name :: string
  i_media_type :: string
  i_local :: bool
  i_local_item_id :: "string option"
  i_primary_peer_id :: "string option"
  i_primary_item_id :: "string option"
  i_strm_path :: "string option"
  i_series_global_id :: string
  i_series_name :: string
  i_season_number :: int
  i_episode_number :: int
  i_hidden :: bool
  i_path :: string
  i_hidden_folder :: bool
  i_updated_at :: int

record local_row =
  l_entry :: entry
  l_hash :: string
  l_rev :: int
  l_deleted :: bool
  l_hidden :: bool
  l_updated_at :: int

record mirror_row =
  m_entry :: entry
  m_gen :: int

record sync_row =
  s_epoch :: string
  s_rev :: int
  s_gen :: int
  s_resync :: bool
  s_synced_at :: int
  s_resync_requested :: bool

record client_row =
  cr_pin :: string
  cr_name :: string
  cr_created_at :: int
  cr_last_seen_at :: "int option"

record invite_row =
  ir_created_at :: int
  ir_expires_at :: int

subsection \<open>The database\<close>

text \<open>The value of a nullable column as the code reads it: NULL is the empty string.\<close>

definition or_empty :: "string option \<Rightarrow> string" where
  "or_empty x = (case x of None \<Rightarrow> [] | Some s \<Rightarrow> s)"

record database =
  peers_tbl :: "(string, peer_row) tbl"
  catalog_items :: "(string, item_row) tbl"
  local_catalog :: "(string, local_row) tbl"
  peer_catalog :: "(string \<times> string, mirror_row) tbl"
  peer_sync_state :: "(string, sync_row) tbl"
  hidden_items :: "(string, int) tbl"
  peer_excluded_folders :: "(string \<times> string, unit) tbl"
  peer_traffic :: "(string \<times> string, int) tbl"
  settings_tbl :: "(string, string) tbl"
  clients_tbl :: "(string, client_row) tbl"
  invites_tbl :: "(string, invite_row) tbl"

definition empty_db :: database where
  "empty_db = \<lparr>peers_tbl = [], catalog_items = [], local_catalog = [], peer_catalog = [],
     peer_sync_state = [], hidden_items = [], peer_excluded_folders = [], peer_traffic = [],
     settings_tbl = [], clients_tbl = [], invites_tbl = []\<rparr>"

text \<open>The primary keys of the schema.\<close>

definition db_keyed :: "database \<Rightarrow> bool" where
  "db_keyed d \<longleftrightarrow> keyed (peers_tbl d) \<and> keyed (catalog_items d) \<and> keyed (local_catalog d)
     \<and> keyed (peer_catalog d) \<and> keyed (peer_sync_state d) \<and> keyed (hidden_items d)
     \<and> keyed (peer_excluded_folders d) \<and> keyed (peer_traffic d) \<and> keyed (settings_tbl d)
     \<and> keyed (clients_tbl d) \<and> keyed (invites_tbl d)"

lemma db_keyed_empty [simp]: "db_keyed empty_db"
  by (simp add: db_keyed_def empty_db_def)

subsection \<open>Adding missing columns\<close>

text \<open>
  \<open>addMissingColumns\<close> on the list of a table's column names: for each wanted column definition
  (\<open>"name TYPE .."\<close>) whose name is not among the existing columns, one \<open>ALTER TABLE .. ADD
  COLUMN\<close>. As in the code, the set of existing names is read once, before the loop.
\<close>

definition column_name :: "string \<Rightarrow> string" where
  "column_name col = fst (cut_at CHR '' '' col)"

fun add_columns :: "string list \<Rightarrow> string list \<Rightarrow> string list \<Rightarrow> string list" where
  "add_columns existing cols [] = cols"
| "add_columns existing cols (col # rest) =
     (if column_name col \<in> set existing then add_columns existing cols rest
      else add_columns existing (cols @ [column_name col]) rest)"

definition add_missing_columns :: "string list \<Rightarrow> string list \<Rightarrow> string list" where
  "add_missing_columns cols wanted = add_columns cols cols wanted"

definition series_columns :: "string list" where
  "series_columns =
     [''series_global_id TEXT NOT NULL DEFAULT '' @ [CHR 0x27, CHR 0x27],
      ''series_name TEXT NOT NULL DEFAULT '' @ [CHR 0x27, CHR 0x27],
      ''season_number INTEGER NOT NULL DEFAULT 0'', ''episode_number INTEGER NOT NULL DEFAULT 0'',
      ''hidden INTEGER NOT NULL DEFAULT 0'', ''path TEXT NOT NULL DEFAULT '' @ [CHR 0x27, CHR 0x27],
      ''hidden_folder INTEGER NOT NULL DEFAULT 0'']"

lemma add_columns_eq:
  "add_columns existing cols wanted
     = cols @ filter (\<lambda>c. c \<notin> set existing) (map column_name wanted)"
  by (induction wanted arbitrary: cols) auto

text \<open>Opening an upgraded database again adds nothing, and no existing column moves.\<close>

lemma add_missing_columns_keeps: "take (length cols) (add_missing_columns cols wanted) = cols"
  by (simp add: add_missing_columns_def add_columns_eq)

lemma add_missing_columns_covers:
  "set (map column_name wanted) \<subseteq> set (add_missing_columns cols wanted)"
  by (auto simp: add_missing_columns_def add_columns_eq)

lemma add_missing_columns_idem:
  "add_missing_columns (add_missing_columns cols wanted) wanted = add_missing_columns cols wanted"
  by (auto simp: add_missing_columns_def add_columns_eq filter_empty_conv)

subsection \<open>HTTP responses\<close>

text \<open>
  What a handler writes: \<open>http.Error\<close> with a status and a text, an encoded JSON value, or a bare
  status.
\<close>

datatype 'b response = HttpError nat string | Json nat 'b | Status nat

fun status_of :: "'b response \<Rightarrow> nat" where
  "status_of (HttpError s _) = s"
| "status_of (Json s _) = s"
| "status_of (Status s) = s"

end
