(* ===== verification/Folders.thy ===== *)
theory Folders
  imports Schema "HOL-Library.Sublist"
begin

section \<open>Folder exclusions (internal/catalog/folders.go)\<close>

text \<open>
  Per peer, folders on that peer's own filesystem whose items this node does not take from it:
  normalizing a folder, matching a path against folders, and reading and replacing a peer's list.
\<close>

subsection \<open>Matching\<close>

function strip_slashes :: "string \<Rightarrow> string" where
  "strip_slashes f =
     (if 1 < length f \<and> has_suffix ''/'' f then strip_slashes (butlast f) else f)"
  by pat_completeness auto
termination
  by (relation "measure length") auto

declare strip_slashes.simps [simp del]

definition normalize_folder :: "string \<Rightarrow> string" where
  "normalize_folder f = strip_slashes (replace_char (CHR 0x5C) CHR ''/'' (trim_space f))"

definition under_folder :: "string \<Rightarrow> string \<Rightarrow> bool" where
  "under_folder path folder =
     (if path = [] \<or> folder = [] then False
      else let path = replace_char (CHR 0x5C) CHR ''/'' path
           in if folder = ''/'' then has_prefix ''/'' path
              else path = folder \<or> has_prefix (folder @ ''/'') path)"

fun under_any_folder :: "string \<Rightarrow> string list \<Rightarrow> bool" where
  "under_any_folder path [] = False"
| "under_any_folder path (f # fs) = (if under_folder path f then True else under_any_folder path fs)"

definition is_abs_folder :: "string \<Rightarrow> bool" where
  "is_abs_folder f =
     (if has_prefix ''/'' f then True
      else (case f of
              a # b # c # _ \<Rightarrow>
                b = CHR '':'' \<and> c = CHR ''/''
                \<and> ((CHR ''a'' \<le> a \<and> a \<le> CHR ''z'') \<or> (CHR ''A'' \<le> a \<and> a \<le> CHR ''Z''))
            | _ \<Rightarrow> False))"

subsection \<open>The table\<close>

text \<open>
  \<open>excludedFolders\<close> returns a map from peer ids to their folders in \<open>ORDER BY peer_id, folder\<close>
  order; an absent peer has none.
\<close>

definition excluded_folders :: "(string \<times> string, unit) tbl \<Rightarrow> string \<Rightarrow> string list" where
  "excluded_folders t pid = map snd (filter (\<lambda>(p, f). p = pid) (sort (map fst t)))"

fun clean_folders :: "string list \<Rightarrow> string list \<Rightarrow> go_error + string list" where
  "clean_folders acc [] = Inr acc"
| "clean_folders acc (f # fs) =
     (let n = normalize_folder f
      in if \<not> is_abs_folder n then Inl (ErrBadRequest (''not an absolute folder: '' @ f))
         else clean_folders (if n \<in> set acc then acc else acc @ [n]) fs)"

definition set_excluded_folders ::
  "go_error option \<Rightarrow> database \<Rightarrow> string \<Rightarrow> string list \<Rightarrow> (go_error + string list) \<times> database" where
  "set_excluded_folders fault d pid folders =
     (case clean_folders [] folders of
        Inl e \<Rightarrow> (Inl e, d)
      | Inr acc \<Rightarrow>
          let clean = sort acc
          in (case with_tx fault
                (\<lambda>d. Inr ((), d\<lparr>peer_excluded_folders :=
                       tbl_delete_where (\<lambda>(p, f) _. p = pid) (peer_excluded_folders d)
                       @ map (\<lambda>f. ((pid, f), ())) clean\<rparr>)) d of
                (Inl _, d') \<Rightarrow> (Inl (ErrDb (''saving excluded folders of '' @ pid)), d')
              | (Inr _, d') \<Rightarrow> (Inr clean, d')))"

subsection \<open>The handler\<close>

datatype http_method = GET | PUT | POST | DELETE | OtherMethod string

text \<open>
  \<open>ExcludedFoldersHandler\<close>. \<open>body\<close> is the decoded request body (\<open>None\<close>: it does not decode),
  \<open>rfault\<close> and \<open>wfault\<close> a failing read and write. The result is the response, the database and
  whether \<open>changed\<close> was called.
\<close>

definition excluded_folders_handler ::
  "(string \<Rightarrow> bool) \<Rightarrow> go_error option \<Rightarrow> go_error option \<Rightarrow> database \<Rightarrow> string \<Rightarrow> http_method
     \<Rightarrow> string list option \<Rightarrow> string list response \<times> database \<times> bool" where
  "excluded_folders_handler known rfault wfault d pid meth body =
     (if \<not> known pid then (HttpError 404 ''no such peer'', d, False)
      else case meth of
        GET \<Rightarrow> (case rfault of
                  Some e \<Rightarrow> (HttpError 500 ''reading excluded folders'', d, False)
                | None \<Rightarrow> (Json 200 (excluded_folders (peer_excluded_folders d) pid), d, False))
      | PUT \<Rightarrow>
          (case body of
             None \<Rightarrow> (HttpError 400 ''bad body'', d, False)
           | Some folders \<Rightarrow>
               (case set_excluded_folders wfault d pid folders of
                  (Inl (ErrBadRequest m), d') \<Rightarrow> (HttpError 400 m, d', False)
                | (Inl e, d') \<Rightarrow> (HttpError 500 ''saving excluded folders'', d', False)
                | (Inr fs, d') \<Rightarrow> (Json 200 fs, d', True)))
      | _ \<Rightarrow> (HttpError 405 ''method not allowed'', d, False))"

subsection \<open>Properties of the matching\<close>

lemma prefix_split:
  "prefix (split_on CHR ''/'' f) (split_on CHR ''/'' p) \<longleftrightarrow> p = f \<or> has_prefix (f @ ''/'') p"
proof
  assume "prefix (split_on CHR ''/'' f) (split_on CHR ''/'' p)"
  then obtain rest where r: "split_on CHR ''/'' p = split_on CHR ''/'' f @ rest"
    by (auto simp: prefix_def)
  have p: "p = join_with ''/'' (split_on CHR ''/'' f @ rest)"
    using join_split [of "CHR ''/''" p] by (simp add: r)
  show "p = f \<or> has_prefix (f @ ''/'') p"
  proof (cases "rest = []")
    case True
    then show ?thesis using p by simp
  next
    case False
    then have "p = f @ ''/'' @ join_with ''/'' rest"
      using p by (simp add: join_with_append)
    then show ?thesis by (simp add: has_prefix_def)
  qed
next
  assume "p = f \<or> has_prefix (f @ ''/'') p"
  then show "prefix (split_on CHR ''/'' f) (split_on CHR ''/'' p)"
  proof
    assume "has_prefix (f @ ''/'') p"
    then have "p = (f @ ''/'') @ drop (length (f @ ''/'')) p"
      by (metis append_take_drop_id has_prefix_def)
    then obtain r where "p = f @ CHR ''/'' # r" by (metis append.assoc append_Cons append_Nil)
    then show ?thesis by (simp add: split_on_append_sep)
  qed simp
qed

lemma has_prefix_slash: "has_prefix ''/'' p \<longleftrightarrow> (\<exists>r. p = CHR ''/'' # r)"
  by (cases p) (auto simp: has_prefix_def)

lemma prefix_root: "p \<noteq> [] \<Longrightarrow> prefix [[]] (split_on CHR ''/'' p) \<longleftrightarrow> has_prefix ''/'' p"
  by (cases p) (auto simp: has_prefix_slash split: list.splits)

text \<open>The elements a folder stands for; the root stands for the empty element before the first slash.\<close>

definition folder_elems :: "string \<Rightarrow> string list" where
  "folder_elems folder = (if folder = ''/'' then [[]] else split_on CHR ''/'' folder)"

text \<open>A path is under a folder exactly when the folder's elements are the first elements of the
  path, backslashes counting as slashes: a sibling folder whose name only starts the same is not under
  it, an empty path is under nothing, and the root holds every absolute path.\<close>

lemma under_folder_elems:
  "under_folder path folder \<longleftrightarrow>
     path \<noteq> [] \<and> folder \<noteq> []
     \<and> prefix (folder_elems folder) (split_on CHR ''/'' (replace_char (CHR 0x5C) CHR ''/'' path))"
  by (auto simp: under_folder_def folder_elems_def Let_def prefix_split prefix_root replace_char_def)

lemma under_any_folder_ex: "under_any_folder path fs \<longleftrightarrow> (\<exists>f \<in> set fs. under_folder path f)"
  by (induction fs) auto

lemma under_any_folder_empty_path [simp]: "\<not> under_any_folder [] fs"
  by (simp add: under_any_folder_ex under_folder_def)

subsection \<open>Properties of the table operations\<close>

lemma strip_slashes_result:
  "set (strip_slashes f) \<subseteq> set f \<and> (1 < length (strip_slashes f) \<longrightarrow> \<not> has_suffix ''/'' (strip_slashes f))"
proof (induction f rule: strip_slashes.induct)
  case (1 f)
  show ?case
  proof (cases "1 < length f \<and> has_suffix ''/'' f")
    case True
    then have "strip_slashes f = strip_slashes (butlast f)" by (simp add: strip_slashes.simps [of f])
    with 1 True show ?thesis by (auto dest: in_set_butlastD)
  next
    case False
    then have "strip_slashes f = f" by (subst strip_slashes.simps) (rule if_not_P)
    with False show ?thesis by simp
  qed
qed

lemma replace_char_gone: "a \<noteq> b \<Longrightarrow> a \<notin> set (replace_char a b s)"
  by (auto simp: replace_char_def)

lemma normalize_folder_normal:
  "CHR 0x5C \<notin> set (normalize_folder f)
   \<and> (1 < length (normalize_folder f) \<longrightarrow> \<not> has_suffix ''/'' (normalize_folder f))"
proof -
  have "CHR 0x5C \<notin> set (replace_char (CHR 0x5C) CHR ''/'' (trim_space f))"
    by (rule replace_char_gone) simp
  then show ?thesis
    using strip_slashes_result [of "replace_char (CHR 0x5C) CHR ''/'' (trim_space f)"]
    unfolding normalize_folder_def by blast
qed

lemma clean_folders_Inr:
  "clean_folders acc fs = Inr acc' \<Longrightarrow> distinct acc \<Longrightarrow>
     distinct acc' \<and> set acc' = set acc \<union> normalize_folder ` set fs
     \<and> (\<forall>f \<in> set fs. is_abs_folder (normalize_folder f))"
proof (induction acc fs arbitrary: acc' rule: clean_folders.induct)
  case (1 acc)
  then show ?case by simp
next
  case (2 acc f fs)
  let ?n = "normalize_folder f"
  from 2(2) have a: "is_abs_folder ?n" by (simp add: Let_def split: if_splits)
  with 2(2) have "clean_folders (if ?n \<in> set acc then acc else acc @ [?n]) fs = Inr acc'"
    by (simp only: clean_folders.simps Let_def if_False not_True_eq_False)
  moreover have "distinct (if ?n \<in> set acc then acc else acc @ [?n])" using 2(3) by simp
  ultimately have "distinct acc' \<and> set acc' = set (if ?n \<in> set acc then acc else acc @ [?n]) \<union> normalize_folder ` set fs
      \<and> (\<forall>f \<in> set fs. is_abs_folder (normalize_folder f))"
    using 2(1) [OF refl] a by blast
  with a show ?case by (cases "?n \<in> set acc") auto
qed

lemma clean_folders_Inl:
  "(\<exists>e. clean_folders acc fs = Inl e) \<longleftrightarrow> (\<exists>f \<in> set fs. \<not> is_abs_folder (normalize_folder f))"
proof (induction acc fs rule: clean_folders.induct)
  case (1 acc)
  then show ?case by simp
next
  case (2 acc f fs)
  then show ?case by (cases "is_abs_folder (normalize_folder f)") (simp_all add: Let_def)
qed

lemma excluded_folders_set: "set (excluded_folders t pid) = {f. (pid, f) \<in> fst ` set t}"
  by (force simp: excluded_folders_def)

lemma sorted_map_snd_filter:
  "sorted ps \<Longrightarrow> sorted (map snd (filter (\<lambda>(p, f). p = pid) ps))"
  for ps :: "(string \<times> string) list"
  by (induction ps) (auto simp: less_eq_prod_def)

lemma distinct_map_snd_filter:
  "distinct ps \<Longrightarrow> distinct (map snd (filter (\<lambda>(p, f). p = pid) ps))"
  by (induction ps) auto

lemma excluded_folders_sorted: "sorted (excluded_folders t pid)"
  unfolding excluded_folders_def by (rule sorted_map_snd_filter) simp

lemma excluded_folders_distinct: "keyed t \<Longrightarrow> distinct (excluded_folders t pid)"
  unfolding excluded_folders_def keyed_def by (rule distinct_map_snd_filter) simp

lemma excluded_folders_eqI:
  "keyed t \<Longrightarrow> sorted fs \<Longrightarrow> distinct fs \<Longrightarrow> {f. (pid, f) \<in> fst ` set t} = set fs
     \<Longrightarrow> excluded_folders t pid = fs"
  by (rule sorted_distinct_set_unique)
     (auto simp: excluded_folders_sorted excluded_folders_distinct excluded_folders_set)

lemma keyed_replace_folders:
  "keyed t \<Longrightarrow> distinct fs \<Longrightarrow>
     keyed (tbl_delete_where (\<lambda>(p, f) _. p = pid) t @ map (\<lambda>f. ((pid, f), ())) fs)"
  by (auto simp: keyed_def tbl_delete_where_def distinct_map_filter distinct_map comp_def inj_on_def)

end
