(* ===== verification/Hidden.thy ===== *)
theory Hidden
  imports Folders
begin

section \<open>Hiding items (internal/catalog/hidden.go)\<close>

text \<open>
  The key a hide is stored under, in Go (\<open>seriesKey\<close>, \<open>hideKey\<close>) and in SQL (\<open>seriesKeyExpr\<close>,
  \<open>hiddenWantedExpr\<close>), the \<open>hidden_items\<close> table, and the request that changes it.
\<close>

subsection \<open>Keys\<close>

definition series_key :: "entry \<Rightarrow> string" where
  "series_key e =
     (if e_series_global_id e \<noteq> [] then e_series_global_id e
      else if e_series_name e \<noteq> [] then e_series_name e
      else e_global_id e)"

definition hide_key :: "entry \<Rightarrow> string" where
  "hide_key e = (if e_media_type e = ''episode'' then series_key e else e_global_id e)"

definition is_hidden :: "string list \<Rightarrow> entry \<Rightarrow> bool" where
  "is_hidden hidden e = (let k = hide_key e in k \<noteq> [] \<and> k \<in> set hidden)"

text \<open>\<open>COALESCE(NULLIF(series_global_id, ''), NULLIF(series_name, ''), global_id)\<close>\<close>

definition null_if_empty :: "string \<Rightarrow> string option" where
  "null_if_empty s = (if s = [] then None else Some s)"

definition series_key_expr :: "string \<Rightarrow> item_row \<Rightarrow> string" where
  "series_key_expr gid r =
     (case null_if_empty (i_series_global_id r) of
        Some k \<Rightarrow> k
      | None \<Rightarrow> (case null_if_empty (i_series_name r) of Some k \<Rightarrow> k | None \<Rightarrow> gid))"

definition hidden_wanted_expr :: "(string, int) tbl \<Rightarrow> string \<Rightarrow> item_row \<Rightarrow> bool" where
  "hidden_wanted_expr hid gid r =
     ((if i_media_type r = ''episode'' then series_key_expr gid r else gid) \<in> fst ` set hid)"

subsection \<open>The table\<close>

definition hidden_set :: "(string, int) tbl \<Rightarrow> string list" where
  "hidden_set t = map fst t"

text \<open>
  \<open>pruneHidden\<close>: the loop over the keys read earlier, deleting the ones nothing offers.
  \<open>offered\<close> is the set of offered keys as a list.
\<close>

fun prune_hidden :: "string list \<Rightarrow> string list \<Rightarrow> nat \<Rightarrow> (string, int) tbl \<Rightarrow> nat \<times> (string, int) tbl" where
  "prune_hidden [] offered n t = (n, t)"
| "prune_hidden (k # ks) offered n t =
     (if k \<in> set offered then prune_hidden ks offered n t
      else prune_hidden ks offered (Suc n) (tbl_delete k t))"

definition item_exists :: "(string, item_row) tbl \<Rightarrow> string \<Rightarrow> bool" where
  "item_exists items key =
     list_ex (\<lambda>(gid, r). (i_media_type r = ''movie'' \<and> gid = key)
                       \<or> (i_media_type r = ''episode'' \<and> series_key_expr gid r = key)) items"

text \<open>\<open>SetHidden\<close>; \<open>fault\<close> is a failing statement, \<open>now\<close> the unix time.\<close>

definition set_hidden ::
  "go_error option \<Rightarrow> int \<Rightarrow> database \<Rightarrow> string \<Rightarrow> bool \<Rightarrow> (go_error + unit) \<times> database" where
  "set_hidden fault now d key hidden =
     (case fault of
        Some e \<Rightarrow> (Inl (ErrDb ''hidden_items''), d)
      | None \<Rightarrow>
          if \<not> hidden then (Inr (), d\<lparr>hidden_items := tbl_delete key (hidden_items d)\<rparr>)
          else if \<not> item_exists (catalog_items d) key then (Inl ErrNoSuchItem, d)
          else (Inr (), d\<lparr>hidden_items := tbl_insert_ignore key now (hidden_items d)\<rparr>))"

text \<open>\<open>HideHandler\<close>: \<open>req\<close> is the decoded body, \<open>None\<close> when it does not decode.\<close>

definition hide_handler ::
  "go_error option \<Rightarrow> int \<Rightarrow> database \<Rightarrow> (string \<times> bool) option \<Rightarrow> unit response \<times> database" where
  "hide_handler fault now d req =
     (case req of
        None \<Rightarrow> (HttpError 400 ''bad body'', d)
      | Some (key, hidden) \<Rightarrow>
          if key = [] then (HttpError 400 ''bad body'', d)
          else (case set_hidden fault now d key hidden of
                  (Inl ErrNoSuchItem, d') \<Rightarrow> (HttpError 404 ''no movie or series with that key'', d')
                | (Inl _, d') \<Rightarrow> (HttpError 500 ''changing item visibility'', d')
                | (Inr _, d') \<Rightarrow> (Status 204, d')))"

subsection \<open>Lemmas\<close>

lemma hide_key_not_episode: "e_media_type e \<noteq> ''episode'' \<Longrightarrow> hide_key e = e_global_id e"
  by (simp add: hide_key_def)

lemma series_key_empty: "series_key e = [] \<longleftrightarrow> e_series_global_id e = [] \<and> e_series_name e = [] \<and> e_global_id e = []"
  by (simp add: series_key_def)

lemma prune_hidden_get:
  "map_of (snd (prune_hidden ks offered n t)) k
     = (if k \<in> set ks \<and> k \<notin> set offered then None else map_of t k)"
  by (induction ks offered n t rule: prune_hidden.induct) auto

lemma prune_hidden_keyed: "keyed t \<Longrightarrow> keyed (snd (prune_hidden ks offered n t))"
  by (induction ks offered n t rule: prune_hidden.induct) auto

lemma prune_hidden_count:
  "fst (prune_hidden ks offered n t) = n + length (filter (\<lambda>k. k \<notin> set offered) ks)"
  by (induction ks offered n t rule: prune_hidden.induct) auto

lemma set_hidden_error: "set_hidden fault now d key hidden = (Inl e, d') \<Longrightarrow> d' = d"
  by (auto simp: set_hidden_def split: option.splits if_splits)

lemma item_exists_iff:
  "item_exists items key \<longleftrightarrow>
     (\<exists>(gid, r) \<in> set items. (i_media_type r = ''movie'' \<and> gid = key)
        \<or> (i_media_type r = ''episode'' \<and> series_key_expr gid r = key))"
  by (auto simp: item_exists_def list_ex_iff)

end
