(* ===== verification/Index.thy ===== *)
theory Index
  imports Hidden
begin

section \<open>The local catalog index and its change feed (internal/catalog/index.go)\<close>

text \<open>
  This node's own catalog as served to peers: the \<open>local_catalog\<close> table with a revision per row,
  the feed's settings, \<open>Refresh\<close>, which turns the difference between the library and the previous
  snapshot into new revisions, the garbage collection of tombstones, and \<open>Changes\<close>, one page of the
  feed. \<open>hash\<close> stands for \<open>contentHash\<close> of the entry's JSON; the JSON column holds the entry.
  Timing statistics and logging are left out.
\<close>

subsection \<open>Settings\<close>

definition epoch_key :: string where "epoch_key = ''catalog_epoch''"
definition head_key :: string where "head_key = ''catalog_head''"
definition min_rev_key :: string where "min_rev_key = ''catalog_min_rev''"
definition indexed_at_key :: string where "indexed_at_key = ''catalog_indexed_at''"

lemmas setting_keys = epoch_key_def head_key_def min_rev_key_def indexed_at_key_def

lemma setting_keys_distinct [simp]:
  "epoch_key \<noteq> head_key" "epoch_key \<noteq> min_rev_key" "epoch_key \<noteq> indexed_at_key"
  "head_key \<noteq> epoch_key" "head_key \<noteq> min_rev_key" "head_key \<noteq> indexed_at_key"
  "min_rev_key \<noteq> epoch_key" "min_rev_key \<noteq> head_key" "min_rev_key \<noteq> indexed_at_key"
  "indexed_at_key \<noteq> epoch_key" "indexed_at_key \<noteq> head_key" "indexed_at_key \<noteq> min_rev_key"
  by (simp_all add: setting_keys)

definition get_setting :: "(string, string) tbl \<Rightarrow> string \<Rightarrow> string option" where
  "get_setting s key = map_of s key"

definition get_int_setting :: "(string, string) tbl \<Rightarrow> string \<Rightarrow> go_error + int" where
  "get_int_setting s key =
     (case get_setting s key of
        None \<Rightarrow> Inr 0
      | Some v \<Rightarrow> (case parse_int64 v of
                     None \<Rightarrow> Inl (ErrMsg (''parsing setting '' @ key))
                   | Some n \<Rightarrow> Inr n))"

definition set_setting :: "string \<Rightarrow> string \<Rightarrow> (string, string) tbl \<Rightarrow> (string, string) tbl" where
  "set_setting key v s = tbl_upsert key v s"

lemma get_int_set_same [simp]: "in_int64 n \<Longrightarrow> get_int_setting (set_setting k (fmt_int n) s) k = Inr n"
  by (simp add: get_int_setting_def get_setting_def set_setting_def)

lemma get_int_set_other [simp]: "j \<noteq> k \<Longrightarrow> get_int_setting (set_setting k v s) j = get_int_setting s j"
  by (simp add: get_int_setting_def get_setting_def set_setting_def)

lemma get_set_other [simp]: "j \<noteq> k \<Longrightarrow> get_setting (set_setting k v s) j = get_setting s j"
  by (simp add: get_setting_def set_setting_def)

lemma get_set_same [simp]: "get_setting (set_setting k v s) k = Some v"
  by (simp add: get_setting_def set_setting_def)

lemma get_int_setting_range: "get_int_setting s k = Inr n \<Longrightarrow> in_int64 n"
  by (auto simp: get_int_setting_def in_int64_def split: option.splits dest: parse_int64_range [unfolded in_int64_def])

text \<open>\<open>NewIndex\<close>: the feed's epoch is created once; \<open>uuid\<close> is the fresh random id.\<close>

definition new_index :: "go_error option \<Rightarrow> string \<Rightarrow> database \<Rightarrow> (go_error + unit) \<times> database" where
  "new_index fault uuid d =
     (case fault of
        Some e \<Rightarrow> (Inl (ErrDb ''initializing catalog epoch''), d)
      | None \<Rightarrow> (Inr (), d\<lparr>settings_tbl := tbl_insert_ignore epoch_key uuid (settings_tbl d)\<rparr>))"

subsection \<open>Refresh\<close>

record refresh_stats =
  rs_total :: nat
  rs_added :: nat
  rs_updated :: nat
  rs_removed :: nat
  rs_hidden :: nat
  rs_unhidden :: nat
  rs_purged :: nat
  rs_head :: int

definition no_refresh_stats :: refresh_stats where
  "no_refresh_stats = \<lparr>rs_total = 0, rs_added = 0, rs_updated = 0, rs_removed = 0, rs_hidden = 0,
     rs_unhidden = 0, rs_purged = 0, rs_head = 0\<rparr>"

definition stats_changed :: "refresh_stats \<Rightarrow> nat" where
  "stats_changed s = rs_added s + rs_updated s + rs_removed s + rs_hidden s + rs_unhidden s"

text \<open>\<open>current\<close>: the listing as a Go map, the last of several equal ids winning.\<close>

fun collect_current :: "entry list \<Rightarrow> (string, entry) tbl \<Rightarrow> (string, entry) tbl" where
  "collect_current [] m = m"
| "collect_current (e # es) m = collect_current es (tbl_upsert (e_global_id e) e m)"

text \<open>The \<open>switch\<close> of the loop: what a listed item is, compared with its row of the snapshot.\<close>

datatype item_change = Unchanged | NowHidden | NowUnhidden | NowUpdated | NowAdded

definition classify :: "local_row option \<Rightarrow> string \<Rightarrow> bool \<Rightarrow> item_change" where
  "classify old h hid =
     (case old of
        None \<Rightarrow> NowAdded
      | Some r \<Rightarrow>
          let live = \<not> l_deleted r
          in if live \<and> l_hash r = h \<and> l_hidden r = hid then Unchanged
             else if live \<and> \<not> l_hidden r \<and> hid then NowHidden
             else if live \<and> l_hidden r \<and> \<not> hid then NowUnhidden
             else if live then NowUpdated
             else NowAdded)"

fun count_change :: "item_change \<Rightarrow> refresh_stats \<Rightarrow> refresh_stats" where
  "count_change Unchanged st = st"
| "count_change NowHidden st = st\<lparr>rs_hidden := Suc (rs_hidden st)\<rparr>"
| "count_change NowUnhidden st = st\<lparr>rs_unhidden := Suc (rs_unhidden st)\<rparr>"
| "count_change NowUpdated st = st\<lparr>rs_updated := Suc (rs_updated st)\<rparr>"
| "count_change NowAdded st = st\<lparr>rs_added := Suc (rs_added st)\<rparr>"

type_synonym refresh_state = "(string, local_row) tbl \<times> int \<times> refresh_stats"

text \<open>
  The loop over the sorted ids. Its state is the table, the head and the statistics; \<open>existing\<close>
  is the snapshot read before the transaction. Every id is a key of \<open>current\<close>.
\<close>

fun index_items ::
  "(entry \<Rightarrow> string) \<Rightarrow> string list \<Rightarrow> int \<Rightarrow> (string, local_row) tbl \<Rightarrow> (string, entry) tbl
     \<Rightarrow> string list \<Rightarrow> refresh_state \<Rightarrow> refresh_state" where
  "index_items hash hidden now existing current [] s = s"
| "index_items hash hidden now existing current (gid # ids) (lc, head, st) =
     (case map_of current gid of
        None \<Rightarrow> index_items hash hidden now existing current ids (lc, head, st)
      | Some e \<Rightarrow>
          let h = hash e; isHid = is_hidden hidden e; c = classify (map_of existing gid) h isHid
          in if c = Unchanged then index_items hash hidden now existing current ids (lc, head, st)
             else index_items hash hidden now existing current ids
               (tbl_upsert gid \<lparr>l_entry = e, l_hash = h, l_rev = head + 1, l_deleted = False,
                  l_hidden = isHid, l_updated_at = now\<rparr> lc,
                head + 1, count_change c st))"

definition removed_ids :: "(string, local_row) tbl \<Rightarrow> (string, entry) tbl \<Rightarrow> string list" where
  "removed_ids existing current =
     sort (map fst (filter (\<lambda>(gid, old). map_of current gid = None \<and> \<not> l_deleted old) existing))"

fun tombstone_items :: "int \<Rightarrow> string list \<Rightarrow> refresh_state \<Rightarrow> refresh_state" where
  "tombstone_items now [] s = s"
| "tombstone_items now (gid # ids) (lc, head, st) =
     tombstone_items now ids
       (tbl_update_where (\<lambda>k _. k = gid)
          (\<lambda>r. r\<lparr>l_deleted := True, l_rev := head + 1, l_updated_at := now\<rparr>) lc,
        head + 1, st\<lparr>rs_removed := Suc (rs_removed st)\<rparr>)"

definition tombstone_ttl :: int where "tombstone_ttl = 30 * 24 * 60 * 60"

fun max_of :: "int list \<Rightarrow> int option" where
  "max_of [] = None"
| "max_of (x # xs) = Some (fold max xs x)"

text \<open>
  \<open>gcTombstones\<close>: how many rows were purged, the table, and the settings. \<open>MAX(rev)\<close> of no row
  is NULL, here \<open>None\<close>.
\<close>

definition gc_tombstones ::
  "int \<Rightarrow> (string, local_row) tbl \<Rightarrow> (string, string) tbl
     \<Rightarrow> nat \<times> (string, local_row) tbl \<times> (string, string) tbl" where
  "gc_tombstones now lc s =
     (let cutoff = now - tombstone_ttl
      in case max_of (map (l_rev \<circ> snd) (filter (\<lambda>(_, r). l_deleted r \<and> l_updated_at r < cutoff) lc)) of
           None \<Rightarrow> (0, lc, s)
         | Some maxRev \<Rightarrow>
             (tbl_count (\<lambda>_ r. l_deleted r \<and> l_rev r \<le> maxRev) lc,
              tbl_delete_where (\<lambda>_ r. l_deleted r \<and> l_rev r \<le> maxRev) lc,
              set_setting min_rev_key (fmt_int maxRev) s))"

text \<open>The body of the transaction.\<close>

definition refresh_tx ::
  "(entry \<Rightarrow> string) \<Rightarrow> string list \<Rightarrow> int \<Rightarrow> (string, entry) tbl \<Rightarrow> int \<Rightarrow> database
     \<Rightarrow> refresh_stats \<times> database" where
  "refresh_tx hash hidden now current head d =
     (let existing = local_catalog d;
          ids = sort (map fst current);
          s0 = set_setting indexed_at_key (fmt_int now) (settings_tbl d);
          (lc, head, st) = tombstone_items now (removed_ids existing current)
             (index_items hash hidden now existing current ids
                (existing, head, no_refresh_stats\<lparr>rs_total := length current\<rparr>));
          (purged, lc, s1) = gc_tombstones now lc s0
      in (st\<lparr>rs_purged := purged, rs_head := head\<rparr>,
          d\<lparr>local_catalog := lc, settings_tbl := set_setting head_key (fmt_int head) s1\<rparr>))"

text \<open>
  \<open>refreshLocked\<close>. \<open>listing\<close> is the result of \<open>LocalEntries\<close>, \<open>rfault\<close> a failing read before the
  transaction, \<open>tfault\<close> a failing transaction.
\<close>

definition refresh_locked ::
  "(entry \<Rightarrow> string) \<Rightarrow> int \<Rightarrow> go_error + entry list \<Rightarrow> go_error option \<Rightarrow> go_error option \<Rightarrow> database
     \<Rightarrow> (go_error + refresh_stats) \<times> database" where
  "refresh_locked hash now listing rfault tfault d =
     (case listing of
        Inl e \<Rightarrow> (Inl e, d)
      | Inr entries \<Rightarrow>
          let current = collect_current entries []
          in case rfault of
               Some e \<Rightarrow> (Inl e, d)
             | None \<Rightarrow>
                 let hidden = hidden_set (hidden_items d)
                 in case get_int_setting (settings_tbl d) head_key of
                      Inl e \<Rightarrow> (Inl e, d)
                    | Inr head \<Rightarrow> with_tx tfault (\<lambda>d. Inr (refresh_tx hash hidden now current head d)) d)"

definition ensure_indexed ::
  "(entry \<Rightarrow> string) \<Rightarrow> int \<Rightarrow> go_error + entry list \<Rightarrow> go_error option \<Rightarrow> go_error option \<Rightarrow> database
     \<Rightarrow> (go_error + unit) \<times> database" where
  "ensure_indexed hash now listing rfault tfault d =
     (case rfault of
        Some e \<Rightarrow> (Inl e, d)
      | None \<Rightarrow>
          (case get_setting (settings_tbl d) indexed_at_key of
             Some _ \<Rightarrow> (Inr (), d)
           | None \<Rightarrow>
               (case refresh_locked hash now listing rfault tfault d of
                  (Inl e, d') \<Rightarrow> (Inl e, d')
                | (Inr _, d') \<Rightarrow> (Inr (), d'))))"

subsection \<open>The change feed\<close>

record change =
  ch_rev :: int
  ch_global_id :: string
  ch_deleted :: bool
  ch_entry :: "entry option"

record feed =
  f_epoch :: string
  f_head :: int
  f_next :: int
  f_more :: bool
  f_reset :: bool
  f_changes :: "change list"
  f_reset_reason :: string

text \<open>The scan loop: up to \<open>limit\<close> rows, and whether there was one more.\<close>

fun page_rows :: "nat \<Rightarrow> change list \<Rightarrow> change list \<Rightarrow> change list \<times> bool" where
  "page_rows limit [] acc = (acc, False)"
| "page_rows limit (c # cs) acc =
     (if length acc = limit then (acc, True) else page_rows limit cs (acc @ [c]))"

definition change_of :: "bool \<Rightarrow> string \<times> local_row \<Rightarrow> change" where
  "change_of deleted p =
     \<lparr>ch_rev = l_rev (snd p), ch_global_id = fst p, ch_deleted = deleted,
      ch_entry = (if deleted then None else Some (l_entry (snd p)))\<rparr>"

text \<open>The two queries: from scratch only rows on offer, otherwise removals and hides as tombstones.\<close>

definition feed_rows :: "(string, local_row) tbl \<Rightarrow> int \<Rightarrow> change list" where
  "feed_rows lc since =
     (if since = 0
      then map (change_of False)
             (sort_key (l_rev \<circ> snd)
                (filter (\<lambda>(_, r). 0 < l_rev r \<and> \<not> l_deleted r \<and> \<not> l_hidden r) lc))
      else map (\<lambda>p. change_of (l_deleted (snd p) \<or> l_hidden (snd p)) p)
             (sort_key (l_rev \<circ> snd) (filter (\<lambda>(_, r). since < l_rev r) lc)))"

definition reset_reason :: "string \<Rightarrow> string \<Rightarrow> int \<Rightarrow> int \<Rightarrow> int \<Rightarrow> string" where
  "reset_reason epoch my_epoch since head minRev =
     (if epoch = [] then ''first sync''
      else if epoch \<noteq> my_epoch then ''epoch changed''
      else if since < 0 \<or> since > head then ''cursor out of range''
      else if since > 0 \<and> since < minRev then ''cursor older than retained tombstones''
      else [])"

text \<open>\<open>Index.Changes\<close>; \<open>fault\<close> is a failing read. An absent epoch setting reads as the empty string.\<close>

definition changes ::
  "go_error option \<Rightarrow> database \<Rightarrow> string \<Rightarrow> int \<Rightarrow> nat \<Rightarrow> go_error + feed" where
  "changes fault d epoch since limit =
     (case fault of
        Some e \<Rightarrow> Inl e
      | None \<Rightarrow>
          let my_epoch = (case get_setting (settings_tbl d) epoch_key of None \<Rightarrow> [] | Some v \<Rightarrow> v)
          in (case get_int_setting (settings_tbl d) head_key of
                Inl e \<Rightarrow> Inl e
              | Inr head \<Rightarrow>
                  (case get_int_setting (settings_tbl d) min_rev_key of
                     Inl e \<Rightarrow> Inl e
                   | Inr minRev \<Rightarrow>
                       let reason = reset_reason epoch my_epoch since head minRev;
                           reset = (reason \<noteq> []);
                           since = (if reset then 0 else since);
                           rows = take (limit + 1) (feed_rows (local_catalog d) since);
                           (page, more) = page_rows limit rows []
                       in Inr \<lparr>f_epoch = my_epoch, f_head = head,
                               f_next = (if more then ch_rev (last page) else head),
                               f_more = more, f_reset = reset, f_changes = page,
                               f_reset_reason = reason\<rparr>)))"

text \<open>\<open>Index.Entries\<close>, for the legacy endpoint.\<close>

definition index_entries :: "(string, local_row) tbl \<Rightarrow> entry list" where
  "index_entries lc =
     map (l_entry \<circ> snd)
       (sort_key fst (filter (\<lambda>(_, r). \<not> l_deleted r \<and> \<not> l_hidden r) lc))"

subsection \<open>The feed's HTTP handlers (internal/catalog/catalog.go)\<close>

definition default_changes_limit :: int where "default_changes_limit = 1000"
definition max_changes_limit :: int where "max_changes_limit = 5000"

text \<open>
  The query parameters of \<open>ChangesHandler\<close>, absent ones being empty: \<open>Inl\<close> the text of the 400,
  or the cursor and the page size.
\<close>

definition changes_query :: "string \<Rightarrow> string \<Rightarrow> string + (int \<times> nat)" where
  "changes_query sinceQ limitQ =
     (let since = parse_int64 sinceQ
      in if since = None \<and> sinceQ \<noteq> [] then Inl ''invalid since''
         else let since = (case since of None \<Rightarrow> 0 | Some n \<Rightarrow> n)
              in if limitQ = [] then Inr (since, nat default_changes_limit)
                 else (case parse_int64 limitQ of
                         None \<Rightarrow> Inl ''invalid limit''
                       | Some l \<Rightarrow> if l \<le> 0 then Inl ''invalid limit''
                                   else Inr (since, nat (min l max_changes_limit))))"

definition changes_handler ::
  "(entry \<Rightarrow> string) \<Rightarrow> int \<Rightarrow> go_error + entry list \<Rightarrow> go_error option \<Rightarrow> go_error option \<Rightarrow> go_error option
     \<Rightarrow> database \<Rightarrow> string \<Rightarrow> string \<Rightarrow> string \<Rightarrow> feed response \<times> database" where
  "changes_handler hash now listing rfault tfault cfault d epoch sinceQ limitQ =
     (case changes_query sinceQ limitQ of
        Inl msg \<Rightarrow> (HttpError 400 msg, d)
      | Inr (since, limit) \<Rightarrow>
          (case ensure_indexed hash now listing rfault tfault d of
             (Inl e, d') \<Rightarrow> (HttpError 500 ''indexing local library'', d')
           | (Inr _, d') \<Rightarrow>
               (case changes cfault d' epoch since limit of
                  Inl e \<Rightarrow> (HttpError 500 ''serving catalog changes'', d')
                | Inr f \<Rightarrow> (Json 200 f, d'))))"

text \<open>\<open>Handler\<close>, the legacy endpoint; \<open>efault\<close> a failing read of the entries.\<close>

definition full_catalog_handler ::
  "(entry \<Rightarrow> string) \<Rightarrow> int \<Rightarrow> go_error + entry list \<Rightarrow> go_error option \<Rightarrow> go_error option \<Rightarrow> go_error option
     \<Rightarrow> database \<Rightarrow> entry list response \<times> database" where
  "full_catalog_handler hash now listing rfault tfault efault d =
     (case ensure_indexed hash now listing rfault tfault d of
        (Inl e, d') \<Rightarrow> (HttpError 500 ''indexing local library'', d')
      | (Inr _, d') \<Rightarrow>
          (case efault of
             Some e \<Rightarrow> (HttpError 500 ''serving full catalog'', d')
           | None \<Rightarrow> (Json 200 (index_entries (local_catalog d')), d')))"

end
