(* ===== verification/IndexProps.thy ===== *)
theory IndexProps
  imports Index
begin

section \<open>What a refresh does to the local catalog\<close>

text \<open>
  The invariant of the index (revisions are positive, distinct and at most the head; tombstones lie
  above the collected ones; a row is stored under its entry's id), what each loop of \<open>Refresh\<close>
  writes, and that the result is the listing.
\<close>

subsection \<open>Revisions\<close>

definition rev_ok :: "(string, local_row) tbl \<Rightarrow> int \<Rightarrow> bool" where
  "rev_ok lc h \<longleftrightarrow> keyed lc \<and> 0 \<le> h
     \<and> (\<forall>g r. map_of lc g = Some r \<longrightarrow> 0 < l_rev r \<and> l_rev r \<le> h)
     \<and> (\<forall>g g' r r'. map_of lc g = Some r \<longrightarrow> map_of lc g' = Some r' \<longrightarrow> l_rev r = l_rev r' \<longrightarrow> g = g')"

definition idx_ok :: "(string, local_row) tbl \<Rightarrow> int \<Rightarrow> int \<Rightarrow> bool" where
  "idx_ok lc h m \<longleftrightarrow> rev_ok lc h \<and> 0 \<le> m \<and> m \<le> h
     \<and> (\<forall>g r. map_of lc g = Some r \<longrightarrow> e_global_id (l_entry r) = g \<and> (l_deleted r \<longrightarrow> m < l_rev r))"

lemma idx_ok_tomb: "idx_ok lc h m \<Longrightarrow> map_of lc g = Some r \<Longrightarrow> l_deleted r \<Longrightarrow> m < l_rev r"
  unfolding idx_ok_def by blast

lemma idx_ok_key: "idx_ok lc h m \<Longrightarrow> map_of lc g = Some r \<Longrightarrow> e_global_id (l_entry r) = g"
  unfolding idx_ok_def by blast

lemma idx_ok_rev: "idx_ok lc h m \<Longrightarrow> rev_ok lc h"
  unfolding idx_ok_def by blast

text \<open>Every row is an old one or has a revision above the old head; no key is lost.\<close>

definition grows :: "(string, local_row) tbl \<Rightarrow> int \<Rightarrow> (string, local_row) tbl \<Rightarrow> int \<Rightarrow> bool" where
  "grows lc h lc' h' \<longleftrightarrow> h \<le> h'
     \<and> (\<forall>g r. map_of lc' g = Some r \<longrightarrow> map_of lc g = Some r \<or> h < l_rev r)
     \<and> (\<forall>g. map_of lc g \<noteq> None \<longrightarrow> map_of lc' g \<noteq> None)"

lemma grows_refl [simp, intro]: "grows lc h lc h"
  by (simp add: grows_def)

lemma grows_trans: "grows lc h lc1 h1 \<Longrightarrow> grows lc1 h1 lc2 h2 \<Longrightarrow> grows lc h lc2 h2"
  unfolding grows_def by (meson order_trans order_le_less_trans)

lemma rev_ok_keyed: "rev_ok lc h \<Longrightarrow> keyed lc"
  by (simp add: rev_ok_def)

lemma rev_ok_bounds: "rev_ok lc h \<Longrightarrow> map_of lc g = Some r \<Longrightarrow> 0 < l_rev r \<and> l_rev r \<le> h"
  by (simp add: rev_ok_def)

lemma rev_ok_inj:
  "rev_ok lc h \<Longrightarrow> map_of lc g = Some r \<Longrightarrow> map_of lc g' = Some r' \<Longrightarrow> l_rev r = l_rev r' \<Longrightarrow> g = g'"
  unfolding rev_ok_def by blast

lemma rev_ok_mono: "rev_ok lc h \<Longrightarrow> h \<le> h' \<Longrightarrow> rev_ok lc h'"
  unfolding rev_ok_def by (meson order_trans)

lemma rev_ok_bump:
  assumes ok: "rev_ok lc h" and r: "l_rev r = h + 1"
  shows "rev_ok (tbl_upsert g r lc) (h + 1)"
proof -
  have b: "0 < l_rev r' \<and> l_rev r' \<le> h" if "map_of lc g' = Some r'" for g' r'
    using ok that by (rule rev_ok_bounds)
  have i: "g1 = g2" if "map_of lc g1 = Some r1" "map_of lc g2 = Some r2" "l_rev r1 = l_rev r2" for g1 g2 r1 r2
    using ok that by (rule rev_ok_inj)
  have h0: "0 \<le> h" using ok by (simp add: rev_ok_def)
  show ?thesis
    unfolding rev_ok_def
  proof (intro conjI allI impI)
    show "keyed (tbl_upsert g r lc)" using ok by (simp add: rev_ok_keyed)
    show "0 \<le> h + 1" using h0 by simp
  next
    fix g' r' assume a: "map_of (tbl_upsert g r lc) g' = Some r'"
    have "0 < l_rev r' \<and> l_rev r' \<le> h + 1"
    proof (cases "g' = g")
      case True
      with a r h0 show ?thesis by simp
    next
      case False
      with a have "map_of lc g' = Some r'" by simp
      with b [OF this] show ?thesis by simp
    qed
    then show "0 < l_rev r'" and "l_rev r' \<le> h + 1" by simp_all
  next
    fix g1 g2 r1 r2
    assume a: "map_of (tbl_upsert g r lc) g1 = Some r1" "map_of (tbl_upsert g r lc) g2 = Some r2" "l_rev r1 = l_rev r2"
    have old: "l_rev x \<le> h" if "map_of (tbl_upsert g r lc) j = Some x" "j \<noteq> g" for j x
      using that b [of j x] by simp
    have new: "l_rev x = h + 1" if "map_of (tbl_upsert g r lc) g = Some x" for x
      using that r by simp
    show "g1 = g2"
    proof (cases "g1 = g \<or> g2 = g")
      case True
      then show ?thesis using a old new by fastforce
    next
      case False
      then show ?thesis using a i [of g1 r1 g2 r2] by simp
    qed
  qed
qed

lemma grows_bump: "l_rev r = h + 1 \<Longrightarrow> grows lc h (tbl_upsert g r lc) (h + 1)"
  by (auto simp: grows_def split: if_splits)

lemma update_where_upsert:
  "keyed t \<Longrightarrow> map_of t g = Some r \<Longrightarrow> tbl_update_where (\<lambda>k _. k = g) f t = tbl_upsert g (f r) t"
proof (induction t)
  case Nil
  then show ?case by simp
next
  case (Cons p t)
  obtain k x where p: "p = (k, x)" by (cases p)
  show ?case
  proof (cases "k = g")
    case True
    with Cons.prems p have "g \<notin> fst ` set t" by (simp add: keyed_def)
    then have "map (\<lambda>(k, r). (k, if k = g then f r else r)) t = t"
      by (intro map_idI) (auto, force)
    with True Cons.prems p show ?thesis by (simp add: tbl_update_where_def tbl_upsert_def)
  next
    case False
    with Cons p show ?thesis
      by (simp add: tbl_update_where_def tbl_upsert_def keyed_def)
  qed
qed

subsection \<open>The loop over the listed items\<close>

lemma classify_simps:
  "classify None h hid = NowAdded"
  "classify (Some r) h hid = Unchanged \<longleftrightarrow> \<not> l_deleted r \<and> l_hash r = h \<and> l_hidden r = hid"
  by (auto simp: classify_def Let_def)

lemma count_change_total [simp]: "rs_total (count_change c st) = rs_total st"
  by (cases c) auto

lemma count_change_changed:
  "stats_changed (count_change c st) = stats_changed st + (if c = Unchanged then 0 else 1)"
  by (cases c) (auto simp: stats_changed_def)

text \<open>The row a listed item ends up with: its old one when nothing changed, else a fresh one.\<close>

definition listed_row ::
  "(entry \<Rightarrow> string) \<Rightarrow> string list \<Rightarrow> int \<Rightarrow> local_row option \<Rightarrow> entry \<Rightarrow> int \<Rightarrow> local_row option \<Rightarrow> local_row option" where
  "listed_row hash hidden now old e rv kept =
     (if classify old (hash e) (is_hidden hidden e) = Unchanged then kept
      else Some \<lparr>l_entry = e, l_hash = hash e, l_rev = rv, l_deleted = False,
                 l_hidden = is_hidden hidden e, l_updated_at = now\<rparr>)"

lemma index_items_spec:
  assumes "index_items hash hidden now existing current ids (lc, h, st) = (lc', h', st')"
    and "rev_ok lc h" and "distinct ids"
  shows "rev_ok lc' h' \<and> grows lc h lc' h'
     \<and> int (stats_changed st') - int (stats_changed st) = h' - h \<and> rs_total st' = rs_total st
     \<and> rs_removed st' = rs_removed st
     \<and> (\<forall>g. \<exists>rv. h < rv \<and> map_of lc' g =
          (case (if g \<in> set ids then map_of current g else None) of
             None \<Rightarrow> map_of lc g
           | Some e \<Rightarrow> listed_row hash hidden now (map_of existing g) e rv (map_of lc g)))"
  using assms
proof (induction ids arbitrary: lc h st)
  case Nil
  then show ?case by (auto intro: exI [of _ "h + 1"])
next
  case (Cons gid ids)
  show ?case
  proof (cases "map_of current gid")
    case None
    with Cons.prems have eq: "index_items hash hidden now existing current ids (lc, h, st) = (lc', h', st')"
      by simp
    have "distinct ids" using Cons.prems(3) by simp
    note IH = Cons.IH [OF eq Cons.prems(2) this]
    have e: "(if g \<in> set (gid # ids) then map_of current g else None) = (if g \<in> set ids then map_of current g else None)" for g
      using None by simp
    show ?thesis unfolding e by (rule IH)
  next
    case (Some e)
    let ?c = "classify (map_of existing gid) (hash e) (is_hidden hidden e)"
    have dist: "distinct ids" and nin: "gid \<notin> set ids" using Cons.prems(3) by auto
    show ?thesis
    proof (cases "?c = Unchanged")
      case True
      with Cons.prems(1) Some have eq: "index_items hash hidden now existing current ids (lc, h, st) = (lc', h', st')"
        by (simp add: Let_def)
      note IH = Cons.IH [OF eq Cons.prems(2) dist]
      have "\<exists>rv. h < rv \<and> map_of lc' g =
          (case (if g \<in> set (gid # ids) then map_of current g else None) of
             None \<Rightarrow> map_of lc g
           | Some e \<Rightarrow> listed_row hash hidden now (map_of existing g) e rv (map_of lc g))" for g
      proof (cases "g = gid")
        case False
        then have e: "(g \<in> set (gid # ids)) = (g \<in> set ids)" by simp
        show ?thesis unfolding e using IH by blast
      next
        case g: True
        have "\<exists>rv. h < rv \<and> map_of lc' gid =
          (case (if gid \<in> set ids then map_of current gid else None) of
             None \<Rightarrow> map_of lc gid
           | Some e \<Rightarrow> listed_row hash hidden now (map_of existing gid) e rv (map_of lc gid))"
          using IH by blast
        with nin have "map_of lc' gid = map_of lc gid" by simp
        with g Some True show ?thesis by (auto simp: listed_row_def intro: exI [of _ "h + 1"])
      qed
      with IH show ?thesis by blast
    next
      case False
      let ?r = "\<lparr>l_entry = e, l_hash = hash e, l_rev = h + 1, l_deleted = False,
                  l_hidden = is_hidden hidden e, l_updated_at = now\<rparr>"
      let ?lc = "tbl_upsert gid ?r lc"
      from False Cons.prems(1) Some
      have eq: "index_items hash hidden now existing current ids (?lc, h + 1, count_change ?c st) = (lc', h', st')"
        by (simp add: Let_def)
      have ok: "rev_ok ?lc (h + 1)" by (rule rev_ok_bump [OF Cons.prems(2)]) simp
      note IH = Cons.IH [OF eq ok dist]
      have gr: "grows lc h lc' h'"
        using grows_trans [OF grows_bump] IH by (metis local_row.select_convs(3))
      have cnt: "int (stats_changed (count_change ?c st)) = int (stats_changed st) + 1"
        using False by (simp add: count_change_changed)
      have rem: "rs_removed (count_change ?c st) = rs_removed st" by (cases ?c) auto
      have "\<exists>rv. h < rv \<and> map_of lc' g =
          (case (if g \<in> set (gid # ids) then map_of current g else None) of
             None \<Rightarrow> map_of lc g
           | Some e \<Rightarrow> listed_row hash hidden now (map_of existing g) e rv (map_of lc g))" for g
      proof (cases "g = gid")
        case g: False
        have ol: "map_of ?lc g = map_of lc g" and mem: "(g \<in> set (gid # ids)) = (g \<in> set ids)"
          using g by simp_all
        obtain rv where "h + 1 < rv" and "map_of lc' g =
          (case (if g \<in> set ids then map_of current g else None) of
             None \<Rightarrow> map_of ?lc g
           | Some e \<Rightarrow> listed_row hash hidden now (map_of existing g) e rv (map_of ?lc g))"
          using IH by blast
        then show ?thesis unfolding ol mem by (intro exI [of _ rv]) simp
      next
        case g: True
        have "\<exists>rv. h + 1 < rv \<and> map_of lc' gid =
          (case (if gid \<in> set ids then map_of current gid else None) of
             None \<Rightarrow> map_of ?lc gid
           | Some e \<Rightarrow> listed_row hash hidden now (map_of existing gid) e rv (map_of ?lc gid))"
          using IH by blast
        with nin have "map_of lc' gid = Some ?r" by simp
        with g Some False show ?thesis by (auto simp: listed_row_def intro: exI [of _ "h + 1"])
      qed
      with IH gr cnt rem show ?thesis by auto
    qed
  qed
qed

subsection \<open>The loop over the removed items\<close>

lemma tombstone_items_spec:
  assumes "tombstone_items now ids (lc, h, st) = (lc', h', st')"
    and "rev_ok lc h" and "distinct ids" and "\<And>g. g \<in> set ids \<Longrightarrow> map_of lc g \<noteq> None"
  shows "rev_ok lc' h' \<and> grows lc h lc' h'
     \<and> int (stats_changed st') - int (stats_changed st) = h' - h
     \<and> rs_total st' = rs_total st \<and> rs_removed st' = rs_removed st + length ids
     \<and> (\<forall>g. \<exists>rv. h < rv \<and> map_of lc' g =
          (if g \<in> set ids then map_option (\<lambda>r. r\<lparr>l_deleted := True, l_rev := rv, l_updated_at := now\<rparr>) (map_of lc g)
           else map_of lc g))"
  using assms
proof (induction ids arbitrary: lc h st)
  case Nil
  then show ?case by (auto intro: exI [of _ "h + 1"])
next
  case (Cons gid ids)
  let ?f = "\<lambda>r. r\<lparr>l_deleted := True, l_rev := h + 1, l_updated_at := now\<rparr>"
  obtain r where r: "map_of lc gid = Some r" using Cons.prems(4) by fastforce
  let ?lc = "tbl_upsert gid (?f r) lc"
  have up: "tbl_update_where (\<lambda>k _. k = gid) ?f lc = ?lc"
    by (rule update_where_upsert) (use Cons.prems(2) r in \<open>auto simp: rev_ok_keyed\<close>)
  let ?st = "st\<lparr>rs_removed := Suc (rs_removed st)\<rparr>"
  from Cons.prems(1) have eq: "tombstone_items now ids (?lc, h + 1, ?st) = (lc', h', st')"
    by (simp only: tombstone_items.simps up)
  have ok: "rev_ok ?lc (h + 1)" by (rule rev_ok_bump [OF Cons.prems(2)]) simp
  have dist: "distinct ids" and nin: "gid \<notin> set ids" using Cons.prems(3) by auto
  have "map_of ?lc g \<noteq> None" if "g \<in> set ids" for g using Cons.prems(4) that by simp
  note IH = Cons.IH [OF eq ok dist this]
  have gb: "grows lc h ?lc (h + 1)" by (rule grows_bump) simp
  have gr: "grows lc h lc' h'" using grows_trans [OF gb] IH by blast
  have rows: "\<exists>rv. h < rv \<and> map_of lc' g =
          (if g \<in> set (gid # ids) then map_option (\<lambda>r. r\<lparr>l_deleted := True, l_rev := rv, l_updated_at := now\<rparr>) (map_of lc g)
           else map_of lc g)" for g
  proof (cases "g = gid")
    case g: False
    obtain rv where "h + 1 < rv" and "map_of lc' g =
          (if g \<in> set ids then map_option (\<lambda>r. r\<lparr>l_deleted := True, l_rev := rv, l_updated_at := now\<rparr>) (map_of ?lc g)
           else map_of ?lc g)" using IH by blast
    with g show ?thesis by (intro exI [of _ rv]) simp
  next
    case g: True
    obtain rv where "map_of lc' gid = (if gid \<in> set ids then map_option (\<lambda>r. r\<lparr>l_deleted := True, l_rev := rv, l_updated_at := now\<rparr>) (map_of ?lc gid)
           else map_of ?lc gid)" using IH by blast
    then have "map_of lc' gid = Some (?f r)" using nin by simp
    with g r show ?thesis by (intro exI [of _ "h + 1"]) simp
  qed
  show ?case using IH gr rows by (auto simp: stats_changed_def)
qed

subsection \<open>Garbage collection\<close>

lemma max_of_Some: "max_of xs = Some m \<Longrightarrow> m \<in> set xs \<and> (\<forall>x \<in> set xs. x \<le> m)"
proof (cases xs)
  case (Cons x ys)
  assume "max_of xs = Some m"
  with Cons have m: "m = Max (set (x # ys))" by (simp only: max_of.simps Max.set_eq_fold option.inject)
  show ?thesis unfolding Cons m by (metis Max_ge Max_in List.finite_set list.distinct(1) set_empty)
qed simp

lemma max_of_None: "max_of xs = None \<longleftrightarrow> xs = []"
  by (cases xs) auto

lemma gc_tombstones_spec:
  assumes gc: "gc_tombstones now lc s = (n, lc', s')" and ok: "idx_ok lc h m" and i64: "in_int64 h"
    and m: "get_int_setting s min_rev_key = Inr m"
  shows "\<exists>m'. get_int_setting s' min_rev_key = Inr m' \<and> m \<le> m' \<and> idx_ok lc' h m'
     \<and> (\<forall>g. map_of lc' g = (case map_of lc g of None \<Rightarrow> None
            | Some r \<Rightarrow> if l_deleted r \<and> l_rev r \<le> m' then None else Some r))
     \<and> (\<forall>k. k \<noteq> min_rev_key \<longrightarrow> get_setting s' k = get_setting s k)"
proof (cases "max_of (map (l_rev \<circ> snd) (filter (\<lambda>(_, r). l_deleted r \<and> l_updated_at r < now - tombstone_ttl) lc))")
  case None
  then have "lc' = lc" "s' = s" using gc by (simp_all add: gc_tombstones_def)
  moreover have "map_of lc g = (case map_of lc g of None \<Rightarrow> None
            | Some r \<Rightarrow> if l_deleted r \<and> l_rev r \<le> m then None else Some r)" for g
    using idx_ok_tomb [OF ok, of g] by (cases "map_of lc g") force+
  ultimately show ?thesis using ok m by blast
next
  case (Some mx)
  have k: "keyed lc" using ok by (blast intro: idx_ok_rev rev_ok_keyed)
  have eqs: "lc' = tbl_delete_where (\<lambda>_ r. l_deleted r \<and> l_rev r \<le> mx) lc"
    "s' = set_setting min_rev_key (fmt_int mx) s"
    using gc Some by (simp_all add: gc_tombstones_def)
  have "mx \<in> set (map (l_rev \<circ> snd) (filter (\<lambda>(_, r). l_deleted r \<and> l_updated_at r < now - tombstone_ttl) lc))"
    using max_of_Some [OF Some] by blast
  then obtain g0 r0 where r0: "(g0, r0) \<in> set lc" "l_deleted r0" "l_rev r0 = mx" by auto
  then have "map_of lc g0 = Some r0" using k by (simp add: keyed_map_of_eq)
  with ok r0 have mx: "m < mx" "mx \<le> h" "0 \<le> m" by (auto simp: idx_ok_def rev_ok_def)
  have "in_int64 mx" using mx i64 by (simp add: in_int64_def)
  then have s': "get_int_setting s' min_rev_key = Inr mx" by (simp add: eqs)
  have get: "map_of lc' g = (case map_of lc g of None \<Rightarrow> None
            | Some r \<Rightarrow> if l_deleted r \<and> l_rev r \<le> mx then None else Some r)" for g
    unfolding eqs by (rule get_delete_where [OF k])
  have sub: "map_of lc g = Some r \<and> \<not> (l_deleted r \<and> l_rev r \<le> mx)" if "map_of lc' g = Some r" for g r
    using that unfolding get by (auto split: option.splits if_splits)
  have "keyed lc'" using k by (simp add: eqs)
  moreover have "rev_ok lc h" using ok by (simp add: idx_ok_def)
  ultimately have "rev_ok lc' h" using sub unfolding rev_ok_def by meson
  then have "idx_ok lc' h mx" using sub ok mx unfolding idx_ok_def by (meson less_imp_le linorder_not_le order_trans)
  with s' get mx show ?thesis by (auto simp: eqs)
qed


subsection \<open>The whole refresh\<close>

lemma index_items_head:
  "index_items hash hidden now existing current ids (lc, h, st) = (lc', h', st') \<Longrightarrow> h' \<le> h + int (length ids)"
proof (induction ids arbitrary: lc h st)
  case (Cons gid ids)
  show ?case
  proof (cases "map_of current gid")
    case None
    with Cons.prems have "index_items hash hidden now existing current ids (lc, h, st) = (lc', h', st')" by simp
    from Cons.IH [OF this] show ?thesis by simp
  next
    case (Some e)
    from Cons.prems Some
    consider (a) "index_items hash hidden now existing current ids (lc, h, st) = (lc', h', st')"
      | (b) lc1 st1 where "index_items hash hidden now existing current ids (lc1, h + 1, st1) = (lc', h', st')"
      by (simp add: Let_def split: if_split_asm)
    then show ?thesis
    proof cases
      case a
      from Cons.IH [OF a] show ?thesis by simp
    next
      case b
      from Cons.IH [OF b] show ?thesis by simp
    qed
  qed
qed simp

lemma tombstone_items_head:
  "tombstone_items now ids (lc, h, st) = (lc', h', st') \<Longrightarrow> h' = h + int (length ids)"
  by (induction ids arbitrary: lc h st) fastforce+

lemma collect_current_keyed: "keyed m \<Longrightarrow> keyed (collect_current es m)"
  by (induction es arbitrary: m) auto

lemma collect_current_fold:
  "collect_current es m = fold (\<lambda>(k, e). tbl_upsert k e) (map (\<lambda>e. (e_global_id e, e)) es) m"
  by (induction es arbitrary: m) auto

lemma collect_current_get:
  "keyed m \<Longrightarrow> map_of (collect_current es m) g
     = (case map_of (rev (map (\<lambda>e. (e_global_id e, e)) es)) g of None \<Rightarrow> map_of m g | Some e \<Rightarrow> Some e)"
  unfolding collect_current_fold by (rule tbl.get_fold_put)

lemma collect_current_id:
  assumes "map_of (collect_current es []) g = Some e" shows "e_global_id e = g \<and> e \<in> set es"
proof -
  have "map_of (rev (map (\<lambda>e. (e_global_id e, e)) es)) g = Some e"
    using assms by (simp add: collect_current_get split: option.splits)
  then show ?thesis by (auto dest!: map_of_SomeD)
qed

text \<open>What the node offers under an id, and what the library would have it offer.\<close>

definition visible :: "(string, local_row) tbl \<Rightarrow> string \<Rightarrow> entry option" where
  "visible lc g = (case map_of lc g of
     None \<Rightarrow> None
   | Some r \<Rightarrow> if l_deleted r \<or> l_hidden r then None else Some (l_entry r))"

definition offered_listing :: "string list \<Rightarrow> (string, entry) tbl \<Rightarrow> string \<Rightarrow> entry option" where
  "offered_listing hidden current g = (case map_of current g of
     None \<Rightarrow> None
   | Some e \<Rightarrow> if is_hidden hidden e then None else Some e)"

text \<open>Every row stores the hash of its entry, and no listed item collides with its row.\<close>

definition hash_ok :: "(entry \<Rightarrow> string) \<Rightarrow> (string, local_row) tbl \<Rightarrow> bool" where
  "hash_ok hash lc \<longleftrightarrow> (\<forall>g r. map_of lc g = Some r \<longrightarrow> l_hash r = hash (l_entry r))"

definition no_collision :: "(entry \<Rightarrow> string) \<Rightarrow> (string, local_row) tbl \<Rightarrow> (string, entry) tbl \<Rightarrow> bool" where
  "no_collision hash lc current \<longleftrightarrow>
     (\<forall>g r e. map_of lc g = Some r \<longrightarrow> map_of current g = Some e \<longrightarrow> hash e = hash (l_entry r) \<longrightarrow> e = l_entry r)"

lemma hash_okD: "hash_ok hash lc \<Longrightarrow> map_of lc g = Some r \<Longrightarrow> l_hash r = hash (l_entry r)"
  by (simp add: hash_ok_def)

lemma removed_ids_set:
  "keyed lc \<Longrightarrow> g \<in> set (removed_ids lc current) \<longleftrightarrow> map_of current g = None \<and> (\<exists>r. map_of lc g = Some r \<and> \<not> l_deleted r)"
  by (auto simp: removed_ids_def keyed_map_of_eq image_iff)

lemma removed_ids_distinct: "keyed lc \<Longrightarrow> distinct (removed_ids lc current)"
  by (simp add: removed_ids_def keyed_def distinct_map_filter)

lemma removed_ids_length: "length (removed_ids lc current) \<le> length lc"
  by (simp add: removed_ids_def)

lemma current_ids: "keyed current \<Longrightarrow> distinct (sort (map fst current))"
  by (simp add: keyed_def)

text \<open>The feed settings of a database that holds an index.\<close>

definition feed_settings :: "database \<Rightarrow> int \<Rightarrow> int \<Rightarrow> bool" where
  "feed_settings d h m \<longleftrightarrow> get_int_setting (settings_tbl d) head_key = Inr h
     \<and> get_int_setting (settings_tbl d) min_rev_key = Inr m"

definition index_ok :: "(entry \<Rightarrow> string) \<Rightarrow> database \<Rightarrow> bool" where
  "index_ok hash d \<longleftrightarrow> (\<exists>h m. feed_settings d h m \<and> idx_ok (local_catalog d) h m \<and> hash_ok hash (local_catalog d))"

text \<open>The row of every id after the two loops.\<close>

definition looped_row ::
  "(entry \<Rightarrow> string) \<Rightarrow> string list \<Rightarrow> int \<Rightarrow> (string, local_row) tbl \<Rightarrow> (string, entry) tbl \<Rightarrow> string \<Rightarrow> int \<Rightarrow> local_row option" where
  "looped_row hash hidden now lc current g rv =
     (case map_of current g of
        Some e \<Rightarrow> listed_row hash hidden now (map_of lc g) e rv (map_of lc g)
      | None \<Rightarrow> map_option (\<lambda>r. if l_deleted r then r else r\<lparr>l_deleted := True, l_rev := rv, l_updated_at := now\<rparr>) (map_of lc g))"

lemma loops_spec:
  assumes i: "index_items hash hidden now lc current (sort (map fst current)) (lc, h, st) = (lc1, h1, st1)"
    and t: "tombstone_items now (removed_ids lc current) (lc1, h1, st1) = (lc2, h2, st2)"
    and ok: "rev_ok lc h" and kc: "keyed current"
  shows "rev_ok lc2 h2" "grows lc h lc2 h2"
    "int (stats_changed st2) - int (stats_changed st) = h2 - h" "rs_total st2 = rs_total st"
    "h2 \<le> h + int (length current) + int (length lc)"
    "\<exists>rv. h < rv \<and> map_of lc2 g = looped_row hash hidden now lc current g rv"
proof -
  have k: "keyed lc" using ok by (rule rev_ok_keyed)
  note S = index_items_spec [OF i ok current_ids [OF kc]]
  have ex: "map_of lc1 g' \<noteq> None" if "g' \<in> set (removed_ids lc current)" for g'
    using S that by (auto simp: removed_ids_set [OF k] grows_def)
  have ok1: "rev_ok lc1 h1" using S by blast
  note T = tombstone_items_spec [OF t ok1 removed_ids_distinct [OF k] ex]
  show "rev_ok lc2 h2" using T by blast
  show "grows lc h lc2 h2" using S T by (blast intro: grows_trans)
  show "int (stats_changed st2) - int (stats_changed st) = h2 - h" "rs_total st2 = rs_total st"
    using S T by auto
  show "h2 \<le> h + int (length current) + int (length lc)"
    using index_items_head [OF i] tombstone_items_head [OF t] removed_ids_length [of lc current] by simp
  have hh: "h \<le> h1" using S by (simp add: grows_def)
  obtain rv where rv: "h < rv" and r1: "map_of lc1 g =
          (case (if g \<in> set (sort (map fst current)) then map_of current g else None) of
             None \<Rightarrow> map_of lc g
           | Some e \<Rightarrow> listed_row hash hidden now (map_of lc g) e rv (map_of lc g))"
    using S by blast
  have sel: "(if g \<in> set (sort (map fst current)) then map_of current g else None) = map_of current g"
    by (cases "map_of current g") (auto dest!: map_of_SomeD intro: rev_image_eqI)
  obtain rw where rw: "h1 < rw" and r2: "map_of lc2 g =
          (if g \<in> set (removed_ids lc current) then map_option (\<lambda>r. r\<lparr>l_deleted := True, l_rev := rw, l_updated_at := now\<rparr>) (map_of lc1 g)
           else map_of lc1 g)"
    using T by blast
  show "\<exists>rv. h < rv \<and> map_of lc2 g = looped_row hash hidden now lc current g rv"
  proof (cases "map_of current g")
    case None
    have "map_of lc2 g = looped_row hash hidden now lc current g rw"
      using r1 r2 None unfolding sel
      by (cases "map_of lc g") (auto simp: looped_row_def removed_ids_set [OF k])
    with rw hh show ?thesis by (intro exI [of _ rw]) simp
  next
    case (Some e)
    have "map_of lc2 g = looped_row hash hidden now lc current g rv"
      using r1 r2 Some unfolding sel by (simp add: looped_row_def removed_ids_set [OF k])
    with rv show ?thesis by blast
  qed
qed
lemma looped_visible:
  assumes v: "map_of lc2 g = looped_row hash hidden now lc current g rv"
    and ho: "hash_ok hash lc" and nc: "no_collision hash lc current"
  shows "visible lc2 g = offered_listing hidden current g"
proof (cases "map_of current g")
  case None
  with v show ?thesis
    by (cases "map_of lc g") (simp_all add: visible_def offered_listing_def looped_row_def)
next
  case (Some e)
  show ?thesis
  proof (cases "classify (map_of lc g) (hash e) (is_hidden hidden e) = Unchanged")
    case True
    then obtain r where r: "map_of lc g = Some r" "\<not> l_deleted r" "l_hash r = hash e" "l_hidden r = is_hidden hidden e"
      by (cases "map_of lc g") (auto simp: classify_simps)
    have "hash e = hash (l_entry r)" using hash_okD [OF ho r(1)] r(3) by simp
    then have "e = l_entry r" using nc r(1) Some unfolding no_collision_def by blast
    with v Some True r show ?thesis
      by (simp add: visible_def offered_listing_def looped_row_def listed_row_def)
  next
    case False
    with v Some show ?thesis
      by (simp add: visible_def offered_listing_def looped_row_def listed_row_def)
  qed
qed

lemma looped_hash_ok:
  assumes "\<And>g. \<exists>rv. map_of lc2 g = looped_row hash hidden now lc current g rv" and "hash_ok hash lc"
  shows "hash_ok hash lc2"
  unfolding hash_ok_def
proof (intro allI impI)
  fix g r assume r: "map_of lc2 g = Some r"
  obtain rv where "map_of lc2 g = looped_row hash hidden now lc current g rv" using assms(1) by blast
  with r assms(2) show "l_hash r = hash (l_entry r)"
    by (auto simp: looped_row_def listed_row_def hash_ok_def split: option.splits if_splits)
qed

lemma looped_key:
  assumes "map_of lc2 g = looped_row hash hidden now lc current g rv" and "h < rv" and "idx_ok lc h m"
    and "\<And>e. map_of current g = Some e \<Longrightarrow> e_global_id e = g" and "map_of lc2 g = Some r"
  shows "e_global_id (l_entry r) = g \<and> (l_deleted r \<longrightarrow> m < l_rev r)"
proof -
  have "m < rv" using assms(2,3) by (auto simp: idx_ok_def)
  then show ?thesis
    using assms idx_ok_key [OF assms(3), of g] idx_ok_tomb [OF assms(3), of g]
    by (cases "map_of lc g") (auto simp: looped_row_def listed_row_def split: option.splits if_splits)
qed

text \<open>What the transaction of a refresh commits.\<close>

lemma refresh_tx_spec:
  assumes tx: "refresh_tx hash hidden now current h d = (st, d')"
    and fs: "feed_settings d h m" and ok: "idx_ok (local_catalog d) h m" and ho: "hash_ok hash (local_catalog d)"
    and kc: "keyed current" and ids: "\<And>g e. map_of current g = Some e \<Longrightarrow> e_global_id e = g"
    and room: "in_int64 (h + int (length current) + int (length (local_catalog d)))"
  shows "\<exists>m' lc2. feed_settings d' (rs_head st) m' \<and> m \<le> m' \<and> h \<le> rs_head st
     \<and> int (stats_changed st) = rs_head st - h
     \<and> idx_ok (local_catalog d') (rs_head st) m' \<and> hash_ok hash (local_catalog d')
     \<and> d' = d\<lparr>local_catalog := local_catalog d', settings_tbl := settings_tbl d'\<rparr>
     \<and> (\<forall>k. k \<noteq> head_key \<longrightarrow> k \<noteq> min_rev_key \<longrightarrow> k \<noteq> indexed_at_key
           \<longrightarrow> get_setting (settings_tbl d') k = get_setting (settings_tbl d) k)
     \<and> grows (local_catalog d) h lc2 (rs_head st)
     \<and> (\<forall>g. \<exists>rv. h < rv \<and> map_of lc2 g = looped_row hash hidden now (local_catalog d) current g rv)
     \<and> (\<forall>g. map_of (local_catalog d') g = (case map_of lc2 g of None \<Rightarrow> None
            | Some r \<Rightarrow> if l_deleted r \<and> l_rev r \<le> m' then None else Some r))"
proof -
  let ?lc = "local_catalog d"
  let ?st0 = "no_refresh_stats\<lparr>rs_total := length current\<rparr>"
  obtain lc1 h1 st1 where i: "index_items hash hidden now ?lc current (sort (map fst current)) (?lc, h, ?st0) = (lc1, h1, st1)"
    by (metis prod_cases3)
  obtain lc2 h2 st2 where t: "tombstone_items now (removed_ids ?lc current) (lc1, h1, st1) = (lc2, h2, st2)"
    by (metis prod_cases3)
  let ?s0 = "set_setting indexed_at_key (fmt_int now) (settings_tbl d)"
  obtain n lc3 s1 where g: "gc_tombstones now lc2 ?s0 = (n, lc3, s1)" by (metis prod_cases3)
  have st: "st = st2\<lparr>rs_purged := n, rs_head := h2\<rparr>"
    and d': "d' = d\<lparr>local_catalog := lc3, settings_tbl := set_setting head_key (fmt_int h2) s1\<rparr>"
    using tx i t g by (simp_all add: refresh_tx_def Let_def split: prod.splits)
  have rok: "rev_ok ?lc h" using ok by (rule idx_ok_rev)
  note L = loops_spec [OF i t rok kc]
  have hh: "h \<le> h2" using L(2) by (simp add: grows_def)
  have "0 \<le> h" using rok by (simp add: rev_ok_def)
  then have i64: "in_int64 h2" using room hh L(5) by (simp add: in_int64_def)
  have rows: "\<exists>rv. h < rv \<and> map_of lc2 g = looped_row hash hidden now ?lc current g rv" for g
    by (rule L(6))
  have ok2: "idx_ok lc2 h2 m"
    unfolding idx_ok_def
  proof (intro conjI allI)
    show "rev_ok lc2 h2" by (rule L(1))
    show "0 \<le> m" "m \<le> h2" using ok hh by (auto simp: idx_ok_def)
    fix g r
    show "map_of lc2 g = Some r \<longrightarrow> e_global_id (l_entry r) = g \<and> (l_deleted r \<longrightarrow> m < l_rev r)"
      using rows [of g] looped_key [OF _ _ ok ids] by metis
  qed
  have m0: "get_int_setting ?s0 min_rev_key = Inr m" using fs by (simp add: feed_settings_def)
  obtain m' where m': "get_int_setting s1 min_rev_key = Inr m'" "m \<le> m'" "idx_ok lc3 h2 m'"
    and gc: "\<And>g. map_of lc3 g = (case map_of lc2 g of None \<Rightarrow> None
            | Some r \<Rightarrow> if l_deleted r \<and> l_rev r \<le> m' then None else Some r)"
    and oth: "\<And>k. k \<noteq> min_rev_key \<Longrightarrow> get_setting s1 k = get_setting ?s0 k"
    using gc_tombstones_spec [OF g ok2 i64 m0] by blast
  have "hash_ok hash lc2"
    by (rule looped_hash_ok [OF _ ho]) (use rows in blast)
  then have ho3: "hash_ok hash lc3"
    unfolding hash_ok_def gc by (auto split: option.splits if_splits)
  have sc: "int (stats_changed st) = h2 - h"
    using L(3) by (simp add: st stats_changed_def no_refresh_stats_def)
  have fs': "feed_settings d' h2 m'" using m'(1) i64 by (simp add: feed_settings_def d')
  have sets: "get_setting (settings_tbl d') k = get_setting (settings_tbl d) k"
    if "k \<noteq> head_key" "k \<noteq> min_rev_key" "k \<noteq> indexed_at_key" for k
    using that oth [of k] by (simp add: d')
  show ?thesis
    using fs' m' hh sc ho3 sets L(2) rows gc by (intro exI [of _ m'] exI [of _ lc2]) (simp add: st d')
qed

lemma refresh_locked_Inr:
  assumes "refresh_locked hash now listing rfault tfault d = (Inr st, d')" and "feed_settings d h m"
  shows "\<exists>entries. listing = Inr entries \<and> rfault = None \<and> tfault = None
     \<and> refresh_tx hash (hidden_set (hidden_items d)) now (collect_current entries []) h d = (st, d')"
  using assms
  by (auto simp: refresh_locked_def feed_settings_def with_tx_def Let_def split: sum.splits option.splits)

lemma refresh_locked_ok:
  assumes "feed_settings d h m"
  shows "refresh_locked hash now (Inr entries) None None d
     = (let (st, d') = refresh_tx hash (hidden_set (hidden_items d)) now (collect_current entries []) h d in (Inr st, d'))"
  using assms by (simp add: refresh_locked_def feed_settings_def with_tx_def Let_def split: prod.split)

lemma refresh_locked_error: "refresh_locked hash now listing rfault tfault d = (Inl e, d') \<Longrightarrow> d' = d"
  by (auto simp: refresh_locked_def Let_def split: sum.splits option.splits dest: with_tx_error)

lemma ensure_indexed_error: "ensure_indexed hash now listing rfault tfault d = (Inl e, d') \<Longrightarrow> d' = d"
  by (auto simp: ensure_indexed_def split: option.splits prod.splits sum.splits dest: refresh_locked_error)

text \<open>The garbage collection takes tombstones only.\<close>

lemma purged_visible:
  assumes "\<And>g. map_of lc3 g = (case map_of lc2 g of None \<Rightarrow> None
            | Some r \<Rightarrow> if l_deleted r \<and> l_rev r \<le> m' then None else Some r)"
  shows "visible lc3 g = visible lc2 g"
  unfolding visible_def assms by (simp split: option.split)

subsection \<open>A refresh that finds nothing new\<close>

lemma index_items_unchanged:
  "(\<And>g e. g \<in> set ids \<Longrightarrow> map_of current g = Some e
        \<Longrightarrow> classify (map_of existing g) (hash e) (is_hidden hidden e) = Unchanged)
     \<Longrightarrow> index_items hash hidden now existing current ids s = s"
proof (induction ids arbitrary: s)
  case (Cons gid ids)
  obtain lc h st where s: "s = (lc, h, st)" by (metis prod_cases3)
  show ?case
    using Cons.IH [OF Cons.prems] Cons.prems [of gid] by (auto simp: s Let_def split: option.split)
qed simp

definition in_step :: "(entry \<Rightarrow> string) \<Rightarrow> string list \<Rightarrow> (string, local_row) tbl \<Rightarrow> (string, entry) tbl \<Rightarrow> bool" where
  "in_step hash hidden lc current \<longleftrightarrow> (\<forall>g. case map_of current g of
      Some e \<Rightarrow> \<exists>r. map_of lc g = Some r \<and> \<not> l_deleted r \<and> l_hash r = hash e \<and> l_hidden r = is_hidden hidden e
    | None \<Rightarrow> (\<forall>r. map_of lc g = Some r \<longrightarrow> l_deleted r))"

lemma in_step_listed:
  assumes "in_step hash hidden lc current" "map_of current g = Some e"
  obtains r where "map_of lc g = Some r" "\<not> l_deleted r" "l_hash r = hash e" "l_hidden r = is_hidden hidden e"
  using assms(1) [unfolded in_step_def, THEN spec, of g] assms(2) that by auto

lemma in_step_unlisted:
  "in_step hash hidden lc current \<Longrightarrow> map_of current g = None \<Longrightarrow> map_of lc g = Some r \<Longrightarrow> l_deleted r"
  unfolding in_step_def by (drule spec [of _ g]) simp

lemma refresh_tx_in_step:
  assumes "refresh_tx hash hidden now current h d = (st, d')" and "in_step hash hidden (local_catalog d) current"
    and "keyed (local_catalog d)"
  shows "stats_changed st = 0 \<and> rs_head st = h"
proof -
  have u: "classify (map_of (local_catalog d) g) (hash e) (is_hidden hidden e) = Unchanged"
    if "map_of current g = Some e" for g e
    by (rule in_step_listed [OF assms(2) that]) (simp add: classify_simps)
  have "removed_ids (local_catalog d) current = []"
  proof (rule ccontr)
    assume "removed_ids (local_catalog d) current \<noteq> []"
    then obtain g where "g \<in> set (removed_ids (local_catalog d) current)" by (meson last_in_set)
    then show False
      using in_step_unlisted [OF assms(2)] unfolding removed_ids_set [OF assms(3)] by blast
  qed
  moreover have "index_items hash hidden now (local_catalog d) current ids s = s" for ids s
    by (rule index_items_unchanged) (rule u)
  ultimately have "tombstone_items now (removed_ids (local_catalog d) current)
      (index_items hash hidden now (local_catalog d) current (sort (map fst current))
        (local_catalog d, h, no_refresh_stats\<lparr>rs_total := length current\<rparr>))
      = (local_catalog d, h, no_refresh_stats\<lparr>rs_total := length current\<rparr>)"
    by simp
  moreover obtain n lc3 s1 where "gc_tombstones now (local_catalog d)
      (set_setting indexed_at_key (fmt_int now) (settings_tbl d)) = (n, lc3, s1)"
    by (metis prod_cases3)
  ultimately have "st = no_refresh_stats\<lparr>rs_total := length current, rs_purged := n, rs_head := h\<rparr>"
    using assms(1) by (simp add: refresh_tx_def)
  then show ?thesis by (simp add: stats_changed_def no_refresh_stats_def)
qed

lemma looped_in_step:
  assumes "\<And>g. \<exists>rv. map_of lc2 g = looped_row hash hidden now lc current g rv"
    and "\<And>g. map_of lc3 g = (case map_of lc2 g of None \<Rightarrow> None
            | Some r \<Rightarrow> if l_deleted r \<and> l_rev r \<le> m' then None else Some r)"
  shows "in_step hash hidden lc3 current"
  unfolding in_step_def
proof
  fix g
  obtain rv where rv: "map_of lc2 g = looped_row hash hidden now lc current g rv" using assms(1) by blast
  show "case map_of current g of
      Some e \<Rightarrow> \<exists>r. map_of lc3 g = Some r \<and> \<not> l_deleted r \<and> l_hash r = hash e \<and> l_hidden r = is_hidden hidden e
    | None \<Rightarrow> (\<forall>r. map_of lc3 g = Some r \<longrightarrow> l_deleted r)"
  proof (cases "map_of current g")
    case None
    with rv show ?thesis unfolding assms(2) by (cases "map_of lc g") (auto simp: looped_row_def)
  next
    case (Some e)
    with rv show ?thesis
      unfolding assms(2)
      by (cases "map_of lc g") (auto simp: looped_row_def listed_row_def classify_simps)
  qed
qed

end
