(* ===== verification/Pull.thy ===== *)
theory Pull
  imports IndexProps
begin

section \<open>Pulling a peer's change feed (internal/catalog/pull.go)\<close>

text \<open>
  The client side of the feed: the cursor stored in \<open>peer_sync_state\<close>, one page applied to the mirror
  \<open>peer_catalog\<close> together with the cursor it advances to, and the loop of \<open>pullPeer\<close>. What the
  network answers is an argument: \<open>fetch k epoch since limit\<close> is the answer to the \<open>k\<close>-th request
  (the peer's feed may move on between two requests) and \<open>fault k\<close> a failing \<open>k\<close>-th transaction.
  The loop may never end, so it has a fuel argument and \<open>None\<close> means that the fuel ran out; each
  fetched page takes one unit. Logging and durations are left out.
\<close>

definition pull_page_size :: nat where "pull_page_size = 2000"

record cursor =
  cur_epoch :: string
  cur_rev :: int
  cur_gen :: int
  cur_resync :: bool
  cur_requested :: bool

definition zero_cursor :: cursor where
  "zero_cursor = \<lparr>cur_epoch = [], cur_rev = 0, cur_gen = 0, cur_resync = False, cur_requested = False\<rparr>"

record pull_stats =
  ps_peer :: string
  ps_upserts :: nat
  ps_deletes :: nat
  ps_swept :: nat
  ps_pages :: nat
  ps_resync :: bool
  ps_legacy :: bool
  ps_head :: int
  ps_err :: "go_error option"

definition no_pull_stats :: "string \<Rightarrow> pull_stats" where
  "no_pull_stats p = \<lparr>ps_peer = p, ps_upserts = 0, ps_deletes = 0, ps_swept = 0, ps_pages = 0,
     ps_resync = False, ps_legacy = False, ps_head = 0, ps_err = None\<rparr>"

definition pull_changes :: "pull_stats \<Rightarrow> nat" where
  "pull_changes s = ps_upserts s + ps_deletes s + ps_swept s"

text \<open>What an HTTP answer means to \<open>fetchChanges\<close>; \<open>None\<close> is a body that does not decode.\<close>

definition fetch_changes :: "go_error + (nat \<times> feed option) \<Rightarrow> go_error + feed" where
  "fetch_changes resp =
     (case resp of
        Inl e \<Rightarrow> Inl (ErrMsg ''fetching catalog changes'')
      | Inr (status, body) \<Rightarrow>
          if status = 200 then (case body of None \<Rightarrow> Inl (ErrMsg ''decoding catalog changes'') | Some f \<Rightarrow> Inr f)
          else if status = 404 \<or> status = 405 then Inl ErrFeedUnsupported
          else Inl (ErrMsg ''fetching catalog changes: status''))"

definition fetch_peer_catalog :: "go_error + (nat \<times> entry list option) \<Rightarrow> go_error + entry list" where
  "fetch_peer_catalog resp =
     (case resp of
        Inl e \<Rightarrow> Inl (ErrMsg ''fetching catalog'')
      | Inr (status, body) \<Rightarrow>
          if status \<noteq> 200 then Inl (ErrMsg ''fetching catalog: status'')
          else (case body of None \<Rightarrow> Inl (ErrMsg ''decoding catalog'') | Some es \<Rightarrow> Inr es))"

subsection \<open>The cursor\<close>

definition load_cursor :: "go_error option \<Rightarrow> database \<Rightarrow> string \<Rightarrow> go_error + cursor" where
  "load_cursor fault d p =
     (case fault of
        Some e \<Rightarrow> Inl (ErrDb ''loading sync cursor'')
      | None \<Rightarrow>
          (case map_of (peer_sync_state d) p of
             None \<Rightarrow> Inr zero_cursor
           | Some r \<Rightarrow>
               let c = \<lparr>cur_epoch = s_epoch r, cur_rev = s_rev r, cur_gen = s_gen r,
                        cur_resync = s_resync r, cur_requested = s_resync_requested r\<rparr>
               in Inr (if cur_requested c then c\<lparr>cur_epoch := [], cur_rev := 0\<rparr> else c)))"

definition request_resync :: "go_error option \<Rightarrow> database \<Rightarrow> string \<Rightarrow> (go_error + unit) \<times> database" where
  "request_resync fault d p =
     (case fault of
        Some e \<Rightarrow> (Inl (ErrDb ''requesting resync''), d)
      | None \<Rightarrow>
          (Inr (), d\<lparr>peer_sync_state := tbl_upsert p
             (case map_of (peer_sync_state d) p of
                None \<Rightarrow> \<lparr>s_epoch = [], s_rev = 0, s_gen = 0, s_resync = False, s_synced_at = 0,
                         s_resync_requested = True\<rparr>
              | Some r \<Rightarrow> r\<lparr>s_resync_requested := True\<rparr>) (peer_sync_state d)\<rparr>))"

text \<open>The cursor's \<open>INSERT .. ON CONFLICT DO UPDATE\<close>.\<close>

definition save_cursor :: "string \<Rightarrow> cursor \<Rightarrow> (string, sync_row) tbl \<Rightarrow> (string, sync_row) tbl" where
  "save_cursor p cur t =
     tbl_upsert p
       (case map_of t p of
          None \<Rightarrow> \<lparr>s_epoch = cur_epoch cur, s_rev = cur_rev cur, s_gen = cur_gen cur,
                   s_resync = cur_resync cur, s_synced_at = 0, s_resync_requested = False\<rparr>
        | Some r \<Rightarrow> r\<lparr>s_epoch := cur_epoch cur, s_rev := cur_rev cur, s_gen := cur_gen cur,
                      s_resync := cur_resync cur,
                      s_resync_requested := (if cur_requested cur then False else s_resync_requested r)\<rparr>) t"

subsection \<open>Applying a page\<close>

type_synonym mirror = "(string \<times> string, mirror_row) tbl"

fun apply_rows :: "string \<Rightarrow> int \<Rightarrow> change list \<Rightarrow> nat \<times> nat \<times> mirror \<Rightarrow> nat \<times> nat \<times> mirror" where
  "apply_rows p gen [] s = s"
| "apply_rows p gen (c # cs) (ups, dels, m) =
     (case (if ch_deleted c then None else ch_entry c) of
        None \<Rightarrow> apply_rows p gen cs (ups, Suc dels, tbl_delete (p, ch_global_id c) m)
      | Some e \<Rightarrow> apply_rows p gen cs
                   (Suc ups, dels, tbl_upsert (p, e_global_id e) \<lparr>m_entry = e, m_gen = gen\<rparr> m))"

definition apply_changes ::
  "go_error option \<Rightarrow> string \<Rightarrow> cursor \<Rightarrow> change list \<Rightarrow> bool \<Rightarrow> database
     \<Rightarrow> (go_error + nat \<times> nat \<times> nat) \<times> database" where
  "apply_changes fault p cur cs sweep d =
     with_tx fault (\<lambda>d.
       let st = save_cursor p cur (peer_sync_state d);
           (ups, dels, m) = apply_rows p (cur_gen cur) cs (0, 0, peer_catalog d);
           stale = (\<lambda>k r. fst k = p \<and> m_gen r < cur_gen cur);
           swept = (if sweep then tbl_count stale m else 0);
           m = (if sweep then tbl_delete_where stale m else m)
       in Inr ((ups, dels, swept), d\<lparr>peer_sync_state := st, peer_catalog := m\<rparr>)) d"

subsection \<open>The loop\<close>

text \<open>One round: the pull goes on with the advanced cursor, or it is over.\<close>

datatype page_result = Continue cursor | Done "go_error option" | Legacy

definition pull_page ::
  "string \<Rightarrow> go_error + feed \<Rightarrow> go_error option \<Rightarrow> cursor \<times> pull_stats \<times> database
     \<Rightarrow> page_result \<times> pull_stats \<times> database" where
  "pull_page p answer fault s =
     (let (cur, st, d) = s
      in case answer of
           Inl e \<Rightarrow> if e = ErrFeedUnsupported then (Legacy, st, d) else (Done (Some e), st, d)
         | Inr feed \<Rightarrow>
             let st = st\<lparr>ps_pages := Suc (ps_pages st), ps_head := f_head feed\<rparr>;
                 restart = (f_reset feed \<or> f_epoch feed \<noteq> cur_epoch cur);
                 cur = (if restart then cur\<lparr>cur_epoch := f_epoch feed, cur_gen := cur_gen cur + 1, cur_resync := True\<rparr>
                        else cur);
                 st = (if restart then st\<lparr>ps_resync := True\<rparr> else st)
             in if f_more feed \<and> f_next feed \<le> cur_rev cur \<and> \<not> f_reset feed
                then (Done (Some (ErrMsg ''change feed did not advance'')), st, d)
                else
                  let cur = cur\<lparr>cur_rev := f_next feed\<rparr>;
                      sweep = (\<not> f_more feed \<and> cur_resync cur);
                      cur = (if sweep then cur\<lparr>cur_resync := False\<rparr> else cur)
                  in case apply_changes fault p cur (f_changes feed) sweep d of
                       (Inl e, d) \<Rightarrow> (Done (Some e), st, d)
                     | (Inr (ups, dels, swept), d) \<Rightarrow>
                         let cur = cur\<lparr>cur_requested := False\<rparr>;
                             st = st\<lparr>ps_upserts := ps_upserts st + ups, ps_deletes := ps_deletes st + dels,
                                     ps_swept := ps_swept st + swept\<rparr>
                         in (if f_more feed then Continue cur else Done None, st, d))"

definition pull_legacy ::
  "string \<Rightarrow> go_error + entry list \<Rightarrow> go_error option \<Rightarrow> cursor \<times> pull_stats \<times> database
     \<Rightarrow> go_error option \<times> pull_stats \<times> database" where
  "pull_legacy p answer fault s =
     (let (cur, st, d) = s; st = st\<lparr>ps_legacy := True\<rparr>
      in case answer of
           Inl e \<Rightarrow> (Some e, st, d)
         | Inr entries \<Rightarrow>
             let st = st\<lparr>ps_pages := Suc (ps_pages st)\<rparr>;
                 cs = map (\<lambda>e. \<lparr>ch_rev = 0, ch_global_id = e_global_id e, ch_deleted = False, ch_entry = Some e\<rparr>) entries;
                 next = zero_cursor\<lparr>cur_gen := cur_gen cur + 1, cur_requested := cur_requested cur\<rparr>
             in case apply_changes fault p next cs True d of
                  (Inl e, d) \<Rightarrow> (Some e, st, d)
                | (Inr (ups, dels, swept), d) \<Rightarrow> (None, st\<lparr>ps_upserts := ups, ps_swept := swept\<rparr>, d))"

text \<open>What the outside does during one pull.\<close>

record pull_env =
  pe_fetch :: "nat \<Rightarrow> string \<Rightarrow> int \<Rightarrow> nat \<Rightarrow> go_error + feed"
  pe_legacy :: "go_error + entry list"
  pe_fault :: "nat \<Rightarrow> go_error option"
  pe_load_fault :: "go_error option"
  pe_mark_fault :: "go_error option"
  pe_now :: int

fun pull_loop ::
  "pull_env \<Rightarrow> nat \<Rightarrow> string \<Rightarrow> nat \<Rightarrow> nat \<Rightarrow> cursor \<times> pull_stats \<times> database
     \<Rightarrow> (go_error option \<times> pull_stats \<times> database) option" where
  "pull_loop env limit p 0 k s = None"
| "pull_loop env limit p (Suc fuel) k s =
     (case pull_page p (pe_fetch env k (cur_epoch (fst s)) (cur_rev (fst s)) limit) (pe_fault env k) s of
        (Continue cur, st, d) \<Rightarrow> pull_loop env limit p fuel (Suc k) (cur, st, d)
      | (Done err, st, d) \<Rightarrow> Some (err, st, d)
      | (Legacy, st, d) \<Rightarrow> Some (pull_legacy p (pe_legacy env) (pe_fault env k) (fst s, st, d)))"

definition pull_peer ::
  "pull_env \<Rightarrow> nat \<Rightarrow> nat \<Rightarrow> string \<Rightarrow> database \<Rightarrow> (go_error option \<times> pull_stats \<times> database) option" where
  "pull_peer env limit fuel p d =
     (case load_cursor (pe_load_fault env) d p of
        Inl e \<Rightarrow> Some (Some e, no_pull_stats p, d)
      | Inr cur \<Rightarrow> pull_loop env limit p fuel 0 (cur, no_pull_stats p, d))"

definition mark_synced :: "go_error option \<Rightarrow> int \<Rightarrow> string \<Rightarrow> database \<Rightarrow> go_error option \<times> database" where
  "mark_synced fault now p d =
     (case fault of
        Some e \<Rightarrow> (Some (ErrDb ''recording successful sync''), d)
      | None \<Rightarrow> (None, d\<lparr>peer_sync_state :=
                   tbl_update_where (\<lambda>k _. k = p) (\<lambda>r. r\<lparr>s_synced_at := now\<rparr>) (peer_sync_state d)\<rparr>))"

text \<open>
  \<open>pullPeers\<close>. The goroutines share only the database, each writes the rows of its own peer, and
  \<open>mirrorMu\<close> orders the transactions; here they run one after the other.
\<close>

fun pull_peers ::
  "(string \<Rightarrow> pull_env) \<Rightarrow> nat \<Rightarrow> nat \<Rightarrow> string list \<Rightarrow> database \<Rightarrow> (pull_stats list \<times> database) option" where
  "pull_peers envs limit fuel [] d = Some ([], d)"
| "pull_peers envs limit fuel (p # ps) d =
     (case pull_peer (envs p) limit fuel p d of
        None \<Rightarrow> None
      | Some (err, st, d) \<Rightarrow>
          let (err, d) = (case err of
                 None \<Rightarrow> mark_synced (pe_mark_fault (envs p)) (pe_now (envs p)) p d
               | Some e \<Rightarrow> (Some e, d))
          in (case pull_peers envs limit fuel ps d of
                None \<Rightarrow> None
              | Some (sts, d) \<Rightarrow> Some (st\<lparr>ps_err := err\<rparr> # sts, d)))"

definition last_sync_times :: "database \<Rightarrow> (string \<times> int) list" where
  "last_sync_times d = map (\<lambda>(p, r). (p, s_synced_at r)) (filter (\<lambda>(_, r). 0 < s_synced_at r) (peer_sync_state d))"

definition prune_removed_peers :: "go_error option \<Rightarrow> string list \<Rightarrow> database \<Rightarrow> (go_error + unit) \<times> database" where
  "prune_removed_peers fault known d =
     with_tx fault (\<lambda>d. Inr ((), d\<lparr>
        peer_sync_state := tbl_delete_where (\<lambda>p _. p \<notin> set known) (peer_sync_state d),
        peer_excluded_folders := tbl_delete_where (\<lambda>k _. fst k \<notin> set known) (peer_excluded_folders d),
        peer_catalog := tbl_delete_where (\<lambda>k _. fst k \<notin> set known) (peer_catalog d)\<rparr>)) d"

subsection \<open>Lemmas on one page\<close>

text \<open>The writes of a page, in the form of the store contract.\<close>

definition page_writes :: "string \<Rightarrow> int \<Rightarrow> change list \<Rightarrow> ((string \<times> string) \<times> mirror_row option) list" where
  "page_writes p gen cs = map (\<lambda>c. case (if ch_deleted c then None else ch_entry c) of
       None \<Rightarrow> ((p, ch_global_id c), None)
     | Some e \<Rightarrow> ((p, e_global_id e), Some \<lparr>m_entry = e, m_gen = gen\<rparr>)) cs"

lemma apply_rows_fold:
  "snd (snd (apply_rows p gen cs (ups, dels, m)))
     = fold (\<lambda>(k, x). case x of None \<Rightarrow> tbl_delete k | Some r \<Rightarrow> tbl_upsert k r) (page_writes p gen cs) m"
  by (induction cs arbitrary: ups dels m) (auto simp: page_writes_def split: option.split)

lemma apply_rows_keyed: "keyed m \<Longrightarrow> keyed (snd (snd (apply_rows p gen cs (ups, dels, m))))"
  unfolding apply_rows_fold by (rule tbl.wf_fold_write)

lemma apply_rows_get:
  "keyed m \<Longrightarrow> map_of (snd (snd (apply_rows p gen cs (ups, dels, m)))) j
     = (case map_of (rev (page_writes p gen cs)) j of None \<Rightarrow> map_of m j | Some x \<Rightarrow> x)"
  unfolding apply_rows_fold by (rule tbl.get_fold_write)

lemma page_writes_peer: "map_of (rev (page_writes p gen cs)) j = Some x \<Longrightarrow> fst j = p"
  by (drule map_of_SomeD) (auto simp: page_writes_def split: option.splits if_splits)

lemma apply_rows_count:
  "apply_rows p gen cs (ups, dels, m) = (ups', dels', m') \<Longrightarrow> ups' + dels' = ups + dels + length cs"
  by (induction cs arbitrary: ups dels m) (fastforce split: option.splits if_splits)+

definition page_mirror :: "string \<Rightarrow> cursor \<Rightarrow> change list \<Rightarrow> bool \<Rightarrow> mirror \<Rightarrow> mirror" where
  "page_mirror p cur cs sweep m =
     (let m = snd (snd (apply_rows p (cur_gen cur) cs (0, 0, m)))
      in if sweep then tbl_delete_where (\<lambda>k r. fst k = p \<and> m_gen r < cur_gen cur) m else m)"

lemma apply_changes_ok:
  "apply_changes fault p cur cs sweep d = (Inr x, d') \<Longrightarrow>
     fault = None \<and> d' = d\<lparr>peer_sync_state := save_cursor p cur (peer_sync_state d),
                           peer_catalog := page_mirror p cur cs sweep (peer_catalog d)\<rparr>"
  by (auto simp: apply_changes_def page_mirror_def Let_def with_tx_def split: option.splits prod.splits)

lemma apply_changes_None: "apply_changes None p cur cs sweep d \<noteq> (Inl e, d')"
  by (auto simp: apply_changes_def with_tx_def Let_def split: prod.splits)

lemma apply_changes_error: "apply_changes fault p cur cs sweep d = (Inl e, d') \<Longrightarrow> d' = d"
  unfolding apply_changes_def by (rule with_tx_error)

lemma page_mirror_keyed: "keyed m \<Longrightarrow> keyed (page_mirror p cur cs sweep m)"
  by (simp add: page_mirror_def Let_def apply_rows_keyed)

lemma page_mirror_get:
  "keyed m \<Longrightarrow> map_of (page_mirror p cur cs sweep m) j =
     (case (case map_of (rev (page_writes p (cur_gen cur) cs)) j of None \<Rightarrow> map_of m j | Some x \<Rightarrow> x) of
        None \<Rightarrow> None
      | Some r \<Rightarrow> if sweep \<and> fst j = p \<and> m_gen r < cur_gen cur then None else Some r)"
  by (simp add: page_mirror_def Let_def apply_rows_get apply_rows_keyed split: option.split)

text \<open>A page of one peer leaves the rows of every other peer as they are.\<close>

lemma page_mirror_other: "keyed m \<Longrightarrow> fst j \<noteq> p \<Longrightarrow> map_of (page_mirror p cur cs sweep m) j = map_of m j"
  by (auto simp: page_mirror_get dest: page_writes_peer split: option.splits)

lemma save_cursor_get_other: "q \<noteq> p \<Longrightarrow> map_of (save_cursor p cur t) q = map_of t q"
  by (simp add: save_cursor_def)

lemma save_cursor_keyed: "keyed t \<Longrightarrow> keyed (save_cursor p cur t)"
  by (simp add: save_cursor_def)

subsection \<open>Lemmas on one round\<close>

text \<open>The cursor a page advances to, as it is saved with the page.\<close>

definition page_cursor :: "feed \<Rightarrow> cursor \<Rightarrow> cursor" where
  "page_cursor f cur =
     (let cur = (if f_reset f \<or> f_epoch f \<noteq> cur_epoch cur
                 then cur\<lparr>cur_epoch := f_epoch f, cur_gen := cur_gen cur + 1, cur_resync := True\<rparr> else cur)
      in cur\<lparr>cur_rev := f_next f, cur_resync := (f_more f \<and> cur_resync cur)\<rparr>)"

lemma page_cursor_sel [simp]:
  "cur_rev (page_cursor f cur) = f_next f" "cur_epoch (page_cursor f cur) = f_epoch f"
  "cur_requested (page_cursor f cur) = cur_requested cur"
  "cur_gen (page_cursor f cur) = (if f_reset f \<or> f_epoch f \<noteq> cur_epoch cur then cur_gen cur + 1 else cur_gen cur)"
  "cur_resync (page_cursor f cur) = (f_more f \<and> (f_reset f \<or> f_epoch f \<noteq> cur_epoch cur \<or> cur_resync cur))"
  by (auto simp: page_cursor_def)

definition page_sweeps :: "feed \<Rightarrow> cursor \<Rightarrow> bool" where
  "page_sweeps f cur \<longleftrightarrow> \<not> f_more f \<and> (f_reset f \<or> f_epoch f \<noteq> cur_epoch cur \<or> cur_resync cur)"

lemma pull_page_Inr:
  assumes "pull_page p (Inr f) None (cur, st, d) = (res, st', d')"
    and "\<not> (f_more f \<and> f_next f \<le> cur_rev cur \<and> \<not> f_reset f)"
  shows "res = (if f_more f then Continue ((page_cursor f cur)\<lparr>cur_requested := False\<rparr>) else Done None)
     \<and> d' = d\<lparr>peer_sync_state := save_cursor p (page_cursor f cur) (peer_sync_state d),
             peer_catalog := page_mirror p (page_cursor f cur) (f_changes f) (page_sweeps f cur) (peer_catalog d)\<rparr>"
proof (cases "f_reset f \<or> f_epoch f \<noteq> cur_epoch cur")
  case True
  then show ?thesis
    using assms unfolding page_cursor_def page_sweeps_def
    by (cases cur; cases "f_more f")
       (auto simp: pull_page_def Let_def apply_changes_None split: prod.splits sum.splits dest!: apply_changes_ok)
next
  case False
  then show ?thesis
    using assms unfolding page_cursor_def page_sweeps_def
    by (cases cur; cases "f_more f"; cases "cur_resync cur")
       (auto simp: pull_page_def Let_def apply_changes_None split: prod.splits sum.splits dest!: apply_changes_ok)
qed

lemma pull_page_stops:
  assumes "pull_page p ans fault (cur, st, d) = (Done (Some e), st', d')" shows "d' = d"
proof (cases ans)
  case (Inl a)
  with assms show ?thesis by (auto simp: pull_page_def split: if_splits)
next
  case (Inr f)
  with assms show ?thesis
    by (auto simp: pull_page_def Let_def split: if_splits prod.splits sum.splits dest!: apply_changes_error)
qed

end
