(* ===== verification/Replication.thy ===== *)
theory Replication
  imports Pull
begin

section \<open>Replicating a catalog: the feed's contract and the puller\<close>

text \<open>
  The interface between the serving node (\<open>Index.Changes\<close>) and the pulling one (\<open>pullPeer\<close>), as the
  locale \<open>change_feed\<close>: what a page holds, when the feed resets, that pages advance. The
  puller's page is proved correct once under these laws. The locale is interpreted on \<open>changes\<close>
  and, extended by how a feed may move (\<open>moving_feed\<close>), on \<open>refreshLocked\<close>. The section closes
  with the whole system as a step relation: refreshes of the server, pages, failing requests and
  transactions, requests for a resync, recreated server databases and pulls of other peers, in
  any order.
\<close>

subsection \<open>What a mirror is to hold\<close>

text \<open>The change of an id at a revision; \<open>None\<close> for an item not on offer.\<close>

definition change_at :: "string \<Rightarrow> int \<Rightarrow> entry option \<Rightarrow> change" where
  "change_at g r x = \<lparr>ch_rev = r, ch_global_id = g, ch_deleted = (x = None), ch_entry = x\<rparr>"

definition usable :: "string \<Rightarrow> int \<Rightarrow> int \<Rightarrow> string \<Rightarrow> int \<Rightarrow> bool" where
  "usable my_epoch newest low e c \<longleftrightarrow> e \<noteq> [] \<and> e = my_epoch \<and> 0 \<le> c \<and> c \<le> newest \<and> (c = 0 \<or> low \<le> c)"

text \<open>The mirror's item under the current generation.\<close>

definition fresh :: "string \<Rightarrow> int \<Rightarrow> mirror \<Rightarrow> string \<Rightarrow> entry option" where
  "fresh p gen m g = (case map_of m (p, g) of
     None \<Rightarrow> None | Some r \<Rightarrow> if m_gen r = gen then Some (m_entry r) else None)"

definition gens_ok :: "string \<Rightarrow> cursor \<Rightarrow> mirror \<Rightarrow> bool" where
  "gens_ok p cur m \<longleftrightarrow> (\<forall>g r. map_of m (p, g) = Some r \<longrightarrow>
     m_gen r \<le> cur_gen cur \<and> (\<not> cur_resync cur \<longrightarrow> m_gen r = cur_gen cur))"

text \<open>
  How far a mirror follows a feed: every row up to the cursor is mirrored as it is, and, as long as
  the cursor is usable, nothing else is there.
\<close>

definition follows ::
  "(string \<Rightarrow> (int \<times> entry option) option) \<Rightarrow> int \<Rightarrow> int \<Rightarrow> string \<Rightarrow> int \<Rightarrow> int \<Rightarrow> mirror \<Rightarrow> bool" where
  "follows row newest low p gen c m \<longleftrightarrow> 0 \<le> c \<and> c \<le> newest
     \<and> (\<forall>g r x. row g = Some (r, x) \<longrightarrow> r \<le> c \<longrightarrow> fresh p gen m g = x)
     \<and> (c = 0 \<longrightarrow> (\<forall>g. fresh p gen m g = None))
     \<and> (low \<le> c \<longrightarrow> (\<forall>g. fresh p gen m g \<noteq> None \<longrightarrow> row g \<noteq> None))"

definition synced ::
  "(string \<Rightarrow> (int \<times> entry option) option) \<Rightarrow> int \<Rightarrow> int \<Rightarrow> string \<Rightarrow> string \<Rightarrow> cursor \<Rightarrow> mirror \<Rightarrow> bool" where
  "synced row newest low my_epoch p cur m \<longleftrightarrow> keyed m \<and> gens_ok p cur m
     \<and> (cur_epoch cur = my_epoch \<longrightarrow> follows row newest low p (cur_gen cur) (cur_rev cur) m)"

definition row_value :: "(int \<times> entry option) option \<Rightarrow> entry option" where
  "row_value x = (case x of None \<Rightarrow> None | Some (r, y) \<Rightarrow> y)"

definition mirrors :: "(string \<Rightarrow> (int \<times> entry option) option) \<Rightarrow> string \<Rightarrow> mirror \<Rightarrow> bool" where
  "mirrors row p m \<longleftrightarrow> (\<forall>g. map_option m_entry (map_of m (p, g)) = row_value (row g))"

subsection \<open>The contract\<close>

lemma gens_fresh: "gens_ok p cur m \<Longrightarrow> \<not> cur_resync cur \<Longrightarrow> fresh p (cur_gen cur) m g = map_option m_entry (map_of m (p, g))"
  by (auto simp: gens_ok_def fresh_def split: option.split)

lemma gens_fresh_new: "gens_ok p cur m \<Longrightarrow> cur_gen cur < gen \<Longrightarrow> fresh p gen m g = None"
  by (force simp: gens_ok_def fresh_def split: option.split)

lemma page_writes_gen:
  "map_of (rev (page_writes p gen cs)) j = Some (Some r) \<Longrightarrow> m_gen r = gen"
  by (drule map_of_SomeD) (auto simp: page_writes_def split: option.splits if_splits)

lemma page_mirror_fresh:
  assumes "keyed m"
  shows "fresh p (cur_gen cur) (page_mirror p cur cs sweep m) g =
     (case map_of (rev (page_writes p (cur_gen cur) cs)) (p, g) of
        None \<Rightarrow> fresh p (cur_gen cur) m g | Some x \<Rightarrow> map_option m_entry x)"
  using assms page_writes_gen [of p "cur_gen cur" cs "(p, g)"]
  by (auto simp: fresh_def page_mirror_get split: option.split)

lemma page_mirror_gens:
  assumes k: "keyed m" and old: "\<And>g r. map_of m (p, g) = Some r \<Longrightarrow> m_gen r \<le> cur_gen cur"
    and same: "\<not> cur_resync cur \<Longrightarrow> \<not> sweep \<Longrightarrow> (\<And>g r. map_of m (p, g) = Some r \<Longrightarrow> m_gen r = cur_gen cur)"
  shows "gens_ok p cur (page_mirror p cur cs sweep m)"
  unfolding gens_ok_def
proof (intro allI impI)
  fix g r assume r: "map_of (page_mirror p cur cs sweep m) (p, g) = Some r"
  then consider (w) "map_of (rev (page_writes p (cur_gen cur) cs)) (p, g) = Some (Some r)"
    | (o) "map_of m (p, g) = Some r" "sweep \<longrightarrow> \<not> m_gen r < cur_gen cur"
    by (auto simp: page_mirror_get [OF k] split: option.splits if_splits)
  then show "m_gen r \<le> cur_gen cur \<and> (\<not> cur_resync cur \<longrightarrow> m_gen r = cur_gen cur)"
  proof cases
    case w
    then show ?thesis by (simp add: page_writes_gen)
  next
    case o
    with old [OF o(1)] same [OF _ _ o(1)] show ?thesis by (cases sweep) auto
  qed
qed

locale change_feed =
  fixes serve :: "'s \<Rightarrow> string \<Rightarrow> int \<Rightarrow> nat \<Rightarrow> go_error + feed"
    and epoch_of :: "'s \<Rightarrow> string"
    and hd_of :: "'s \<Rightarrow> int"
    and low_of :: "'s \<Rightarrow> int"
    and row_of :: "'s \<Rightarrow> string \<Rightarrow> (int \<times> entry option) option"
    and ok :: "'s \<Rightarrow> bool"
  assumes bounds: "ok s \<Longrightarrow> 0 \<le> low_of s \<and> low_of s \<le> hd_of s"
    and row_rev: "ok s \<Longrightarrow> row_of s g = Some (r, x) \<Longrightarrow> 0 < r \<and> r \<le> hd_of s"
    and row_id: "ok s \<Longrightarrow> row_of s g = Some (r, Some e) \<Longrightarrow> e_global_id e = g"
    and serve_total: "ok s \<Longrightarrow> 0 < n \<Longrightarrow> \<exists>f. serve s ep c n = Inr f"
    and serve_epoch: "ok s \<Longrightarrow> 0 < n \<Longrightarrow> serve s ep c n = Inr f \<Longrightarrow> f_epoch f = epoch_of s"
    and serve_reset: "ok s \<Longrightarrow> 0 < n \<Longrightarrow> serve s ep c n = Inr f
        \<Longrightarrow> f_reset f = (\<not> usable (epoch_of s) (hd_of s) (low_of s) ep c)"
    and serve_page: "ok s \<Longrightarrow> 0 < n \<Longrightarrow> serve s ep c n = Inr f \<Longrightarrow> st = (if f_reset f then 0 else c)
        \<Longrightarrow> set (f_changes f) = {change_at g r x | g r x. row_of s g = Some (r, x) \<and> st < r
              \<and> r \<le> f_next f \<and> (st = 0 \<longrightarrow> x \<noteq> None)}"
    and serve_distinct: "ok s \<Longrightarrow> 0 < n \<Longrightarrow> serve s ep c n = Inr f \<Longrightarrow> distinct (map ch_global_id (f_changes f))"
    and serve_next: "ok s \<Longrightarrow> 0 < n \<Longrightarrow> serve s ep c n = Inr f \<Longrightarrow>
          (if f_more f then (if f_reset f then 0 else c) < f_next f \<and> f_next f \<le> hd_of s else f_next f = hd_of s)"
begin

lemma serve_writes:
  assumes ok: "ok s" "0 < n" and f: "serve s ep c n = Inr f" and st: "st = (if f_reset f then 0 else c)"
  shows "map_of (rev (page_writes p gen (f_changes f))) (p, g) =
     (case row_of s g of None \<Rightarrow> None
      | Some (r, x) \<Rightarrow> if st < r \<and> r \<le> f_next f \<and> (st = 0 \<longrightarrow> x \<noteq> None)
          then Some (map_option (\<lambda>e. \<lparr>m_entry = e, m_gen = gen\<rparr>) x) else None)"
proof -
  note page = serve_page [OF ok f st]
  let ?w = "\<lambda>ch. ((p, ch_global_id ch), map_option (\<lambda>e. \<lparr>m_entry = e, m_gen = gen\<rparr>) (ch_entry ch))"
  have w: "page_writes p gen (f_changes f) = map ?w (f_changes f)"
    unfolding page_writes_def
  proof (rule map_cong [OF refl])
    fix ch assume "ch \<in> set (f_changes f)"
    then obtain g r x where "ch = change_at g r x" "row_of s g = Some (r, x)" unfolding page by blast
    then show "(case if ch_deleted ch then None else ch_entry ch of
         None \<Rightarrow> ((p, ch_global_id ch), None)
       | Some e \<Rightarrow> ((p, e_global_id e), Some \<lparr>m_entry = e, m_gen = gen\<rparr>)) = ?w ch"
      using row_id [OF ok(1)] by (cases x) (auto simp: change_at_def)
  qed
  have fsts: "map fst (map ?w (f_changes f)) = map (Pair p) (map ch_global_id (f_changes f))"
    unfolding map_map by (rule map_cong) simp_all
  have "distinct (map fst (map ?w (f_changes f)))"
    unfolding fsts distinct_map [of "Pair p"] using serve_distinct [OF ok f] by (blast intro: inj_onI)
  then have d: "distinct (map fst (rev (map ?w (f_changes f))))"
    by (simp only: rev_map [symmetric] distinct_rev)
  have eq: "map_of (rev (map ?w (f_changes f))) k = Some v \<longleftrightarrow> (k, v) \<in> ?w ` set (f_changes f)" for k v
    unfolding map_of_eq_Some_iff [OF d] by (simp only: set_rev set_map)
  have mem: "((p, g), v) \<in> ?w ` set (f_changes f) \<longleftrightarrow>
      (\<exists>r x. row_of s g = Some (r, x) \<and> st < r \<and> r \<le> f_next f \<and> (st = 0 \<longrightarrow> x \<noteq> None)
           \<and> v = map_option (\<lambda>e. \<lparr>m_entry = e, m_gen = gen\<rparr>) x)" for v
    unfolding page by (force simp: change_at_def)
  show ?thesis
  proof (cases "map_of (rev (map ?w (f_changes f))) (p, g)")
    case None
    then have "\<not> (\<exists>v. ((p, g), v) \<in> ?w ` set (f_changes f))" unfolding eq [symmetric] None by simp
    then have "\<not> (\<exists>r x. row_of s g = Some (r, x) \<and> st < r \<and> r \<le> f_next f \<and> (st = 0 \<longrightarrow> x \<noteq> None))"
      unfolding mem by blast
    then show ?thesis unfolding w None by (auto split: option.split)
  next
    case (Some v)
    then have "((p, g), v) \<in> ?w ` set (f_changes f)" by (simp only: eq)
    then show ?thesis unfolding mem w Some by auto
  qed
qed

lemma serve_follows:
  assumes ok: "ok s" "0 < n" and f: "serve s ep c n = Inr f" and st: "st = (if f_reset f then 0 else c)"
    and k: "keyed m" and start: "st = 0 \<or> low_of s \<le> st"
    and fol: "follows (row_of s) (hd_of s) (low_of s) p (cur_gen cur) st m"
  shows "follows (row_of s) (hd_of s) (low_of s) p (cur_gen cur) (f_next f)
           (page_mirror p cur (f_changes f) sweep m)"
proof -
  let ?m = "page_mirror p cur (f_changes f) sweep m"
  let ?F = "fresh p (cur_gen cur) m" and ?F' = "fresh p (cur_gen cur) ?m"
  have F: "?F' g = (case row_of s g of None \<Rightarrow> ?F g
      | Some (r, x) \<Rightarrow> if st < r \<and> r \<le> f_next f \<and> (st = 0 \<longrightarrow> x \<noteq> None) then x else ?F g)" for g
  proof -
    have "map_option m_entry (map_option (\<lambda>e. \<lparr>m_entry = e, m_gen = gen\<rparr>) x) = x" for x :: "entry option" and gen
      by (cases x) simp_all
    then show ?thesis
      unfolding page_mirror_fresh [OF k] serve_writes [OF ok f st]
      by (auto split: option.split prod.split)
  qed
  have st0: "0 \<le> st" "st \<le> hd_of s" using fol by (simp_all add: follows_def)
  have le: "st \<le> f_next f" "f_next f \<le> hd_of s"
    using serve_next [OF ok f] st st0 by (auto split: if_splits)
  have old: "?F g = x" if "row_of s g = Some (r, x)" "r \<le> st" for g r x
    using fol that unfolding follows_def by blast
  have zero: "?F g = None" if "st = 0" for g
    using fol that unfolding follows_def by blast
  have dom: "row_of s g \<noteq> None" if "?F g \<noteq> None" for g
    using fol that start zero unfolding follows_def by (cases "st = 0") auto
  have rows: "?F' g = x" if "row_of s g = Some (r, x)" "r \<le> f_next f" for g r x
    using that old [OF that(1)] zero [of g] by (cases "r \<le> st") (auto simp: F)
  have none: "?F' g = None" if "f_next f = 0" for g
  proof -
    have "st = 0" using that le st0 by simp
    then show ?thesis using zero that by (auto simp: F split: option.split)
  qed
  have rowed: "row_of s g \<noteq> None" if "?F' g \<noteq> None" for g
    using that dom [of g] by (auto simp: F split: option.splits)
  show ?thesis
    unfolding follows_def using st0 le rows none rowed by (simp add: order_trans)
qed

lemma follows_restart:
  "ok s \<Longrightarrow> (\<And>g. fresh p gen m g = None) \<Longrightarrow> follows (row_of s) (hd_of s) (low_of s) p gen 0 m"
  using bounds [of s] by (auto simp: follows_def dest: row_rev)

lemma follows_head:
  assumes "ok s" "follows (row_of s) (hd_of s) (low_of s) p (cur_gen cur) (hd_of s) m" "gens_ok p cur m" "\<not> cur_resync cur"
  shows "mirrors (row_of s) p m"
  unfolding mirrors_def
proof
  fix g
  have "map_option m_entry (map_of m (p, g)) = fresh p (cur_gen cur) m g"
    using gens_fresh [OF assms(3,4)] by simp
  also have "\<dots> = row_value (row_of s g)"
  proof (cases "row_of s g")
    case None
    with assms(1,2) bounds [of s] show ?thesis by (auto simp: follows_def row_value_def)
  next
    case (Some rx)
    with assms(1,2) row_rev [of s] show ?thesis by (cases rx) (auto simp: follows_def row_value_def)
  qed
  finally show "map_option m_entry (map_of m (p, g)) = row_value (row_of s g)" .
qed

text \<open>The puller's round, on a page of the feed and without a fault.\<close>

lemma page_synced:
  assumes ok: "ok s" "0 < n" and ne: "epoch_of s \<noteq> []"
    and sy: "synced (row_of s) (hd_of s) (low_of s) (epoch_of s) p cur (peer_catalog d)"
    and pg: "pull_page p (serve s (cur_epoch cur) (cur_rev cur) n) None (cur, st, d) = (res, st', d')"
  obtains cur' cs sweep where
    "res = Continue (cur'\<lparr>cur_requested := False\<rparr>)
     \<or> res = Done None \<and> \<not> cur_resync cur' \<and> mirrors (row_of s) p (peer_catalog d')"
    "synced (row_of s) (hd_of s) (low_of s) (epoch_of s) p cur' (peer_catalog d')"
    "d' = d\<lparr>peer_sync_state := save_cursor p cur' (peer_sync_state d),
            peer_catalog := page_mirror p cur' cs sweep (peer_catalog d)\<rparr>"
    "cur_requested cur' = cur_requested cur" "cur_epoch cur' = epoch_of s"
proof -
  let ?M = "peer_catalog d"
  have k: "keyed ?M" and go: "gens_ok p cur ?M" using sy by (simp_all add: synced_def)
  obtain f where f: "serve s (cur_epoch cur) (cur_rev cur) n = Inr f"
    using serve_total [OF ok] by blast
  have reset: "f_reset f = (\<not> usable (epoch_of s) (hd_of s) (low_of s) (cur_epoch cur) (cur_rev cur))"
    by (rule serve_reset [OF ok f])
  have ep: "f_epoch f = epoch_of s" by (rule serve_epoch [OF ok f])
  have restart: "(f_reset f \<or> f_epoch f \<noteq> cur_epoch cur) = f_reset f"
    using reset ep ne by (auto simp: usable_def)
  define cur' where "cur' = page_cursor f cur"
  define sweep where "sweep = page_sweeps f cur"
  have adv: "\<not> (f_more f \<and> f_next f \<le> cur_rev cur \<and> \<not> f_reset f)"
    using serve_next [OF ok f] by (auto split: if_splits)
  have pg': "pull_page p (Inr f) None (cur, st, d) = (res, st', d')" using pg f by simp
  let ?m = "page_mirror p cur' (f_changes f) sweep ?M"
  have res: "res = (if f_more f then Continue (cur'\<lparr>cur_requested := False\<rparr>) else Done None)"
    and d': "d' = d\<lparr>peer_sync_state := save_cursor p cur' (peer_sync_state d), peer_catalog := ?m\<rparr>"
    using pull_page_Inr [OF pg' adv] by (simp_all add: cur'_def sweep_def)
  define start where "start = (if f_reset f then 0 else cur_rev cur)"
  have sel: "cur_rev cur' = f_next f" "cur_epoch cur' = epoch_of s" "cur_requested cur' = cur_requested cur"
    "cur_gen cur' = (if f_reset f then cur_gen cur + 1 else cur_gen cur)"
    using restart ep by (auto simp: cur'_def)
  have nores: "\<not> f_reset f \<Longrightarrow> usable (epoch_of s) (hd_of s) (low_of s) (cur_epoch cur) (cur_rev cur)"
    using reset by simp
  have st0: "start = 0 \<or> low_of s \<le> start"
    using nores by (auto simp: start_def usable_def)
  have fol0: "follows (row_of s) (hd_of s) (low_of s) p (cur_gen cur') start ?M"
  proof (cases "f_reset f")
    case True
    then have "fresh p (cur_gen cur') ?M g = None" for g
      using gens_fresh_new [OF go, of "cur_gen cur'"] sel(4) by simp
    with True show ?thesis using follows_restart [OF ok(1)] by (simp add: start_def)
  next
    case False
    with nores sy sel(4) show ?thesis by (simp add: start_def synced_def usable_def)
  qed
  have fol: "follows (row_of s) (hd_of s) (low_of s) p (cur_gen cur') (f_next f) ?m"
    by (rule serve_follows [OF ok f start_def k st0 fol0])
  have gens: "gens_ok p cur' ?m"
  proof (rule page_mirror_gens [OF k])
    fix g r assume r: "map_of ?M (p, g) = Some r"
    have *: "m_gen r \<le> cur_gen cur \<and> (\<not> cur_resync cur \<longrightarrow> m_gen r = cur_gen cur)"
      using go r unfolding gens_ok_def by blast
    then show "m_gen r \<le> cur_gen cur'" using sel(4) by auto
    assume "\<not> cur_resync cur'" "\<not> sweep"
    then have "\<not> cur_resync cur" "\<not> f_reset f" by (auto simp: cur'_def sweep_def page_sweeps_def)
    with * sel(4) show "m_gen r = cur_gen cur'" by simp
  qed
  have "synced (row_of s) (hd_of s) (low_of s) (epoch_of s) p cur' (peer_catalog d')"
    using fol gens page_mirror_keyed [OF k] sel by (simp add: synced_def d')
  moreover have "res = Continue (cur'\<lparr>cur_requested := False\<rparr>)
     \<or> res = Done None \<and> \<not> cur_resync cur' \<and> mirrors (row_of s) p (peer_catalog d')"
  proof (cases "f_more f")
    case True
    then show ?thesis by (simp add: res)
  next
    case False
    then have "f_next f = hd_of s" using serve_next [OF ok f] by simp
    moreover have "\<not> cur_resync cur'" using False by (simp add: cur'_def)
    ultimately show ?thesis
      using follows_head [OF ok(1), of p cur' ?m] fol gens by (simp add: res False d')
  qed
  ultimately show thesis using that [of cur' "f_changes f" sweep] sel d' by blast
qed

text \<open>Pulling from a feed that does not move.\<close>

definition still :: "'s \<Rightarrow> pull_env \<Rightarrow> bool" where
  "still s env \<longleftrightarrow> pe_fetch env = (\<lambda>_. serve s) \<and> pe_fault env = (\<lambda>_. None)"

lemma loop_step:
  assumes ok: "ok s" "0 < n" and still: "still s env" and f: "serve s (cur_epoch cur) (cur_rev cur) n = Inr f"
  shows "\<exists>st' d'. pull_loop env n p (Suc fuel) k (cur, st, d) =
     (if f_more f then pull_loop env n p fuel (Suc k) ((page_cursor f cur)\<lparr>cur_requested := False\<rparr>, st', d')
      else Some (None, st', d'))"
proof -
  obtain res st' d' where pg: "pull_page p (Inr f) None (cur, st, d) = (res, st', d')" by (metis prod_cases3)
  have adv: "\<not> (f_more f \<and> f_next f \<le> cur_rev cur \<and> \<not> f_reset f)"
    using serve_next [OF ok f] by (auto split: if_splits)
  have "pe_fetch env k = serve s" "pe_fault env k = None" using still by (simp_all add: still_def)
  then show ?thesis using pull_page_Inr [OF pg adv] pg by (auto simp: f)
qed

lemma loop_returns_usable:
  assumes ok: "ok s" "0 < n" and ne: "epoch_of s \<noteq> []" and still: "still s env"
    and "cur_epoch cur = epoch_of s" "low_of s \<le> cur_rev cur" "0 \<le> cur_rev cur" "cur_rev cur \<le> hd_of s"
    and "nat (hd_of s - cur_rev cur) < fuel"
  shows "\<exists>st' d'. pull_loop env n p fuel k (cur, st, d) = Some (None, st', d')"
  using assms(5-)
proof (induction fuel arbitrary: k cur st d)
  case (Suc fuel)
  obtain f where f: "serve s (cur_epoch cur) (cur_rev cur) n = Inr f" using serve_total [OF ok] by blast
  have nr: "\<not> f_reset f" using serve_reset [OF ok f] Suc.prems ne by (simp add: usable_def)
  have ep: "f_epoch f = epoch_of s" by (rule serve_epoch [OF ok f])
  obtain st' d' where L: "pull_loop env n p (Suc fuel) k (cur, st, d) =
     (if f_more f then pull_loop env n p fuel (Suc k) ((page_cursor f cur)\<lparr>cur_requested := False\<rparr>, st', d')
      else Some (None, st', d'))"
    using loop_step [where p = p and fuel = fuel and k = k and st = st and d = d, OF ok still f] by blast
  show ?case
  proof (cases "f_more f")
    case True
    with serve_next [OF ok f] nr have "cur_rev cur < f_next f" "f_next f \<le> hd_of s" by simp_all
    then show ?thesis unfolding L using True Suc.prems by (simp add: Suc.IH ep)
  qed (simp add: L del: pull_loop.simps)
qed simp

lemma loop_returns:
  assumes ok: "ok s" "0 < n" and ne: "epoch_of s \<noteq> []" and still: "still s env"
    and scratch: "\<And>ep c f. serve s ep c n = Inr f \<Longrightarrow> f_reset f \<or> c = 0 \<Longrightarrow> f_more f \<Longrightarrow> low_of s \<le> f_next f"
    and fuel: "nat (hd_of s) + 1 < fuel"
  shows "\<exists>st' d'. pull_loop env n p fuel k (cur, st, d) = Some (None, st', d')"
proof -
  obtain fl where fl: "fuel = Suc fl" using fuel by (cases fuel) auto
  obtain f where f: "serve s (cur_epoch cur) (cur_rev cur) n = Inr f" using serve_total [OF ok] by blast
  obtain st' d' where L: "pull_loop env n p (Suc fl) k (cur, st, d) =
     (if f_more f then pull_loop env n p fl (Suc k) ((page_cursor f cur)\<lparr>cur_requested := False\<rparr>, st', d')
      else Some (None, st', d'))"
    using loop_step [where p = p and fuel = fl and k = k and st = st and d = d, OF ok still f] by blast
  show ?thesis
  proof (cases "f_more f")
    case True
    have ep: "f_epoch f = epoch_of s" by (rule serve_epoch [OF ok f])
    have "0 \<le> (if f_reset f then 0 else cur_rev cur)" "f_reset f \<or> cur_rev cur = 0 \<or> low_of s \<le> cur_rev cur"
      using serve_reset [OF ok f] by (auto simp: usable_def)
    with serve_next [OF ok f] True scratch [OF f]
    have nx: "0 \<le> f_next f" "low_of s \<le> f_next f" "f_next f \<le> hd_of s" by (auto split: if_splits)
    show ?thesis
      unfolding fl L using True nx fuel by (simp add: loop_returns_usable [OF ok ne still] ep fl)
  qed (simp add: L fl del: pull_loop.simps)
qed

lemma loop_never_returns:
  assumes ok: "ok s" "0 < n" and still: "still s env"
    and scratch: "\<And>ep c f. serve s ep c n = Inr f \<Longrightarrow> f_reset f \<or> c = 0 \<Longrightarrow> f_more f \<and> f_next f < low_of s"
    and cur: "\<not> usable (epoch_of s) (hd_of s) (low_of s) (cur_epoch cur) (cur_rev cur) \<or> cur_rev cur = 0"
  shows "pull_loop env n p fuel k (cur, st, d) = None"
  using cur
proof (induction fuel arbitrary: k cur st d)
  case (Suc fuel)
  obtain f where f: "serve s (cur_epoch cur) (cur_rev cur) n = Inr f" using serve_total [OF ok] by blast
  have z: "f_reset f \<or> cur_rev cur = 0" using Suc.prems serve_reset [OF ok f] by auto
  have more: "f_more f" "f_next f < low_of s" using scratch [OF f z] by simp_all
  have "0 < f_next f" using serve_next [OF ok f] more z by (auto split: if_splits)
  then have "\<not> usable (epoch_of s) (hd_of s) (low_of s) (f_epoch f) (f_next f)"
    using more by (simp add: usable_def)
  moreover obtain st' d' where "pull_loop env n p (Suc fuel) k (cur, st, d) =
     (if f_more f then pull_loop env n p fuel (Suc k) ((page_cursor f cur)\<lparr>cur_requested := False\<rparr>, st', d')
      else Some (None, st', d'))"
    using loop_step [where p = p and fuel = fuel and k = k and st = st and d = d, OF ok still f] by blast
  ultimately show ?case using more by (simp add: Suc.IH)
qed simp

end

subsection \<open>A feed that moves\<close>

locale moving_feed = change_feed serve epoch_of hd_of low_of row_of ok
  for serve :: "'s \<Rightarrow> string \<Rightarrow> int \<Rightarrow> nat \<Rightarrow> go_error + feed"
    and epoch_of :: "'s \<Rightarrow> string" and hd_of :: "'s \<Rightarrow> int" and low_of :: "'s \<Rightarrow> int"
    and row_of :: "'s \<Rightarrow> string \<Rightarrow> (int \<times> entry option) option" and ok :: "'s \<Rightarrow> bool" +
  fixes moves :: "'s \<Rightarrow> 's \<Rightarrow> bool"
  assumes moves_ok: "ok s \<Longrightarrow> moves s s' \<Longrightarrow> ok s'"
    and moves_epoch: "ok s \<Longrightarrow> moves s s' \<Longrightarrow> epoch_of s' = epoch_of s"
    and moves_head: "ok s \<Longrightarrow> moves s s' \<Longrightarrow> hd_of s \<le> hd_of s'"
    and moves_low: "ok s \<Longrightarrow> moves s s' \<Longrightarrow> low_of s \<le> low_of s'"
    and moves_row: "ok s \<Longrightarrow> moves s s' \<Longrightarrow> row_of s' g = Some (r, x) \<Longrightarrow> row_of s g = Some (r, x) \<or> hd_of s < r"
    and moves_gone: "ok s \<Longrightarrow> moves s s' \<Longrightarrow> row_of s g \<noteq> None \<Longrightarrow> row_of s' g = None
        \<Longrightarrow> hd_of s < low_of s' \<or> (\<exists>r. row_of s g = Some (r, None) \<and> r \<le> low_of s')"
begin

text \<open>What a mirror followed before the move, it follows after it.\<close>

lemma follows_moves:
  assumes ok: "ok s" and mv: "moves s s'" and fol: "follows (row_of s) (hd_of s) (low_of s) p gen c m"
  shows "follows (row_of s') (hd_of s') (low_of s') p gen c m"
proof -
  have c: "0 \<le> c" "c \<le> hd_of s" and zero: "\<And>g. c = 0 \<Longrightarrow> fresh p gen m g = None"
    and old: "\<And>g r x. row_of s g = Some (r, x) \<Longrightarrow> r \<le> c \<Longrightarrow> fresh p gen m g = x"
    and dom: "\<And>g. low_of s \<le> c \<Longrightarrow> fresh p gen m g \<noteq> None \<Longrightarrow> row_of s g \<noteq> None"
    using fol unfolding follows_def by blast+
  have rows: "fresh p gen m g = x" if "row_of s' g = Some (r, x)" "r \<le> c" for g r x
    using moves_row [OF ok mv that(1)] that(2) c(2) old by auto
  have dom': "row_of s' g \<noteq> None" if "low_of s' \<le> c" "fresh p gen m g \<noteq> None" for g
  proof
    assume gone: "row_of s' g = None"
    have "row_of s g \<noteq> None" using dom that moves_low [OF ok mv] by simp
    from moves_gone [OF ok mv this gone] that c old show False by auto
  qed
  show ?thesis
    unfolding follows_def using c rows zero dom' moves_head [OF ok mv] by auto
qed

lemma synced_moves:
  assumes "ok s" "moves s s'" "synced (row_of s) (hd_of s) (low_of s) (epoch_of s) p cur m"
  shows "synced (row_of s') (hd_of s') (low_of s') (epoch_of s') p cur m"
  using assms by (auto simp: synced_def moves_epoch intro: follows_moves)

end

end
