(* ===== verification/FeedModel.thy ===== *)
theory FeedModel
  imports Replication
begin

section \<open>The change feed and the puller, connected\<close>

text \<open>
  \<open>Index.Changes\<close> keeps the contract \<open>change_feed\<close>, and \<open>Refresh\<close> moves a feed the way
  \<open>moving_feed\<close> promises: the two interpretations. Then the system of a serving node, a
  network and a pulling node as a step relation, its invariant, and what a completed pull leaves in
  the mirror.
\<close>

subsection \<open>A database as a feed\<close>

definition feed_row :: "database \<Rightarrow> string \<Rightarrow> (int \<times> entry option) option" where
  "feed_row d g = map_option (\<lambda>r. (l_rev r, if l_deleted r \<or> l_hidden r then None else Some (l_entry r)))
                    (map_of (local_catalog d) g)"

definition feed_epoch :: "database \<Rightarrow> string" where
  "feed_epoch d = (case get_setting (settings_tbl d) epoch_key of None \<Rightarrow> [] | Some v \<Rightarrow> v)"

definition int_setting_or_0 :: "string \<Rightarrow> database \<Rightarrow> int" where
  "int_setting_or_0 key d = (case get_int_setting (settings_tbl d) key of Inl e \<Rightarrow> 0 | Inr n \<Rightarrow> n)"

abbreviation "feed_head \<equiv> int_setting_or_0 head_key"
abbreviation "feed_low \<equiv> int_setting_or_0 min_rev_key"

lemma feed_settings_iff: "feed_settings d h m \<Longrightarrow> h = feed_head d \<and> m = feed_low d"
  by (simp add: feed_settings_def int_setting_or_0_def)

lemma index_okD:
  assumes "index_ok hash d"
  shows "feed_settings d (feed_head d) (feed_low d)" "idx_ok (local_catalog d) (feed_head d) (feed_low d)"
    "hash_ok hash (local_catalog d)"
proof -
  obtain h m where hm: "feed_settings d h m" "idx_ok (local_catalog d) h m" "hash_ok hash (local_catalog d)"
    using assms unfolding index_ok_def by blast
  then have "h = feed_head d" "m = feed_low d" using feed_settings_iff by blast+
  with hm show "feed_settings d (feed_head d) (feed_low d)" "idx_ok (local_catalog d) (feed_head d) (feed_low d)"
    "hash_ok hash (local_catalog d)" by simp_all
qed

lemma row_value_feed: "row_value (feed_row d g) = visible (local_catalog d) g"
  by (simp add: row_value_def feed_row_def visible_def split: option.split)

subsection \<open>The rows of a page\<close>

lemma page_rows_eq:
  "length acc \<le> n \<Longrightarrow> page_rows n xs acc = (acc @ take (n - length acc) xs, n < length acc + length xs)"
proof (induction n xs acc rule: page_rows.induct)
  case (2 n c cs acc)
  show ?case
  proof (cases "length acc = n")
    case False
    then have "n - length acc = Suc (n - Suc (length acc))" using "2.prems" by simp
    with False 2 show ?thesis by simp
  qed simp
qed simp

lemma page_rows_take: "page_rows n (take (n + 1) R) [] = (take n R, n < length R)"
  by (auto simp: page_rows_eq min_def)

lemma take_by_key:
  fixes k :: "'a \<Rightarrow> int"
  assumes s: "sorted (map k R)" and d: "distinct (map k R)" and n: "0 < n" "n < length R"
  shows "x \<in> set (take n R) \<longleftrightarrow> x \<in> set R \<and> k x \<le> k (last (take n R))"
proof -
  have "sorted_wrt (<) (map k R)" using s d by (simp add: strict_sorted_iff)
  then have lt: "i < j \<Longrightarrow> j < length R \<Longrightarrow> k (R ! i) < k (R ! j)" for i j
    by (simp add: sorted_wrt_iff_nth_less)
  have lst: "last (take n R) = R ! (n - 1)" using n by (subst last_conv_nth) auto
  have iff: "k (R ! i) \<le> k (R ! (n - 1)) \<longleftrightarrow> i < n" if "i < length R" for i
  proof (cases "i < n")
    case True
    then have "i < n - 1 \<or> i = n - 1" by auto
    moreover have "n - 1 < length R" using n by simp
    ultimately show ?thesis using True lt [of i "n - 1"] by (auto simp: less_imp_le)
  next
    case False
    then have "n - 1 < i" using n by simp
    then have "k (R ! (n - 1)) < k (R ! i)" using that by (rule lt)
    with False show ?thesis by simp
  qed
  show ?thesis
    unfolding lst in_set_conv_nth using iff n by (auto intro: less_trans)
qed

lemma feed_rows_eq:
  "feed_rows lc since =
     map (\<lambda>p. change_at (fst p) (l_rev (snd p)) (if l_deleted (snd p) \<or> l_hidden (snd p) then None else Some (l_entry (snd p))))
       (sort_key (l_rev \<circ> snd)
         (filter (\<lambda>p. since < l_rev (snd p) \<and> (since = 0 \<longrightarrow> \<not> l_deleted (snd p) \<and> \<not> l_hidden (snd p))) lc))"
proof -
  have f: "filter (\<lambda>(_, r). 0 < l_rev r \<and> \<not> l_deleted r \<and> \<not> l_hidden r) lc
         = filter (\<lambda>p. 0 < l_rev (snd p) \<and> \<not> l_deleted (snd p) \<and> \<not> l_hidden (snd p)) lc"
    "filter (\<lambda>(_, r). since < l_rev r) lc = filter (\<lambda>p. since < l_rev (snd p)) lc"
    by (simp_all add: case_prod_unfold)
  show ?thesis
  proof (cases "since = 0")
    case True
    then show ?thesis
      unfolding feed_rows_def f by (auto simp: change_of_def change_at_def)
  next
    case False
    then show ?thesis
      unfolding feed_rows_def f by (auto simp: change_of_def change_at_def)
  qed
qed

lemma feed_rows_props:
  assumes ok: "rev_ok (local_catalog d) h"
  shows "set (feed_rows (local_catalog d) st)
       = {change_at g r x | g r x. feed_row d g = Some (r, x) \<and> st < r \<and> (st = 0 \<longrightarrow> x \<noteq> None)}" (is ?a)
    and "sorted (map ch_rev (feed_rows (local_catalog d) st))" (is ?b)
    and "distinct (map ch_rev (feed_rows (local_catalog d) st))" (is ?c)
    and "distinct (map ch_global_id (feed_rows (local_catalog d) st))" (is ?e)
proof -
  let ?lc = "local_catalog d"
  let ?L = "filter (\<lambda>p. st < l_rev (snd p) \<and> (st = 0 \<longrightarrow> \<not> l_deleted (snd p) \<and> \<not> l_hidden (snd p))) ?lc"
  have k: "keyed ?lc" by (rule rev_ok_keyed [OF ok])
  have m: "(g, r) \<in> set ?lc \<longleftrightarrow> map_of ?lc g = Some r" for g r
    using keyed_map_of_eq [OF k] by blast
  show ?a
  proof (rule set_eqI)
    fix c
    show "c \<in> set (feed_rows ?lc st) \<longleftrightarrow>
      c \<in> {change_at g r x | g r x. feed_row d g = Some (r, x) \<and> st < r \<and> (st = 0 \<longrightarrow> x \<noteq> None)}"
    proof
      assume "c \<in> set (feed_rows ?lc st)"
      then obtain g r where r: "map_of ?lc g = Some r" "st < l_rev r" "st = 0 \<longrightarrow> \<not> l_deleted r \<and> \<not> l_hidden r"
        "c = change_at g (l_rev r) (if l_deleted r \<or> l_hidden r then None else Some (l_entry r))"
        unfolding feed_rows_eq using m by auto
      define x where "x = (if l_deleted r \<or> l_hidden r then None else Some (l_entry r))"
      have "feed_row d g = Some (l_rev r, x)" using r(1) by (simp add: feed_row_def x_def)
      moreover have "st = 0 \<longrightarrow> x \<noteq> None" using r(3) by (simp add: x_def)
      ultimately show "c \<in> {change_at g r x | g r x. feed_row d g = Some (r, x) \<and> st < r \<and> (st = 0 \<longrightarrow> x \<noteq> None)}"
        using r(2,4) unfolding x_def [symmetric] by blast
    next
      assume "c \<in> {change_at g r x | g r x. feed_row d g = Some (r, x) \<and> st < r \<and> (st = 0 \<longrightarrow> x \<noteq> None)}"
      then obtain g r x where c: "c = change_at g r x" "feed_row d g = Some (r, x)" "st < r" "st = 0 \<longrightarrow> x \<noteq> None"
        by blast
      then obtain row where row: "map_of ?lc g = Some row" "r = l_rev row"
        "x = (if l_deleted row \<or> l_hidden row then None else Some (l_entry row))"
        by (auto simp: feed_row_def)
      then have "(g, row) \<in> set ?L" using c m by (auto split: if_splits)
      then show "c \<in> set (feed_rows ?lc st)"
        unfolding feed_rows_eq using c row by force
    qed
  qed
  have revs: "map ch_rev (feed_rows ?lc st) = map (l_rev \<circ> snd) (sort_key (l_rev \<circ> snd) ?L)"
    unfolding feed_rows_eq by (simp add: change_at_def comp_def)
  have gids: "map ch_global_id (feed_rows ?lc st) = map fst (sort_key (l_rev \<circ> snd) ?L)"
    unfolding feed_rows_eq by (simp add: change_at_def comp_def)
  show ?b unfolding revs by (rule sorted_sort_key)
  have dl: "distinct ?lc" and inj1: "inj_on fst (set ?lc)" using k unfolding keyed_def distinct_map by blast+
  have inj2: "inj_on (l_rev \<circ> snd) (set ?lc)"
  proof (rule inj_onI)
    fix p q assume pq: "p \<in> set ?lc" "q \<in> set ?lc" "(l_rev \<circ> snd) p = (l_rev \<circ> snd) q"
    obtain g r g' r' where *: "p = (g, r)" "q = (g', r')" by (meson surj_pair)
    with pq have rr: "map_of ?lc g = Some r" "map_of ?lc g' = Some r'" "l_rev r = l_rev r'" by (auto simp: m)
    have "g = g'" by (rule rev_ok_inj [OF ok rr])
    with rr * show "p = q" by simp
  qed
  have sub: "set (sort_key (l_rev \<circ> snd) ?L) \<subseteq> set ?lc" by auto
  have dd: "distinct (sort_key (l_rev \<circ> snd) ?L)" using dl by simp
  show ?c unfolding revs distinct_map using dd inj_on_subset [OF inj2 sub] by blast
  show ?e unfolding gids distinct_map using dd inj_on_subset [OF inj1 sub] by blast
qed

subsection \<open>The interpretation of the contract\<close>

lemma reset_reason_iff:
  "0 \<le> m \<Longrightarrow> (reset_reason ep my c h m \<noteq> []) = (\<not> usable my h m ep c)"
  by (auto simp: reset_reason_def usable_def)

lemma changes_eq:
  assumes "feed_settings d h m"
  shows "changes None d ep c n =
    (let since = (if reset_reason ep (feed_epoch d) c h m \<noteq> [] then 0 else c); R = feed_rows (local_catalog d) since
     in Inr \<lparr>f_epoch = feed_epoch d, f_head = h,
             f_next = (if n < length R then ch_rev (last (take n R)) else h),
             f_more = (n < length R), f_reset = (reset_reason ep (feed_epoch d) c h m \<noteq> []),
             f_changes = take n R, f_reset_reason = reset_reason ep (feed_epoch d) c h m\<rparr>)"
  using assms by (simp add: changes_def feed_settings_def feed_epoch_def Let_def page_rows_take [unfolded Suc_eq_plus1 [symmetric]])

text \<open>The page of the rows above \<open>st\<close>: complete up to its cursor.\<close>

lemma feed_page:
  assumes ok: "rev_ok (local_catalog d) h" and n: "0 < n" and st: "0 \<le> st" "st \<le> h"
    and R: "R = feed_rows (local_catalog d) st" and nx: "nx = (if n < length R then ch_rev (last (take n R)) else h)"
  shows "set (take n R) = {change_at g r x | g r x. feed_row d g = Some (r, x) \<and> st < r \<and> r \<le> nx \<and> (st = 0 \<longrightarrow> x \<noteq> None)}"
    and "distinct (map ch_global_id (take n R))"
    and "if n < length R then st < nx \<and> nx \<le> h else nx = h"
proof -
  note P = feed_rows_props [OF ok, of st, folded R]
  have bound: "0 < r \<and> r \<le> h" if "feed_row d g = Some (r, x)" for g r x
    using that rev_ok_bounds [OF ok] by (auto simp: feed_row_def)
  have sel: "x \<in> set (take n R) \<longleftrightarrow> x \<in> set R \<and> ch_rev x \<le> nx" for x
  proof (cases "n < length R")
    case True
    show ?thesis using take_by_key [OF P(2,3) n True] True by (simp add: nx)
  next
    case False
    then show ?thesis using bound unfolding nx P(1) by (auto simp: P(1) change_at_def)
  qed
  show "set (take n R) = {change_at g r x | g r x. feed_row d g = Some (r, x) \<and> st < r \<and> r \<le> nx \<and> (st = 0 \<longrightarrow> x \<noteq> None)}"
    unfolding set_eq_iff sel P(1) by (auto simp: change_at_def)
  show "distinct (map ch_global_id (take n R))"
    unfolding take_map [symmetric] using P(4) by (rule distinct_take)
  show "if n < length R then st < nx \<and> nx \<le> h else nx = h"
  proof (cases "n < length R")
    case True
    then have "last (take n R) \<in> set R"
      using n by (metis in_set_takeD last_in_set length_greater_0_conv less_trans list.size(3) not_less0 take_eq_Nil2)
    then obtain g r x where "last (take n R) = change_at g r x" "feed_row d g = Some (r, x)" "st < r"
      unfolding P(1) by blast
    with bound [of g r x] True show ?thesis by (simp add: nx change_at_def)
  qed (simp add: nx)
qed

interpretation feed: change_feed "changes None" feed_epoch feed_head feed_low feed_row "index_ok hash" for hash
proof
  fix d ep c f g r x e and n st :: nat
  assume ok: "index_ok hash d"
  note I = index_okD [OF ok]
  have rok: "rev_ok (local_catalog d) (feed_head d)" by (rule idx_ok_rev [OF I(2)])
  show b: "0 \<le> feed_low d \<and> feed_low d \<le> feed_head d" using I(2) by (simp add: idx_ok_def)
  show "0 < r \<and> r \<le> feed_head d" if "feed_row d g = Some (r, x)"
    using that rev_ok_bounds [OF rok] by (auto simp: feed_row_def)
  show "e_global_id e = g" if "feed_row d g = Some (r, Some e)"
    using that idx_ok_key [OF I(2)] by (auto simp: feed_row_def split: if_splits)
  assume n: "0 < n"
  show "\<exists>f. changes None d ep c n = Inr f" by (simp add: changes_eq [OF I(1)] Let_def)
  assume f: "changes None d ep c n = Inr f"
  show "f_epoch f = feed_epoch d" using f by (auto simp: changes_eq [OF I(1)] Let_def)
  show rs: "f_reset f = (\<not> usable (feed_epoch d) (feed_head d) (feed_low d) ep c)"
    using f b by (auto simp: changes_eq [OF I(1)] Let_def reset_reason_iff)
  define st where "st = (if f_reset f then 0 else c)"
  define R where "R = feed_rows (local_catalog d) st"
  have f': "f_changes f = take n R" "f_more f = (n < length R)"
    "f_next f = (if n < length R then ch_rev (last (take n R)) else feed_head d)"
    using f by (auto simp: changes_eq [OF I(1)] Let_def R_def st_def)
  have st: "0 \<le> st" "st \<le> feed_head d" using rs b by (auto simp: st_def usable_def)
  note P = feed_page [OF rok n st R_def f'(3)]
  show "set (f_changes f) = {change_at g r x | g r x. feed_row d g = Some (r, x) \<and> st' < r \<and> r \<le> f_next f
          \<and> (st' = 0 \<longrightarrow> x \<noteq> None)}" if "st' = (if f_reset f then 0 else c)" for st'
    using P(1) that by (simp add: f' st_def)
  show "distinct (map ch_global_id (f_changes f))" using P(2) by (simp add: f')
  show "if f_more f then (if f_reset f then 0 else c) < f_next f \<and> f_next f \<le> feed_head d else f_next f = feed_head d"
    using P(3) unfolding f'(2) st_def .
qed

subsection \<open>How a refresh moves the feed\<close>

text \<open>No revision overflows: the head grows by at most one per listed item and per row.\<close>

definition room :: "database \<Rightarrow> entry list \<Rightarrow> bool" where
  "room d entries \<longleftrightarrow> in_int64 (feed_head d + int (length entries) + int (length (local_catalog d)))"

definition refreshes :: "(entry \<Rightarrow> string) \<Rightarrow> database \<Rightarrow> database \<Rightarrow> bool" where
  "refreshes hash d d' \<longleftrightarrow> (\<exists>now entries st.
     refresh_locked hash now (Inr entries) None None d = (Inr st, d') \<and> room d entries)"

lemma length_collect_current: "length (collect_current es m) \<le> length es + length m"
proof (induction es arbitrary: m)
  case (Cons e es)
  have "length (tbl_upsert (e_global_id e) e m) \<le> Suc (length m)"
    unfolding tbl_upsert_def by (induction m) auto
  then show ?case using Cons [of "tbl_upsert (e_global_id e) e m"] by simp
qed simp

text \<open>One refresh, in terms of the feed.\<close>

lemma refresh_spec:
  assumes ok: "index_ok hash d" and rf: "refresh_locked hash now (Inr entries) None None d = (Inr st, d')"
    and rm: "room d entries"
  shows "index_ok hash d'" "feed_epoch d' = feed_epoch d" "feed_head d' = rs_head st"
    "feed_head d \<le> feed_head d'" "feed_low d \<le> feed_low d'"
    "int (stats_changed st) = feed_head d' - feed_head d"
    "d' = d\<lparr>local_catalog := local_catalog d', settings_tbl := settings_tbl d'\<rparr>"
    "\<exists>lc2. grows (local_catalog d) (feed_head d) lc2 (feed_head d')
      \<and> (\<forall>g. \<exists>rv. feed_head d < rv \<and> map_of lc2 g
           = looped_row hash (hidden_set (hidden_items d)) now (local_catalog d) (collect_current entries []) g rv)
      \<and> (\<forall>g. map_of (local_catalog d') g = (case map_of lc2 g of None \<Rightarrow> None
           | Some r \<Rightarrow> if l_deleted r \<and> l_rev r \<le> feed_low d' then None else Some r))"
proof -
  note I = index_okD [OF ok]
  let ?cur = "collect_current entries []"
  have tx: "refresh_tx hash (hidden_set (hidden_items d)) now ?cur (feed_head d) d = (st, d')"
    using refresh_locked_Inr [OF rf I(1)] by auto
  have kc: "keyed ?cur" by (rule collect_current_keyed) simp
  have h0: "0 \<le> feed_head d" using I(2) by (simp add: idx_ok_def rev_ok_def)
  have room: "in_int64 (feed_head d + int (length ?cur) + int (length (local_catalog d)))"
    using rm h0 length_collect_current [of entries "[]"] by (simp add: room_def in_int64_def)
  have ids: "e_global_id e = g" if "map_of ?cur g = Some e" for g e
    using collect_current_id [OF that] by blast
  obtain m' lc2 where S: "feed_settings d' (rs_head st) m'" "feed_low d \<le> m'" "feed_head d \<le> rs_head st"
     "int (stats_changed st) = rs_head st - feed_head d"
     "idx_ok (local_catalog d') (rs_head st) m'" "hash_ok hash (local_catalog d')"
     "d' = d\<lparr>local_catalog := local_catalog d', settings_tbl := settings_tbl d'\<rparr>"
     "\<forall>k. k \<noteq> head_key \<longrightarrow> k \<noteq> min_rev_key \<longrightarrow> k \<noteq> indexed_at_key
           \<longrightarrow> get_setting (settings_tbl d') k = get_setting (settings_tbl d) k"
     "grows (local_catalog d) (feed_head d) lc2 (rs_head st)"
     "\<forall>g. \<exists>rv. feed_head d < rv \<and> map_of lc2 g = looped_row hash (hidden_set (hidden_items d)) now (local_catalog d) ?cur g rv"
     "\<forall>g. map_of (local_catalog d') g = (case map_of lc2 g of None \<Rightarrow> None
            | Some r \<Rightarrow> if l_deleted r \<and> l_rev r \<le> m' then None else Some r)"
    using refresh_tx_spec [OF tx I(1) I(2) I(3) kc ids room] by blast
  have hm: "rs_head st = feed_head d'" "m' = feed_low d'" using feed_settings_iff [OF S(1)] by simp_all
  show "index_ok hash d'" using S(1,5,6) unfolding index_ok_def by blast
  show "feed_epoch d' = feed_epoch d" using S(8) by (simp add: feed_epoch_def)
  show "feed_head d' = rs_head st" "feed_head d \<le> feed_head d'" "feed_low d \<le> feed_low d'"
    "int (stats_changed st) = feed_head d' - feed_head d"
    using S(2-4) hm by simp_all
  show "d' = d\<lparr>local_catalog := local_catalog d', settings_tbl := settings_tbl d'\<rparr>" by (rule S(7))
  show "\<exists>lc2. grows (local_catalog d) (feed_head d) lc2 (feed_head d')
      \<and> (\<forall>g. \<exists>rv. feed_head d < rv \<and> map_of lc2 g
           = looped_row hash (hidden_set (hidden_items d)) now (local_catalog d) (collect_current entries []) g rv)
      \<and> (\<forall>g. map_of (local_catalog d') g = (case map_of lc2 g of None \<Rightarrow> None
           | Some r \<Rightarrow> if l_deleted r \<and> l_rev r \<le> feed_low d' then None else Some r))"
    using S(9-11) unfolding hm by blast
qed

interpretation feed: moving_feed "changes None" feed_epoch feed_head feed_low feed_row "index_ok hash" "refreshes hash" for hash
proof
  fix d d' g r x
  assume ok: "index_ok hash d" and "refreshes hash d d'"
  then obtain now entries st where rf: "refresh_locked hash now (Inr entries) None None d = (Inr st, d')"
    and rm: "room d entries"
    unfolding refreshes_def by blast
  note S = refresh_spec [OF ok rf rm]
  obtain lc2 where gr: "grows (local_catalog d) (feed_head d) lc2 (feed_head d')"
    and gc: "\<And>g. map_of (local_catalog d') g = (case map_of lc2 g of None \<Rightarrow> None
        | Some r \<Rightarrow> if l_deleted r \<and> l_rev r \<le> feed_low d' then None else Some r)"
    using S(8) by blast
  show "index_ok hash d'" "feed_epoch d' = feed_epoch d" "feed_head d \<le> feed_head d'" "feed_low d \<le> feed_low d'"
    by (rule S)+
  have old: "map_of (local_catalog d) g = Some row \<or> feed_head d < l_rev row" if "map_of lc2 g = Some row" for g row
    using gr that unfolding grows_def by blast
  show "feed_row d g = Some (r, x) \<or> feed_head d < r" if row': "feed_row d' g = Some (r, x)"
  proof -
    obtain row where row: "map_of (local_catalog d') g = Some row" "r = l_rev row"
      "x = (if l_deleted row \<or> l_hidden row then None else Some (l_entry row))"
      using row' by (auto simp: feed_row_def)
    then have "map_of lc2 g = Some row" by (auto simp: gc split: option.splits if_splits)
    from old [OF this] row show ?thesis by (auto simp: feed_row_def)
  qed
  show "feed_head d < feed_low d' \<or> (\<exists>r. feed_row d g = Some (r, None) \<and> r \<le> feed_low d')"
    if "feed_row d g \<noteq> None" "feed_row d' g = None"
  proof -
    have "map_of lc2 g \<noteq> None" using gr that(1) by (auto simp: grows_def feed_row_def)
    then obtain row where row: "map_of lc2 g = Some row" by blast
    then have del: "l_deleted row \<and> l_rev row \<le> feed_low d'"
      using that(2) by (auto simp: feed_row_def gc split: if_splits)
    from old [OF row] show ?thesis
    proof
      assume "map_of (local_catalog d) g = Some row"
      with del show ?thesis by (simp add: feed_row_def)
    qed (use del in simp)
  qed
qed

end
