(* ===== verification/Network.thy ===== *)
theory Network
  imports FeedModel
begin

section \<open>A serving node, a pulling node, and everything that may happen in between\<close>

text \<open>
  The system of one feed and one of its pullers as a labelled step relation. The serving node
  refreshes its index (or fails to), or comes back with a new database, hence a new epoch. The pulling
  node begins a pull from its stored cursor, applies pages, is stopped by a failing request or
  transaction (or a restart) at any point, is asked for a full resync, pulls from other peers and prunes removed
  ones. Any interleaving is a run; the invariant is that the stored cursor and the running one
  both follow the feed (\<open>synced\<close>).
\<close>

record net =
  sv :: database
  cl :: database
  running :: "cursor option"

datatype net_event =
  Refresh | NewHistory | Begin | NextPage | LastPage | Stopped | Requested | OtherPeer | Pruned | Marked

abbreviation net_synced :: "string \<Rightarrow> database \<Rightarrow> cursor \<Rightarrow> database \<Rightarrow> bool" where
  "net_synced p s c d \<equiv> synced (feed_row s) (feed_head s) (feed_low s) (feed_epoch s) p c (peer_catalog d)"

inductive net_step :: "(entry \<Rightarrow> string) \<Rightarrow> string \<Rightarrow> nat \<Rightarrow> net \<Rightarrow> net_event \<Rightarrow> net \<Rightarrow> bool"
  for hash :: "entry \<Rightarrow> string" and p :: string and n :: nat where
  refresh: "refresh_locked hash now (Inr entries) None None (sv s) = (Inr rs, sv') \<Longrightarrow> room (sv s) entries
     \<Longrightarrow> net_step hash p n s Refresh (s\<lparr>sv := sv'\<rparr>)"
| new_history: "index_ok hash sv' \<Longrightarrow> feed_epoch sv' \<noteq> [] \<Longrightarrow> feed_epoch sv' \<noteq> feed_epoch (sv s)
     \<Longrightarrow> (\<And>r. map_of (peer_sync_state (cl s)) p = Some r \<Longrightarrow> s_epoch r \<noteq> feed_epoch sv')
     \<Longrightarrow> (\<And>c. running s = Some c \<Longrightarrow> cur_epoch c \<noteq> feed_epoch sv')
     \<Longrightarrow> net_step hash p n s NewHistory (s\<lparr>sv := sv'\<rparr>)"
| begin_pull: "load_cursor None (cl s) p = Inr c \<Longrightarrow> running s = None
     \<Longrightarrow> net_step hash p n s Begin (s\<lparr>running := Some c\<rparr>)"
| next_page: "running s = Some c
     \<Longrightarrow> pull_page p (changes None (sv s) (cur_epoch c) (cur_rev c) n) None (c, st, cl s) = (Continue c', st', d')
     \<Longrightarrow> net_step hash p n s NextPage (s\<lparr>cl := d', running := Some c'\<rparr>)"
| last_page: "running s = Some c
     \<Longrightarrow> pull_page p (changes None (sv s) (cur_epoch c) (cur_rev c) n) None (c, st, cl s) = (Done None, st', d')
     \<Longrightarrow> net_step hash p n s LastPage (s\<lparr>cl := d', running := None\<rparr>)"
| stopped: "running s = Some c \<Longrightarrow> pull_page p ans fault (c, st, cl s) = (Done (Some e), st', d')
     \<Longrightarrow> net_step hash p n s Stopped (s\<lparr>cl := d', running := None\<rparr>)"
| requested: "request_resync None (cl s) p = (Inr (), d') \<Longrightarrow> net_step hash p n s Requested (s\<lparr>cl := d'\<rparr>)"
| other_peer: "q \<noteq> p \<Longrightarrow> pull_page q ans fault (c, st, cl s) = (res, st', d')
     \<Longrightarrow> net_step hash p n s OtherPeer (s\<lparr>cl := d'\<rparr>)"
| pruned: "p \<in> set known \<Longrightarrow> prune_removed_peers fault known (cl s) = (res, d')
     \<Longrightarrow> net_step hash p n s Pruned (s\<lparr>cl := d'\<rparr>)"
| marked: "mark_synced fault now q (cl s) = (e, d') \<Longrightarrow> net_step hash p n s Marked (s\<lparr>cl := d'\<rparr>)"

inductive_cases last_page_cases: "net_step hash p n s LastPage s'"

inductive net_reach :: "(entry \<Rightarrow> string) \<Rightarrow> string \<Rightarrow> nat \<Rightarrow> net \<Rightarrow> bool"
  for hash :: "entry \<Rightarrow> string" and p :: string and n :: nat where
  start: "index_ok hash s \<Longrightarrow> feed_epoch s \<noteq> [] \<Longrightarrow> keyed (peer_catalog d) \<Longrightarrow> keyed (peer_sync_state d)
     \<Longrightarrow> (\<And>g. map_of (peer_catalog d) (p, g) = None) \<Longrightarrow> map_of (peer_sync_state d) p = None
     \<Longrightarrow> net_reach hash p n \<lparr>sv = s, cl = d, running = None\<rparr>"
| step: "net_reach hash p n s \<Longrightarrow> net_step hash p n s ev s' \<Longrightarrow> net_reach hash p n s'"

subsection \<open>The invariant\<close>

definition net_ok :: "(entry \<Rightarrow> string) \<Rightarrow> string \<Rightarrow> net \<Rightarrow> bool" where
  "net_ok hash p s \<longleftrightarrow> index_ok hash (sv s) \<and> feed_epoch (sv s) \<noteq> []
     \<and> keyed (peer_catalog (cl s)) \<and> keyed (peer_sync_state (cl s))
     \<and> (\<forall>c. load_cursor None (cl s) p = Inr c \<longrightarrow> net_synced p (sv s) c (cl s))
     \<and> (\<forall>c. running s = Some c \<longrightarrow> net_synced p (sv s) c (cl s))"

lemma load_cursor_local:
  "map_of (peer_sync_state d') p = map_of (peer_sync_state d) p \<Longrightarrow> load_cursor None d' p = load_cursor None d p"
  by (simp add: load_cursor_def)

text \<open>Only the rows of the peer matter.\<close>

definition same_peer :: "string \<Rightarrow> database \<Rightarrow> database \<Rightarrow> bool" where
  "same_peer p d d' \<longleftrightarrow> (\<forall>g. map_of (peer_catalog d') (p, g) = map_of (peer_catalog d) (p, g))
     \<and> (keyed (peer_catalog d) \<longrightarrow> keyed (peer_catalog d')) \<and> (keyed (peer_sync_state d) \<longrightarrow> keyed (peer_sync_state d'))"

lemma synced_same:
  "same_peer p d d' \<Longrightarrow> net_synced p s c d \<Longrightarrow> net_synced p s c d'"
  by (auto simp: same_peer_def synced_def gens_ok_def follows_def fresh_def)

lemma synced_cursor:
  assumes "net_synced p s c d" and "cur_gen c' = cur_gen c" "cur_resync c' = cur_resync c"
    and "cur_epoch c' = feed_epoch s \<Longrightarrow> cur_epoch c = feed_epoch s \<and> cur_rev c' = cur_rev c"
  shows "net_synced p s c' d"
  using assms by (auto simp: synced_def gens_ok_def)

lemma net_ok_client:
  assumes ok: "net_ok hash p s" and same: "same_peer p (cl s) d'"
    and cur: "\<And>c'. load_cursor None d' p = Inr c' \<Longrightarrow>
       \<exists>c. load_cursor None (cl s) p = Inr c \<and> cur_gen c' = cur_gen c \<and> cur_resync c' = cur_resync c
         \<and> (cur_epoch c' = feed_epoch (sv s) \<longrightarrow> cur_epoch c = feed_epoch (sv s) \<and> cur_rev c' = cur_rev c)"
  shows "net_ok hash p (s\<lparr>cl := d'\<rparr>)"
proof -
  have "net_synced p (sv s) c' d'" if lc: "load_cursor None d' p = Inr c'" for c'
  proof -
    obtain c where c: "load_cursor None (cl s) p = Inr c" "cur_gen c' = cur_gen c" "cur_resync c' = cur_resync c"
       "cur_epoch c' = feed_epoch (sv s) \<longrightarrow> cur_epoch c = feed_epoch (sv s) \<and> cur_rev c' = cur_rev c"
      using cur [OF lc] by blast
    then have "net_synced p (sv s) c (cl s)" using ok by (simp add: net_ok_def)
    then have "net_synced p (sv s) c' (cl s)" using c(2-4) synced_cursor by blast
    then show ?thesis by (rule synced_same [OF same])
  qed
  then show ?thesis
    using ok same synced_same [OF same] by (auto simp: net_ok_def same_peer_def)
qed

lemma net_ok_client_same:
  assumes "net_ok hash p s" and "same_peer p (cl s) d'"
    and "map_of (peer_sync_state d') p = map_of (peer_sync_state (cl s)) p"
  shows "net_ok hash p (s\<lparr>cl := d'\<rparr>)"
  using net_ok_client [OF assms(1,2)] load_cursor_local [OF assms(3)] by auto

lemma net_ok_stop: "net_ok hash p s \<Longrightarrow> net_ok hash p (s\<lparr>running := None\<rparr>)"
  by (simp add: net_ok_def)

text \<open>What a page of another peer does to the rows of \<open>p\<close>: nothing.\<close>

lemma pull_page_cases:
  assumes "pull_page q ans fault (c, st, d) = (res, st', d')"
  shows "d' = d \<or> (\<exists>c' cs sweep. d' = d\<lparr>peer_sync_state := save_cursor q c' (peer_sync_state d),
                    peer_catalog := page_mirror q c' cs sweep (peer_catalog d)\<rparr>)"
proof (cases ans)
  case (Inl e)
  with assms show ?thesis by (auto simp: pull_page_def split: if_splits)
next
  case (Inr f)
  with assms show ?thesis
    by (auto simp: pull_page_def Let_def split: if_splits prod.splits sum.splits
        dest!: apply_changes_error apply_changes_ok)
qed

lemma other_page_same:
  assumes "pull_page q ans fault (c, st, d) = (res, st', d')" "q \<noteq> p" "keyed (peer_catalog d)" "keyed (peer_sync_state d)"
  shows "same_peer p d d' \<and> map_of (peer_sync_state d') p = map_of (peer_sync_state d) p"
  using pull_page_cases [OF assms(1)] assms(2-)
  by (auto simp: same_peer_def page_mirror_other page_mirror_keyed save_cursor_get_other save_cursor_keyed)

text \<open>The cursor loaded after a page is the one saved with it, unless a resync was requested meanwhile.\<close>

lemma load_saved:
  assumes "load_cursor None (d\<lparr>peer_sync_state := save_cursor p c t, peer_catalog := m\<rparr>) p = Inr c'"
  shows "cur_gen c' = cur_gen c \<and> cur_resync c' = cur_resync c
     \<and> (cur_epoch c' = cur_epoch c \<and> cur_rev c' = cur_rev c \<or> cur_epoch c' = [])"
  using assms by (auto simp: load_cursor_def save_cursor_def Let_def split: option.splits if_splits)

lemma load_cursor_total: "\<exists>c. load_cursor None d p = Inr c"
  by (simp add: load_cursor_def Let_def split: option.split)

lemma net_ok_page:
  assumes ok: "net_ok hash p s" and n: "0 < n" and run: "running s = Some c"
    and pg: "pull_page p (changes None (sv s) (cur_epoch c) (cur_rev c) n) None (c, st, cl s) = (res, st', d')"
  shows "(\<exists>c'. res = Continue c' \<and> net_ok hash p (s\<lparr>cl := d', running := Some c'\<rparr>))
     \<or> res = Done None \<and> net_ok hash p (s\<lparr>cl := d', running := None\<rparr>) \<and> mirrors (feed_row (sv s)) p (peer_catalog d')"
proof -
  have ik: "index_ok hash (sv s)" and ne: "feed_epoch (sv s) \<noteq> []" and sy: "net_synced p (sv s) c (cl s)"
    using ok run by (simp_all add: net_ok_def)
  obtain c' cs sweep where
    res: "res = Continue (c'\<lparr>cur_requested := False\<rparr>)
     \<or> res = Done None \<and> \<not> cur_resync c' \<and> mirrors (feed_row (sv s)) p (peer_catalog d')"
    and sy': "net_synced p (sv s) c' d'"
    and d': "d' = (cl s)\<lparr>peer_sync_state := save_cursor p c' (peer_sync_state (cl s)),
            peer_catalog := page_mirror p c' cs sweep (peer_catalog (cl s))\<rparr>"
    and "cur_requested c' = cur_requested c" "cur_epoch c' = feed_epoch (sv s)"
    by (rule feed.page_synced [OF ik n ne sy pg])
  have keyed': "keyed (peer_catalog d')" "keyed (peer_sync_state d')"
    using ok by (simp_all add: d' net_ok_def page_mirror_keyed save_cursor_keyed)
  have loaded: "net_synced p (sv s) k d'" if "load_cursor None d' p = Inr k" for k
    using load_saved [OF that [unfolded d']] ne by (intro synced_cursor [OF sy']) auto
  have run': "net_synced p (sv s) (c'\<lparr>cur_requested := False\<rparr>) d'"
    by (rule synced_cursor [OF sy']) simp_all
  have base: "net_ok hash p (s\<lparr>cl := d', running := None\<rparr>)"
    using ik ne keyed' loaded by (simp add: net_ok_def)
  have more: "net_ok hash p (s\<lparr>cl := d', running := Some (c'\<lparr>cur_requested := False\<rparr>)\<rparr>)"
    using ik ne keyed' loaded run' by (simp add: net_ok_def)
  show ?thesis using res base more by blast
qed

lemma net_ok_refresh:
  assumes ok: "net_ok hash p s" and mv: "refreshes hash (sv s) sv'"
  shows "net_ok hash p (s\<lparr>sv := sv'\<rparr>)"
proof -
  have ik: "index_ok hash (sv s)" using ok by (simp add: net_ok_def)
  have "net_synced p sv' c (cl s)" if "net_synced p (sv s) c (cl s)" for c
    by (rule feed.synced_moves [OF ik mv that])
  then show ?thesis
    using ok feed.moves_ok [OF ik mv] feed.moves_epoch [OF ik mv] by (simp add: net_ok_def)
qed

lemma synced_elsewhere:
  "net_synced p s c d \<Longrightarrow> cur_epoch c \<noteq> feed_epoch s' \<Longrightarrow> net_synced p s' c d"
  by (simp add: synced_def)

lemma load_cursor_epoch:
  "load_cursor None d p = Inr c \<Longrightarrow> cur_epoch c = []
     \<or> (\<exists>r. map_of (peer_sync_state d) p = Some r \<and> cur_epoch c = s_epoch r)"
  by (auto simp: load_cursor_def zero_cursor_def Let_def split: option.splits)

lemma net_ok_new_history:
  assumes ok: "net_ok hash p s" and ik: "index_ok hash sv'" and ne: "feed_epoch sv' \<noteq> []"
    and st: "\<And>r. map_of (peer_sync_state (cl s)) p = Some r \<Longrightarrow> s_epoch r \<noteq> feed_epoch sv'"
    and run: "\<And>c. running s = Some c \<Longrightarrow> cur_epoch c \<noteq> feed_epoch sv'"
  shows "net_ok hash p (s\<lparr>sv := sv'\<rparr>)"
proof -
  have "net_synced p sv' c (cl s)" if "load_cursor None (cl s) p = Inr c" for c
  proof (rule synced_elsewhere)
    show "net_synced p (sv s) c (cl s)" using ok that by (simp add: net_ok_def)
    show "cur_epoch c \<noteq> feed_epoch sv'" using load_cursor_epoch [OF that] st ne by auto
  qed
  moreover have "net_synced p sv' c (cl s)" if "running s = Some c" for c
    using ok that run [OF that] by (auto simp: net_ok_def intro: synced_elsewhere)
  ultimately show ?thesis using ok ik ne by (simp add: net_ok_def)
qed

lemma net_ok_requested:
  assumes ok: "net_ok hash p s" and rq: "request_resync None (cl s) p = (Inr (), d')"
  shows "net_ok hash p (s\<lparr>cl := d'\<rparr>)"
proof (rule net_ok_client [OF ok])
  show "same_peer p (cl s) d'" using rq by (auto simp: request_resync_def same_peer_def)
  fix c' assume c': "load_cursor None d' p = Inr c'"
  have ne: "feed_epoch (sv s) \<noteq> []" using ok by (simp add: net_ok_def)
  show "\<exists>c. load_cursor None (cl s) p = Inr c \<and> cur_gen c' = cur_gen c \<and> cur_resync c' = cur_resync c
         \<and> (cur_epoch c' = feed_epoch (sv s) \<longrightarrow> cur_epoch c = feed_epoch (sv s) \<and> cur_rev c' = cur_rev c)"
    using rq c' ne by (auto simp: request_resync_def load_cursor_def zero_cursor_def Let_def split: option.splits)
qed

lemma net_ok_marked:
  assumes ok: "net_ok hash p s" and mk: "mark_synced fault now q (cl s) = (e, d')"
  shows "net_ok hash p (s\<lparr>cl := d'\<rparr>)"
proof (rule net_ok_client [OF ok])
  show "same_peer p (cl s) d'" using mk by (auto simp: mark_synced_def same_peer_def split: option.splits)
  fix c' assume "load_cursor None d' p = Inr c'"
  moreover have "load_cursor None d' p = load_cursor None (cl s) p"
    using mk by (auto simp: mark_synced_def load_cursor_def split: option.splits)
  ultimately show "\<exists>c. load_cursor None (cl s) p = Inr c \<and> cur_gen c' = cur_gen c \<and> cur_resync c' = cur_resync c
         \<and> (cur_epoch c' = feed_epoch (sv s) \<longrightarrow> cur_epoch c = feed_epoch (sv s) \<and> cur_rev c' = cur_rev c)"
    by auto
qed

lemma prune_same:
  assumes "prune_removed_peers fault known d = (res, d')" "p \<in> set known" "keyed (peer_catalog d)" "keyed (peer_sync_state d)"
  shows "same_peer p d d' \<and> map_of (peer_sync_state d') p = map_of (peer_sync_state d) p"
  using assms
  by (auto simp: prune_removed_peers_def with_tx_def same_peer_def split: option.splits)

theorem net_ok_step:
  assumes ok: "net_ok hash p s" and n: "0 < n" and step: "net_step hash p n s ev s'"
  shows "net_ok hash p s'"
  using step
proof cases
  case (refresh now entries rs sv')
  then show ?thesis using net_ok_refresh [OF ok] unfolding refreshes_def by blast
next
  case (new_history sv')
  then show ?thesis using net_ok_new_history [OF ok] by blast
next
  case (begin_pull c)
  then show ?thesis using ok by (simp add: net_ok_def)
next
  case (next_page c st c' st' d')
  with net_ok_page [OF ok n next_page(3,4)] show ?thesis by auto
next
  case (last_page c st st' d')
  with net_ok_page [OF ok n last_page(3,4)] show ?thesis by auto
next
  case (stopped c ans fault st e st' d')
  then have "d' = cl s" using pull_page_stops by blast
  with stopped net_ok_stop [OF ok] show ?thesis by simp
next
  case (requested d')
  then show ?thesis using net_ok_requested [OF ok] by simp
next
  case (other_peer q ans fault c st res st' d')
  have "same_peer p (cl s) d' \<and> map_of (peer_sync_state d') p = map_of (peer_sync_state (cl s)) p"
    by (rule other_page_same [OF other_peer(4,3)]) (use ok in \<open>simp_all add: net_ok_def\<close>)
  then show ?thesis using net_ok_client_same [OF ok] other_peer by blast
next
  case (pruned known fault res d')
  have "same_peer p (cl s) d' \<and> map_of (peer_sync_state d') p = map_of (peer_sync_state (cl s)) p"
    by (rule prune_same [OF pruned(4,3)]) (use ok in \<open>simp_all add: net_ok_def\<close>)
  then show ?thesis using net_ok_client_same [OF ok] pruned by blast
next
  case (marked fault now q e d')
  then show ?thesis using net_ok_marked [OF ok] by simp
qed

lemma net_ok_start:
  assumes "index_ok hash s" "feed_epoch s \<noteq> []" "keyed (peer_catalog d)" "keyed (peer_sync_state d)"
    and "\<And>g. map_of (peer_catalog d) (p, g) = None" "map_of (peer_sync_state d) p = None"
  shows "net_ok hash p \<lparr>sv = s, cl = d, running = None\<rparr>"
  using assms by (simp add: net_ok_def load_cursor_def zero_cursor_def synced_def gens_ok_def)

theorem net_reach_ok: "net_reach hash p n s \<Longrightarrow> 0 < n \<Longrightarrow> net_ok hash p s"
  by (induction rule: net_reach.induct) (auto intro: net_ok_start net_ok_step)

theorem last_page_mirrors:
  assumes "net_reach hash p n s" "0 < n" "net_step hash p n s LastPage s'"
  shows "mirrors (feed_row (sv s)) p (peer_catalog (cl s'))"
proof -
  have ok: "net_ok hash p s" by (rule net_reach_ok [OF assms(1,2)])
  obtain c st st' d' where 1: "s' = s\<lparr>cl := d', running := None\<rparr>" "running s = Some c"
    "pull_page p (changes None (sv s) (cur_epoch c) (cur_rev c) n) None (c, st, cl s) = (Done None, st', d')"
    using assms(3) by (rule last_page_cases)
  from net_ok_page [OF ok assms(2) 1(2,3)] 1(1) show ?thesis by auto
qed

end
