(* ===== verification/Base64.thy ===== *)
theory Base64
  imports GoStrings
begin

section \<open>Base64 (encoding/base64)\<close>

text \<open>
  The two encodings the code uses: \<open>StdEncoding\<close> for the stored identity key and for \<open>[]byte\<close> fields
  in JSON, \<open>RawURLEncoding\<close> (no padding) for pins and invite strings. The decoder is Go's: line ends
  are skipped wherever they stand, and the unused low bits of the last symbol are ignored, so that
  several strings decode to the same bytes; only the encoder's output is canonical.
\<close>

datatype encoding = StdEncoding | RawURLEncoding

definition b64_char :: "encoding \<Rightarrow> nat \<Rightarrow> char" where
  "b64_char e n =
     (if n < 26 then char_of (65 + n)
      else if n < 52 then char_of (71 + n)
      else if n < 62 then char_of (n - 4)
      else if n = 62 then (if e = StdEncoding then CHR ''+'' else CHR ''-'')
      else (if e = StdEncoding then CHR ''/'' else CHR ''_''))"

definition b64_val :: "encoding \<Rightarrow> char \<Rightarrow> nat option" where
  "b64_val e c =
     (let n = of_char c :: nat
      in if 65 \<le> n \<and> n \<le> 90 then Some (n - 65)
         else if 97 \<le> n \<and> n \<le> 122 then Some (n - 71)
         else if 48 \<le> n \<and> n \<le> 57 then Some (n + 4)
         else if c = b64_char e 62 then Some 62
         else if c = b64_char e 63 then Some 63
         else None)"

definition padding :: "encoding \<Rightarrow> nat \<Rightarrow> string" where
  "padding e n = (if e = StdEncoding then replicate n CHR ''='' else [])"

text \<open>\<open>EncodeToString\<close>: three bytes to four symbols, and what is left over.\<close>

fun b64_encode :: "encoding \<Rightarrow> string \<Rightarrow> string" where
  "b64_encode e [] = []"
| "b64_encode e [a] =
     (let x = of_char a
      in [b64_char e (x div 4), b64_char e (x mod 4 * 16)] @ padding e 2)"
| "b64_encode e [a, b] =
     (let x = of_char a; y = of_char b
      in [b64_char e (x div 4), b64_char e (x mod 4 * 16 + y div 16), b64_char e (y mod 16 * 4)] @ padding e 1)"
| "b64_encode e (a # b # c # s) =
     (let x = of_char a; y = of_char b; z = of_char c
      in b64_char e (x div 4) # b64_char e (x mod 4 * 16 + y div 16)
         # b64_char e (y mod 16 * 4 + z div 64) # b64_char e (z mod 64) # b64_encode e s)"

text \<open>
  \<open>DecodeString\<close> without the line ends: four symbols to three bytes; the last symbols of a padded
  string are \<open>xx==\<close> or \<open>xxx=\<close>, of an unpadded one two or three symbols.
\<close>

definition byte1 :: "nat \<Rightarrow> nat \<Rightarrow> char" where
  "byte1 x y = char_of (x * 4 + y div 16)"

definition byte2 :: "nat \<Rightarrow> nat \<Rightarrow> char" where
  "byte2 y z = char_of (y mod 16 * 16 + z div 4)"

definition byte3 :: "nat \<Rightarrow> nat \<Rightarrow> char" where
  "byte3 z w = char_of (z mod 4 * 64 + w)"

fun b64_quanta :: "encoding \<Rightarrow> string \<Rightarrow> string option" where
  "b64_quanta e [] = Some []"
| "b64_quanta e [a] = None"
| "b64_quanta e [a, b] =
     (if e = StdEncoding then None
      else case (b64_val e a, b64_val e b) of
             (Some x, Some y) \<Rightarrow> Some [byte1 x y]
           | _ \<Rightarrow> None)"
| "b64_quanta e [a, b, c] =
     (if e = StdEncoding then None
      else case (b64_val e a, b64_val e b, b64_val e c) of
             (Some x, Some y, Some z) \<Rightarrow> Some [byte1 x y, byte2 y z]
           | _ \<Rightarrow> None)"
| "b64_quanta e (a # b # c # d # s) =
     (case (b64_val e a, b64_val e b) of
        (Some x, Some y) \<Rightarrow>
          (case (b64_val e c, b64_val e d) of
             (Some z, Some w) \<Rightarrow> map_option ((@) [byte1 x y, byte2 y z, byte3 z w]) (b64_quanta e s)
           | (Some z, None) \<Rightarrow>
               if e = StdEncoding \<and> d = CHR ''='' \<and> s = [] then Some [byte1 x y, byte2 y z] else None
           | (None, _) \<Rightarrow>
               if e = StdEncoding \<and> c = CHR ''='' \<and> d = CHR ''='' \<and> s = [] then Some [byte1 x y] else None)
      | _ \<Rightarrow> None)"

definition line_end :: "char \<Rightarrow> bool" where
  "line_end c \<longleftrightarrow> c = CHR 0x0A \<or> c = CHR 0x0D"

definition b64_decode :: "encoding \<Rightarrow> string \<Rightarrow> string option" where
  "b64_decode e s = b64_quanta e (filter (\<lambda>c. \<not> line_end c) s)"

subsection \<open>Decoding what was encoded\<close>

text \<open>The symbols, as numbers.\<close>

lemma of_b64_char:
  "n < 64 \<Longrightarrow> (of_char (b64_char e n) :: nat) =
     (if n < 26 then 65 + n else if n < 52 then 71 + n else if n < 62 then n - 4
      else if n = 62 then (if e = StdEncoding then 43 else 45) else (if e = StdEncoding then 47 else 95))"
  by (simp add: b64_char_def)

lemma b64_val_char [simp]:
  assumes "n < 64"
  shows "b64_val e (b64_char e n) = Some n"
proof -
  consider "n < 62" | "n = 62" | "n = 63" using assms by linarith
  then show ?thesis
  proof cases
    case 1
    then show ?thesis by (auto simp: b64_val_def of_b64_char Let_def)
  next
    case 2
    then show ?thesis by (simp add: b64_val_def of_b64_char Let_def)
  next
    case 3
    have "(of_char (b64_char e 63) :: nat) \<noteq> of_char (b64_char e 62)" by (simp add: of_b64_char)
    then have "b64_char e 63 \<noteq> b64_char e 62" by metis
    with 3 show ?thesis by (cases e) (simp_all add: b64_val_def of_b64_char Let_def)
  qed
qed

lemma b64_char_visible:
  assumes "n < 64"
  shows "33 \<le> (of_char (b64_char e n) :: nat) \<and> (of_char (b64_char e n) :: nat) < 127
    \<and> (of_char (b64_char e n) :: nat) \<notin> {34, 92, 38, 60, 62}"
  using assms by (auto simp: of_b64_char)

text \<open>The bytes, from the sextets they were cut into.\<close>

lemma digits_div: "q < k \<Longrightarrow> (r * k + q) div k = r" and digits_mod: "q < k \<Longrightarrow> (r * k + q) mod k = q" for q :: nat
  by simp_all

lemma part_less [simp]:
  fixes c :: char
  shows "(of_char c :: nat) div 4 < 64" "(of_char c :: nat) div 16 < 16" "(of_char c :: nat) div 64 < 4"
  using nat_of_char_less_256 [of c] by linarith+

lemma sextets [simp]:
  fixes x y :: nat
  shows "y < 16 \<Longrightarrow> x mod 4 * 16 + y < 64" "x mod 4 * 16 < 64" "y < 4 \<Longrightarrow> x mod 16 * 4 + y < 64" "x mod 16 * 4 < 64"
proof -
  have "x mod 4 < 4" "x mod 16 < 16" by simp_all
  then show "y < 16 \<Longrightarrow> x mod 4 * 16 + y < 64" "x mod 4 * 16 < 64" "y < 4 \<Longrightarrow> x mod 16 * 4 + y < 64" "x mod 16 * 4 < 64"
    by linarith+
qed

lemma bytes_back [simp]:
  fixes a :: char
  shows "y < 16 \<Longrightarrow> byte1 (of_char a div 4) (of_char a mod 4 * 16 + y) = a"
    and "byte1 (of_char a div 4) (of_char a mod 4 * 16) = a"
    and "z < 4 \<Longrightarrow> byte2 (x * 16 + of_char a div 16) (of_char a mod 16 * 4 + z) = a"
    and "byte2 (x * 16 + of_char a div 16) (of_char a mod 16 * 4) = a"
    and "byte3 (x * 4 + of_char a div 64) (of_char a mod 64) = a"
  by (simp_all add: byte1_def byte2_def byte3_def digits_div digits_mod)

lemma pad_not_symbol [simp]: "b64_val StdEncoding CHR ''='' = None"
  by (simp add: b64_val_def b64_char_def Let_def)

lemma b64_quanta_encode: "b64_quanta e (b64_encode e s) = Some s"
  by (induction e s rule: b64_encode.induct)
     (simp_all add: Let_def padding_def numeral_2_eq_2)

definition symbols :: "encoding \<Rightarrow> char set" where
  "symbols e = b64_char e ` {..<64}"

lemma symbols [simp]: "n < 64 \<Longrightarrow> b64_char e n \<in> symbols e"
  by (simp add: symbols_def)

lemma b64_encode_chars: "set (b64_encode e s) \<subseteq> symbols e \<union> (if e = StdEncoding then {CHR ''=''} else {})"
  by (induction e s rule: b64_encode.induct) (auto simp: Let_def padding_def)

lemma b64_encode_visible:
  assumes "c \<in> set (b64_encode e s)"
  shows "33 \<le> (of_char c :: nat) \<and> (of_char c :: nat) < 127 \<and> (of_char c :: nat) \<notin> {34, 92, 38, 60, 62}"
proof -
  have "c \<in> symbols e \<or> c = CHR ''=''" using b64_encode_chars [of e s] assms by (auto split: if_splits)
  then show ?thesis using b64_char_visible [of _ e] by (auto simp: symbols_def)
qed

lemma b64_decode_encode [simp]: "b64_decode e (b64_encode e s) = Some s"
proof -
  have "\<not> line_end c" if "c \<in> set (b64_encode e s)" for c
    using b64_encode_visible [OF that] by (auto simp: line_end_def)
  then have "filter (\<lambda>c. \<not> line_end c) (b64_encode e s) = b64_encode e s"
    by (simp add: filter_id_conv)
  then show ?thesis by (simp add: b64_decode_def b64_quanta_encode)
qed

lemma b64_encode_inj: "b64_encode e s = b64_encode e t \<Longrightarrow> s = t"
  by (metis b64_decode_encode option.inject)

lemma length_raw_encode: "length (b64_encode RawURLEncoding s) = (4 * length s + 2) div 3"
  by (induction RawURLEncoding s rule: b64_encode.induct) (simp_all add: Let_def padding_def)

end
