(* ===== verification/Sha256.thy ===== *)
theory Sha256
  imports GoStrings "HOL-Library.Word"
begin

section \<open>SHA-256 (crypto/sha256, encoding/hex)\<close>

text \<open>
  The hash the code takes its short names from: the FIPS 180-4 compression function on 32-bit
  words, padding, and \<open>hex.EncodeToString\<close>. All additions wrap at 32 bits.
\<close>

type_synonym w32 = "32 word"

definition rotr :: "nat \<Rightarrow> w32 \<Rightarrow> w32" where
  "rotr n x = or (drop_bit n x) (push_bit (32 - n) x)"

text \<open>
  The constants: the first 32 bits of the fractional parts of the cube roots of the first 64 primes,
  and of the square roots of the first 8, computed with integer roots.
\<close>

definition first_primes :: "nat list" where
  "first_primes = filter (\<lambda>n. list_all (\<lambda>q. n mod q \<noteq> 0) [2..<n]) [2..<312]"

definition int_root :: "nat \<Rightarrow> nat \<Rightarrow> nat" where
  "int_root k n = fold (\<lambda>b r. if (r + 2 ^ b) ^ k \<le> n then r + 2 ^ b else r) (rev [0..<40]) 0"

definition frac_root :: "nat \<Rightarrow> nat \<Rightarrow> w32" where
  "frac_root k p = of_nat (int_root k (p * 2 ^ (32 * k)))"

definition k256 :: "w32 list" where
  "k256 = map (frac_root 3) first_primes"

type_synonym regs = "w32 \<times> w32 \<times> w32 \<times> w32 \<times> w32 \<times> w32 \<times> w32 \<times> w32"

definition init256 :: regs where
  "init256 = (frac_root 2 2, frac_root 2 3, frac_root 2 5, frac_root 2 7,
              frac_root 2 11, frac_root 2 13, frac_root 2 17, frac_root 2 19)"

text \<open>Big-endian bytes and words.\<close>

definition be_bytes :: "nat \<Rightarrow> nat \<Rightarrow> nat list" where
  "be_bytes k n = rev (map (\<lambda>i. n div 256 ^ i mod 256) [0..<k])"

definition be_word :: "nat list \<Rightarrow> w32" where
  "be_word bs = of_nat (foldl (\<lambda>a b. a * 256 + b) 0 bs)"

fun chunks :: "nat \<Rightarrow> nat list \<Rightarrow> nat \<Rightarrow> nat list list" where
  "chunks 0 bs k = []"
| "chunks (Suc n) bs k = take k bs # chunks n (drop k bs) k"

text \<open>A 1 bit, zeros up to 56 mod 64 bytes, and the length in bits.\<close>

definition pad256 :: "string \<Rightarrow> nat list" where
  "pad256 s = (let bs = map of_char s; n = length bs
               in bs @ [128] @ replicate ((119 - n mod 64) mod 64) 0 @ be_bytes 8 (8 * n))"

text \<open>The message schedule, from the last word back.\<close>

fun schedule :: "nat \<Rightarrow> w32 list \<Rightarrow> w32 list" where
  "schedule 0 ws = rev ws"
| "schedule (Suc n) ws =
     (let w15 = ws ! 14; w2 = ws ! 1;
          s0 = xor (xor (rotr 7 w15) (rotr 18 w15)) (drop_bit 3 w15);
          s1 = xor (xor (rotr 17 w2) (rotr 19 w2)) (drop_bit 10 w2)
      in schedule n ((ws ! 15 + s0 + ws ! 6 + s1) # ws))"

definition round256 :: "w32 \<times> w32 \<Rightarrow> regs \<Rightarrow> regs" where
  "round256 kw r =
     (case (kw, r) of ((k, w), (a, b, c, d, e, f, g, h)) \<Rightarrow>
        let S1 = xor (xor (rotr 6 e) (rotr 11 e)) (rotr 25 e);
            ch = xor (and e f) (and (not e) g);
            t1 = h + S1 + ch + k + w;
            S0 = xor (xor (rotr 2 a) (rotr 13 a)) (rotr 22 a);
            maj = xor (xor (and a b) (and a c)) (and b c);
            t2 = S0 + maj
        in (t1 + t2, a, b, c, d + t1, e, f, g))"

definition block256 :: "nat list \<Rightarrow> regs \<Rightarrow> regs" where
  "block256 blk r =
     (let ws = schedule 48 (rev (map be_word (chunks 16 blk 4)))
      in case (r, fold round256 (zip k256 ws) r) of
           ((a, b, c, d, e, f, g, h), (a', b', c', d', e', f', g', h')) \<Rightarrow>
             (a + a', b + b', c + c', d + d', e + e', f + f', g + g', h + h'))"

text \<open>\<open>sha256.Sum256\<close>: 32 bytes.\<close>

definition sha256 :: "string \<Rightarrow> nat list" where
  "sha256 s =
     (let bs = pad256 s
      in case fold block256 (chunks (length bs div 64) bs 64) init256 of
           (a, b, c, d, e, f, g, h) \<Rightarrow> concat (map (be_bytes 4 \<circ> unat) [a, b, c, d, e, f, g, h]))"

definition hex_digit :: "nat \<Rightarrow> char" where
  "hex_digit n = (if n < 10 then char_of (48 + n) else char_of (87 + n))"

definition hex_encode :: "nat list \<Rightarrow> string" where
  "hex_encode bs = concat (map (\<lambda>b. [hex_digit (b div 16), hex_digit (b mod 16)]) bs)"

lemma length_be_bytes [simp]: "length (be_bytes k n) = k"
  by (simp add: be_bytes_def)

lemma length_sha256: "length (sha256 s) = 32"
proof -
  obtain a b c d e f g h where "fold block256 (chunks (length (pad256 s) div 64) (pad256 s) 64) init256 = (a, b, c, d, e, f, g, h)"
    by (cases "fold block256 (chunks (length (pad256 s) div 64) (pad256 s) 64) init256") (metis surj_pair)
  then show ?thesis unfolding sha256_def Let_def by simp
qed

lemma length_hex_encode: "length (hex_encode bs) = 2 * length bs"
  by (induction bs) (simp_all add: hex_encode_def)

lemma be_bytes_less: "b \<in> set (be_bytes k n) \<Longrightarrow> b < 256"
  by (auto simp: be_bytes_def)

lemma sha256_bytes: "b \<in> set (sha256 s) \<Longrightarrow> b < 256"
proof -
  assume b: "b \<in> set (sha256 s)"
  obtain a1 b1 c d e f g h where "fold block256 (chunks (length (pad256 s) div 64) (pad256 s) 64) init256 = (a1, b1, c, d, e, f, g, h)"
    by (cases "fold block256 (chunks (length (pad256 s) div 64) (pad256 s) 64) init256") (metis surj_pair)
  then have "sha256 s = concat (map (be_bytes 4 \<circ> unat) [a1, b1, c, d, e, f, g, h])"
    unfolding sha256_def Let_def by (simp only: prod.case)
  with b show ?thesis by (auto dest: be_bytes_less)
qed

definition hex_chars :: "char list" where
  "hex_chars = map hex_digit [0..<16]"

lemma hex_chars_eq: "hex_chars = ''0123456789abcdef''"
  by code_simp

lemma hex_encode_chars:
  assumes "c \<in> set (hex_encode bs)" and "\<And>b. b \<in> set bs \<Longrightarrow> b < 256"
  shows "c \<in> set hex_chars"
proof -
  obtain b where b: "b \<in> set bs" and c: "c = hex_digit (b div 16) \<or> c = hex_digit (b mod 16)"
    using assms(1) by (auto simp: hex_encode_def)
  have "b div 16 < 16" using assms(2) [OF b] by simp
  then show ?thesis using c by (auto simp: hex_chars_def)
qed

end
