(* ===== verification/Json.thy ===== *)
theory Json
  imports Base64 Sha256
begin

section \<open>JSON and UTF-8 (encoding/json, unicode/utf8)\<close>

text \<open>
  What the code uses of \<open>encoding/json\<close> on invite strings: the encoder's string escapes, and a decoder
  of whole documents with the scanner's grammar (whitespace, escapes, the depth limit), the repair of
  invalid UTF-8, and the way fields are matched and converted. A string is a list of bytes.
\<close>

subsection \<open>UTF-8\<close>

definition in_byte :: "nat \<Rightarrow> nat \<Rightarrow> char \<Rightarrow> bool" where
  "in_byte lo hi c \<longleftrightarrow> lo \<le> of_char c \<and> of_char c \<le> hi"

text \<open>
  \<open>DecodeRune\<close>, with Go's table of first bytes: the width, and the range of the second byte. The width
  of the rune a string starts with is 0 where Go returns \<open>RuneError\<close>.
\<close>

definition rune_head :: "char \<Rightarrow> nat \<times> nat \<times> nat" where
  "rune_head a =
     (if in_byte 0 0x7F a then (1, 0, 0)
      else if in_byte 0xC2 0xDF a then (2, 0x80, 0xBF)
      else if in_byte 0xE0 0xE0 a then (3, 0xA0, 0xBF)
      else if in_byte 0xED 0xED a then (3, 0x80, 0x9F)
      else if in_byte 0xE1 0xEF a then (3, 0x80, 0xBF)
      else if in_byte 0xF0 0xF0 a then (4, 0x90, 0xBF)
      else if in_byte 0xF4 0xF4 a then (4, 0x80, 0x8F)
      else if in_byte 0xF1 0xF3 a then (4, 0x80, 0xBF)
      else (0, 0, 0))"

definition rune_width :: "string \<Rightarrow> nat" where
  "rune_width s =
     (case s of
        [] \<Rightarrow> 0
      | a # r \<Rightarrow>
          (case rune_head a of (w, lo, hi) \<Rightarrow>
             if w \<le> 1 then w
             else if length r < w - 1 then 0
             else if in_byte lo hi (r ! 0) \<and> list_all (in_byte 0x80 0xBF) (take (w - 1) r) then w
             else 0))"

lemma rune_width_Nil [simp]: "rune_width [] = 0"
  by (simp add: rune_width_def)

lemma rune_width_le: "rune_width s \<le> length s"
  by (auto simp: rune_width_def split: list.splits prod.splits)

lemma rune_width_prefix:
  assumes "rune_width s \<noteq> 0"
  shows "rune_width (take (rune_width s) s @ t) = rune_width s"
proof -
  obtain a r where s: "s = a # r" using assms by (cases s) auto
  obtain w lo hi where h: "rune_head a = (w, lo, hi)" by (metis prod_cases3)
  have w: "rune_width s = w" using assms s h by (auto simp: rune_width_def split: if_splits)
  then obtain v where v: "w = Suc v" using assms by (cases w) auto
  show ?thesis
  proof (cases v)
    case 0
    then show ?thesis using s h w v by (simp add: rune_width_def)
  next
    case (Suc u)
    then have c: "\<not> length r < v" "in_byte lo hi (r ! 0)" "list_all (in_byte 0x80 0xBF) (take v r)"
      using w assms s h v by (auto simp: rune_width_def split: if_splits)
    have "(take v r @ t) ! 0 = r ! 0" "take v (take v r @ t) = take v r" using c(1) Suc by (simp_all add: nth_append)
    then show ?thesis using c s h w v Suc by (simp add: rune_width_def)
  qed
qed

lemma rune_width_ascii: "in_byte 0 0x7F c \<Longrightarrow> rune_width (c # s) = 1"
  by (simp add: rune_width_def rune_head_def)

function valid_utf8 :: "string \<Rightarrow> bool" where
  "valid_utf8 s =
     (if s = [] then True
      else if rune_width s = 0 then False
      else valid_utf8 (drop (rune_width s) s))"
  by pat_completeness auto
termination by (relation "measure length") auto

declare valid_utf8.simps [simp del]

text \<open>\<open>utf8.AppendRune\<close>, for runes that are not surrogates.\<close>

definition encode_rune :: "nat \<Rightarrow> string" where
  "encode_rune v =
     (if v < 0x80 then [char_of v]
      else if v < 0x800 then [char_of (0xC0 + v div 64), char_of (0x80 + v mod 64)]
      else if v < 0x10000 then [char_of (0xE0 + v div 4096), char_of (0x80 + v div 64 mod 64), char_of (0x80 + v mod 64)]
      else [char_of (0xF0 + v div 262144), char_of (0x80 + v div 4096 mod 64), char_of (0x80 + v div 64 mod 64),
            char_of (0x80 + v mod 64)])"

definition replacement :: string where "replacement = [CHR 0xEF, CHR 0xBF, CHR 0xBD]"

subsection \<open>Strings\<close>

definition dquote :: char where "dquote = CHR 0x22"

definition backslash :: char where "backslash = CHR 0x5C"

text \<open>The encoder's escapes, \<open><\<close>, \<open>>\<close> and \<open>&\<close> among them.\<close>

definition escape_ascii :: "char \<Rightarrow> string" where
  "escape_ascii c =
     (let n = of_char c :: nat
      in if n = 0x22 \<or> n = 0x5C then [backslash, c]
         else if n = 8 then backslash # ''b''
         else if n = 12 then backslash # ''f''
         else if n = 10 then backslash # ''n''
         else if n = 13 then backslash # ''r''
         else if n = 9 then backslash # ''t''
         else if n < 32 \<or> n = 0x3C \<or> n = 0x3E \<or> n = 0x26 then
           backslash # ''u00'' @ [hex_digit (n div 16), hex_digit (n mod 16)]
         else [c])"

function json_escape :: "string \<Rightarrow> string" where
  "json_escape [] = []"
| "json_escape (c # s) =
     (if in_byte 0 0x7F c then escape_ascii c @ json_escape s
      else if rune_width (c # s) = 0 then backslash # ''ufffd'' @ json_escape s
      else if take (rune_width (c # s)) (c # s) = [CHR 0xE2, CHR 0x80, CHR 0xA8] then
        backslash # ''u2028'' @ json_escape (drop (rune_width (c # s)) (c # s))
      else if take (rune_width (c # s)) (c # s) = [CHR 0xE2, CHR 0x80, CHR 0xA9] then
        backslash # ''u2029'' @ json_escape (drop (rune_width (c # s)) (c # s))
      else take (rune_width (c # s)) (c # s) @ json_escape (drop (rune_width (c # s)) (c # s)))"
  by pat_completeness auto
termination by (relation "measure length") auto

definition json_quote :: "string \<Rightarrow> string" where
  "json_quote s = dquote # json_escape s @ [dquote]"

text \<open>The decoder: four hex digits, surrogate pairs (a lone surrogate becomes U+FFFD), and the short escapes.\<close>

definition hex_val :: "char \<Rightarrow> nat option" where
  "hex_val c =
     (let n = of_char c :: nat
      in if 48 \<le> n \<and> n \<le> 57 then Some (n - 48)
         else if 97 \<le> n \<and> n \<le> 102 then Some (n - 87)
         else if 65 \<le> n \<and> n \<le> 70 then Some (n - 55)
         else None)"

fun hex4 :: "string \<Rightarrow> (nat \<times> string) option" where
  "hex4 (a # b # c # d # s) =
     (case (hex_val a, hex_val b, hex_val c, hex_val d) of
        (Some w, Some x, Some y, Some z) \<Rightarrow> Some (((w * 16 + x) * 16 + y) * 16 + z, s)
      | _ \<Rightarrow> None)"
| "hex4 _ = None"

definition low_surrogate :: "string \<Rightarrow> (nat \<times> string) option" where
  "low_surrogate s =
     (case s of
        a # b # r \<Rightarrow>
          (if a = backslash \<and> b = CHR ''u'' then
             (case hex4 r of
                Some (w, r') \<Rightarrow> if 0xDC00 \<le> w \<and> w < 0xE000 then Some (w, r') else None
              | None \<Rightarrow> None)
           else None)
      | _ \<Rightarrow> None)"

definition unicode_escape :: "string \<Rightarrow> (string \<times> string) option" where
  "unicode_escape s =
     (case hex4 s of
        None \<Rightarrow> None
      | Some (v, r) \<Rightarrow>
          if 0xD800 \<le> v \<and> v < 0xE000 then
            (case (if v < 0xDC00 then low_surrogate r else None) of
               None \<Rightarrow> Some (replacement, r)
             | Some (w, r') \<Rightarrow> Some (encode_rune (0x10000 + (v - 0xD800) * 1024 + (w - 0xDC00)), r'))
          else Some (encode_rune v, r))"

definition short_escape :: "char \<Rightarrow> char option" where
  "short_escape e =
     (if e = dquote \<or> e = backslash \<or> e = CHR ''/'' then Some e
      else if e = CHR ''b'' then Some CHR 0x08
      else if e = CHR ''f'' then Some CHR 0x0C
      else if e = CHR ''n'' then Some CHR 0x0A
      else if e = CHR ''r'' then Some CHR 0x0D
      else if e = CHR ''t'' then Some CHR 0x09
      else None)"

lemma hex4_shorter: "hex4 s = Some (v, r) \<Longrightarrow> length r < length s"
  by (cases s rule: hex4.cases) (auto split: option.splits)

lemma unicode_escape_shorter: "unicode_escape s = Some (bs, r) \<Longrightarrow> length r < length s"
  by (auto simp: unicode_escape_def low_surrogate_def dest!: hex4_shorter
        split: option.splits if_splits list.splits)

text \<open>A string from after its opening quote: its value and what follows the closing quote.\<close>

function json_string :: "string \<Rightarrow> (string \<times> string) option" where
  "json_string [] = None"
| "json_string (c # s) =
     (if c = dquote then Some ([], s)
      else if c = backslash then
        (case s of
           [] \<Rightarrow> None
         | e # r \<Rightarrow>
             if e = CHR ''u'' then
               (case unicode_escape r of
                  None \<Rightarrow> None
                | Some (bs, r') \<Rightarrow> map_option (apfst ((@) bs)) (json_string r'))
             else
               (case short_escape e of
                  None \<Rightarrow> None
                | Some b \<Rightarrow> map_option (apfst ((#) b)) (json_string r)))
      else if (of_char c :: nat) < 32 then None
      else if rune_width (c # s) = 0 then map_option (apfst ((@) replacement)) (json_string s)
      else map_option (apfst ((@) (take (rune_width (c # s)) (c # s)))) (json_string (drop (rune_width (c # s)) (c # s))))"
  by pat_completeness auto
termination
  by (relation "measure length") (auto dest!: unicode_escape_shorter)

declare json_escape.simps(2) [simp del] json_string.simps(2) [simp del]

subsection \<open>Documents\<close>

datatype json =
  JNull | JBool bool | JNumber string | JString string | JArray "json list" | JObject "(string \<times> json) list"

definition json_space :: "char \<Rightarrow> bool" where
  "json_space c \<longleftrightarrow> c = CHR 0x20 \<or> c = CHR 0x09 \<or> c = CHR 0x0A \<or> c = CHR 0x0D"

definition skip_spaces :: "string \<Rightarrow> string" where
  "skip_spaces s = dropWhile json_space s"

definition is_digit :: "char \<Rightarrow> bool" where
  "is_digit c \<longleftrightarrow> digit_val c \<noteq> None"

definition digits :: "string \<Rightarrow> string \<times> string" where
  "digits s = (takeWhile is_digit s, dropWhile is_digit s)"

text \<open>
  A number: an optional minus, an integer without leading zeros, and optional fraction and exponent;
  the value is the literal, which is what a field's conversion reads.
\<close>

definition json_sign :: "string \<Rightarrow> string \<times> string" where
  "json_sign s = (case s of c # r \<Rightarrow> if c = CHR ''-'' then ([c], r) else ([], s) | [] \<Rightarrow> ([], []))"

definition json_integer :: "string \<Rightarrow> (string \<times> string) option" where
  "json_integer s =
     (case s of
        [] \<Rightarrow> None
      | c # r \<Rightarrow> if c = CHR ''0'' then Some ([c], r) else if is_digit c then Some (digits s) else None)"

definition json_fraction :: "string \<Rightarrow> (string \<times> string) option" where
  "json_fraction s =
     (case s of
        c # r \<Rightarrow>
          if c = CHR ''.'' then (case digits r of (ds, r') \<Rightarrow> if ds = [] then None else Some (c # ds, r'))
          else Some ([], s)
      | [] \<Rightarrow> Some ([], []))"

definition json_exponent :: "string \<Rightarrow> (string \<times> string) option" where
  "json_exponent s =
     (case s of
        c # r \<Rightarrow>
          if c = CHR ''e'' \<or> c = CHR ''E'' then
            (let (sg, r1) = (case r of x # r' \<Rightarrow> if x = CHR ''+'' \<or> x = CHR ''-'' then ([x], r') else ([], r) | [] \<Rightarrow> ([], []))
             in case digits r1 of (ds, r') \<Rightarrow> if ds = [] then None else Some (c # sg @ ds, r'))
          else Some ([], s)
      | [] \<Rightarrow> Some ([], []))"

definition json_number :: "string \<Rightarrow> (json \<times> string) option" where
  "json_number s =
     (let (sg, r) = json_sign s
      in case json_integer r of
           None \<Rightarrow> None
         | Some (i, r) \<Rightarrow>
             (case json_fraction r of
                None \<Rightarrow> None
              | Some (f, r) \<Rightarrow>
                  (case json_exponent r of
                     None \<Rightarrow> None
                   | Some (x, r) \<Rightarrow> Some (JNumber (sg @ i @ f @ x), r))))"

definition json_word :: "string \<Rightarrow> (json \<times> string) option" where
  "json_word s =
     (if has_prefix ''null'' s then Some (JNull, drop 4 s)
      else if has_prefix ''true'' s then Some (JBool True, drop 4 s)
      else if has_prefix ''false'' s then Some (JBool False, drop 5 s)
      else json_number s)"

text \<open>
  A value, the members of an object and the elements of an array, each from after what opened it.
  The depth is limited to 10000. Each call has one unit of fuel less; one more than twice the input's
  length is enough.
\<close>

definition max_nesting :: int where "max_nesting = 10000"

fun json_value :: "nat \<Rightarrow> int \<Rightarrow> string \<Rightarrow> (json \<times> string) option"
  and json_members :: "nat \<Rightarrow> int \<Rightarrow> string \<Rightarrow> ((string \<times> json) list \<times> string) option"
  and json_elements :: "nat \<Rightarrow> int \<Rightarrow> string \<Rightarrow> (json list \<times> string) option" where
  "json_value 0 d s = None"
| "json_value (Suc n) d s =
     (case skip_spaces s of
        [] \<Rightarrow> None
      | c # r \<Rightarrow>
          if c = dquote then map_option (apfst JString) (json_string r)
          else if c = CHR ''{'' then
            (if max_nesting \<le> d then None
             else case skip_spaces r of
                    [] \<Rightarrow> None
                  | e # r' \<Rightarrow> if e = CHR ''}'' then Some (JObject [], r')
                             else map_option (apfst JObject) (json_members n (d + 1) r))
          else if c = CHR ''['' then
            (if max_nesting \<le> d then None
             else case skip_spaces r of
                    [] \<Rightarrow> None
                  | e # r' \<Rightarrow> if e = CHR '']'' then Some (JArray [], r')
                             else map_option (apfst JArray) (json_elements n (d + 1) r))
          else json_word (c # r))"
| "json_members 0 d s = None"
| "json_members (Suc n) d s =
     (case skip_spaces s of
        [] \<Rightarrow> None
      | c # r \<Rightarrow>
          if c \<noteq> dquote then None
          else (case json_string r of
                  None \<Rightarrow> None
                | Some (k, r1) \<Rightarrow>
                    (case skip_spaces r1 of
                       [] \<Rightarrow> None
                     | e # r2 \<Rightarrow>
                         if e \<noteq> CHR '':'' then None
                         else (case json_value n d r2 of
                                 None \<Rightarrow> None
                               | Some (v, r3) \<Rightarrow>
                                   (case skip_spaces r3 of
                                      [] \<Rightarrow> None
                                    | f # r4 \<Rightarrow>
                                        if f = CHR ''}'' then Some ([(k, v)], r4)
                                        else if f = CHR '','' then map_option (apfst ((#) (k, v))) (json_members n d r4)
                                        else None)))))"
| "json_elements 0 d s = None"
| "json_elements (Suc n) d s =
     (case json_value n d s of
        None \<Rightarrow> None
      | Some (v, r) \<Rightarrow>
          (case skip_spaces r of
             [] \<Rightarrow> None
           | f # r' \<Rightarrow>
               if f = CHR '']'' then Some ([v], r')
               else if f = CHR '','' then map_option (apfst ((#) v)) (json_elements n d r')
               else None))"

text \<open>The encoder, for structs whose fields are strings and integers: the members in the order of the fields.\<close>

definition json_member :: "string \<Rightarrow> string \<Rightarrow> string" where
  "json_member k v = json_quote k @ CHR '':'' # v"

fun encode_value :: "json \<Rightarrow> string" where
  "encode_value (JString s) = json_quote s"
| "encode_value (JNumber s) = s"
| "encode_value (JBool b) = (if b then ''true'' else ''false'')"
| "encode_value _ = ''null''"

definition encode_members :: "(string \<times> json) list \<Rightarrow> string" where
  "encode_members ms = join_with '','' (map (\<lambda>(k, v). json_member k (encode_value v)) ms)"

definition encode_object :: "(string \<times> json) list \<Rightarrow> string" where
  "encode_object ms = CHR ''{'' # encode_members ms @ ''}''"

text \<open>The fields of a struct, and those with \<open>omitempty\<close>.\<close>

definition text_member :: "string \<Rightarrow> string \<Rightarrow> (string \<times> json) list" where
  "text_member k s = [(k, JString s)]"

definition int_member :: "string \<Rightarrow> int \<Rightarrow> (string \<times> json) list" where
  "int_member k i = [(k, JNumber (fmt_int i))]"

definition omit_text :: "string \<Rightarrow> string \<Rightarrow> (string \<times> json) list" where
  "omit_text k s = (if s = [] then [] else text_member k s)"

definition omit_int :: "string \<Rightarrow> int \<Rightarrow> (string \<times> json) list" where
  "omit_int k i = (if i = 0 then [] else int_member k i)"

definition json_document :: "string \<Rightarrow> json option" where
  "json_document s =
     (case json_value (Suc (2 * length s)) 0 s of
        None \<Rightarrow> None
      | Some (v, r) \<Rightarrow> if skip_spaces r = [] then Some v else None)"

text \<open>
  \<open>json.Unmarshal\<close> into a struct: a member goes to the field with its name, or its name in another
  case; \<open>null\<close> leaves a field as it is; a value of the wrong type, or out of range, is an error.
\<close>

definition is_field :: "string \<Rightarrow> string \<Rightarrow> bool" where
  "is_field name k \<longleftrightarrow> k = name \<or> equal_fold k name"

definition string_field :: "json \<Rightarrow> string \<Rightarrow> string option" where
  "string_field v cur = (case v of JString s \<Rightarrow> Some s | JNull \<Rightarrow> Some cur | _ \<Rightarrow> None)"

definition int64_field :: "json \<Rightarrow> int \<Rightarrow> int option" where
  "int64_field v cur = (case v of JNumber s \<Rightarrow> parse_int64 s | JNull \<Rightarrow> Some cur | _ \<Rightarrow> None)"

end
