(* ===== verification/JsonProps.thy ===== *)
theory JsonProps
  imports Json
begin

section \<open>What the JSON codec promises\<close>

text \<open>
  Reading back what the encoder wrote gives the string, for valid UTF-8; the parsers consume what they
  read, so that the fuel of a document is enough; a formatted number is read whole.
\<close>

subsection \<open>Strings\<close>

lemma hex_val_digit [simp]: "d < 16 \<Longrightarrow> hex_val (hex_digit d) = Some d"
  by (auto simp: hex_val_def hex_digit_def Let_def)

lemma hex_val_zero [simp]: "hex_val CHR ''0'' = Some 0"
  by (simp add: hex_val_def)

lemma char_eqI: "(of_char c :: nat) = of_char d \<Longrightarrow> c = d"
  by (metis char_of_char)

lemma quoted_ascii:
  assumes "in_byte 0 0x7F c" "(of_char c :: nat) \<ge> 32" "of_char c \<noteq> (0x22 :: nat)" "of_char c \<noteq> (0x5C :: nat)"
  shows "json_string (c # t) = map_option (apfst ((#) c)) (json_string t)"
proof -
  have "c \<noteq> dquote" "c \<noteq> backslash" using assms(3,4) by (auto simp: dquote_def backslash_def)
  moreover have "(@) [c] = (#) c" by auto
  ultimately show ?thesis using assms(1,2) by (simp add: json_string.simps(2) rune_width_ascii)
qed

lemma quoted_short:
  assumes "short_escape e = Some c" "e \<noteq> CHR ''u''"
  shows "json_string (backslash # e # t) = map_option (apfst ((#) c)) (json_string t)"
  using assms by (simp add: json_string.simps(2) dquote_def backslash_def)

lemma quoted_hex:
  assumes "n < 128"
  shows "json_string (backslash # ''u00'' @ [hex_digit (n div 16), hex_digit (n mod 16)] @ t)
    = map_option (apfst ((#) (char_of n))) (json_string t)"
proof -
  have "n div 16 < 16" using assms by simp
  then have "hex4 (''00'' @ [hex_digit (n div 16), hex_digit (n mod 16)] @ t) = Some (n, t)" by simp
  moreover have "encode_rune n = [char_of n]" using assms by (simp add: encode_rune_def)
  ultimately have "unicode_escape (''00'' @ [hex_digit (n div 16), hex_digit (n mod 16)] @ t) = Some ([char_of n], t)"
    using assms by (simp add: unicode_escape_def)
  moreover have "(@) [char_of n] = (#) (char_of n)" by auto
  ultimately show ?thesis by (simp add: json_string.simps(2) dquote_def backslash_def)
qed

lemma json_string_ascii:
  assumes "in_byte 0 0x7F c"
  shows "json_string (escape_ascii c @ t) = map_option (apfst ((#) c)) (json_string t)"
proof -
  let ?n = "of_char c :: nat"
  have n: "?n < 128" using assms by (simp add: in_byte_def)
  consider "?n = 0x22" | "?n = 0x5C" | "?n = 8" | "?n = 12" | "?n = 10" | "?n = 13" | "?n = 9"
    | "?n \<notin> {0x22, 0x5C, 8, 12, 10, 13, 9}" "?n < 32 \<or> ?n = 0x3C \<or> ?n = 0x3E \<or> ?n = 0x26"
    | "?n \<notin> {0x22, 0x5C, 8, 12, 10, 13, 9}" "32 \<le> ?n" "?n \<notin> {0x3C, 0x3E, 0x26}" by fastforce
  then show ?thesis
  proof cases
    case 1
    then have "c = dquote" by (intro char_eqI) (simp add: dquote_def)
    with 1 show ?thesis using quoted_short [of dquote c t] by (simp add: escape_ascii_def short_escape_def dquote_def)
  next
    case 2
    then have "c = backslash" by (intro char_eqI) (simp add: backslash_def)
    with 2 show ?thesis using quoted_short [of backslash c t] by (simp add: escape_ascii_def short_escape_def backslash_def)
  next
    case 3
    then have "c = CHR 0x08" by (intro char_eqI) simp
    with 3 show ?thesis using quoted_short [of "CHR ''b''" c t]
      by (simp add: escape_ascii_def short_escape_def dquote_def backslash_def)
  next
    case 4
    then have "c = CHR 0x0C" by (intro char_eqI) simp
    with 4 show ?thesis using quoted_short [of "CHR ''f''" c t]
      by (simp add: escape_ascii_def short_escape_def dquote_def backslash_def)
  next
    case 5
    then have "c = CHR 0x0A" by (intro char_eqI) simp
    with 5 show ?thesis using quoted_short [of "CHR ''n''" c t]
      by (simp add: escape_ascii_def short_escape_def dquote_def backslash_def)
  next
    case 6
    then have "c = CHR 0x0D" by (intro char_eqI) simp
    with 6 show ?thesis using quoted_short [of "CHR ''r''" c t]
      by (simp add: escape_ascii_def short_escape_def dquote_def backslash_def)
  next
    case 7
    then have "c = CHR 0x09" by (intro char_eqI) simp
    with 7 show ?thesis using quoted_short [of "CHR ''t''" c t]
      by (simp add: escape_ascii_def short_escape_def dquote_def backslash_def)
  next
    case 8
    then have "escape_ascii c = backslash # ''u00'' @ [hex_digit (?n div 16), hex_digit (?n mod 16)]"
      by (simp add: escape_ascii_def Let_def)
    then show ?thesis using quoted_hex [OF n, of t] by simp
  next
    case 9
    then have "escape_ascii c = [c]" by (simp add: escape_ascii_def Let_def)
    then show ?thesis using quoted_ascii [OF assms, of t] 9 by simp
  qed
qed

text \<open>A rune of several bytes: as it is, or one of the two escaped line separators.\<close>

lemma rune_wide:
  assumes "\<not> in_byte 0 0x7F c" "rune_width (c # s) \<noteq> 0"
  shows "json_string (take (rune_width (c # s)) (c # s) @ t)
    = map_option (apfst ((@) (take (rune_width (c # s)) (c # s)))) (json_string t)"
proof -
  let ?k = "rune_width (c # s)"
  obtain m where m: "?k = Suc m" using assms(2) by (cases ?k) auto
  have w: "rune_width (c # take m s @ t) = ?k" using rune_width_prefix [OF assms(2), of t] by (simp add: m)
  have "length (take m s) = m" using rune_width_le [of "c # s"] m by simp
  then have k: "take ?k (c # take m s @ t) = c # take m s" "drop ?k (c # take m s @ t) = t" using m by simp_all
  have "c \<noteq> dquote" "c \<noteq> backslash" "\<not> (of_char c :: nat) < 32"
    using assms(1) by (auto simp: in_byte_def dquote_def backslash_def)
  then have "json_string (c # take m s @ t) = map_option (apfst ((@) (c # take m s))) (json_string t)"
    using w k assms(2) by (simp add: json_string.simps(2))
  then show ?thesis by (simp add: m)
qed

lemma separators:
  "json_string (backslash # ''u2028'' @ t) = map_option (apfst ((@) [CHR 0xE2, CHR 0x80, CHR 0xA8])) (json_string t)"
  "json_string (backslash # ''u2029'' @ t) = map_option (apfst ((@) [CHR 0xE2, CHR 0x80, CHR 0xA9])) (json_string t)"
proof -
  have "hex4 (''2028'' @ t) = Some (0x2028, t)" "hex4 (''2029'' @ t) = Some (0x2029, t)" by (simp_all add: hex_val_def)
  moreover have "encode_rune 0x2028 = [CHR 0xE2, CHR 0x80, CHR 0xA8]" "encode_rune 0x2029 = [CHR 0xE2, CHR 0x80, CHR 0xA9]"
    by (auto simp: encode_rune_def intro!: char_eqI)
  ultimately have "unicode_escape (''2028'' @ t) = Some ([CHR 0xE2, CHR 0x80, CHR 0xA8], t)"
    "unicode_escape (''2029'' @ t) = Some ([CHR 0xE2, CHR 0x80, CHR 0xA9], t)"
    by (simp_all add: unicode_escape_def)
  then show "json_string (backslash # ''u2028'' @ t) = map_option (apfst ((@) [CHR 0xE2, CHR 0x80, CHR 0xA8])) (json_string t)"
    "json_string (backslash # ''u2029'' @ t) = map_option (apfst ((@) [CHR 0xE2, CHR 0x80, CHR 0xA9])) (json_string t)"
    by (simp_all add: json_string.simps(2) dquote_def backslash_def)
qed

lemma json_string_escape:
  "valid_utf8 s \<Longrightarrow> json_string (json_escape s @ dquote # t) = Some (s, t)"
proof (induction s rule: json_escape.induct)
  case 1
  show ?case by (simp add: json_string.simps(2))
next
  case (2 c s)
  let ?k = "rune_width (c # s)"
  have v: "?k \<noteq> 0" "valid_utf8 (drop ?k (c # s))" using 2(6) by (subst (asm) valid_utf8.simps; auto split: if_splits)+
  show ?case
  proof (cases "in_byte 0 0x7F c")
    case True
    then have "drop ?k (c # s) = s" by (simp add: rune_width_ascii)
    then show ?thesis using True 2(1) v(2) by (simp add: json_escape.simps(2) json_string_ascii)
  next
    case False
    let ?r = "json_escape (drop ?k (c # s)) @ dquote # t"
    have "json_string ?r = Some (drop ?k (c # s), t)"
      using 2(3-5) [OF False v(1)] v(2) by blast
    moreover have "json_string (json_escape (c # s) @ dquote # t) = map_option (apfst ((@) (take ?k (c # s)))) (json_string ?r)"
      using False v(1) rune_wide [OF False v(1), of ?r] separators [of ?r]
      by (auto simp: json_escape.simps(2) simp del: drop_Cons' take_Cons')
    ultimately show ?thesis by simp
  qed
qed

subsection \<open>Documents\<close>

lemma skip_spaces_le: "length (skip_spaces s) \<le> length s"
  by (simp add: skip_spaces_def length_dropWhile_le)

lemma skip_spaces_Cons: "skip_spaces s = c # r \<Longrightarrow> length r < length s"
  using skip_spaces_le [of s] by simp

lemma skip_spaces_visible [simp]: "\<not> json_space c \<Longrightarrow> skip_spaces (c # s) = c # s"
  by (simp add: skip_spaces_def)

lemma json_string_shorter: "json_string s = Some (v, r) \<Longrightarrow> length r < length s"
proof (induction s arbitrary: v r rule: json_string.induct)
  case 1
  then show ?case by simp
next
  case (2 c s)
  note step = 2(5) [unfolded json_string.simps(2)]
  show ?case
  proof (cases "c = dquote")
    case True
    with step show ?thesis by simp
  next
    case q: False
    show ?thesis
    proof (cases "c = backslash")
      case True
      then obtain e t where s: "s = e # t" using step q by (cases s) auto
      show ?thesis
      proof (cases "e = CHR ''u''")
        case u: True
        then obtain bs t' v' where "unicode_escape t = Some (bs, t')" "json_string t' = Some (v', r)"
          using step q True s by (auto split: option.splits)
        then show ?thesis using 2(1) [OF q True s u] unicode_escape_shorter s by fastforce
      next
        case u: False
        then obtain b v' where "short_escape e = Some b" "json_string t = Some (v', r)"
          using step q True s by (auto split: option.splits)
        then show ?thesis using 2(2) [OF q True s u] s by fastforce
      qed
    next
      case b: False
      then have n: "\<not> (of_char c :: nat) < 32" using step q by (auto split: if_splits)
      show ?thesis
      proof (cases "rune_width (c # s) = 0")
        case True
        then obtain v' where "json_string s = Some (v', r)" using step q b n by auto
        then show ?thesis using 2(3) [OF q b n True] by fastforce
      next
        case False
        then obtain v' where "json_string (drop (rune_width (c # s)) (c # s)) = Some (v', r)" using step q b n by auto
        then show ?thesis using 2(4) [OF q b n False] by fastforce
      qed
    qed
  qed
qed

lemma digits_le: "digits s = (ds, r) \<Longrightarrow> length r \<le> length s"
  by (auto simp: digits_def length_dropWhile_le)

lemma json_integer_shorter: "json_integer s = Some (i, r) \<Longrightarrow> length r < length s"
  by (auto simp: json_integer_def digits_def length_dropWhile_le less_Suc_eq_le split: list.splits if_splits)

lemma json_fraction_le: "json_fraction s = Some (i, r) \<Longrightarrow> length r \<le> length s"
  by (auto simp: json_fraction_def digits_def intro: le_SucI length_dropWhile_le split: list.splits if_splits)

lemma json_exponent_le: "json_exponent s = Some (i, r) \<Longrightarrow> length r \<le> length s"
  by (auto simp: json_exponent_def digits_def intro: le_SucI length_dropWhile_le split: list.splits if_splits)

lemma json_sign_le: "json_sign s = (sg, r) \<Longrightarrow> length r \<le> length s"
  by (auto simp: json_sign_def split: list.splits if_splits)

lemma json_number_shorter: "json_number s = Some (v, r) \<Longrightarrow> length r < length s"
proof -
  assume a: "json_number s = Some (v, r)"
  obtain sg r1 where 1: "json_sign s = (sg, r1)" by fastforce
  obtain i r2 where 2: "json_integer r1 = Some (i, r2)" using a 1 by (auto simp: json_number_def split: option.splits)
  obtain f r3 where 3: "json_fraction r2 = Some (f, r3)" using a 1 2 by (auto simp: json_number_def split: option.splits)
  obtain x where 4: "json_exponent r3 = Some (x, r)" using a 1 2 3 by (auto simp: json_number_def split: option.splits)
  show ?thesis using json_sign_le [OF 1] json_integer_shorter [OF 2] json_fraction_le [OF 3] json_exponent_le [OF 4] by linarith
qed

lemma has_prefix_length: "has_prefix p s \<Longrightarrow> length p \<le> length s"
  unfolding has_prefix_def by (metis length_take min.cobounded1)

lemma json_word_shorter: "json_word s = Some (v, r) \<Longrightarrow> length r < length s"
  by (auto simp: json_word_def dest!: has_prefix_length dest: json_number_shorter split: if_splits)

text \<open>What follows a value, the members or the elements is shorter than what they were read from.\<close>

definition shorter :: "nat \<Rightarrow> bool" where
  "shorter n \<longleftrightarrow> (\<forall>d s v r. json_value n d s = Some (v, r) \<longrightarrow> length r < length s)
     \<and> (\<forall>d s v r. json_members n d s = Some (v, r) \<longrightarrow> length r < length s)
     \<and> (\<forall>d s v r. json_elements n d s = Some (v, r) \<longrightarrow> length r < length s)"

lemma shorterD:
  assumes "shorter n"
  shows "json_value n d s = Some (v, r) \<Longrightarrow> length r < length s"
    and "json_members n d s = Some (ms, r) \<Longrightarrow> length r < length s"
    and "json_elements n d s = Some (es, r) \<Longrightarrow> length r < length s"
  using assms by (auto simp: shorter_def)

lemma json_value_shorter_step:
  assumes "shorter n" "json_value (Suc n) d s = Some (v, r)"
  shows "length r < length s"
proof -
  obtain c t where t: "skip_spaces s = c # t" using assms(2) by (cases "skip_spaces s") auto
  have l: "length t < length s" using t by (rule skip_spaces_Cons)
  consider "c = dquote" | "c \<noteq> dquote" "c = CHR ''{''" | "c \<noteq> dquote" "c = CHR ''[''"
    | "c \<noteq> dquote" "c \<noteq> CHR ''{''" "c \<noteq> CHR ''[''" by blast
  then show ?thesis
  proof cases
    case 1
    then show ?thesis using assms(2) t l json_string_shorter [of t] by fastforce
  next
    case 2
    then obtain e t' where e: "skip_spaces t = e # t'" using assms(2) t by (cases "skip_spaces t") (auto split: if_splits)
    show ?thesis
    proof (cases "e = CHR ''}''")
      case True
      then show ?thesis using assms(2) t l 2 e skip_spaces_Cons [OF e] by (auto split: if_splits)
    next
      case False
      then obtain ms where "json_members n (d + 1) t = Some (ms, r)" using assms(2) t 2 e by (auto split: if_splits)
      then show ?thesis using shorterD(2) [OF assms(1)] l by fastforce
    qed
  next
    case 3
    then obtain e t' where e: "skip_spaces t = e # t'" using assms(2) t by (cases "skip_spaces t") (auto split: if_splits)
    show ?thesis
    proof (cases "e = CHR '']''")
      case True
      then show ?thesis using assms(2) t l 3 e skip_spaces_Cons [OF e] by (auto split: if_splits)
    next
      case False
      then obtain es where "json_elements n (d + 1) t = Some (es, r)" using assms(2) t 3 e by (auto split: if_splits)
      then show ?thesis using shorterD(3) [OF assms(1)] l by fastforce
    qed
  next
    case 4
    then have "json_word (c # t) = Some (v, r)" using assms(2) t by simp
    then show ?thesis using json_word_shorter l by fastforce
  qed
qed

text \<open>What a member is made of.\<close>

lemma json_membersE:
  assumes "json_members (Suc n) d s = Some (ms, r)"
  obtains t k t1 t2 v t3 f t4 where "skip_spaces s = dquote # t" "json_string t = Some (k, t1)"
    "skip_spaces t1 = CHR '':'' # t2" "json_value n d t2 = Some (v, t3)" "skip_spaces t3 = f # t4"
    "f = CHR ''}'' \<and> ms = [(k, v)] \<and> r = t4
     \<or> f = CHR '','' \<and> (\<exists>ms'. json_members n d t4 = Some (ms', r) \<and> ms = (k, v) # ms')"
proof -
  obtain t where 1: "skip_spaces s = dquote # t" using assms by (auto split: list.splits if_splits)
  obtain k t1 where 2: "json_string t = Some (k, t1)" using assms 1 by (auto split: option.splits)
  obtain t2 where 3: "skip_spaces t1 = CHR '':'' # t2" using assms 1 2 by (auto split: list.splits if_splits)
  obtain v t3 where 4: "json_value n d t2 = Some (v, t3)" using assms 1 2 3 by (auto split: option.splits)
  obtain f t4 where 5: "skip_spaces t3 = f # t4" using assms 1 2 3 4 by (auto split: list.splits)
  show ?thesis using that [OF 1 2 3 4 5] assms 1 2 3 4 5 by (auto split: if_splits)
qed

lemma json_members_shorter_step:
  assumes "shorter n" "json_members (Suc n) d s = Some (ms, r)"
  shows "length r < length s"
  using assms(2)
proof (rule json_membersE)
  fix t k t1 t2 v t3 f t4
  assume t: "skip_spaces s = dquote # t" "json_string t = Some (k, t1)" "skip_spaces t1 = CHR '':'' # t2"
    "json_value n d t2 = Some (v, t3)" "skip_spaces t3 = f # t4"
    and r: "f = CHR ''}'' \<and> ms = [(k, v)] \<and> r = t4
     \<or> f = CHR '','' \<and> (\<exists>ms'. json_members n d t4 = Some (ms', r) \<and> ms = (k, v) # ms')"
  have "length t4 < length s"
    using skip_spaces_Cons [OF t(1)] json_string_shorter [OF t(2)] skip_spaces_Cons [OF t(3)]
      shorterD(1) [OF assms(1) t(4)] skip_spaces_Cons [OF t(5)] by linarith
  with r shorterD(2) [OF assms(1), of d t4] show ?thesis by fastforce
qed

lemma json_elements_shorter_step:
  assumes "shorter n" "json_elements (Suc n) d s = Some (es, r)"
  shows "length r < length s"
proof -
  obtain v t where 1: "json_value n d s = Some (v, t)" using assms(2) by (auto split: option.splits)
  obtain f t' where 2: "skip_spaces t = f # t'" using assms(2) 1 by (auto split: list.splits)
  have l: "length t' < length s" using shorterD(1) [OF assms(1) 1] skip_spaces_Cons [OF 2] by linarith
  have "r = t' \<or> (\<exists>es'. json_elements n d t' = Some (es', r))" using assms(2) 1 2 by (auto split: if_splits)
  with l shorterD(3) [OF assms(1), of d t'] show ?thesis by fastforce
qed

lemma json_shorter: "shorter n"
proof (induction n)
  case 0
  show ?case by (simp add: shorter_def)
next
  case (Suc n)
  show ?case unfolding shorter_def
    using json_value_shorter_step [OF Suc] json_members_shorter_step [OF Suc] json_elements_shorter_step [OF Suc] by blast
qed

text \<open>Any fuel above twice the length of the input gives the same result.\<close>

definition same_fuel :: "nat \<Rightarrow> bool" where
  "same_fuel n \<longleftrightarrow> (\<forall>m d s. 2 * length s < n \<longrightarrow> 2 * length s < m \<longrightarrow>
     json_value n d s = json_value m d s \<and> json_members n d s = json_members m d s
     \<and> (2 * length s + 1 < n \<longrightarrow> 2 * length s + 1 < m \<longrightarrow> json_elements n d s = json_elements m d s))"

lemma same_fuelD:
  assumes "same_fuel n" "2 * length s < n" "2 * length s < m"
  shows "json_value n d s = json_value m d s" "json_members n d s = json_members m d s"
    and "2 * length s + 1 < n \<Longrightarrow> 2 * length s + 1 < m \<Longrightarrow> json_elements n d s = json_elements m d s"
  using assms unfolding same_fuel_def by blast+

lemma json_value_fuel_step:
  assumes "same_fuel n" "2 * length s < Suc n" "2 * length s < Suc m"
  shows "json_value (Suc n) d s = json_value (Suc m) d s"
proof (cases "skip_spaces s")
  case Nil
  then show ?thesis by simp
next
  case (Cons c t)
  have l: "length t < length s" by (rule skip_spaces_Cons [OF Cons])
  have "json_members n (d + 1) t = json_members m (d + 1) t" "json_elements n (d + 1) t = json_elements m (d + 1) t"
    using same_fuelD [OF assms(1), of t m "d + 1"] l assms(2,3) by linarith+
  then show ?thesis by (simp only: json_value.simps Cons list.case)
qed

lemma json_members_fuel_step:
  assumes "same_fuel n" "2 * length s < Suc n" "2 * length s < Suc m"
  shows "json_members (Suc n) d s = json_members (Suc m) d s"
proof -
  have v: "json_value n d t = json_value m d t" and ms: "json_members n d t = json_members m d t"
    if "length t < length s" for t
    using same_fuelD [OF assms(1), of t m d] that assms(2,3) by simp_all
  show ?thesis
  proof (cases "skip_spaces s")
    case c1: (Cons c t)
    show ?thesis
    proof (cases "json_string t")
      case (Some kt)
      obtain k t1 where k: "json_string t = Some (k, t1)" using Some by (cases kt) simp
      have t1: "length t1 < length s" using json_string_shorter [OF k] skip_spaces_Cons [OF c1] by linarith
      show ?thesis
      proof (cases "skip_spaces t1")
        case c2: (Cons e t2)
        have t2: "length t2 < length s" using skip_spaces_Cons [OF c2] t1 by linarith
        show ?thesis
        proof (cases "json_value m d t2")
          case None
          then show ?thesis using v [OF t2] by (simp only: json_members.simps c1 k c2 list.case option.case prod.case)
        next
          case (Some vt)
          obtain x t3 where x: "json_value m d t2 = Some (x, t3)" using Some by (cases vt) simp
          have x': "json_value n d t2 = Some (x, t3)" using x v [OF t2] by simp
          show ?thesis
          proof (cases "skip_spaces t3")
            case Nil
            then show ?thesis by (simp only: json_members.simps c1 k c2 x x' list.case option.case prod.case)
          next
            case c3: (Cons f t4)
            have "length t4 < length s" using skip_spaces_Cons [OF c3] shorterD(1) [OF json_shorter x] t2 by linarith
            note ms [OF this]
            then show ?thesis by (simp only: json_members.simps c1 k c2 c3 x x' list.case option.case prod.case)
          qed
        qed
      qed (simp add: c1 k)
    qed (simp add: c1)
  qed simp
qed

lemma json_elements_fuel_step:
  assumes "same_fuel n" "2 * length s < n" "2 * length s < m"
  shows "json_elements (Suc n) d s = json_elements (Suc m) d s"
proof -
  have v: "json_value n d s = json_value m d s" by (rule same_fuelD [OF assms])
  show ?thesis
  proof (cases "json_value m d s")
    case None
    then show ?thesis using v by simp
  next
    case (Some xt)
    obtain x t where x: "json_value m d s = Some (x, t)" using Some by (cases xt) simp
    show ?thesis
    proof (cases "skip_spaces t")
      case Nil
      then show ?thesis using v x by simp
    next
      case c: (Cons f t')
      have "length t' < length s" using skip_spaces_Cons [OF c] shorterD(1) [OF json_shorter x] by linarith
      then have "json_elements n d t' = json_elements m d t'"
        using same_fuelD(3) [OF assms(1), of t' m d] assms(2,3) by linarith
      then show ?thesis using v x c by simp
    qed
  qed
qed

lemma json_same_fuel: "same_fuel n"
proof (induction n)
  case 0
  show ?case by (simp add: same_fuel_def)
next
  case (Suc n)
  have "json_value (Suc n) d s = json_value m d s \<and> json_members (Suc n) d s = json_members m d s
     \<and> (2 * length s + 1 < Suc n \<longrightarrow> 2 * length s + 1 < m \<longrightarrow> json_elements (Suc n) d s = json_elements m d s)"
    if a: "2 * length s < Suc n" and b: "2 * length s < m" for m d s
  proof -
    obtain m' where m: "m = Suc m'" using b by (cases m) auto
    show ?thesis unfolding m
      using json_value_fuel_step [OF Suc a b [unfolded m]] json_members_fuel_step [OF Suc a b [unfolded m]]
        json_elements_fuel_step [OF Suc, of s m' d]
      by simp
  qed
  then show ?case by (simp add: same_fuel_def)
qed

lemma json_document_fuel:
  assumes "2 * length s < n"
  shows "json_document s = (case json_value n 0 s of
     None \<Rightarrow> None | Some (v, r) \<Rightarrow> if skip_spaces r = [] then Some v else None)"
  unfolding json_document_def
  using same_fuelD(1) [OF json_same_fuel assms, of "Suc (2 * length s)" 0] by simp

subsection \<open>Values\<close>

lemma valid_utf8_ascii: "(\<And>c. c \<in> set s \<Longrightarrow> in_byte 0 0x7F c) \<Longrightarrow> valid_utf8 s"
proof (induction s)
  case Nil
  then show ?case by (simp add: valid_utf8.simps)
next
  case (Cons c s)
  then have "rune_width (c # s) = 1" by (intro rune_width_ascii) simp
  with Cons show ?case by (subst valid_utf8.simps) simp
qed

lemma valid_utf8_b64: "valid_utf8 (b64_encode e s)"
  using b64_encode_visible by (intro valid_utf8_ascii) (fastforce simp: in_byte_def)

lemma json_space_dquote [simp]: "\<not> json_space dquote"
  by (simp add: json_space_def dquote_def)

lemma json_value_quote:
  assumes "valid_utf8 s"
  shows "json_value (Suc n) d (json_quote s @ t) = Some (JString s, t)"
  using json_string_escape [OF assms, of t] by (simp add: json_quote_def)

text \<open>The literal of a number: its digits, with no leading zero.\<close>

lemma fmt_nat_hd_zero: "hd (fmt_nat n) = CHR ''0'' \<Longrightarrow> n = 0"
proof (induction n rule: fmt_nat.induct)
  case (1 n)
  show ?case
  proof (cases "n < 10")
    case True
    then have "hd (fmt_nat n) = digit_char n" by (subst fmt_nat.simps) simp
    moreover have "(of_char (digit_char n) :: nat) = 48 + n" using True by (simp add: digit_char_def)
    ultimately have "(of_char CHR ''0'' :: nat) = 48 + n" using 1(2) by metis
    then show ?thesis by simp
  next
    case False
    then have "hd (fmt_nat (n div 10)) = CHR ''0''" using 1(2) by (subst (asm) fmt_nat.simps) simp
    with False 1(1) show ?thesis by fastforce
  qed
qed

lemma fmt_nat_zero: "fmt_nat 0 = ''0''"
proof -
  have "char_of (48 :: nat) = CHR ''0''" by (rule char_eqI) simp
  then show ?thesis by (subst fmt_nat.simps) (simp add: digit_char_def)
qed

lemma is_digit_range: "is_digit c \<longleftrightarrow> 48 \<le> (of_char c :: nat) \<and> (of_char c :: nat) \<le> 57"
  by (auto simp: is_digit_def digit_val_def Let_def)

definition number_end :: "char \<Rightarrow> bool" where
  "number_end f \<longleftrightarrow> f = CHR '','' \<or> f = CHR ''}''"

lemma json_integer_fmt:
  assumes "number_end f"
  shows "json_integer (fmt_nat n @ f # t) = Some (fmt_nat n, f # t)"
proof (cases "n = 0")
  case True
  then show ?thesis by (simp add: fmt_nat_zero json_integer_def)
next
  case False
  obtain c r where c: "fmt_nat n = c # r" by (cases "fmt_nat n") auto
  have ds: "is_digit x" if "x \<in> set (c # r)" for x
    using fmt_nat_digits [of x n] that c by (simp add: is_digit_def)
  have z: "c \<noteq> CHR ''0''" using fmt_nat_hd_zero [of n] False c by auto
  have nd: "\<not> is_digit f" using assms by (auto simp: number_end_def is_digit_range)
  have "digits ((c # r) @ f # t) = (c # r, f # t)"
    unfolding digits_def using ds nd by (subst takeWhile_append2, blast, subst dropWhile_append2, blast) simp
  then show ?thesis using z ds [of c] by (simp add: json_integer_def c)
qed

lemma json_number_fmt:
  assumes "number_end f"
  shows "json_number (fmt_int i @ f # t) = Some (JNumber (fmt_int i), f # t)"
proof -
  have e: "json_fraction (f # t) = Some ([], f # t)" "json_exponent (f # t) = Some ([], f # t)"
    using assms by (auto simp: number_end_def json_fraction_def json_exponent_def)
  show ?thesis
  proof (cases "i < 0")
    case True
    then show ?thesis using json_integer_fmt [OF assms, of "nat (- i)" t] e by (simp add: fmt_int_def json_number_def json_sign_def)
  next
    case False
    have "hd (fmt_nat (nat i)) \<noteq> CHR ''-''" using fmt_nat_hd_not_sign by blast
    then have "json_sign (fmt_nat (nat i) @ f # t) = ([], fmt_nat (nat i) @ f # t)"
      by (cases "fmt_nat (nat i)") (auto simp: json_sign_def)
    then show ?thesis using False json_integer_fmt [OF assms, of "nat i" t] e by (simp add: fmt_int_def json_number_def)
  qed
qed

lemma json_value_number:
  assumes "number_end f"
  shows "json_value (Suc n) d (fmt_int i @ f # t) = Some (JNumber (fmt_int i), f # t)"
proof -
  obtain c r where c: "fmt_int i = c # r" by (cases "fmt_int i") (auto simp: fmt_int_def split: if_splits)
  have "c = CHR ''-'' \<or> is_digit c"
  proof (cases "i < 0")
    case True
    then show ?thesis using c by (simp add: fmt_int_def)
  next
    case False
    then show ?thesis using c fmt_nat_digits [of c "nat i"] by (simp add: fmt_int_def is_digit_def)
  qed
  then have cs: "\<not> json_space c" "c \<noteq> dquote" "c \<noteq> CHR ''{''" "c \<noteq> CHR ''[''" "c \<noteq> CHR ''n''" "c \<noteq> CHR ''t''" "c \<noteq> CHR ''f''"
    by (auto simp: json_space_def dquote_def is_digit_range)
  have "json_number (c # r @ f # t) = Some (JNumber (c # r), f # t)" using json_number_fmt [OF assms, of i t] by (simp add: c)
  then show ?thesis using cs by (simp add: c json_word_def has_prefix_def)
qed

subsection \<open>Objects\<close>

lemma json_members_member:
  assumes "valid_utf8 k" "json_value n d (v @ f # t) = Some (x, f # t)" "\<not> json_space f"
  shows "json_members (Suc n) d (json_member k v @ f # t) =
    (if f = CHR ''}'' then Some ([(k, x)], t)
     else if f = CHR '','' then map_option (apfst ((#) (k, x))) (json_members n d t) else None)"
proof -
  have "json_string (json_escape k @ dquote # CHR '':'' # v @ f # t) = Some (k, CHR '':'' # v @ f # t)"
    by (rule json_string_escape [OF assms(1)])
  moreover have "\<not> json_space CHR '':''" by (simp add: json_space_def)
  ultimately show ?thesis using assms(2,3) by (simp add: json_member_def json_quote_def)
qed

definition plain_member :: "string \<times> json \<Rightarrow> bool" where
  "plain_member m \<longleftrightarrow> valid_utf8 (fst m) \<and>
     (case snd m of JString s \<Rightarrow> valid_utf8 s | JNumber s \<Rightarrow> (\<exists>i. s = fmt_int i) | _ \<Rightarrow> False)"

lemma json_value_plain:
  assumes "plain_member (k, v)" "number_end f"
  shows "json_value (Suc n) d (encode_value v @ f # t) = Some (v, f # t)"
  using assms json_value_quote json_value_number [OF assms(2)] by (cases v) (auto simp: plain_member_def simp del: json_value.simps)

lemma number_end_space: "number_end f \<Longrightarrow> \<not> json_space f"
  by (auto simp: number_end_def json_space_def)

lemma json_members_encode:
  assumes "ms \<noteq> []" "list_all plain_member ms" "length ms < n"
  shows "json_members n d (encode_members ms @ ''}'') = Some (ms, [])"
  using assms
proof (induction ms arbitrary: n)
  case (Cons m ms)
  obtain k v where m: "m = (k, v)" by fastforce
  obtain n' where n: "n = Suc (Suc n')" using Cons.prems(3) by (cases n; cases "n - 1") auto
  have p: "plain_member (k, v)" "valid_utf8 k" using Cons.prems(2) m by (simp_all add: plain_member_def)
  show ?case
  proof (cases ms)
    case Nil
    have "json_value (Suc n') d (encode_value v @ CHR ''}'' # []) = Some (v, CHR ''}'' # [])"
      by (rule json_value_plain [OF p(1)]) (simp add: number_end_def)
    from json_members_member [OF p(2) this] show ?thesis by (simp add: m n Nil encode_members_def number_end_space number_end_def json_space_def)
  next
    case ms: (Cons m2 ms2)
    let ?t = "encode_members ms @ ''}''"
    have e: "encode_members (m # ms) @ ''}'' = json_member k (encode_value v) @ CHR '','' # ?t"
      by (cases m2) (simp add: m ms encode_members_def)
    have "json_members (Suc n') d ?t = Some (ms, [])"
      by (rule Cons.IH) (use Cons.prems ms n in simp_all)
    moreover have "json_value (Suc n') d (encode_value v @ CHR '','' # ?t) = Some (v, CHR '','' # ?t)"
      by (rule json_value_plain [OF p(1)]) (simp add: number_end_def)
    from json_members_member [OF p(2) this]
    have "json_members n d (json_member k (encode_value v) @ CHR '','' # ?t) = map_option (apfst ((#) (k, v))) (json_members (Suc n') d ?t)"
      by (simp add: n json_space_def)
    ultimately show ?thesis unfolding e by (simp add: m)
  qed
qed simp

text \<open>Decoding an encoded struct gives its members.\<close>

lemma json_document_object:
  assumes "list_all plain_member ms"
  shows "json_document (encode_object ms) = Some (JObject ms)"
proof -
  define n where "n = 2 * length (encode_object ms) + length ms"
  have "json_value (Suc (Suc n)) 0 (encode_object ms) = Some (JObject ms, [])"
  proof (cases "ms = []")
    case True
    have "json_value (Suc k) 0 ''{}'' = Some (JObject [], [])" for k
      by (simp add: max_nesting_def json_space_def dquote_def)
    with True show ?thesis by (simp add: encode_object_def encode_members_def del: json_value.simps)
  next
    case False
    have m: "json_members (Suc n) 1 (encode_members ms @ ''}'') = Some (ms, [])"
      by (rule json_members_encode [OF False assms]) (simp add: n_def)
    obtain k v ms' where ms: "ms = (k, v) # ms'" using False by (cases ms) auto
    obtain r where r: "encode_members ms @ ''}'' = dquote # r"
      by (cases ms') (simp_all add: ms encode_members_def json_member_def json_quote_def)
    have q: "dquote \<noteq> CHR ''}''" "CHR ''{'' \<noteq> dquote" "skip_spaces (dquote # r) = dquote # r" "\<not> json_space CHR ''{''"
      by (simp_all add: dquote_def json_space_def)
    show ?thesis using m q unfolding encode_object_def r by (simp add: max_nesting_def del: json_members.simps)
  qed
  then show ?thesis
    using json_document_fuel [of "encode_object ms" "Suc (Suc n)"] by (simp add: skip_spaces_def n_def del: json_value.simps)
qed

lemma encode_object_inj:
  assumes "list_all plain_member ms" "list_all plain_member ms'" "encode_object ms = encode_object ms'"
  shows "ms = ms'"
proof -
  have "Some (JObject ms) = Some (JObject ms')"
    unfolding json_document_object [OF assms(1), symmetric] json_document_object [OF assms(2), symmetric] assms(3) by (rule refl)
  then show ?thesis by simp
qed

lemma member_simps:
  "list_all plain_member (text_member k s) \<longleftrightarrow> valid_utf8 k \<and> valid_utf8 s"
  "list_all plain_member (int_member k i) \<longleftrightarrow> valid_utf8 k"
  "list_all plain_member (omit_text k s) \<longleftrightarrow> s = [] \<or> valid_utf8 k \<and> valid_utf8 s"
  "list_all plain_member (omit_int k i) \<longleftrightarrow> i = 0 \<or> valid_utf8 k"
  by (auto simp: plain_member_def text_member_def int_member_def omit_text_def omit_int_def)

text \<open>Base64 needs no escape.\<close>

lemma escape_b64: "json_escape (b64_encode e s) = b64_encode e s"
proof -
  have "(\<And>c. c \<in> set t \<Longrightarrow> 33 \<le> (of_char c :: nat) \<and> (of_char c :: nat) < 127 \<and> (of_char c :: nat) \<notin> {34, 92, 38, 60, 62}) \<Longrightarrow> json_escape t = t" for t
  proof (induction t)
    case (Cons c t)
    have c: "33 \<le> (of_char c :: nat) \<and> (of_char c :: nat) < 127 \<and> (of_char c :: nat) \<notin> {34, 92, 38, 60, 62}"
      by (rule Cons.prems) simp
    then have "in_byte 0 0x7F c" "escape_ascii c = [c]" by (auto simp: in_byte_def escape_ascii_def Let_def)
    with Cons show ?case by (simp add: json_escape.simps(2))
  qed simp
  then show ?thesis using b64_encode_visible [of _ e s] by fastforce
qed

end
