(* ===== verification/Identity.thy ===== *)
theory Identity
  imports Schema JsonProps
begin

section \<open>Keys and pins (internal/peerauth/identity.go)\<close>

text \<open>
  A node's identity: the Ed25519 key whose seed it keeps in the \<open>settings\<close> table, the certificate it
  presents, and the pin others know it by, the unpadded base64url of the SHA-256 of the certificate's
  SubjectPublicKeyInfo. Deriving the 32 bytes of the public key from a seed (crypto/ed25519) is the
  argument \<open>pub\<close>; randomness and the failures of crypto/x509 and of SQL are arguments too; base64,
  SHA-256 and the encoding of the public key are the real ones.
\<close>

definition identity_key_setting :: string where "identity_key_setting = ''identity_key''"

definition seed_size :: nat where "seed_size = 32"

text \<open>\<open>x509.MarshalPKIXPublicKey\<close> of an Ed25519 key: a fixed header of 12 bytes and the key.\<close>

definition marshal_pkix :: "string \<Rightarrow> string" where
  "marshal_pkix key = map char_of [0x30, 0x2A, 0x30, 0x05, 0x06, 0x03, 0x2B, 0x65, 0x70, 0x03, 0x21, 0x00 :: nat] @ key"

text \<open>The fields of an X.509 certificate the code sets or reads; times in nanoseconds.\<close>

record certificate =
  ce_serial :: int
  ce_not_before :: int
  ce_not_after :: int
  ce_spki :: string

record identity =
  idn_cert :: certificate
  idn_seed :: string
  idn_pin :: string

definition pin_hash :: "string \<Rightarrow> string" where
  "pin_hash spki = b64_encode RawURLEncoding (map char_of (sha256 spki))"

definition pin_of :: "certificate \<Rightarrow> string" where
  "pin_of cert = pin_hash (ce_spki cert)"

definition pin_of_key :: "string \<Rightarrow> string" where
  "pin_of_key key = pin_hash (marshal_pkix key)"

definition pin_of_seed :: "(string \<Rightarrow> string) \<Rightarrow> string \<Rightarrow> go_error + string" where
  "pin_of_seed pub seed =
     (if length seed \<noteq> seed_size then Inl (ErrMsg ''bad key seed length'') else Inr (pin_of_key (pub seed)))"

definition valid_pin :: "string \<Rightarrow> bool" where
  "valid_pin s = (case b64_decode RawURLEncoding s of None \<Rightarrow> False | Some b \<Rightarrow> length b = 32)"

text \<open>
  \<open>FromSeed\<close>. \<open>century\<close> is \<open>AddDate(100, 0, 0)\<close>; creating the certificate or parsing it back may fail.
\<close>

definition from_seed ::
  "(string \<Rightarrow> string) \<Rightarrow> (int \<Rightarrow> int) \<Rightarrow> go_error option \<Rightarrow> go_error option \<Rightarrow> int \<Rightarrow> string \<Rightarrow> go_error + identity" where
  "from_seed pub century create_fault parse_fault now seed =
     (if length seed \<noteq> seed_size then Inl (ErrMsg ''identity key seed must be 32 bytes'')
      else
        let key = pub seed;
            tmpl = \<lparr>ce_serial = 1, ce_not_before = now - 24 * 3600 * 10 ^ 9, ce_not_after = century now,
                    ce_spki = marshal_pkix key\<rparr>
        in if create_fault \<noteq> None then Inl (ErrMsg ''creating identity certificate'')
           else if parse_fault \<noteq> None then Inl (ErrMsg ''parsing identity certificate'')
           else Inr \<lparr>idn_cert = tmpl, idn_seed = seed, idn_pin = pin_of_key key\<rparr>)"

text \<open>What a start of the process brings with it: fresh random bytes, the time, and what fails.\<close>

record boot =
  bo_rand :: "go_error + string"
  bo_save_fault :: "go_error option"
  bo_read_fault :: "go_error option"
  bo_create_fault :: "go_error option"
  bo_parse_fault :: "go_error option"
  bo_now :: int

definition load_or_create ::
  "(string \<Rightarrow> string) \<Rightarrow> (int \<Rightarrow> int) \<Rightarrow> boot \<Rightarrow> database \<Rightarrow> (go_error + identity) \<times> database" where
  "load_or_create pub century b d =
     (case bo_rand b of
        Inl e \<Rightarrow> (Inl (ErrMsg ''generating identity key''), d)
      | Inr seed \<Rightarrow>
          if bo_save_fault b \<noteq> None then (Inl (ErrDb ''saving identity key''), d)
          else
            let d = d\<lparr>settings_tbl := tbl_insert_ignore identity_key_setting (b64_encode StdEncoding seed) (settings_tbl d)\<rparr>
            in if bo_read_fault b \<noteq> None then (Inl (ErrDb ''reading identity key''), d)
               else case map_of (settings_tbl d) identity_key_setting of
                      None \<Rightarrow> (Inl (ErrDb ''reading identity key''), d)
                    | Some stored \<Rightarrow>
                        (case b64_decode StdEncoding stored of
                           None \<Rightarrow> (Inl (ErrMsg ''decoding identity key''), d)
                         | Some seed \<Rightarrow>
                             (from_seed pub century (bo_create_fault b) (bo_parse_fault b) (bo_now b) seed, d)))"

subsection \<open>Pins\<close>

lemma valid_pin_hash: "valid_pin (pin_hash spki)"
  by (simp add: valid_pin_def pin_hash_def length_sha256)

lemma length_pin_hash: "length (pin_hash spki) = 43"
  by (simp add: pin_hash_def length_raw_encode length_sha256)

lemma from_seed_Inr:
  assumes "from_seed pub century cf pf now seed = Inr i"
  shows "pin_of_seed pub seed = Inr (idn_pin i)" "pin_of (idn_cert i) = idn_pin i" "valid_pin (idn_pin i)" "idn_seed i = seed"
  using assms valid_pin_hash
  by (auto simp: from_seed_def pin_of_seed_def pin_of_def pin_of_key_def Let_def split: if_splits)

text \<open>
  \<open>ValidPin\<close> accepts more than \<open>PinOf\<close> produces: line ends anywhere, and any low bits in the last
  symbol. Such a string is the pin of no key.
\<close>

definition ex_pin :: string where "ex_pin = replicate 43 CHR ''A''"

lemma valid_pin_lenient:
  "valid_pin (ex_pin @ [CHR 0x0A])" "\<forall>spki. pin_hash spki \<noteq> ex_pin @ [CHR 0x0A]"
  "valid_pin (butlast ex_pin @ ''B'')" "\<forall>spki. pin_hash spki \<noteq> butlast ex_pin @ ''B''"
proof -
  show "valid_pin (ex_pin @ [CHR 0x0A])" "valid_pin (butlast ex_pin @ ''B'')" by code_simp+
  have "length (ex_pin @ [CHR 0x0A]) = 44" by (simp add: ex_pin_def)
  then show "\<forall>spki. pin_hash spki \<noteq> ex_pin @ [CHR 0x0A]" using length_pin_hash by (metis num.distinct(5) num.inject(1) numeral_eq_iff)
  have z: "b64_decode RawURLEncoding (butlast ex_pin @ ''B'') = Some (replicate 32 CHR 0x00)"
    "b64_encode RawURLEncoding (replicate 32 CHR 0x00) \<noteq> butlast ex_pin @ ''B''" by code_simp+
  show "\<forall>spki. pin_hash spki \<noteq> butlast ex_pin @ ''B''"
  proof (intro allI notI)
    fix spki assume "pin_hash spki = butlast ex_pin @ ''B''"
    then have e: "b64_encode RawURLEncoding (map char_of (sha256 spki)) = butlast ex_pin @ ''B''" by (simp add: pin_hash_def)
    then have "map char_of (sha256 spki) = replicate 32 CHR 0x00" using z(1) by (metis b64_decode_encode option.inject)
    with e z(2) show False by simp
  qed
qed

subsection \<open>The stored key\<close>

text \<open>A start that succeeds, and any later start that succeeds while the row is untouched.\<close>

lemma load_or_create_stored:
  assumes "load_or_create pub century b d = (Inr i, d')"
  shows "\<exists>stored. map_of (settings_tbl d') identity_key_setting = Some stored
      \<and> b64_decode StdEncoding stored = Some (idn_seed i) \<and> pin_of_seed pub (idn_seed i) = Inr (idn_pin i)"
  using assms from_seed_Inr
  by (auto simp: load_or_create_def Let_def split: sum.splits if_splits option.splits)

lemma load_or_create_again:
  assumes "load_or_create pub century b d = (res, d')" "map_of (settings_tbl d) identity_key_setting = Some stored"
  shows "d' = d" "res = Inr i \<Longrightarrow> b64_decode StdEncoding stored = Some (idn_seed i) \<and> pin_of_seed pub (idn_seed i) = Inr (idn_pin i)"
proof -
  have d: "d\<lparr>settings_tbl := tbl_insert_ignore identity_key_setting v (settings_tbl d)\<rparr> = d" for v
    using assms(2) by (simp add: tbl_insert_ignore_def)
  then show "d' = d" using assms(1) by (auto simp: load_or_create_def Let_def split: sum.splits if_splits option.splits)
  assume "res = Inr i"
  with load_or_create_stored [of pub century b d i d'] assms \<open>d' = d\<close>
  show "b64_decode StdEncoding stored = Some (idn_seed i) \<and> pin_of_seed pub (idn_seed i) = Inr (idn_pin i)" by auto
qed

end
