(* ===== verification/Pairing.thy ===== *)
theory Pairing
  imports Identity
begin

section \<open>Pairing: clients and invites (internal/peerauth/store.go, invite.go, http.go)\<close>

text \<open>
  The store of authorized clients and pending invites, in the database and mirrored in memory, with
  every operation on both; the canonical URL of a peer port; the checks on an invite string; and
  the HTTP handlers. Times are nanoseconds in memory and seconds in the database. A pin is a
  string. A failing SQL statement is an optional fault; parsing a URL is an argument.
\<close>

definition second :: int where "second = 10 ^ 9"

definition unix :: "int \<Rightarrow> int" where "unix t = t div second"

subsection \<open>The store\<close>

record client =
  c_id :: string
  c_pin :: string
  c_name :: string
  c_created_at :: int
  c_last_seen_at :: "int option"

record pending_invite =
  pi_pin :: string
  pi_created_at :: int
  pi_expires_at :: int

record auth_store =
  as_clients :: "(string, client) tbl"
  as_invites :: "(string, pending_invite) tbl"

text \<open>\<open>NewStore\<close>; the rows of \<open>clients\<close> are keyed by id, the map in memory by pin.\<close>

fun load_clients :: "(string, client_row) tbl \<Rightarrow> (string, client) tbl \<Rightarrow> (string, client) tbl" where
  "load_clients [] m = m"
| "load_clients ((cid, r) # rest) m =
     load_clients rest (tbl_upsert (cr_pin r)
       \<lparr>c_id = cid, c_pin = cr_pin r, c_name = cr_name r, c_created_at = cr_created_at r * second,
        c_last_seen_at = (case cr_last_seen_at r of
            None \<Rightarrow> None | Some t \<Rightarrow> if 0 < t then Some (t * second) else None)\<rparr> m)"

fun load_invites :: "(string, invite_row) tbl \<Rightarrow> (string, pending_invite) tbl \<Rightarrow> (string, pending_invite) tbl" where
  "load_invites [] m = m"
| "load_invites ((pin, r) # rest) m =
     load_invites rest (tbl_upsert pin
       \<lparr>pi_pin = pin, pi_created_at = ir_created_at r * second, pi_expires_at = ir_expires_at r * second\<rparr> m)"

definition new_store :: "go_error option \<Rightarrow> database \<Rightarrow> go_error + auth_store" where
  "new_store fault d =
     (case fault of
        Some e \<Rightarrow> Inl (ErrDb ''loading clients'')
      | None \<Rightarrow> Inr \<lparr>as_clients = load_clients (clients_tbl d) [], as_invites = load_invites (invites_tbl d) []\<rparr>)"

text \<open>\<open>sweepExpired\<close>: a loop over the map; \<open>fault pin\<close> says that the \<open>DELETE\<close> of this row fails.\<close>

fun sweep_rows ::
  "(string \<Rightarrow> bool) \<Rightarrow> int \<Rightarrow> (string \<times> pending_invite) list \<Rightarrow> auth_store \<times> database \<Rightarrow> auth_store \<times> database" where
  "sweep_rows fault now [] sd = sd"
| "sweep_rows fault now ((pin, iv) # rest) (s, d) =
     (if now < pi_expires_at iv then sweep_rows fault now rest (s, d)
      else if fault pin then sweep_rows fault now rest (s, d)
      else sweep_rows fault now rest
             (s\<lparr>as_invites := tbl_delete pin (as_invites s)\<rparr>, d\<lparr>invites_tbl := tbl_delete pin (invites_tbl d)\<rparr>))"

definition sweep_expired :: "(string \<Rightarrow> bool) \<Rightarrow> int \<Rightarrow> auth_store \<times> database \<Rightarrow> auth_store \<times> database" where
  "sweep_expired fault now sd = sweep_rows fault now (as_invites (fst sd)) sd"

text \<open>The temporary key of an invite, from random bytes.\<close>

definition invite_key :: "(string \<Rightarrow> string) \<Rightarrow> go_error + string \<Rightarrow> go_error + (string \<times> string)" where
  "invite_key pub rand =
     (case rand of
        Inl e \<Rightarrow> Inl (ErrMsg ''generating invite key'')
      | Inr seed \<Rightarrow> (case pin_of_seed pub seed of Inl e \<Rightarrow> Inl e | Inr pin \<Rightarrow> Inr (seed, pin)))"

text \<open>
  \<open>CreateInvite\<close>: \<open>key\<close> is the fresh temporary key's seed and pin (an error when no randomness is
  to be had). The \<open>INSERT\<close> also fails on a duplicate pin.
\<close>

definition create_invite ::
  "go_error + (string \<times> string) \<Rightarrow> (string \<Rightarrow> bool) \<Rightarrow> go_error option \<Rightarrow> int \<Rightarrow> int \<Rightarrow> auth_store \<times> database
     \<Rightarrow> (go_error + (string \<times> pending_invite)) \<times> auth_store \<times> database" where
  "create_invite key sfault fault now ttl sd =
     (case key of
        Inl e \<Rightarrow> (Inl e, sd)
      | Inr (seed, pin) \<Rightarrow>
          let iv = \<lparr>pi_pin = pin, pi_created_at = now, pi_expires_at = now + ttl\<rparr>;
              (s, d) = sweep_expired sfault now sd
          in if fault \<noteq> None \<or> map_of (invites_tbl d) pin \<noteq> None then (Inl (ErrDb ''saving invite''), s, d)
             else (Inr (seed, iv), s\<lparr>as_invites := tbl_upsert pin iv (as_invites s)\<rparr>,
                   d\<lparr>invites_tbl := tbl_upsert pin \<lparr>ir_created_at = unix now, ir_expires_at = unix (now + ttl)\<rparr> (invites_tbl d)\<rparr>))"

definition list_invites :: "(string \<Rightarrow> bool) \<Rightarrow> int \<Rightarrow> auth_store \<times> database \<Rightarrow> pending_invite list \<times> auth_store \<times> database" where
  "list_invites sfault now sd =
     (let (s, d) = sweep_expired sfault now sd
      in (sort_key pi_created_at (map snd (as_invites s)), s, d))"

definition cancel_invite ::
  "go_error option \<Rightarrow> string \<Rightarrow> auth_store \<times> database \<Rightarrow> (go_error + unit) \<times> auth_store \<times> database" where
  "cancel_invite fault pin sd =
     (let (s, d) = sd
      in case map_of (as_invites s) pin of
           None \<Rightarrow> (Inl ErrNotFound, s, d)
         | Some _ \<Rightarrow>
             (case fault of
                Some e \<Rightarrow> (Inl (ErrDb ''cancelling invite''), s, d)
              | None \<Rightarrow> (Inr (), s\<lparr>as_invites := tbl_delete pin (as_invites s)\<rparr>,
                         d\<lparr>invites_tbl := tbl_delete pin (invites_tbl d)\<rparr>)))"

definition is_pending :: "int \<Rightarrow> auth_store \<Rightarrow> string \<Rightarrow> bool" where
  "is_pending now s pin =
     (case map_of (as_invites s) pin of None \<Rightarrow> False | Some iv \<Rightarrow> now < pi_expires_at iv)"

definition client_by_pin :: "auth_store \<Rightarrow> string \<Rightarrow> client option" where
  "client_by_pin s pin = map_of (as_clients s) pin"

definition id_taken :: "auth_store \<Rightarrow> string \<Rightarrow> bool" where
  "id_taken s cid = list_ex (\<lambda>(_, c). c_id c = cid) (as_clients s)"

definition id_for_pin :: "auth_store \<Rightarrow> string \<Rightarrow> string option" where
  "id_for_pin s pin = map_option c_id (client_by_pin s pin)"

text \<open>
  \<open>INSERT INTO clients .. ON CONFLICT(pin) DO UPDATE SET name\<close>: a row with this pin gets the name;
  otherwise a row is inserted, unless its id is taken (\<open>None\<close>).
\<close>

definition insert_client :: "string \<Rightarrow> client_row \<Rightarrow> (string, client_row) tbl \<Rightarrow> (string, client_row) tbl option" where
  "insert_client cid r t =
     (if list_ex (\<lambda>(_, x). cr_pin x = cr_pin r) t
      then Some (tbl_update_where (\<lambda>_ x. cr_pin x = cr_pin r) (\<lambda>x. x\<lparr>cr_name := cr_name r\<rparr>) t)
      else if map_of t cid \<noteq> None then None
      else Some (t @ [(cid, r)]))"

definition redeem ::
  "go_error option \<Rightarrow> int \<Rightarrow> string \<Rightarrow> string \<Rightarrow> string \<Rightarrow> string \<Rightarrow> auth_store \<times> database
     \<Rightarrow> (go_error + client) \<times> auth_store \<times> database" where
  "redeem fault now tmpPin pin name cid sd =
     (let (s, d) = sd
      in case map_of (as_invites s) tmpPin of
           None \<Rightarrow> (Inl ErrInviteInvalid, s, d)
         | Some iv \<Rightarrow>
             if \<not> now < pi_expires_at iv then (Inl ErrInviteInvalid, s, d)
             else
               let c = \<lparr>c_id = cid, c_pin = pin, c_name = name, c_created_at = now, c_last_seen_at = None\<rparr>;
                   existing = map_of (as_clients s) pin
               in if existing = None \<and> id_taken s cid then (Inl ErrIDTaken, s, d)
                  else
                    let c = (case existing of
                               None \<Rightarrow> c
                             | Some x \<Rightarrow> c\<lparr>c_id := c_id x, c_created_at := c_created_at x, c_last_seen_at := c_last_seen_at x\<rparr>);
                        row = \<lparr>cr_pin = pin, cr_name = name, cr_created_at = unix (c_created_at c), cr_last_seen_at = None\<rparr>
                    in case with_tx fault (\<lambda>d.
                              case insert_client (c_id c) row (clients_tbl d) of
                                None \<Rightarrow> Inl (ErrDb ''saving client'')
                              | Some t \<Rightarrow> Inr ((), d\<lparr>invites_tbl := tbl_delete tmpPin (invites_tbl d), clients_tbl := t\<rparr>)) d of
                         (Inl e, d) \<Rightarrow> (Inl e, s, d)
                       | (Inr _, d) \<Rightarrow> (Inr c, s\<lparr>as_invites := tbl_delete tmpPin (as_invites s),
                                               as_clients := tbl_upsert pin c (as_clients s)\<rparr>, d))"

definition list_clients :: "auth_store \<Rightarrow> client list" where
  "list_clients s = sort_key c_id (map snd (as_clients s))"

text \<open>\<open>Revoke\<close>: the pin of the last client in iteration order with this id; an empty pin is none.\<close>

definition pin_of_id :: "auth_store \<Rightarrow> string \<Rightarrow> string" where
  "pin_of_id s cid = fold (\<lambda>(p, c) pin. if c_id c = cid then p else pin) (as_clients s) []"

definition revoke :: "go_error option \<Rightarrow> string \<Rightarrow> auth_store \<times> database \<Rightarrow> (go_error + unit) \<times> auth_store \<times> database" where
  "revoke fault cid sd =
     (let (s, d) = sd; pin = pin_of_id s cid
      in if pin = [] then (Inl ErrNotFound, s, d)
         else case fault of
                Some e \<Rightarrow> (Inl (ErrDb ''revoking client''), s, d)
              | None \<Rightarrow> (Inr (), s\<lparr>as_clients := tbl_delete pin (as_clients s)\<rparr>,
                         d\<lparr>clients_tbl := tbl_delete_where (\<lambda>_ r. cr_pin r = pin) (clients_tbl d)\<rparr>))"

definition touch_every :: int where "touch_every = 60 * second"

definition touch :: "go_error option \<Rightarrow> int \<Rightarrow> string \<Rightarrow> auth_store \<times> database \<Rightarrow> auth_store \<times> database" where
  "touch fault now pin sd =
     (let (s, d) = sd
      in case map_of (as_clients s) pin of
           None \<Rightarrow> (s, d)
         | Some c \<Rightarrow>
             if (case c_last_seen_at c of None \<Rightarrow> False | Some t \<Rightarrow> now - t < touch_every) then (s, d)
             else (s\<lparr>as_clients := tbl_upsert pin (c\<lparr>c_last_seen_at := Some now\<rparr>) (as_clients s)\<rparr>,
                   case fault of
                     Some e \<Rightarrow> d
                   | None \<Rightarrow> d\<lparr>clients_tbl := tbl_update_where (\<lambda>_ r. cr_pin r = pin)
                                   (\<lambda>r. r\<lparr>cr_last_seen_at := Some (unix now)\<rparr>) (clients_tbl d)\<rparr>))"

subsection \<open>Peer port URLs\<close>

text \<open>What \<open>url.Parse\<close> finds in a URL; \<open>None\<close> where it fails.\<close>

record url =
  u_scheme :: string
  u_hostname :: string
  u_port :: string
  u_has_user :: bool
  u_path :: string
  u_raw_query :: string
  u_fragment :: string

definition join_host_port :: "string \<Rightarrow> string \<Rightarrow> string" where
  "join_host_port host port =
     (if CHR '':'' \<in> set host then ''['' @ host @ '']:'' @ port else host @ '':'' @ port)"

definition canonical_url :: "(string \<Rightarrow> url option) \<Rightarrow> string \<Rightarrow> go_error + string" where
  "canonical_url parse raw =
     (case parse raw of
        None \<Rightarrow> Inl (ErrMsg ''invalid URL'')
      | Some u \<Rightarrow>
          if u_scheme u \<noteq> ''https'' then Inl (ErrMsg ''URL must be https'')
          else if u_hostname u = [] then Inl (ErrMsg ''URL has no host'')
          else if u_has_user u \<or> (u_path u \<noteq> [] \<and> u_path u \<noteq> ''/'') \<or> u_raw_query u \<noteq> [] \<or> u_fragment u \<noteq> []
          then Inl (ErrMsg ''URL must be just https host port'')
          else
            let port = (if u_port u = [] then ''443'' else u_port u)
            in Inr (''https://'' @ join_host_port (to_lower (u_hostname u)) port))"

definition addr_of :: "(string \<Rightarrow> url option) \<Rightarrow> string \<Rightarrow> string option" where
  "addr_of parse raw = (case canonical_url parse raw of Inl e \<Rightarrow> None | Inr c \<Rightarrow> Some (drop (length ''https://'') c))"

text \<open>\<open>canonicalAddr\<close> of tls.go: the address \<open>http.Transport\<close> dials.\<close>

definition canonical_addr :: "url \<Rightarrow> string" where
  "canonical_addr u =
     (let port = (if u_port u = [] then ''443'' else u_port u)
      in join_host_port (to_lower (u_hostname u)) port)"

subsection \<open>Invite strings\<close>

record invite =
  iv_url :: string
  iv_node_id :: string
  iv_pin :: string
  iv_seed :: string
  iv_expires_at :: int

definition invite_prefix :: string where "invite_prefix = ''jellysync1:''"

definition invite_expired :: "invite \<Rightarrow> int \<Rightarrow> bool" where
  "invite_expired iv now \<longleftrightarrow> \<not> now < iv_expires_at iv * second"

text \<open>\<open>Encode\<close>: the JSON of the struct, in the order of its fields, in base64url after the prefix.\<close>

definition invite_members :: "invite \<Rightarrow> (string \<times> json) list" where
  "invite_members iv =
     text_member ''url'' (iv_url iv) @ omit_text ''node_id'' (iv_node_id iv) @ text_member ''pin'' (iv_pin iv)
     @ text_member ''seed'' (b64_encode StdEncoding (iv_seed iv)) @ int_member ''exp'' (iv_expires_at iv)"

definition invite_json :: "invite \<Rightarrow> string" where
  "invite_json iv = encode_object (invite_members iv)"

definition encode_invite :: "invite \<Rightarrow> string" where
  "encode_invite iv = invite_prefix @ b64_encode RawURLEncoding (invite_json iv)"

text \<open>
  \<open>json.Unmarshal\<close> into the struct; the seed is the base64 of a string, or an array of numbers (a \<open>null\<close> in
  it reads as 0).
\<close>

definition byte_element :: "json \<Rightarrow> char option" where
  "byte_element v =
     (case v of
        JNumber s \<Rightarrow> (case parse_nat s of Some n \<Rightarrow> if n < 256 then Some (char_of n) else None | None \<Rightarrow> None)
      | JNull \<Rightarrow> Some CHR 0x00
      | _ \<Rightarrow> None)"

definition bytes_field :: "json \<Rightarrow> string option" where
  "bytes_field v =
     (case v of
        JString s \<Rightarrow> b64_decode StdEncoding s
      | JArray vs \<Rightarrow> those (map byte_element vs)
      | JNull \<Rightarrow> Some []
      | _ \<Rightarrow> None)"

fun set_invite_fields :: "(string \<times> json) list \<Rightarrow> invite \<Rightarrow> invite option" where
  "set_invite_fields [] iv = Some iv"
| "set_invite_fields ((k, v) # ms) iv =
     (case (if is_field ''url'' k then map_option (\<lambda>x. iv\<lparr>iv_url := x\<rparr>) (string_field v (iv_url iv))
            else if is_field ''node_id'' k then map_option (\<lambda>x. iv\<lparr>iv_node_id := x\<rparr>) (string_field v (iv_node_id iv))
            else if is_field ''pin'' k then map_option (\<lambda>x. iv\<lparr>iv_pin := x\<rparr>) (string_field v (iv_pin iv))
            else if is_field ''seed'' k then map_option (\<lambda>x. iv\<lparr>iv_seed := x\<rparr>) (bytes_field v)
            else if is_field ''exp'' k then map_option (\<lambda>x. iv\<lparr>iv_expires_at := x\<rparr>) (int64_field v (iv_expires_at iv))
            else Some iv) of
        None \<Rightarrow> None
      | Some iv \<Rightarrow> set_invite_fields ms iv)"

definition no_invite :: invite where
  "no_invite = \<lparr>iv_url = [], iv_node_id = [], iv_pin = [], iv_seed = [], iv_expires_at = 0\<rparr>"

definition unmarshal_invite :: "string \<Rightarrow> invite option" where
  "unmarshal_invite raw =
     (case json_document raw of
        Some (JObject ms) \<Rightarrow> set_invite_fields ms no_invite
      | Some JNull \<Rightarrow> Some no_invite
      | _ \<Rightarrow> None)"

text \<open>\<open>ParseInvite\<close>; \<open>parse\<close> is \<open>url.Parse\<close>.\<close>

definition parse_invite :: "(string \<Rightarrow> url option) \<Rightarrow> string \<Rightarrow> go_error + invite" where
  "parse_invite parse s =
     (let s = trim_space s
      in if \<not> has_prefix invite_prefix s then Inl (ErrMsg ''not a jellysync invite'')
         else case b64_decode RawURLEncoding (drop (length invite_prefix) s) of
                None \<Rightarrow> Inl (ErrMsg ''invite is corrupted (bad encoding)'')
              | Some raw \<Rightarrow>
                  (case unmarshal_invite raw of
                     None \<Rightarrow> Inl (ErrMsg ''invite is corrupted (bad content)'')
                   | Some iv \<Rightarrow>
                       (case canonical_url parse (iv_url iv) of
                          Inl e \<Rightarrow> Inl (ErrMsg ''invite has a bad address'')
                        | Inr u \<Rightarrow>
                            if \<not> valid_pin (iv_pin iv) then Inl (ErrMsg ''invite has a bad key pin'')
                            else if length (iv_seed iv) \<noteq> seed_size then Inl (ErrMsg ''invite has a bad key'')
                            else if iv_expires_at iv \<le> 0 then Inl (ErrMsg ''invite has no expiry'')
                            else Inr (iv\<lparr>iv_url := u\<rparr>))))"

text \<open>
  \<open>Pair\<close>: the call it makes, with the invite's temporary key, to a server that must present the invite's
  pin; and what the outcome of the call means. A transport error is a pin mismatch, a refused handshake,
  or anything else.
\<close>

record pair_call =
  pc_identity :: identity
  pc_server_pin :: string
  pc_url :: string
  pc_pin :: string
  pc_node_id :: string

definition pair_request ::
  "(string \<Rightarrow> go_error + identity) \<Rightarrow> invite \<Rightarrow> string \<Rightarrow> string \<Rightarrow> go_error + pair_call" where
  "pair_request identity_of iv pin nodeID =
     (case identity_of (iv_seed iv) of
        Inl e \<Rightarrow> Inl e
      | Inr tmp \<Rightarrow> Inr \<lparr>pc_identity = tmp, pc_server_pin = iv_pin iv, pc_url = iv_url iv @ ''/api/v1/pair'',
                        pc_pin = pin, pc_node_id = nodeID\<rparr>)"

datatype transport_error = PinMismatch | TlsRejected | OtherTransport

record pair_response =
  pp_node_id :: string
  pp_version :: string

definition pair_result :: "transport_error + (nat \<times> pair_response option) \<Rightarrow> go_error + pair_response" where
  "pair_result resp =
     (case resp of
        Inl PinMismatch \<Rightarrow> Inl ErrPinMismatch
      | Inl TlsRejected \<Rightarrow> Inl ErrInviteRejected
      | Inl OtherTransport \<Rightarrow> Inl (ErrMsg ''contacting'')
      | Inr (status, body) \<Rightarrow>
          if status \<noteq> 200 then
            (if status = 403 \<or> status = 410 then Inl ErrInviteRejected else Inl (ErrMsg ''pairing: status''))
          else (case body of None \<Rightarrow> Inl (ErrMsg ''decoding pairing response'') | Some r \<Rightarrow> Inr r))"

definition pair ::
  "(string \<Rightarrow> go_error + identity) \<Rightarrow> (pair_call \<Rightarrow> transport_error + (nat \<times> pair_response option))
     \<Rightarrow> invite \<Rightarrow> string \<Rightarrow> string \<Rightarrow> go_error + pair_response" where
  "pair identity_of send iv pin nodeID =
     (case pair_request identity_of iv pin nodeID of
        Inl e \<Rightarrow> Inl e
      | Inr call \<Rightarrow> pair_result (send call))"

subsection \<open>Handlers\<close>

record invite_dto =
  id_invite :: string
  id_pin :: string
  id_expires_at :: int

definition create_invite_handler ::
  "string \<Rightarrow> string \<Rightarrow> string \<Rightarrow> go_error + (string \<times> string) \<Rightarrow> (string \<Rightarrow> bool) \<Rightarrow> go_error option \<Rightarrow> int \<Rightarrow> int
     \<Rightarrow> auth_store \<times> database \<Rightarrow> invite_dto response \<times> auth_store \<times> database" where
  "create_invite_handler publicURL nodeID selfPin key sfault fault now ttl sd =
     (if publicURL = [] then (HttpError 409 ''set PUBLIC_URL'', sd)
      else case create_invite key sfault fault now ttl sd of
             (Inl e, sd) \<Rightarrow> (HttpError 500 ''creating invite'', sd)
           | (Inr (seed, iv), sd) \<Rightarrow>
               (Json 201 \<lparr>id_invite = encode_invite \<lparr>iv_url = publicURL, iv_node_id = nodeID, iv_pin = selfPin,
                             iv_seed = seed, iv_expires_at = unix (pi_expires_at iv)\<rparr>,
                          id_pin = pi_pin iv, id_expires_at = pi_expires_at iv\<rparr>, sd))"

definition list_invites_handler ::
  "(string \<Rightarrow> bool) \<Rightarrow> int \<Rightarrow> auth_store \<times> database \<Rightarrow> pending_invite list response \<times> auth_store \<times> database" where
  "list_invites_handler sfault now sd = (let (invs, sd) = list_invites sfault now sd in (Json 200 invs, sd))"

definition cancel_invite_handler ::
  "go_error option \<Rightarrow> string \<Rightarrow> auth_store \<times> database \<Rightarrow> unit response \<times> auth_store \<times> database" where
  "cancel_invite_handler fault pin sd =
     (case cancel_invite fault pin sd of
        (Inl e, sd) \<Rightarrow> (if e = ErrNotFound then HttpError 404 ''no such invite'' else HttpError 500 ''cancelling invite'', sd)
      | (Inr _, sd) \<Rightarrow> (Status 204, sd))"

definition list_clients_handler :: "auth_store \<Rightarrow> client list response" where
  "list_clients_handler s = Json 200 (list_clients s)"

definition revoke_client_handler ::
  "go_error option \<Rightarrow> string \<Rightarrow> auth_store \<times> database \<Rightarrow> unit response \<times> auth_store \<times> database" where
  "revoke_client_handler fault cid sd =
     (case revoke fault cid sd of
        (Inl e, sd) \<Rightarrow> (if e = ErrNotFound then HttpError 404 ''no such client'' else HttpError 500 ''revoking client'', sd)
      | (Inr _, sd) \<Rightarrow> (Status 204, sd))"

text \<open>
  \<open>PairHandler\<close>: \<open>callerPin\<close> is the temporary key the request came in with, \<open>body\<close> the decoded pin
  and node name, \<open>assign\<close> the id chosen for them.
\<close>

definition pair_handler ::
  "(string \<Rightarrow> string \<Rightarrow> string) \<Rightarrow> string \<Rightarrow> string \<Rightarrow> go_error option \<Rightarrow> int \<Rightarrow> string
     \<Rightarrow> (string \<times> string) option \<Rightarrow> auth_store \<times> database \<Rightarrow> pair_response response \<times> auth_store \<times> database" where
  "pair_handler assign nodeID version fault now callerPin body sd =
     (case body of
        None \<Rightarrow> (HttpError 400 ''invalid body'', sd)
      | Some (pin, name) \<Rightarrow>
          if \<not> valid_pin pin \<or> pin = callerPin then (HttpError 400 ''invalid pin'', sd)
          else (case redeem fault now callerPin pin name (assign name pin) sd of
                  (Inl e, sd) \<Rightarrow>
                    (if e = ErrInviteInvalid then HttpError 410 ''invite no longer valid''
                     else HttpError 500 ''pairing failed'', sd)
                | (Inr c, sd) \<Rightarrow> (Json 200 \<lparr>pp_node_id = nodeID, pp_version = version\<rparr>, sd)))"

end
