(* ===== verification/PairingProps.thy ===== *)
theory PairingProps
  imports Pairing
begin

section \<open>What the pairing store guarantees\<close>

text \<open>
  The database and the memory of the store hold the same clients and invites after any sequence
  of operations, whatever fails in between; an invite admits one client at most; a revoked client is gone.
\<close>

subsection \<open>Operations as data\<close>

datatype store_op =
    CreateInvite "go_error + (string \<times> string)" "string \<Rightarrow> bool" "go_error option" int int
  | ListInvites "string \<Rightarrow> bool" int
  | CancelInvite "go_error option" string
  | Redeem "go_error option" int string string string string
  | Revoke "go_error option" string
  | Touch "go_error option" int string

datatype store_event = InviteCreated string | ClientAdmitted string string | NoEvent

fun store_step :: "store_op \<Rightarrow> auth_store \<times> database \<Rightarrow> store_event \<times> auth_store \<times> database" where
  "store_step (CreateInvite key sfault fault now ttl) sd =
     (case create_invite key sfault fault now ttl sd of
        (Inl e, sd) \<Rightarrow> (NoEvent, sd) | (Inr (seed, iv), sd) \<Rightarrow> (InviteCreated (pi_pin iv), sd))"
| "store_step (ListInvites sfault now) sd = (NoEvent, snd (list_invites sfault now sd))"
| "store_step (CancelInvite fault pin) sd = (NoEvent, snd (cancel_invite fault pin sd))"
| "store_step (Redeem fault now tmp pin name cid) sd =
     (case redeem fault now tmp pin name cid sd of
        (Inl e, sd) \<Rightarrow> (NoEvent, sd) | (Inr c, sd) \<Rightarrow> (ClientAdmitted tmp (c_pin c), sd))"
| "store_step (Revoke fault cid) sd = (NoEvent, snd (revoke fault cid sd))"
| "store_step (Touch fault now pin) sd = (NoEvent, touch fault now pin sd)"

fun store_run :: "store_op list \<Rightarrow> auth_store \<times> database \<Rightarrow> store_event list \<times> auth_store \<times> database" where
  "store_run [] sd = ([], sd)"
| "store_run (opn # ops) sd =
     (let (ev, sd) = store_step opn sd; (evs, sd) = store_run ops sd in (ev # evs, sd))"

subsection \<open>Memory and database agree\<close>

definition mem_clients :: "auth_store \<Rightarrow> (string \<times> string \<times> string \<times> int) set" where
  "mem_clients s = (\<lambda>(pin, c). (c_id c, pin, c_name c, unix (c_created_at c))) ` set (as_clients s)"

definition db_clients :: "(string, client_row) tbl \<Rightarrow> (string \<times> string \<times> string \<times> int) set" where
  "db_clients t = (\<lambda>(cid, r). (cid, cr_pin r, cr_name r, cr_created_at r)) ` set t"

definition invite_view :: "pending_invite \<Rightarrow> invite_row" where
  "invite_view iv = \<lparr>ir_created_at = unix (pi_created_at iv), ir_expires_at = unix (pi_expires_at iv)\<rparr>"

definition store_ok :: "auth_store \<times> database \<Rightarrow> bool" where
  "store_ok sd \<longleftrightarrow> (case sd of (s, d) \<Rightarrow>
     keyed (as_clients s) \<and> keyed (as_invites s) \<and> keyed (clients_tbl d) \<and> keyed (invites_tbl d)
     \<and> mem_clients s = db_clients (clients_tbl d)
     \<and> (\<forall>pin. map_of (invites_tbl d) pin = map_option invite_view (map_of (as_invites s) pin)))"

lemma sweep_rows_ok: "store_ok sd \<Longrightarrow> store_ok (sweep_rows fault now ivs sd)"
proof (induction ivs arbitrary: sd)
  case (Cons x ivs)
  obtain pin iv s d where x: "x = (pin, iv)" and sd: "sd = (s, d)" by (cases x, cases sd)
  have "store_ok (s\<lparr>as_invites := tbl_delete pin (as_invites s)\<rparr>, d\<lparr>invites_tbl := tbl_delete pin (invites_tbl d)\<rparr>)"
    using Cons.prems by (simp add: sd store_ok_def mem_clients_def)
  with Cons show ?case by (simp add: x sd)
qed simp

lemma sweep_rows_invites:
  "map_of (as_invites (fst (sweep_rows fault now ivs (s, d)))) p \<in> {None, map_of (as_invites s) p}"
proof (induction ivs arbitrary: s d)
  case (Cons x ivs)
  obtain pin iv where x: "x = (pin, iv)" by (cases x)
  show ?case
    using Cons.IH [of s d] Cons.IH [of "s\<lparr>as_invites := tbl_delete pin (as_invites s)\<rparr>" "d\<lparr>invites_tbl := tbl_delete pin (invites_tbl d)\<rparr>"]
    by (auto simp: x split: if_splits)
qed simp

lemma sweep_expired_ok: "store_ok sd \<Longrightarrow> store_ok (sweep_expired fault now sd)"
  unfolding sweep_expired_def by (rule sweep_rows_ok)

lemma create_invite_ok:
  assumes "store_ok sd" shows "store_ok (snd (create_invite key sfault fault now ttl sd))"
proof (cases key)
  case (Inl e)
  with assms show ?thesis by (simp add: create_invite_def)
next
  case (Inr sp)
  obtain seed pin where sp: "sp = (seed, pin)" by (cases sp)
  obtain s d where sw: "sweep_expired sfault now sd = (s, d)" by (cases "sweep_expired sfault now sd")
  have ok: "store_ok (s, d)" using sweep_expired_ok [OF assms] by (metis sw)
  have "store_ok (s\<lparr>as_invites := tbl_upsert pin iv (as_invites s)\<rparr>,
      d\<lparr>invites_tbl := tbl_upsert pin (invite_view iv) (invites_tbl d)\<rparr>)" for iv
    using ok by (simp add: store_ok_def mem_clients_def)
  from this [of "\<lparr>pi_pin = pin, pi_created_at = now, pi_expires_at = now + ttl\<rparr>"]
  show ?thesis using ok by (simp add: create_invite_def Inr sp sw Let_def invite_view_def)
qed

lemma list_invites_ok: "store_ok sd \<Longrightarrow> store_ok (snd (list_invites sfault now sd))"
  by (auto simp: list_invites_def split: prod.split dest: sweep_expired_ok [of _ sfault now])

lemma cancel_invite_ok: "store_ok sd \<Longrightarrow> store_ok (snd (cancel_invite fault pin sd))"
  by (auto simp: cancel_invite_def store_ok_def mem_clients_def split: prod.split option.splits)

lemma mem_client_iff:
  "keyed (as_clients s) \<Longrightarrow>
   (cid, pin, n, t) \<in> mem_clients s \<longleftrightarrow> (\<exists>c. map_of (as_clients s) pin = Some c \<and> c_id c = cid \<and> c_name c = n \<and> unix (c_created_at c) = t)"
  by (force simp: mem_clients_def keyed_map_of_eq)

lemma db_client_iff:
  "keyed t \<Longrightarrow>
   (cid, pin, n, ct) \<in> db_clients t \<longleftrightarrow> (\<exists>r. map_of t cid = Some r \<and> cr_pin r = pin \<and> cr_name r = n \<and> cr_created_at r = ct)"
  by (force simp: db_clients_def keyed_map_of_eq)

lemma clients_agree:
  assumes "keyed (as_clients s)" "keyed t" "mem_clients s = db_clients t"
  shows "(\<exists>c. map_of (as_clients s) pin = Some c \<and> c_id c = cid \<and> c_name c = n \<and> unix (c_created_at c) = ct)
     \<longleftrightarrow> (\<exists>r. map_of t cid = Some r \<and> cr_pin r = pin \<and> cr_name r = n \<and> cr_created_at r = ct)"
  using mem_client_iff [OF assms(1)] db_client_iff [OF assms(2)] assms(3) by blast

lemma clients_agreeI:
  assumes "keyed (as_clients s)" "keyed t"
    and "\<And>cid pin n ct. (\<exists>c. map_of (as_clients s) pin = Some c \<and> c_id c = cid \<and> c_name c = n \<and> unix (c_created_at c) = ct)
     \<longleftrightarrow> (\<exists>r. map_of t cid = Some r \<and> cr_pin r = pin \<and> cr_name r = n \<and> cr_created_at r = ct)"
  shows "mem_clients s = db_clients t"
  using mem_client_iff [OF assms(1)] db_client_iff [OF assms(2)] assms(3) by auto

text \<open>Ids are unique: two clients with one id are one client.\<close>

lemma client_ids_unique:
  assumes ok: "store_ok (s, d)" and "map_of (as_clients s) p = Some c" "map_of (as_clients s) p' = Some c'" "c_id c = c_id c'"
  shows "p = p'"
proof -
  have k: "keyed (as_clients s)" "keyed (clients_tbl d)" "mem_clients s = db_clients (clients_tbl d)"
    using ok by (simp_all add: store_ok_def)
  show ?thesis using clients_agree [OF k] assms(2-) by (metis option.inject)
qed

lemma touch_ok: "store_ok sd \<Longrightarrow> store_ok (touch fault now pin sd)"
proof -
  assume ok: "store_ok sd"
  obtain s d where sd: "sd = (s, d)" by (cases sd)
  have k: "keyed (as_clients s)" "keyed (clients_tbl d)" "mem_clients s = db_clients (clients_tbl d)"
    using ok by (simp_all add: store_ok_def sd)
  show ?thesis
  proof (cases "map_of (as_clients s) pin")
    case None
    then show ?thesis using ok by (simp add: touch_def sd)
  next
    case (Some c)
    let ?s = "s\<lparr>as_clients := tbl_upsert pin (c\<lparr>c_last_seen_at := Some now\<rparr>) (as_clients s)\<rparr>"
    have m: "mem_clients ?s = mem_clients s"
    proof -
      have "(cid, p, n, t) \<in> mem_clients ?s \<longleftrightarrow> (cid, p, n, t) \<in> mem_clients s" for cid p n t
        using Some k(1) by (simp add: mem_client_iff)
      then show ?thesis by auto
    qed
    have t: "db_clients (tbl_update_where P (\<lambda>r. r\<lparr>cr_last_seen_at := v\<rparr>) T) = db_clients T" for P v T
      unfolding db_clients_def tbl_update_where_def by (force simp: image_image)
    show ?thesis
      using ok k by (auto simp: touch_def sd Some store_ok_def m t split: option.split)
  qed
qed

lemma pin_of_id_fold:
  "keyed cs \<Longrightarrow> (\<And>p c p' c'. (p, c) \<in> set cs \<Longrightarrow> (p', c') \<in> set cs \<Longrightarrow> c_id c = c_id c' \<Longrightarrow> p = p')
     \<Longrightarrow> fold (\<lambda>(p, c) pin. if c_id c = cid then p else pin) cs a
         = (case find (\<lambda>(p, c). c_id c = cid) cs of None \<Rightarrow> a | Some (p, c) \<Rightarrow> p)"
proof (induction cs arbitrary: a)
  case (Cons x cs)
  obtain p c where x: "x = (p, c)" by (cases x)
  have k: "keyed cs" and p: "p \<notin> fst ` set cs" using Cons.prems(1) by (auto simp: keyed_def x)
  have u: "\<And>p c p' c'. (p, c) \<in> set cs \<Longrightarrow> (p', c') \<in> set cs \<Longrightarrow> c_id c = c_id c' \<Longrightarrow> p = p'"
    using Cons.prems(2) by (metis list.set_intros(2))
  show ?case
  proof (cases "c_id c = cid")
    case True
    have "find (\<lambda>(p, c). c_id c = cid) cs = None"
      using Cons.prems(2) [of p c] p True by (force simp: find_None_iff x)
    with True Cons.IH [OF k u] show ?thesis by (simp add: x)
  next
    case False
    then show ?thesis using Cons.IH [OF k u] by (simp add: x)
  qed
qed simp

lemma pin_of_id_eq:
  assumes ok: "store_ok (s, d)" and c: "map_of (as_clients s) p = Some c"
  shows "pin_of_id s (c_id c) = p"
proof -
  have k: "keyed (as_clients s)" using ok by (simp add: store_ok_def)
  have u: "p1 = p2" if "(p1, c1) \<in> set (as_clients s)" "(p2, c2) \<in> set (as_clients s)" "c_id c1 = c_id c2" for p1 c1 p2 c2
    using client_ids_unique [OF ok] that k by (meson keyed_map_of_eq)
  have mem: "(p, c) \<in> set (as_clients s)" using c by (rule map_of_SomeD)
  have eq: "pin_of_id s (c_id c) = (case find (\<lambda>(p, x). c_id x = c_id c) (as_clients s) of None \<Rightarrow> [] | Some (p, x) \<Rightarrow> p)"
    unfolding pin_of_id_def by (rule pin_of_id_fold [OF k]) (rule u)
  show ?thesis
  proof (cases "find (\<lambda>(p, x). c_id x = c_id c) (as_clients s)")
    case None
    with mem show ?thesis by (auto simp: find_None_iff)
  next
    case (Some q)
    obtain p' c' where q: "q = (p', c')" by (cases q)
    have "q \<in> set (as_clients s) \<and> (\<lambda>(p, x). c_id x = c_id c) q"
      using Some unfolding find_Some_iff by (metis nth_mem)
    then have "(p', c') \<in> set (as_clients s)" "c_id c' = c_id c" by (auto simp: q)
    then have "p' = p" using u mem by metis
    then show ?thesis unfolding eq Some q by simp
  qed
qed

lemma revoke_ok: "store_ok sd \<Longrightarrow> store_ok (snd (revoke fault cid sd))"
proof -
  assume ok: "store_ok sd"
  obtain s d where sd: "sd = (s, d)" by (cases sd)
  have k: "keyed (as_clients s)" "keyed (clients_tbl d)" "mem_clients s = db_clients (clients_tbl d)"
    using ok by (simp_all add: store_ok_def sd)
  let ?p = "pin_of_id s cid"
  have "mem_clients (s\<lparr>as_clients := tbl_delete ?p (as_clients s)\<rparr>)
     = db_clients (tbl_delete_where (\<lambda>_ r. cr_pin r = ?p) (clients_tbl d))"
  proof (rule clients_agreeI)
    fix cid pin n ct
    show "(\<exists>c. map_of (as_clients (s\<lparr>as_clients := tbl_delete ?p (as_clients s)\<rparr>)) pin = Some c
        \<and> c_id c = cid \<and> c_name c = n \<and> unix (c_created_at c) = ct)
     \<longleftrightarrow> (\<exists>r. map_of (tbl_delete_where (\<lambda>_ r. cr_pin r = ?p) (clients_tbl d)) cid = Some r
        \<and> cr_pin r = pin \<and> cr_name r = n \<and> cr_created_at r = ct)"
      using clients_agree [OF k, of pin cid n ct] by (auto simp: k(2) split: option.splits)
  qed (simp_all add: k)
  then show ?thesis
    using ok by (auto simp: revoke_def sd store_ok_def Let_def split: option.split)
qed

lemma insert_client_new:
  assumes "keyed t" and "\<And>c r. map_of t c = Some r \<Longrightarrow> cr_pin r \<noteq> cr_pin row" and "map_of t cid = None"
  shows "insert_client cid row t = Some (t @ [(cid, row)])"
proof -
  have "\<not> list_ex (\<lambda>(_, x). cr_pin x = cr_pin row) t"
    using assms(1,2) by (auto simp: list_ex_iff) (metis map_of_is_SomeI keyed_def)
  then show ?thesis using assms(3) by (simp add: insert_client_def)
qed

lemma insert_client_known:
  assumes "map_of t c = Some r" and "cr_pin r = cr_pin row"
  shows "insert_client cid row t = Some (tbl_update_where (\<lambda>_ x. cr_pin x = cr_pin row) (\<lambda>x. x\<lparr>cr_name := cr_name row\<rparr>) t)"
proof -
  have "list_ex (\<lambda>(_, x). cr_pin x = cr_pin row) t"
    using assms by (auto simp: list_ex_iff dest!: map_of_SomeD)
  then show ?thesis by (simp add: insert_client_def)
qed

lemma id_taken_iff: "keyed (as_clients s) \<Longrightarrow> id_taken s cid \<longleftrightarrow> (\<exists>p c. map_of (as_clients s) p = Some c \<and> c_id c = cid)"
  by (auto simp: id_taken_def list_ex_iff keyed_map_of_eq)

text \<open>What the transaction of a redemption writes is what it stores in memory.\<close>

lemma redeem_clients_new:
  assumes ok: "store_ok (s, d)" and none: "map_of (as_clients s) pin = None" and free: "\<not> id_taken s (c_id c)"
    and row: "cr_pin row = pin" "cr_name row = c_name c" "cr_created_at row = unix (c_created_at c)"
    and t: "insert_client (c_id c) row (clients_tbl d) = Some t"
  shows "keyed t \<and> mem_clients (s\<lparr>as_invites := iv, as_clients := tbl_upsert pin c (as_clients s)\<rparr>) = db_clients t"
proof -
  have k: "keyed (as_clients s)" "keyed (clients_tbl d)" "mem_clients s = db_clients (clients_tbl d)"
    using ok by (simp_all add: store_ok_def)
  note agree = clients_agree [OF k]
  have np: "cr_pin r \<noteq> pin" if "map_of (clients_tbl d) i = Some r" for i r
    using agree [of pin i] none that by auto
  have ni: "map_of (clients_tbl d) (c_id c) = None"
  proof (rule ccontr)
    assume "map_of (clients_tbl d) (c_id c) \<noteq> None"
    then obtain r where "map_of (clients_tbl d) (c_id c) = Some r" by blast
    then have "\<exists>x. map_of (as_clients s) (cr_pin r) = Some x \<and> c_id x = c_id c" using agree [of "cr_pin r" "c_id c"] by blast
    with free show False by (auto simp: id_taken_iff [OF k(1)])
  qed
  have t': "t = clients_tbl d @ [(c_id c, row)]"
    using insert_client_new [OF k(2), of row "c_id c"] np ni t row(1) by auto
  have kt: "keyed t" using k(2) ni unfolding t' by (auto simp: keyed_def map_of_eq_None_iff)
  have gt: "map_of t i = (if i = c_id c then Some row else map_of (clients_tbl d) i)" for i
    unfolding t' using ni by (auto simp: map_add_def split: option.split)
  have "mem_clients (s\<lparr>as_invites := iv, as_clients := tbl_upsert pin c (as_clients s)\<rparr>) = db_clients t"
  proof (rule clients_agreeI)
    fix i p n ct
    show "(\<exists>x. map_of (as_clients (s\<lparr>as_invites := iv, as_clients := tbl_upsert pin c (as_clients s)\<rparr>)) p = Some x
         \<and> c_id x = i \<and> c_name x = n \<and> unix (c_created_at x) = ct)
      \<longleftrightarrow> (\<exists>r. map_of t i = Some r \<and> cr_pin r = p \<and> cr_name r = n \<and> cr_created_at r = ct)"
    proof (cases "p = pin")
      case True
      then show ?thesis using np [of i] row by (auto simp: gt)
    next
      case False
      have "c_id x \<noteq> c_id c" if "map_of (as_clients s) p = Some x" for x
        using that free by (auto simp: id_taken_iff [OF k(1)])
      with False show ?thesis using agree [of p i n ct] row ni by (auto simp: gt)
    qed
  qed (simp_all add: k kt)
  with kt show ?thesis by simp
qed

lemma redeem_clients_known:
  assumes ok: "store_ok (s, d)" and x: "map_of (as_clients s) pin = Some x"
    and c: "c_id c = c_id x" "c_created_at c = c_created_at x"
    and row: "cr_pin row = pin" "cr_name row = c_name c"
    and t: "insert_client (c_id c) row (clients_tbl d) = Some t"
  shows "keyed t \<and> mem_clients (s\<lparr>as_invites := iv, as_clients := tbl_upsert pin c (as_clients s)\<rparr>) = db_clients t"
proof -
  have k: "keyed (as_clients s)" "keyed (clients_tbl d)" "mem_clients s = db_clients (clients_tbl d)"
    using ok by (simp_all add: store_ok_def)
  note agree = clients_agree [OF k]
  obtain r where r: "map_of (clients_tbl d) (c_id x) = Some r" "cr_pin r = pin" "cr_created_at r = unix (c_created_at x)"
    using agree [of pin "c_id x" "c_name x" "unix (c_created_at x)"] x by auto
  have t': "t = tbl_update_where (\<lambda>_ x. cr_pin x = pin) (\<lambda>x. x\<lparr>cr_name := c_name c\<rparr>) (clients_tbl d)"
    using insert_client_known [OF r(1), of row "c_id c"] r(2) t row by simp
  have kt: "keyed t" unfolding t' using k(2) by simp
  have gt: "map_of t i = map_option (\<lambda>y. if cr_pin y = pin then y\<lparr>cr_name := c_name c\<rparr> else y) (map_of (clients_tbl d) i)" for i
    unfolding t' by simp
  have one: "i = c_id x \<and> y = r" if y: "map_of (clients_tbl d) i = Some y" "cr_pin y = pin" for i y
  proof -
    have "i = c_id x" using agree [of pin i "cr_name y" "cr_created_at y"] x y by auto
    with y r show ?thesis by simp
  qed
  have "mem_clients (s\<lparr>as_invites := iv, as_clients := tbl_upsert pin c (as_clients s)\<rparr>) = db_clients t"
  proof (rule clients_agreeI)
    fix i p n ct
    show "(\<exists>x. map_of (as_clients (s\<lparr>as_invites := iv, as_clients := tbl_upsert pin c (as_clients s)\<rparr>)) p = Some x
         \<and> c_id x = i \<and> c_name x = n \<and> unix (c_created_at x) = ct)
      \<longleftrightarrow> (\<exists>r. map_of t i = Some r \<and> cr_pin r = p \<and> cr_name r = n \<and> cr_created_at r = ct)"
    proof (cases "p = pin")
      case True
      have "(\<exists>y. map_of t i = Some y \<and> cr_pin y = pin \<and> cr_name y = n \<and> cr_created_at y = ct)
         \<longleftrightarrow> i = c_id x \<and> n = c_name c \<and> ct = unix (c_created_at x)"
      proof
        assume "\<exists>y. map_of t i = Some y \<and> cr_pin y = pin \<and> cr_name y = n \<and> cr_created_at y = ct"
        then obtain y where y: "map_of t i = Some y" "cr_pin y = pin" "cr_name y = n" "cr_created_at y = ct" by blast
        then obtain z where z: "map_of (clients_tbl d) i = Some z" "y = (if cr_pin z = pin then z\<lparr>cr_name := c_name c\<rparr> else z)"
          unfolding gt by blast
        then have "cr_pin z = pin" using y(2) by (simp split: if_splits)
        with one [OF z(1)] z y r(3) show "i = c_id x \<and> n = c_name c \<and> ct = unix (c_created_at x)" by simp
      next
        assume "i = c_id x \<and> n = c_name c \<and> ct = unix (c_created_at x)"
        with r show "\<exists>y. map_of t i = Some y \<and> cr_pin y = pin \<and> cr_name y = n \<and> cr_created_at y = ct"
          by (simp add: gt)
      qed
      then show ?thesis using True c by auto
    next
      case False
      then show ?thesis using agree [of p i n ct] by (auto simp: gt split: if_splits)
    qed
  qed (simp_all add: k kt)
  with kt show ?thesis by simp
qed

lemma redeem_cases:
  assumes "redeem fault now tmp pin name cid (s, d) = (Inr c, sd')"
  shows "\<exists>iv t row. map_of (as_invites s) tmp = Some iv \<and> now < pi_expires_at iv \<and> c_pin c = pin
     \<and> cr_pin row = pin \<and> cr_name row = c_name c \<and> cr_created_at row = unix (c_created_at c)
     \<and> insert_client (c_id c) row (clients_tbl d) = Some t
     \<and> (case map_of (as_clients s) pin of None \<Rightarrow> c_id c = cid \<and> \<not> id_taken s cid
        | Some x \<Rightarrow> c_id c = c_id x \<and> c_created_at c = c_created_at x)
     \<and> sd' = (s\<lparr>as_invites := tbl_delete tmp (as_invites s), as_clients := tbl_upsert pin c (as_clients s)\<rparr>,
              d\<lparr>invites_tbl := tbl_delete tmp (invites_tbl d), clients_tbl := t\<rparr>)"
proof -
  obtain iv where iv: "map_of (as_invites s) tmp = Some iv" "now < pi_expires_at iv"
    using assms by (auto simp: redeem_def split: option.splits if_splits)
  define c0 where "c0 = (case map_of (as_clients s) pin of
      None \<Rightarrow> \<lparr>c_id = cid, c_pin = pin, c_name = name, c_created_at = now, c_last_seen_at = None\<rparr>
    | Some x \<Rightarrow> \<lparr>c_id = c_id x, c_pin = pin, c_name = name, c_created_at = c_created_at x, c_last_seen_at = c_last_seen_at x\<rparr>)"
  define row where "row = \<lparr>cr_pin = pin, cr_name = name, cr_created_at = unix (c_created_at c0), cr_last_seen_at = None\<rparr>"
  have free: "map_of (as_clients s) pin = None \<Longrightarrow> \<not> id_taken s cid"
    using assms iv by (auto simp: redeem_def split: if_splits)
  have rd: "redeem fault now tmp pin name cid (s, d)
      = (case with_tx fault (\<lambda>d. case insert_client (c_id c0) row (clients_tbl d) of
                  None \<Rightarrow> Inl (ErrDb ''saving client'')
                | Some t \<Rightarrow> Inr ((), d\<lparr>invites_tbl := tbl_delete tmp (invites_tbl d), clients_tbl := t\<rparr>)) d of
           (Inl e, d) \<Rightarrow> (Inl e, s, d)
         | (Inr _, d) \<Rightarrow> (Inr c0, s\<lparr>as_invites := tbl_delete tmp (as_invites s),
                                   as_clients := tbl_upsert pin c0 (as_clients s)\<rparr>, d))"
  proof (cases "map_of (as_clients s) pin")
    case None
    then have c0: "c0 = \<lparr>c_id = cid, c_pin = pin, c_name = name, c_created_at = now, c_last_seen_at = None\<rparr>"
      by (simp add: c0_def)
    show ?thesis unfolding row_def c0 using iv None free by (simp add: redeem_def Let_def cong: prod.case_cong sum.case_cong)
  next
    case (Some x)
    then have c0: "c0 = \<lparr>c_id = c_id x, c_pin = pin, c_name = name, c_created_at = c_created_at x, c_last_seen_at = c_last_seen_at x\<rparr>"
      by (simp add: c0_def)
    show ?thesis unfolding row_def c0 using iv Some by (simp add: redeem_def Let_def cong: prod.case_cong sum.case_cong)
  qed
  from rd assms obtain t where t: "insert_client (c_id c0) row (clients_tbl d) = Some t" "c = c0"
    "sd' = (s\<lparr>as_invites := tbl_delete tmp (as_invites s), as_clients := tbl_upsert pin c0 (as_clients s)\<rparr>,
              d\<lparr>invites_tbl := tbl_delete tmp (invites_tbl d), clients_tbl := t\<rparr>)"
    by (simp add: with_tx_def split: option.splits)
  have "c_pin c0 = pin" "c_name c0 = name" by (simp_all add: c0_def split: option.split)
  moreover have "case map_of (as_clients s) pin of None \<Rightarrow> c_id c0 = cid \<and> \<not> id_taken s cid
        | Some x \<Rightarrow> c_id c0 = c_id x \<and> c_created_at c0 = c_created_at x"
    using free by (simp add: c0_def split: option.split)
  ultimately show ?thesis
    using iv t(1,3) unfolding t(2) by (intro exI [of _ iv] exI [of _ t] exI [of _ row]) (simp add: row_def)
qed

lemma redeem_error: "redeem fault now tmp pin name cid sd = (Inl e, sd') \<Longrightarrow> sd' = sd"
proof -
  assume a: "redeem fault now tmp pin name cid sd = (Inl e, sd')"
  obtain s d where sd: "sd = (s, d)" by (cases sd)
  have tx: "d' = d" if "with_tx f b d = (Inl x, d')" for f d' x and b :: "database \<Rightarrow> go_error + unit \<times> database"
    using that by (rule with_tx_error)
  show ?thesis
    using a unfolding redeem_def sd Let_def prod.case
    by (auto split: option.splits if_split_asm prod.splits sum.splits dest!: tx)
qed

lemma redeem_ok:
  assumes "store_ok sd" shows "store_ok (snd (redeem fault now tmp pin name cid sd))"
proof -
  obtain s d where sd: "sd = (s, d)" by (cases sd)
  obtain r sd' where r: "redeem fault now tmp pin name cid (s, d) = (r, sd')" by (metis surj_pair)
  show ?thesis
  proof (cases r)
    case (Inl e)
    with r redeem_error [of fault now tmp pin name cid "(s, d)"] assms show ?thesis by (simp add: sd)
  next
    case (Inr c)
    with r obtain iv t row where C: "map_of (as_invites s) tmp = Some iv" "c_pin c = pin"
     "cr_pin row = pin" "cr_name row = c_name c" "cr_created_at row = unix (c_created_at c)"
     "insert_client (c_id c) row (clients_tbl d) = Some t"
     "case map_of (as_clients s) pin of None \<Rightarrow> c_id c = cid \<and> \<not> id_taken s cid
        | Some x \<Rightarrow> c_id c = c_id x \<and> c_created_at c = c_created_at x"
     and sd': "sd' = (s\<lparr>as_invites := tbl_delete tmp (as_invites s), as_clients := tbl_upsert pin c (as_clients s)\<rparr>,
              d\<lparr>invites_tbl := tbl_delete tmp (invites_tbl d), clients_tbl := t\<rparr>)"
      using redeem_cases [of fault now tmp pin name cid s d c sd'] by blast
    have ok: "store_ok (s, d)" using assms by (simp add: sd)
    have "keyed t \<and> mem_clients (s\<lparr>as_invites := tbl_delete tmp (as_invites s), as_clients := tbl_upsert pin c (as_clients s)\<rparr>) = db_clients t"
    proof (cases "map_of (as_clients s) pin")
      case None
      show ?thesis by (rule redeem_clients_new [OF ok None _ C(3-6)]) (use C(7) None in simp)
    next
      case (Some x)
      show ?thesis by (rule redeem_clients_known [OF ok Some _ _ C(3,4,6)]) (use C(7) Some in simp_all)
    qed
    then show ?thesis using ok r by (simp add: sd sd' store_ok_def)
  qed
qed

lemma store_step_ok: "store_ok sd \<Longrightarrow> store_ok (snd (store_step opn sd))"
proof (cases opn)
  case (CreateInvite key sfault fault now ttl)
  assume "store_ok sd"
  from create_invite_ok [OF this, of key sfault fault now ttl] CreateInvite show ?thesis
    by (auto split: prod.split sum.split)
next
  case (Redeem fault now tmp pin name cid)
  assume "store_ok sd"
  from redeem_ok [OF this, of fault now tmp pin name cid] Redeem show ?thesis
    by (auto split: prod.split sum.split)
qed (simp_all add: list_invites_ok cancel_invite_ok revoke_ok touch_ok)

lemma store_run_Cons:
  "snd (store_run (opn # ops) sd) = snd (store_run ops (snd (store_step opn sd)))"
  "fst (store_run (opn # ops) sd) = fst (store_step opn sd) # fst (store_run ops (snd (store_step opn sd)))"
  by (simp_all add: Let_def split: prod.split)

lemma store_run_ok: "store_ok sd \<Longrightarrow> store_ok (snd (store_run ops sd))"
proof (induction ops arbitrary: sd)
  case (Cons opn ops)
  from store_step_ok [OF Cons.prems, of opn] Cons.IH show ?case by (simp only: store_run_Cons)
qed simp

text \<open>A store just loaded agrees with its database.\<close>

lemma unix_second [simp]: "unix (t * second) = t"
  by (simp add: unix_def second_def)

lemma load_clients_fold:
  "load_clients t m = fold (\<lambda>(k, c). tbl_upsert k c) (map (\<lambda>(cid, r). (cr_pin r,
       \<lparr>c_id = cid, c_pin = cr_pin r, c_name = cr_name r, c_created_at = cr_created_at r * second,
        c_last_seen_at = (case cr_last_seen_at r of
            None \<Rightarrow> None | Some t \<Rightarrow> if 0 < t then Some (t * second) else None)\<rparr>)) t) m"
  by (induction t m rule: load_clients.induct) auto

lemma load_invites_fold:
  "load_invites t m = fold (\<lambda>(k, c). tbl_upsert k c) (map (\<lambda>(pin, r). (pin,
       \<lparr>pi_pin = pin, pi_created_at = ir_created_at r * second, pi_expires_at = ir_expires_at r * second\<rparr>)) t) m"
  by (induction t m rule: load_invites.induct) auto

definition pins_unique :: "(string, client_row) tbl \<Rightarrow> bool" where
  "pins_unique t \<longleftrightarrow> distinct (map (cr_pin \<circ> snd) t)"

lemma new_store_ok:
  assumes ns: "new_store None d = Inr s" and k: "keyed (clients_tbl d)" "keyed (invites_tbl d)" and u: "pins_unique (clients_tbl d)"
  shows "store_ok (s, d)"
proof -
  let ?f = "\<lambda>(cid, r). (cr_pin r,
       \<lparr>c_id = cid, c_pin = cr_pin r, c_name = cr_name r, c_created_at = cr_created_at r * second,
        c_last_seen_at = (case cr_last_seen_at r of
            None \<Rightarrow> None | Some t \<Rightarrow> if 0 < t then Some (t * second) else None)\<rparr>)"
  let ?g = "\<lambda>(pin, r). (pin, \<lparr>pi_pin = pin, pi_created_at = ir_created_at r * second, pi_expires_at = ir_expires_at r * second\<rparr>)"
  have s: "as_clients s = fold (\<lambda>(k, c). tbl_upsert k c) (map ?f (clients_tbl d)) []"
    "as_invites s = fold (\<lambda>(k, c). tbl_upsert k c) (map ?g (invites_tbl d)) []"
    using ns by (auto simp: new_store_def load_clients_fold load_invites_fold)
  have ks: "keyed (as_clients s)" "keyed (as_invites s)" unfolding s by (simp_all add: tbl.wf_fold_put)
  have fstf: "map fst (map ?f (clients_tbl d)) = map (cr_pin \<circ> snd) (clients_tbl d)"
    by (simp add: case_prod_unfold comp_def)
  have fstg: "map fst (map ?g (invites_tbl d)) = map fst (invites_tbl d)"
    by (simp add: case_prod_unfold comp_def)
  have dist: "distinct (map fst (rev (map ?f (clients_tbl d))))" "distinct (map fst (rev (map ?g (invites_tbl d))))"
    using u k(2) unfolding rev_map [symmetric] distinct_rev fstf fstg by (simp_all add: pins_unique_def keyed_def)
  have gc: "map_of (as_clients s) pin = Some c \<longleftrightarrow> (pin, c) \<in> ?f ` set (clients_tbl d)" for pin c
    unfolding s tbl.get_fold_put [OF keyed_Nil]
    using map_of_eq_Some_iff [OF dist(1), of pin c] by (auto split: option.split)
  have gi: "map_of (as_invites s) pin = Some c \<longleftrightarrow> (pin, c) \<in> ?g ` set (invites_tbl d)" for pin c
    unfolding s tbl.get_fold_put [OF keyed_Nil]
    using map_of_eq_Some_iff [OF dist(2), of pin c] by (auto split: option.split)
  have "mem_clients s = db_clients (clients_tbl d)"
  proof (rule clients_agreeI [OF ks(1) k(1)])
    fix cid pin n ct
    show "(\<exists>c. map_of (as_clients s) pin = Some c \<and> c_id c = cid \<and> c_name c = n \<and> unix (c_created_at c) = ct)
     \<longleftrightarrow> (\<exists>r. map_of (clients_tbl d) cid = Some r \<and> cr_pin r = pin \<and> cr_name r = n \<and> cr_created_at r = ct)"
      unfolding gc keyed_map_of_eq [OF k(1)] by force
  qed
  moreover have "map_of (invites_tbl d) pin = map_option invite_view (map_of (as_invites s) pin)" for pin
  proof (cases "map_of (invites_tbl d) pin")
    case None
    then have "(pin, r) \<notin> set (invites_tbl d)" for r using keyed_map_of_eq [OF k(2), of pin r] by simp
    then have "map_of (as_invites s) pin \<noteq> Some c" for c unfolding gi by auto
    then have "map_of (as_invites s) pin = None" by (cases "map_of (as_invites s) pin") auto
    with None show ?thesis by simp
  next
    case (Some r)
    then have "(pin, r) \<in> set (invites_tbl d)" by (rule map_of_SomeD)
    then have "map_of (as_invites s) pin = Some (snd (?g (pin, r)))" unfolding gi by force
    with Some show ?thesis by (simp add: invite_view_def)
  qed
  ultimately show ?thesis using ks k by (simp add: store_ok_def)
qed

subsection \<open>One invite, one client\<close>

definition pending_n :: "string \<Rightarrow> auth_store \<times> database \<Rightarrow> nat" where
  "pending_n tmp sd = (if map_of (as_invites (fst sd)) tmp = None then 0 else 1)"

fun admitted_n :: "string \<Rightarrow> store_event list \<Rightarrow> nat" where
  "admitted_n tmp [] = 0"
| "admitted_n tmp (ClientAdmitted t p # evs) = (if t = tmp then Suc (admitted_n tmp evs) else admitted_n tmp evs)"
| "admitted_n tmp (InviteCreated t # evs) = admitted_n tmp evs"
| "admitted_n tmp (NoEvent # evs) = admitted_n tmp evs"

fun created_n :: "string \<Rightarrow> store_event list \<Rightarrow> nat" where
  "created_n tmp [] = 0"
| "created_n tmp (InviteCreated t # evs) = (if t = tmp then Suc (created_n tmp evs) else created_n tmp evs)"
| "created_n tmp (ClientAdmitted t p # evs) = created_n tmp evs"
| "created_n tmp (NoEvent # evs) = created_n tmp evs"

lemma sweep_pending: "pending_n tmp (sweep_expired fault now sd) \<le> pending_n tmp sd"
  using sweep_rows_invites [of fault now "as_invites (fst sd)" "fst sd" "snd sd" tmp]
  by (auto simp: pending_n_def sweep_expired_def)

lemma step_pending:
  "admitted_n tmp [fst (store_step opn sd)] + pending_n tmp (snd (store_step opn sd))
     \<le> pending_n tmp sd + created_n tmp [fst (store_step opn sd)]"
proof (cases opn)
  case (CreateInvite key sfault fault now ttl)
  show ?thesis
  proof (cases key)
    case (Inl e)
    then show ?thesis by (simp add: CreateInvite create_invite_def)
  next
    case (Inr sp)
    obtain seed pin where sp: "sp = (seed, pin)" by (cases sp)
    obtain s d where sw: "sweep_expired sfault now sd = (s, d)" by (cases "sweep_expired sfault now sd")
    have "pending_n tmp (s, d) \<le> pending_n tmp sd" using sweep_pending [of tmp sfault now sd] by (simp add: sw)
    then show ?thesis
      by (simp add: CreateInvite create_invite_def Inr sp sw Let_def) (auto simp: pending_n_def)
  qed
next
  case (ListInvites sfault now)
  then show ?thesis using sweep_pending [of tmp sfault now sd] by (auto simp: list_invites_def split: prod.splits)
next
  case (CancelInvite fault pin)
  then show ?thesis by (auto simp: cancel_invite_def pending_n_def split: prod.splits option.splits)
next
  case (Redeem fault now t pin name cid)
  obtain s d where sd: "sd = (s, d)" by (cases sd)
  obtain r sd' where r: "redeem fault now t pin name cid (s, d) = (r, sd')" by (metis surj_pair)
  show ?thesis
  proof (cases r)
    case (Inl e)
    with r redeem_error [of fault now t pin name cid "(s, d)"] show ?thesis by (simp add: Redeem sd)
  next
    case (Inr c)
    with r redeem_cases [of fault now t pin name cid s d c sd'] show ?thesis
      by (auto simp: Redeem sd pending_n_def)
  qed
next
  case (Revoke fault cid)
  then show ?thesis by (auto simp: revoke_def pending_n_def Let_def split: prod.splits option.splits)
next
  case (Touch fault now pin)
  then show ?thesis by (auto simp: touch_def pending_n_def split: prod.splits option.splits)
qed

lemma admitted_Cons: "admitted_n tmp (ev # evs) = admitted_n tmp [ev] + admitted_n tmp evs"
  by (cases ev) auto

lemma created_Cons: "created_n tmp (ev # evs) = created_n tmp [ev] + created_n tmp evs"
  by (cases ev) auto

lemma run_pending:
  "admitted_n tmp (fst (store_run ops sd)) + pending_n tmp (snd (store_run ops sd))
     \<le> pending_n tmp sd + created_n tmp (fst (store_run ops sd))"
proof (induction ops arbitrary: sd)
  case (Cons opn ops)
  let ?sd = "snd (store_step opn sd)" and ?ev = "fst (store_step opn sd)"
  have "admitted_n tmp (?ev # fst (store_run ops ?sd)) + pending_n tmp (snd (store_run ops ?sd))
     \<le> pending_n tmp sd + created_n tmp (?ev # fst (store_run ops ?sd))"
    using Cons.IH [of ?sd] step_pending [of tmp opn sd]
    by (simp only: admitted_Cons [of tmp ?ev "fst (store_run ops ?sd)"] created_Cons [of tmp ?ev "fst (store_run ops ?sd)"])
  then show ?case by (simp only: store_run_Cons)
qed simp

lemma revoked_gone:
  assumes ok: "store_ok (s, d)" and rv: "revoke None cid (s, d) = (Inr (), s', d')"
  shows "\<not> id_taken s' cid"
proof -
  have k: "keyed (as_clients s)" using ok by (simp add: store_ok_def)
  have s': "s' = s\<lparr>as_clients := tbl_delete (pin_of_id s cid) (as_clients s)\<rparr>"
    using rv by (auto simp: revoke_def Let_def split: if_splits)
  have "c_id c \<noteq> cid" if "map_of (as_clients s') p = Some c" for p c
  proof
    assume "c_id c = cid"
    from that have c: "map_of (as_clients s) p = Some c" "p \<noteq> pin_of_id s cid" by (auto simp: s' split: if_splits)
    with pin_of_id_eq [OF ok c(1)] \<open>c_id c = cid\<close> show False by simp
  qed
  moreover have "keyed (as_clients s')" using k by (simp add: s')
  ultimately show ?thesis by (simp add: id_taken_iff)
qed

end
