(* ===== verification/Peers.thy ===== *)
theory Peers
  imports PairingProps
begin

section \<open>Peers: ids and the registry (internal/peers)\<close>

text \<open>
  The configured peers: the ids they get (\<open>ids.go\<close>), the registry in memory and in the \<open>peers\<close>
  table (\<open>registry.go\<close>), the heartbeat's state machine, and the HTTP handlers (\<open>http.go\<close>). The
  goroutines and timers that run the heartbeat are not modelled: the answers of the network are arguments of
  the step. \<open>uuid\<close> stands for \<open>uuid.NewString()\<close>, \<open>is_uuid\<close> for \<open>uuid.Parse\<close> succeeding,
  \<open>ip_of\<close> for \<open>literal_ip\<close> at load time and \<open>resolve_ip\<close> later.
\<close>

subsection \<open>States\<close>

datatype peer_state = Online | Degraded | Offline | Disabled

fun state_name :: "peer_state \<Rightarrow> string" where
  "state_name Online = ''ONLINE''"
| "state_name Degraded = ''DEGRADED''"
| "state_name Offline = ''OFFLINE''"
| "state_name Disabled = ''DISABLED''"

text \<open>A text of the \<open>state\<close> column that names no state (nothing writes one) is kept out of the model.\<close>

definition parse_state :: "string \<Rightarrow> peer_state" where
  "parse_state s = (if s = ''ONLINE'' then Online else if s = ''DEGRADED'' then Degraded
     else if s = ''OFFLINE'' then Offline else Disabled)"

definition degraded_after_misses :: nat where "degraded_after_misses = 1"
definition offline_after_misses :: nat where "offline_after_misses = 3"
definition withdraw_after :: int where "withdraw_after = 15 * 60 * second"

record peer =
  p_id :: string
  p_url :: string
  p_state :: peer_state
  p_name :: string
  p_version :: string
  p_ip :: string
  p_pin :: string
  p_last_seen :: "int option"
  p_rtt :: int
  p_missed :: nat
  p_offering :: bool

definition offering :: "int \<Rightarrow> peer \<Rightarrow> bool" where
  "offering now p =
     (case p_state p of
        Online \<Rightarrow> True
      | Disabled \<Rightarrow> False
      | _ \<Rightarrow> (case p_last_seen p of None \<Rightarrow> False | Some t \<Rightarrow> now - t < withdraw_after))"

subsection \<open>Ids\<close>

definition reserved_ids :: "string list" where "reserved_ids = [''local'', ''unknown'']"

definition slug_char :: "char \<Rightarrow> bool" where
  "slug_char c \<longleftrightarrow> is_lower_alnum c \<or> c = CHR ''_'' \<or> c = CHR ''-''"

definition slug :: "string \<Rightarrow> string" where
  "slug name = trim_set ''-_'' (replace_runs slug_char (to_lower (trim_space name)))"

definition numbered_id :: "string \<Rightarrow> nat \<Rightarrow> string" where
  "numbered_id base n = base @ ''_'' @ fmt_02d (int n)"

text \<open>The loop \<open>for n := 1; ; n++\<close>, which ends only if some id is free.\<close>

partial_function (option) next_id :: "(string \<Rightarrow> bool) \<Rightarrow> string \<Rightarrow> nat \<Rightarrow> string option" where
  "next_id taken base n =
     (let i = numbered_id base n in if \<not> taken i then Some i else next_id taken base (Suc n))"

definition id_for :: "string \<Rightarrow> string \<Rightarrow> (string \<Rightarrow> bool) \<Rightarrow> string option" where
  "id_for uuid name taken =
     (let base = slug name
      in if base = [] then Some uuid
         else if \<not> taken base \<and> base \<notin> set reserved_ids then Some base
         else next_id taken base 1)"

subsection \<open>The registry\<close>

text \<open>\<open>OtherIDs\<close>: the ids of the clients and the id of a client's key.\<close>

type_synonym other_ids = "(string \<Rightarrow> bool) \<times> (string \<Rightarrow> string option)"

definition store_ids :: "auth_store \<Rightarrow> other_ids" where
  "store_ids s = (id_taken s, id_for_pin s)"

record registry =
  rg_peers :: "(string, peer) tbl"
  rg_http_off :: bool
  rg_mtls_off :: bool
  rg_running :: "string list"   \<comment> \<open>the keys of \<open>cancels\<close>\<close>
  rg_has_callback :: bool

definition taken_locked :: "registry \<Rightarrow> other_ids option \<Rightarrow> string \<Rightarrow> bool" where
  "taken_locked r others i =
     (if map_of (rg_peers r) i \<noteq> None then True
      else (case others of None \<Rightarrow> False | Some (taken, _) \<Rightarrow> taken i))"

definition new_id :: "registry \<Rightarrow> other_ids option \<Rightarrow> string \<Rightarrow> string \<Rightarrow> string option" where
  "new_id r others uuid name = id_for uuid name (taken_locked r others)"

definition new_id_for_pin :: "registry \<Rightarrow> other_ids option \<Rightarrow> string \<Rightarrow> string \<Rightarrow> string \<Rightarrow> string option" where
  "new_id_for_pin r others uuid name pin =
     (case (case others of None \<Rightarrow> None | Some (_, for_pin) \<Rightarrow> for_pin pin) of
        Some i \<Rightarrow> if map_of (rg_peers r) i = None then Some i else id_for uuid name (taken_locked r others)
      | None \<Rightarrow> id_for uuid name (taken_locked r others))"

definition client_id :: "registry \<Rightarrow> other_ids option \<Rightarrow> string \<Rightarrow> string \<Rightarrow> string \<Rightarrow> string option" where
  "client_id r others uuid name pin =
     (case find (\<lambda>(i, p). p_pin p \<noteq> [] \<and> p_pin p = pin) (rg_peers r) of
        Some (i, p) \<Rightarrow> Some i
      | None \<Rightarrow> id_for uuid name (taken_locked r others))"

definition enabled :: "registry \<Rightarrow> peer \<Rightarrow> bool" where
  "enabled r p = (if p_pin p \<noteq> [] then \<not> rg_mtls_off r else \<not> rg_http_off r)"

definition list_peers :: "registry \<Rightarrow> peer list" where
  "list_peers r = map snd (rg_peers r)"

definition get_peer :: "registry \<Rightarrow> string \<Rightarrow> peer option" where
  "get_peer r i = map_of (rg_peers r) i"

definition peer_by_pin :: "registry \<Rightarrow> string \<Rightarrow> peer option" where
  "peer_by_pin r pin =
     (if pin = [] then None
      else map_option snd (find (\<lambda>(i, p). p_pin p = pin) (rg_peers r)))"

definition pin_for_addr :: "(string \<Rightarrow> url option) \<Rightarrow> registry \<Rightarrow> string \<Rightarrow> string option" where
  "pin_for_addr parse r addr =
     map_option (p_pin \<circ> snd)
       (find (\<lambda>(i, p). p_pin p \<noteq> [] \<and> addr_of parse (p_url p) = Some addr) (rg_peers r))"

definition resolve_caller :: "registry \<Rightarrow> string \<Rightarrow> string \<Rightarrow> string" where
  "resolve_caller r nodeID remoteIP =
     (case (if nodeID \<noteq> [] then find (\<lambda>(i, p). p_name p = nodeID \<or> i = nodeID) (rg_peers r) else None) of
        Some (i, _) \<Rightarrow> i
      | None \<Rightarrow>
          (case (if remoteIP \<noteq> [] then find (\<lambda>(i, p). p_ip p \<noteq> [] \<and> p_ip p = remoteIP) (rg_peers r) else None) of
             Some (i, _) \<Rightarrow> i
           | None \<Rightarrow> []))"

definition set_transports :: "bool \<Rightarrow> bool \<Rightarrow> registry \<Rightarrow> registry" where
  "set_transports http mtls r =
     (let r = r\<lparr>rg_http_off := \<not> http, rg_mtls_off := \<not> mtls\<rparr>
      in r\<lparr>rg_peers := map (\<lambda>(i, p). (i, if enabled r p then p else p\<lparr>p_state := Disabled\<rparr>)) (rg_peers r)\<rparr>)"

definition start_heartbeat :: "string \<Rightarrow> registry \<Rightarrow> registry" where
  "start_heartbeat i r =
     (if (case map_of (rg_peers r) i of None \<Rightarrow> False | Some p \<Rightarrow> p_state p = Disabled) then r
      else if i \<in> set (rg_running r) then r
      else r\<lparr>rg_running := rg_running r @ [i]\<rparr>)"

definition run_heartbeat :: "registry \<Rightarrow> registry" where
  "run_heartbeat r = fold start_heartbeat (map fst (rg_peers r)) r"

definition add_peer ::
  "(string \<Rightarrow> string) \<Rightarrow> go_error option \<Rightarrow> int \<Rightarrow> string \<Rightarrow> string \<Rightarrow> string \<Rightarrow> string \<Rightarrow> string \<Rightarrow> registry \<times> database
     \<Rightarrow> (go_error + unit) \<times> registry \<times> database" where
  "add_peer ip_of fault now i rawURL name version pin rd =
     (let (r, d) = rd; url = trim_right_set ''/'' rawURL
      in case fault of
           Some e \<Rightarrow> (Inl (ErrDb ''adding peer''), r, d)
         | None \<Rightarrow>
             let row = (case map_of (peers_tbl d) i of
                   None \<Rightarrow> \<lparr>pr_url = url, pr_state = state_name Online, pr_last_seen_at = Some (unix now),
                            pr_version = version, pr_name = name, pr_pin = pin\<rparr>
                 | Some x \<Rightarrow> x\<lparr>pr_url := url, pr_name := name, pr_version := version, pr_pin := pin,
                               pr_last_seen_at := Some (unix now)\<rparr>);
                 p = \<lparr>p_id = i, p_url = url, p_state = Online, p_name = name, p_version = version,
                      p_ip = ip_of url, p_pin = pin, p_last_seen = Some now, p_rtt = 0, p_missed = 0, p_offering = True\<rparr>;
                 p = (if enabled r p then p else p\<lparr>p_state := Disabled\<rparr>)
             in (Inr (), start_heartbeat i (r\<lparr>rg_peers := tbl_upsert i p (rg_peers r)\<rparr>),
                 d\<lparr>peers_tbl := tbl_upsert i row (peers_tbl d)\<rparr>))"

text \<open>\<open>RemovePeer\<close>: the peer is gone from memory even when the \<open>DELETE\<close> fails.\<close>

definition remove_peer ::
  "go_error option \<Rightarrow> string \<Rightarrow> registry \<times> database \<Rightarrow> (go_error + unit) \<times> registry \<times> database" where
  "remove_peer fault i rd =
     (let (r, d) = rd;
          r = r\<lparr>rg_running := filter (\<lambda>j. j \<noteq> i) (rg_running r), rg_peers := tbl_delete i (rg_peers r)\<rparr>
      in case fault of
           Some e \<Rightarrow> (Inl (ErrDb ''removing peer''), r, d)
         | None \<Rightarrow> (Inr (), r, d\<lparr>peers_tbl := tbl_delete i (peers_tbl d)\<rparr>))"

subsection \<open>The heartbeat\<close>

text \<open>
  \<open>checkOnce\<close> releases the lock while it probes: \<open>check_begin\<close> reads the URL to probe, \<open>check_end\<close>
  records the outcome (\<open>None\<close>: the probe failed; else the name and version reported) in whatever the
  registry has become. The last component says whether the callback was called.
\<close>

definition check_begin :: "registry \<Rightarrow> string \<Rightarrow> string option" where
  "check_begin r i =
     (case map_of (rg_peers r) i of
        None \<Rightarrow> None
      | Some p \<Rightarrow> if p_state p = Disabled then None else Some (p_url p))"

definition checked :: "int \<Rightarrow> string \<Rightarrow> (string \<times> string \<times> int) option \<Rightarrow> peer \<Rightarrow> peer" where
  "checked now ip probe p =
     (let p = (if ip \<noteq> [] then p\<lparr>p_ip := ip\<rparr> else p);
          p = (case probe of
                 Some (name, version, rtt) \<Rightarrow>
                   let p = p\<lparr>p_missed := 0, p_state := Online, p_last_seen := Some now, p_rtt := rtt\<rparr>;
                       p = (if version \<noteq> [] then p\<lparr>p_version := version\<rparr> else p)
                   in (if name \<noteq> [] then p\<lparr>p_name := name\<rparr> else p)
               | None \<Rightarrow>
                   let p = p\<lparr>p_missed := Suc (p_missed p)\<rparr>
                   in if offline_after_misses \<le> p_missed p then p\<lparr>p_state := Offline\<rparr>
                      else if degraded_after_misses \<le> p_missed p then p\<lparr>p_state := Degraded\<rparr>
                      else p)
      in p\<lparr>p_offering := offering now p\<rparr>)"

definition check_end ::
  "go_error option \<Rightarrow> int \<Rightarrow> string \<Rightarrow> (string \<times> string \<times> int) option \<Rightarrow> string \<Rightarrow> registry \<times> database
     \<Rightarrow> registry \<times> database \<times> bool" where
  "check_end fault now ip probe i rd =
     (let (r, d) = rd
      in case map_of (rg_peers r) i of
           None \<Rightarrow> (r, d, False)
         | Some p \<Rightarrow>
             let q = checked now ip probe p;
                 d = (case fault of
                        Some e \<Rightarrow> d
                      | None \<Rightarrow> d\<lparr>peers_tbl := tbl_update_where (\<lambda>k _. k = i)
                          (\<lambda>x. if probe \<noteq> None
                               then x\<lparr>pr_state := state_name (p_state q), pr_last_seen_at := Some (unix now),
                                      pr_version := p_version q, pr_name := p_name q\<rparr>
                               else x\<lparr>pr_state := state_name (p_state q)\<rparr>) (peers_tbl d)\<rparr>)
             in (r\<lparr>rg_peers := tbl_upsert i q (rg_peers r)\<rparr>, d, p_offering q \<noteq> p_offering p \<and> rg_has_callback r))"

text \<open>
  \<open>literalIP\<close> and \<open>resolveIP\<close>: \<open>parse\<close> is \<open>url.Parse\<close>, \<open>parse_ip\<close> is \<open>net.ParseIP\<close> with the address written back,
  \<open>lookup\<close> the resolver's answer (\<open>None\<close>: an error or a timeout); an address has its text, and its text as
  an IPv4 address if it is one.
\<close>

record ip_address =
  ad_v4 :: "string option"
  ad_text :: string

definition literal_ip :: "(string \<Rightarrow> url option) \<Rightarrow> (string \<Rightarrow> string option) \<Rightarrow> string \<Rightarrow> string" where
  "literal_ip parse parse_ip raw =
     (case parse raw of
        None \<Rightarrow> []
      | Some u \<Rightarrow> (case parse_ip (u_hostname u) of None \<Rightarrow> [] | Some ip \<Rightarrow> ip))"

definition resolve_ip ::
  "(string \<Rightarrow> url option) \<Rightarrow> (string \<Rightarrow> string option) \<Rightarrow> (string \<Rightarrow> ip_address list option) \<Rightarrow> string \<Rightarrow> string" where
  "resolve_ip parse parse_ip lookup raw =
     (let ip = literal_ip parse parse_ip raw
      in if ip \<noteq> [] then ip
         else case parse raw of
                None \<Rightarrow> []
              | Some u \<Rightarrow>
                  if u_hostname u = [] then []
                  else (case lookup (u_hostname u) of
                          None \<Rightarrow> []
                        | Some [] \<Rightarrow> []
                        | Some (a # rest) \<Rightarrow>
                            (case find (\<lambda>x. ad_v4 x \<noteq> None) (a # rest) of
                               Some x \<Rightarrow> the (ad_v4 x)
                             | None \<Rightarrow> ad_text a)))"

text \<open>
  \<open>Probe\<close>: what the answer to \<open>GET url/health\<close> means: a failed request, or a status with the name and the version
  in the body (empty when the body cannot be decoded, which is not an error).
\<close>

definition probe_peer :: "go_error + (nat \<times> string \<times> string) \<Rightarrow> go_error + (string \<times> string)" where
  "probe_peer resp =
     (case resp of
        Inl e \<Rightarrow> Inl (ErrMsg ''unreachable'')
      | Inr (status, name, version) \<Rightarrow>
          if status \<noteq> 200 then Inl (ErrMsg ''unhealthy'') else Inr (name, version))"

text \<open>A whole \<open>checkOnce\<close> that nothing interrupts; \<open>get\<close> answers the request to a URL.\<close>

definition check_once ::
  "go_error option \<Rightarrow> int \<Rightarrow> int \<Rightarrow> (string \<Rightarrow> go_error + (nat \<times> string \<times> string)) \<Rightarrow> (string \<Rightarrow> string) \<Rightarrow> string
     \<Rightarrow> registry \<times> database \<Rightarrow> registry \<times> database \<times> bool" where
  "check_once fault now rtt get ip i rd =
     (case check_begin (fst rd) i of
        None \<Rightarrow> (fst rd, snd rd, False)
      | Some url \<Rightarrow>
          check_end fault now (ip url)
            (case probe_peer (get (url @ ''/health'')) of Inl _ \<Rightarrow> None | Inr (name, version) \<Rightarrow> Some (name, version, rtt)) i rd)"

text \<open>It leaves every other peer alone, a disabled peer too, and no answer but a 200 counts as a contact.\<close>

lemma check_once_peer:
  assumes "check_once fault now rtt get ip i (r, d) = (r', d', called)"
  shows "j \<noteq> i \<Longrightarrow> map_of (rg_peers r') j = map_of (rg_peers r) j"
    and "map_of (rg_peers r) i = Some p \<Longrightarrow> p_state p = Disabled \<Longrightarrow> r' = r \<and> d' = d"
    and "map_of (rg_peers r) i = Some p \<Longrightarrow> p_state p \<noteq> Disabled \<Longrightarrow>
      \<exists>q. map_of (rg_peers r') i = Some q \<and>
        (p_missed q = 0 \<longleftrightarrow> (\<exists>name version. get (p_url p @ ''/health'') = Inr (200, name, version)))"
proof -
  show "j \<noteq> i \<Longrightarrow> map_of (rg_peers r') j = map_of (rg_peers r) j"
    using assms by (auto simp: check_once_def check_end_def Let_def split: option.splits)
  show "map_of (rg_peers r) i = Some p \<Longrightarrow> p_state p = Disabled \<Longrightarrow> r' = r \<and> d' = d"
    using assms by (auto simp: check_once_def check_begin_def)
  assume p: "map_of (rg_peers r) i = Some p" "p_state p \<noteq> Disabled"
  let ?o = "case probe_peer (get (p_url p @ ''/health'')) of Inl _ \<Rightarrow> None | Inr (name, version) \<Rightarrow> Some (name, version, rtt)"
  have "map_of (rg_peers r') i = Some (checked now (ip (p_url p)) ?o p)"
    using assms p by (auto simp: check_once_def check_begin_def check_end_def Let_def)
  moreover have "p_missed (checked now x ?o p) = 0 \<longleftrightarrow> (\<exists>name version. get (p_url p @ ''/health'') = Inr (200, name, version))" for x
    by (auto simp: checked_def probe_peer_def Let_def split: sum.splits option.splits)
  ultimately show "\<exists>q. map_of (rg_peers r') i = Some q \<and>
        (p_missed q = 0 \<longleftrightarrow> (\<exists>name version. get (p_url p @ ''/health'') = Inr (200, name, version)))" by blast
qed

subsection \<open>Renaming and loading\<close>

definition rekey :: "'k \<Rightarrow> 'k \<Rightarrow> ('k, 'r) tbl \<Rightarrow> ('k, 'r) tbl" where
  "rekey old new t = map (\<lambda>(k, r). (if k = old then new else k, r)) t"

definition rekey_fst :: "'a \<Rightarrow> 'a \<Rightarrow> ('a \<times> 'b, 'r) tbl \<Rightarrow> ('a \<times> 'b, 'r) tbl" where
  "rekey_fst old new t = map (\<lambda>((a, b), r). ((if a = old then new else a, b), r)) t"

fun add_traffic :: "string \<Rightarrow> ((string \<times> string) \<times> int) list \<Rightarrow> (string \<times> string, int) tbl \<Rightarrow> (string \<times> string, int) tbl" where
  "add_traffic new [] t = t"
| "add_traffic new (((p, dir), n) # rest) t =
     add_traffic new rest
       (tbl_upsert (new, dir) ((case map_of t (new, dir) of None \<Rightarrow> 0 | Some m \<Rightarrow> m) + n) t)"

text \<open>The statements of \<open>renamePeerID\<close>, in order; \<open>newID\<close> is not a registered peer.\<close>

definition rename_peer_id :: "string \<Rightarrow> string \<Rightarrow> database \<Rightarrow> database" where
  "rename_peer_id old new d =
     (let d = d\<lparr>peers_tbl := rekey old new (peers_tbl d)\<rparr>;
          d = d\<lparr>peer_catalog := rekey_fst old new (tbl_delete_where (\<lambda>k _. fst k = new) (peer_catalog d))\<rparr>;
          d = d\<lparr>peer_sync_state := rekey old new (tbl_delete new (peer_sync_state d))\<rparr>;
          d = d\<lparr>peer_excluded_folders := rekey_fst old new (tbl_delete_where (\<lambda>k _. fst k = new) (peer_excluded_folders d))\<rparr>;
          d = d\<lparr>peer_traffic := add_traffic new (filter (\<lambda>(k, _). fst k = old) (peer_traffic d)) (peer_traffic d)\<rparr>;
          d = d\<lparr>peer_traffic := tbl_delete_where (\<lambda>k _. fst k = old) (peer_traffic d)\<rparr>
      in d\<lparr>catalog_items := tbl_update_where (\<lambda>_ r. i_primary_peer_id r = Some old)
                              (\<lambda>r. r\<lparr>i_primary_peer_id := Some new\<rparr>) (catalog_items d)\<rparr>)"

text \<open>\<open>migrateUUIDIDs\<close>: the loop that picks the new ids, in rowid order.\<close>

fun pick_renames ::
  "(string \<Rightarrow> bool) \<Rightarrow> (string \<times> string) list \<Rightarrow> string list \<Rightarrow> (string \<times> string) list \<Rightarrow> (string \<times> string) list option" where
  "pick_renames is_uuid [] taken renames = Some renames"
| "pick_renames is_uuid ((i, name) # rest) taken renames =
     (if \<not> is_uuid i \<or> slug name = [] then pick_renames is_uuid rest taken renames
      else (case id_for [] name (\<lambda>j. j \<in> set taken) of
              None \<Rightarrow> None
            | Some new \<Rightarrow> pick_renames is_uuid rest (new # taken) (renames @ [(i, new)])))"

definition migrate_uuid_ids ::
  "(string \<Rightarrow> bool) \<Rightarrow> go_error option \<Rightarrow> database \<Rightarrow> ((go_error + unit) \<times> database) option" where
  "migrate_uuid_ids is_uuid fault d =
     (let all = map (\<lambda>(i, r). (i, pr_name r)) (peers_tbl d)
      in case pick_renames is_uuid all (map fst all) [] of
           None \<Rightarrow> None
         | Some renames \<Rightarrow>
             if renames = [] then Some (Inr (), d)
             else Some (with_tx fault (\<lambda>d. Inr ((), fold (\<lambda>(old, new). rename_peer_id old new) renames d)) d))"

fun seed_peers :: "(string \<times> string) list \<Rightarrow> (string, peer_row) tbl \<Rightarrow> (string, peer_row) tbl" where
  "seed_peers [] t = t"
| "seed_peers ((i, url) # rest) t =
     seed_peers rest (tbl_upsert i
       (case map_of t i of
          None \<Rightarrow> \<lparr>pr_url = url, pr_state = state_name Online, pr_last_seen_at = None, pr_version = [], pr_name = [], pr_pin = []\<rparr>
        | Some x \<Rightarrow> x\<lparr>pr_url := url\<rparr>) t)"

definition load_peer :: "(string \<Rightarrow> string) \<Rightarrow> int \<Rightarrow> string \<times> peer_row \<Rightarrow> string \<times> peer" where
  "load_peer ip_of now row =
     (case row of (i, x) \<Rightarrow>
        let seen = (case pr_last_seen_at x of None \<Rightarrow> 0 | Some t \<Rightarrow> t);
            p = \<lparr>p_id = i, p_url = pr_url x, p_state = parse_state (pr_state x), p_name = pr_name x,
                 p_version = pr_version x, p_ip = ip_of (pr_url x), p_pin = pr_pin x,
                 p_last_seen = (if 0 < seen then Some (seen * second) else None), p_rtt = 0, p_missed = 0,
                 p_offering = False\<rparr>
        in (i, p\<lparr>p_offering := offering now p\<rparr>))"

text \<open>\<open>NewRegistry\<close>; \<open>sfault\<close> is which of the seeding inserts fails (those before it stay), \<open>lfault\<close> fails the load.\<close>

definition new_registry ::
  "(string \<Rightarrow> string) \<Rightarrow> (string \<Rightarrow> bool) \<Rightarrow> nat option \<Rightarrow> go_error option \<Rightarrow> go_error option \<Rightarrow> int
     \<Rightarrow> (string \<times> string) list \<Rightarrow> database \<Rightarrow> ((go_error + registry) \<times> database) option" where
  "new_registry ip_of is_uuid sfault mfault lfault now configured d =
     (let seeded = (case sfault of None \<Rightarrow> configured | Some n \<Rightarrow> take n configured);
          d = d\<lparr>peers_tbl := seed_peers seeded (peers_tbl d)\<rparr>
      in if length seeded < length configured then Some (Inl (ErrDb ''seeding peer''), d)
         else (case migrate_uuid_ids is_uuid mfault d of
                None \<Rightarrow> None
              | Some (Inl e, d) \<Rightarrow> Some (Inl e, d)
              | Some (Inr _, d) \<Rightarrow>
                  (case lfault of
                     Some e \<Rightarrow> Some (Inl (ErrDb ''loading peers''), d)
                   | None \<Rightarrow> Some (Inr \<lparr>rg_peers = map (load_peer ip_of now) (peers_tbl d), rg_http_off = False,
                                       rg_mtls_off = False, rg_running = [], rg_has_callback = False\<rparr>, d))))"

subsection \<open>Handlers\<close>

record peer_dto =
  pd_id :: string
  pd_name :: string
  pd_url :: string
  pd_state :: string
  pd_version :: string
  pd_ip :: string
  pd_mtls :: bool
  pd_last_sync_at :: "int option"

definition dto_of :: "(string \<times> int) list \<Rightarrow> peer \<Rightarrow> peer_dto" where
  "dto_of synced p = \<lparr>pd_id = p_id p, pd_name = p_name p, pd_url = p_url p, pd_state = state_name (p_state p),
     pd_version = p_version p, pd_ip = p_ip p, pd_mtls = (p_pin p \<noteq> []), pd_last_sync_at = map_of synced (p_id p)\<rparr>"

definition list_peers_handler :: "registry \<Rightarrow> go_error + (string \<times> int) list \<Rightarrow> peer_dto list response" where
  "list_peers_handler r lastSync =
     Json 200 (map (dto_of (case lastSync of Inl e \<Rightarrow> [] | Inr t \<Rightarrow> t)) (list_peers r))"

text \<open>
  \<open>AddHandler\<close>: \<open>body\<close> is the decoded URL, \<open>probe\<close> the outcome of the handshake. \<open>None\<close> would be
  an endless search for an id.
\<close>

definition add_peer_handler ::
  "(string \<Rightarrow> string) \<Rightarrow> string \<Rightarrow> other_ids option \<Rightarrow> go_error option \<Rightarrow> int \<Rightarrow> (string \<Rightarrow> (string \<times> string) option)
     \<Rightarrow> string option \<Rightarrow> registry \<times> database \<Rightarrow> (unit response \<times> registry \<times> database) option" where
  "add_peer_handler ip_of uuid others fault now probe body rd =
     (if rg_http_off (fst rd) then Some (HttpError 409 ''peers by URL are turned off'', rd)
      else case body of
        None \<Rightarrow> Some (HttpError 400 ''invalid body'', rd)
      | Some url \<Rightarrow>
          if url = [] then Some (HttpError 400 ''url is required'', rd)
          else (case probe (trim_right_set ''/'' url) of
                  None \<Rightarrow> Some (HttpError 422 ''peer unreachable'', rd)
                | Some (name, version) \<Rightarrow>
                    (case new_id (fst rd) others uuid name of
                       None \<Rightarrow> None
                     | Some i \<Rightarrow>
                         (case add_peer ip_of fault now i url name version [] rd of
                            (Inl e, rd) \<Rightarrow> Some (HttpError 500 ''adding peer'', rd)
                          | (Inr _, rd) \<Rightarrow> Some (Status 204, rd)))))"

datatype redeemed_as = RePair | Upgrade | NewPeer

definition id_for_redeemed :: "registry \<Rightarrow> other_ids option \<Rightarrow> string \<Rightarrow> string \<Rightarrow> string \<Rightarrow> (string \<times> redeemed_as) option" where
  "id_for_redeemed r others uuid name pin =
     (case peer_by_pin r pin of
        Some p \<Rightarrow> Some (p_id p, RePair)
      | None \<Rightarrow>
          (case find (\<lambda>(i, p). p_pin p = [] \<and> name \<noteq> [] \<and> (p_name p = name \<or> i = name)) (rg_peers r) of
             Some (i, _) \<Rightarrow> Some (i, Upgrade)
           | None \<Rightarrow> map_option (\<lambda>i. (i, NewPeer)) (new_id_for_pin r others uuid name pin)))"

text \<open>
  \<open>RedeemHandler\<close>: \<open>invite\<close> is the parsed invite string (an error when it does not parse), \<open>paired\<close>
  what the call to the issuer gave.
\<close>

definition redeem_handler ::
  "(string \<Rightarrow> string) \<Rightarrow> string \<Rightarrow> other_ids option \<Rightarrow> go_error option \<Rightarrow> int \<Rightarrow> bool
     \<Rightarrow> (go_error + invite) option \<Rightarrow> go_error + pair_response \<Rightarrow> registry \<times> database
     \<Rightarrow> (peer_dto response \<times> registry \<times> database) option" where
  "redeem_handler ip_of uuid others fault now hasIdentity body paired rd =
     (if rg_mtls_off (fst rd) then Some (HttpError 409 ''pairing by invite is turned off'', rd)
      else if \<not> hasIdentity then Some (HttpError 500 ''this node has no identity key'', rd)
      else case body of
        None \<Rightarrow> Some (HttpError 400 ''invalid body'', rd)
      | Some (Inl e) \<Rightarrow> Some (HttpError 400 ''bad invite'', rd)
      | Some (Inr iv) \<Rightarrow>
          if invite_expired iv now then Some (HttpError 422 ''invite expired: ask for a new one'', rd)
          else (case paired of
                  Inl e \<Rightarrow> Some (HttpError (if e = ErrPinMismatch \<or> e = ErrInviteRejected then 422 else 502) ''redeeming invite'', rd)
                | Inr res \<Rightarrow>
                    (case id_for_redeemed (fst rd) others uuid (pp_node_id res) (iv_pin iv) of
                       None \<Rightarrow> None
                     | Some (i, how) \<Rightarrow>
                         (case add_peer ip_of fault now i (iv_url iv) (pp_node_id res) (pp_version res) (iv_pin iv) rd of
                            (Inl e, rd) \<Rightarrow> Some (HttpError 500 ''adding paired peer'', rd)
                          | (Inr _, rd) \<Rightarrow>
                              (case get_peer (fst rd) i of
                                 None \<Rightarrow> None
                               | Some p \<Rightarrow> Some (Json 200 (dto_of [] p), rd))))))"

definition remove_peer_handler ::
  "go_error option \<Rightarrow> string \<Rightarrow> registry \<times> database \<Rightarrow> unit response \<times> registry \<times> database" where
  "remove_peer_handler fault i rd =
     (if i = [] then (HttpError 400 ''missing peer id'', rd)
      else case remove_peer fault i rd of
             (Inl e, rd) \<Rightarrow> (HttpError 500 ''removing peer'', rd)
           | (Inr _, rd) \<Rightarrow> (Status 204, rd))"

end
