(* ===== verification/Jellyfin.thy ===== *)
theory Jellyfin
  imports Schema Sha256
begin

section \<open>The local library (internal/jellyfin/client.go, catalog.LocalEntries)\<close>

text \<open>
  From Jellyfin's answers to this node's own catalog: which raw items are real media, the global
  id that identifies an item across nodes, the join of episodes with their series, the library
  roots, and the exclusion of the redirect files this node writes itself. \<open>h\<close> stands for
  \<open>hash_parts\<close>; nothing here depends on which hash it is. A response is an error, or a status with the decoded body
  (\<open>None\<close> when it does not decode).
\<close>

text \<open>\<open>hashParts\<close>\<close>

definition hash_parts :: "string \<Rightarrow> string" where
  "hash_parts s = take 16 (hex_encode (sha256 s))"

record raw_item =
  ri_id :: string
  ri_name :: string
  ri_year :: int
  ri_type :: string
  ri_path :: string
  ri_provider_ids :: "(string \<times> string) list"
  ri_series_id :: string
  ri_series_name :: string
  ri_parent_index :: int
  ri_index :: int
  ri_location_type :: string
  ri_is_virtual :: bool

record catalog_item =
  ci_item_id :: string
  ci_name :: string
  ci_year :: int
  ci_media_type :: string
  ci_path :: string
  ci_tmdb_id :: string
  ci_tvdb_id :: string
  ci_imdb_id :: string
  ci_hash :: string
  ci_series_global_id :: string
  ci_series_name :: string
  ci_season_number :: int
  ci_episode_number :: int

definition global_id :: "catalog_item \<Rightarrow> string" where
  "global_id c =
     (if ci_tmdb_id c \<noteq> [] then ''tmdb:'' @ ci_tmdb_id c
      else if ci_tvdb_id c \<noteq> [] then ''tvdb:'' @ ci_tvdb_id c
      else if ci_imdb_id c \<noteq> [] then ''imdb:'' @ ci_imdb_id c
      else ''titleyear:'' @ ci_hash c)"

definition is_real_media :: "raw_item \<Rightarrow> bool" where
  "is_real_media ri =
     (if ri_is_virtual ri then False
      else if ri_location_type ri \<noteq> [] \<and> ri_location_type ri \<noteq> ''FileSystem'' then False
      else if to_lower (ri_type ri) \<in> {''movie'', ''episode''} \<and> ri_path ri = [] then False
      else True)"

subsection \<open>Fallback ids\<close>

definition normalize :: "string \<Rightarrow> string" where
  "normalize name = trim_set ''-'' (replace_runs is_lower_alnum (to_lower name))"

definition title_year_key :: "string \<Rightarrow> int \<Rightarrow> string" where
  "title_year_key name year = normalize name @ ''_'' @ fmt_int year"

definition episode_key :: "string \<Rightarrow> int \<Rightarrow> int \<Rightarrow> string" where
  "episode_key series season episode = series @ ''_'' @ fmt_int season @ ''_'' @ fmt_int episode"

definition orphan_episode_key :: "string \<Rightarrow> int \<Rightarrow> int \<Rightarrow> int \<Rightarrow> string" where
  "orphan_episode_key name year season episode =
     ''orphan_'' @ normalize name @ ''_'' @ fmt_int year @ ''_'' @ fmt_int season @ ''_'' @ fmt_int episode"

subsection \<open>Orphans\<close>

text \<open>
  \<open>underAny\<close>; \<open>path[len(root)]\<close> is guarded by the code's tests, which the model keeps: the index is
  read as an \<open>option\<close>, \<open>None\<close> being a panic.
\<close>

definition byte_at :: "string \<Rightarrow> nat \<Rightarrow> char option" where
  "byte_at s i = (if i < length s then Some (s ! i) else None)"

fun under_any :: "string \<Rightarrow> string list \<Rightarrow> bool option" where
  "under_any path [] = Some False"
| "under_any path (root # roots) =
     (let root = trim_right_set [CHR ''/'', CHR 0x5C] root
      in if root = [] then Some True
         else if path = root then Some True
         else if has_prefix root path then
           (case byte_at path (length root) of
              None \<Rightarrow> None
            | Some c \<Rightarrow> if c = CHR ''/'' \<or> c = CHR 0x5C then Some True else under_any path roots)
         else under_any path roots)"

fun drop_orphans :: "raw_item list \<Rightarrow> string list \<Rightarrow> raw_item list option" where
  "drop_orphans [] roots = Some []"
| "drop_orphans (ri # rest) roots =
     (case (if ri_path ri = [] then Some True else under_any (ri_path ri) roots) of
        None \<Rightarrow> None
      | Some keep \<Rightarrow> map_option (\<lambda>kept. if keep then ri # kept else kept) (drop_orphans rest roots))"

subsection \<open>Joining episodes with their series\<close>

definition provider :: "string \<Rightarrow> raw_item \<Rightarrow> string" where
  "provider key ri = (case map_of (ri_provider_ids ri) key of None \<Rightarrow> [] | Some v \<Rightarrow> v)"

definition base_item :: "raw_item \<Rightarrow> catalog_item" where
  "base_item ri = \<lparr>ci_item_id = ri_id ri, ci_name = ri_name ri, ci_year = ri_year ri,
     ci_media_type = to_lower (ri_type ri), ci_path = ri_path ri, ci_tmdb_id = provider ''Tmdb'' ri,
     ci_tvdb_id = provider ''Tvdb'' ri, ci_imdb_id = provider ''Imdb'' ri, ci_hash = [],
     ci_series_global_id = [], ci_series_name = [], ci_season_number = 0, ci_episode_number = 0\<rparr>"

text \<open>The first loop: Jellyfin's series id to global id, the last of equal ids winning.\<close>

fun series_global_ids :: "(string \<Rightarrow> string) \<Rightarrow> raw_item list \<Rightarrow> (string, string) tbl \<Rightarrow> (string, string) tbl" where
  "series_global_ids h [] m = m"
| "series_global_ids h (ri # rest) m =
     (if to_lower (ri_type ri) \<noteq> ''series'' \<or> \<not> is_real_media ri then series_global_ids h rest m
      else series_global_ids h rest
             (tbl_upsert (ri_id ri)
                (global_id ((base_item ri)\<lparr>ci_hash := h (title_year_key (ri_name ri) (ri_year ri))\<rparr>)) m))"

definition build_item :: "(string \<Rightarrow> string) \<Rightarrow> (string, string) tbl \<Rightarrow> raw_item \<Rightarrow> catalog_item" where
  "build_item h series ri =
     (let item = base_item ri
      in if ci_media_type item = ''episode'' then
           let sg = (case map_of series (ri_series_id ri) of None \<Rightarrow> [] | Some g \<Rightarrow> g);
               item = item\<lparr>ci_series_global_id := sg, ci_series_name := ri_series_name ri,
                           ci_season_number := ri_parent_index ri, ci_episode_number := ri_index ri\<rparr>
           in if sg \<noteq> []
              then item\<lparr>ci_hash := h (episode_key sg (ci_season_number item) (ci_episode_number item))\<rparr>
              else item\<lparr>ci_hash := h (orphan_episode_key (ci_name item) (ci_year item)
                                        (ci_season_number item) (ci_episode_number item))\<rparr>
         else item\<lparr>ci_hash := h (title_year_key (ci_name item) (ci_year item))\<rparr>)"

definition build_catalog_items :: "(string \<Rightarrow> string) \<Rightarrow> raw_item list \<Rightarrow> catalog_item list" where
  "build_catalog_items h raw =
     (let series = series_global_ids h raw []
      in map (build_item h series) (filter is_real_media raw))"

subsection \<open>Listing\<close>

definition library_roots :: "go_error + (nat \<times> string list list option) \<Rightarrow> go_error + string list" where
  "library_roots resp =
     (case resp of
        Inl e \<Rightarrow> Inl (ErrMsg ''listing libraries'')
      | Inr (status, body) \<Rightarrow>
          if status \<noteq> 200 then Inl (ErrMsg ''listing libraries: status'')
          else (case body of
                  None \<Rightarrow> Inl (ErrMsg ''decoding libraries'')
                | Some folders \<Rightarrow> Inr (concat folders)))"

text \<open>\<open>None\<close> would be a panic of \<open>underAny\<close>; it never happens (lemma \<open>list_items_no_panic\<close>).\<close>

definition list_items ::
  "(string \<Rightarrow> string) \<Rightarrow> go_error + (nat \<times> raw_item list option) \<Rightarrow> go_error + (nat \<times> string list list option)
     \<Rightarrow> (go_error + catalog_item list) option" where
  "list_items h resp libs =
     (case resp of
        Inl e \<Rightarrow> Some (Inl (ErrMsg ''listing items''))
      | Inr (status, body) \<Rightarrow>
          if status \<noteq> 200 then Some (Inl (ErrMsg ''listing items: status''))
          else (case body of
                  None \<Rightarrow> Some (Inl (ErrMsg ''decoding items''))
                | Some raw \<Rightarrow>
                    map_option (\<lambda>raw. Inr (build_catalog_items h raw))
                      (case library_roots libs of
                         Inl e \<Rightarrow> Some raw
                       | Inr roots \<Rightarrow> drop_orphans raw roots)))"

subsection \<open>LocalEntries\<close>

definition is_strm :: "string \<Rightarrow> catalog_item \<Rightarrow> bool" where
  "is_strm strmDir it =
     ((strmDir \<noteq> [] \<and> has_prefix (path_clean strmDir @ ''/'') (path_clean (ci_path it) @ ''/''))
      \<or> equal_fold (path_ext (ci_path it)) ''.strm'')"

fun series_counts :: "string \<Rightarrow> catalog_item list \<Rightarrow> (string \<Rightarrow> nat) \<times> (string \<Rightarrow> nat) \<Rightarrow> (string \<Rightarrow> nat) \<times> (string \<Rightarrow> nat)" where
  "series_counts strmDir [] c = c"
| "series_counts strmDir (it # rest) (eps, real) =
     (if ci_media_type it \<noteq> ''episode'' then series_counts strmDir rest (eps, real)
      else let s = ci_series_global_id it
           in series_counts strmDir rest
                (eps(s := Suc (eps s)), if is_strm strmDir it then real else real(s := Suc (real s))))"

definition entry_of :: "catalog_item \<Rightarrow> entry" where
  "entry_of it = \<lparr>e_global_id = global_id it, e_item_id = ci_item_id it, e_name = ci_name it,
     e_year = ci_year it, e_media_type = ci_media_type it, e_tmdb_id = ci_tmdb_id it,
     e_tvdb_id = ci_tvdb_id it, e_imdb_id = ci_imdb_id it, e_path = ci_path it,
     e_series_global_id = ci_series_global_id it, e_series_name = ci_series_name it,
     e_season_number = ci_season_number it, e_episode_number = ci_episode_number it\<rparr>"

definition local_entries_of :: "string \<Rightarrow> catalog_item list \<Rightarrow> entry list" where
  "local_entries_of strmDir items =
     (let (eps, real) = series_counts strmDir items (\<lambda>_. 0, \<lambda>_. 0)
      in map entry_of (filter (\<lambda>it. \<not> (is_strm strmDir it
            \<or> (ci_media_type it = ''series'' \<and> 0 < eps (global_id it) \<and> real (global_id it) = 0))) items))"

definition local_entries ::
  "string \<Rightarrow> go_error + catalog_item list \<Rightarrow> go_error + entry list" where
  "local_entries strmDir items = (case items of Inl e \<Rightarrow> Inl e | Inr its \<Rightarrow> Inr (local_entries_of strmDir its))"

subsection \<open>Lemmas\<close>

lemma has_prefix_longer: "has_prefix p s \<Longrightarrow> s \<noteq> p \<Longrightarrow> length p < length s"
  by (auto simp: has_prefix_def) (metis linorder_not_less take_all)

lemma under_any_no_panic: "under_any path roots \<noteq> None"
proof (induction path roots rule: under_any.induct)
  case (2 path root roots)
  let ?r = "trim_right_set [CHR ''/'', CHR 0x5C] root"
  show ?case
  proof (cases "?r = [] \<or> path = ?r \<or> \<not> has_prefix ?r path")
    case True
    with 2 show ?thesis by (auto simp: Let_def)
  next
    case False
    then have "length ?r < length path" using has_prefix_longer by metis
    with False 2 show ?thesis by (simp add: Let_def byte_at_def ex_bool_eq)
  qed
qed simp

lemma drop_orphans_eq:
  "drop_orphans raw roots = Some (filter (\<lambda>ri. ri_path ri = [] \<or> under_any (ri_path ri) roots = Some True) raw)"
proof (induction raw)
  case (Cons ri raw)
  then show ?case
    using under_any_no_panic [of "ri_path ri" roots] by (auto split: option.split)
qed simp

lemma list_items_no_panic: "list_items h resp libs \<noteq> None"
  by (simp add: list_items_def drop_orphans_eq split: sum.split prod.split option.split)

lemma series_counts_eq:
  "series_counts strmDir items (eps, real) =
     (\<lambda>s. eps s + length (filter (\<lambda>it. ci_media_type it = ''episode'' \<and> ci_series_global_id it = s) items),
      \<lambda>s. real s + length (filter (\<lambda>it. ci_media_type it = ''episode'' \<and> ci_series_global_id it = s \<and> \<not> is_strm strmDir it) items))"
proof (induction items arbitrary: eps real)
  case (Cons it items)
  show ?case
    by (cases "ci_media_type it = ''episode''"; cases "is_strm strmDir it")
       (auto simp: Cons.IH Let_def fun_eq_iff)
qed simp

text \<open>A node offers exactly these items of its listing: not a redirect file (one ending in \<open>.strm\<close>
  in any case, or under the output folder), and not a series all of whose episodes are redirects. So
  nothing this node mirrors from others comes back as its own.\<close>

lemma local_entries_iff:
  "e \<in> set (local_entries_of strmDir items) \<longleftrightarrow>
     (\<exists>it \<in> set items. e = entry_of it \<and> \<not> is_strm strmDir it
        \<and> \<not> (ci_media_type it = ''series''
             \<and> (\<exists>ep \<in> set items. ci_media_type ep = ''episode'' \<and> ci_series_global_id ep = global_id it)
             \<and> (\<forall>ep \<in> set items. ci_media_type ep = ''episode'' \<longrightarrow> ci_series_global_id ep = global_id it
                   \<longrightarrow> is_strm strmDir ep)))"
  (is "_ \<longleftrightarrow> (\<exists>it \<in> set items. e = entry_of it \<and> ?keep it)")
proof -
  have "local_entries_of strmDir items = map entry_of (filter ?keep items)"
    unfolding local_entries_of_def series_counts_eq Let_def prod.case
    by (rule arg_cong [of _ _ "map entry_of"], rule filter_cong [OF refl])
       (simp add: filter_empty_conv, blast)
  then show ?thesis by auto
qed

text \<open>The strings that are hashed determine what they are made of.\<close>

lemma at_first_sep: "x \<notin> set a \<Longrightarrow> x \<notin> set b \<Longrightarrow> a @ x # c = b @ x # d \<longleftrightarrow> a = b \<and> c = d"
proof (induction a arbitrary: b)
  case Nil
  then show ?case by (cases b) auto
next
  case (Cons y a)
  then show ?case by (cases b) auto
qed

lemma at_last_sep: "x \<notin> set c \<Longrightarrow> x \<notin> set d \<Longrightarrow> a @ x # c = b @ x # d \<longleftrightarrow> a = b \<and> c = d"
  using at_first_sep [of x "rev c" "rev d" "rev a" "rev b"]
  by (metis append_assoc append_Cons append_Nil rev.simps(2) rev_append rev_is_rev_conv set_rev)

lemma digit_char_no_sep: "d < 10 \<Longrightarrow> digit_char d \<noteq> CHR ''_'' \<and> digit_char d \<noteq> CHR '':''"
  by (auto simp: digit_char_def char_of_eq_iff take_bit_eq_mod)

lemma fmt_nat_no_sep: "CHR ''_'' \<notin> set (fmt_nat n) \<and> CHR '':'' \<notin> set (fmt_nat n)"
proof (induction n rule: fmt_nat.induct)
  case (1 n)
  show ?case
  proof (cases "n < 10")
    case True
    then show ?thesis using digit_char_no_sep [of n] by (subst (1 2) fmt_nat.simps) auto
  next
    case False
    then show ?thesis using 1 [OF False] digit_char_no_sep [of "n mod 10"] by (subst (1 2) fmt_nat.simps) auto
  qed
qed

lemma fmt_int_no_sep [simp]: "CHR ''_'' \<notin> set (fmt_int n)" "CHR '':'' \<notin> set (fmt_int n)"
  using fmt_nat_no_sep by (auto simp: fmt_int_def)

lemma fmt_nat_no_minus: "CHR ''-'' \<notin> set (fmt_nat n)"
proof (induction n rule: fmt_nat.induct)
  case (1 n)
  have d: "d < 10 \<Longrightarrow> digit_char d \<noteq> CHR ''-''" for d
    by (auto simp: digit_char_def char_of_eq_iff take_bit_eq_mod)
  show ?case
  proof (cases "n < 10")
    case True
    then show ?thesis using d [of n] by (subst fmt_nat.simps) auto
  next
    case False
    then show ?thesis using 1 [OF False] d [of "n mod 10"] by (subst fmt_nat.simps) auto
  qed
qed

lemma fmt_int_inj: "fmt_int a = fmt_int b \<longleftrightarrow> a = b"
proof
  assume eq: "fmt_int a = fmt_int b"
  have "CHR ''-'' # fmt_nat m \<noteq> fmt_nat n" for m n
    using fmt_nat_no_minus [of n] by (metis list.set_intros(1))
  with eq show "a = b"
    by (auto simp: fmt_int_def split: if_splits dest!: fmt_nat_inj) (metis)+
qed simp

lemma dash_runs_set: "c \<in> set (dash_runs ok b s) \<Longrightarrow> c = CHR ''-'' \<or> ok c"
  by (induction ok b s rule: dash_runs.induct) (auto split: if_splits)

lemma trim_set_subset: "set (trim_set cs s) \<subseteq> set s"
  by (auto simp: trim_set_def trim_right_set_def dest!: set_dropWhileD)

lemma normalize_no_sep [simp]: "CHR ''_'' \<notin> set (normalize n)" "CHR '':'' \<notin> set (normalize n)"
proof -
  have "c = CHR ''-'' \<or> is_lower_alnum c" if "c \<in> set (normalize n)" for c
    using that trim_set_subset unfolding normalize_def replace_runs_def by (blast dest: dash_runs_set)
  moreover have "\<not> is_lower_alnum CHR ''_''" "\<not> is_lower_alnum CHR '':''" by (simp_all add: is_lower_alnum_def)
  ultimately show "CHR ''_'' \<notin> set (normalize n)" "CHR '':'' \<notin> set (normalize n)" by force+
qed

lemma episode_key_inj:
  "episode_key s a b = episode_key s' a' b' \<longleftrightarrow> s = s' \<and> a = a' \<and> b = b'"
proof -
  have "(s @ CHR ''_'' # fmt_int a) @ CHR ''_'' # fmt_int b = (s' @ CHR ''_'' # fmt_int a') @ CHR ''_'' # fmt_int b'
     \<longleftrightarrow> s = s' \<and> a = a' \<and> b = b'"
    by (simp only: at_last_sep fmt_int_no_sep not_False_eq_True fmt_int_inj) blast
  then show ?thesis by (simp add: episode_key_def)
qed

lemma title_year_key_inj:
  "title_year_key n y = title_year_key n' y' \<longleftrightarrow> normalize n = normalize n' \<and> y = y'"
  by (simp add: title_year_key_def at_last_sep fmt_int_inj)

lemma orphan_episode_key_inj:
  "orphan_episode_key n y a b = orphan_episode_key n' y' a' b'
     \<longleftrightarrow> normalize n = normalize n' \<and> y = y' \<and> a = a' \<and> b = b'"
proof -
  have *: "orphan_episode_key n y a b = ''orphan_'' @ episode_key (title_year_key n y) a b" for n y a b
    by (simp add: orphan_episode_key_def episode_key_def title_year_key_def)
  show ?thesis by (simp add: * episode_key_inj title_year_key_inj)
qed

lemma count_sep_key:
  "count_list (title_year_key n y) CHR ''_'' = 1" "count_list (orphan_episode_key n y a b) CHR ''_'' = 4"
  by (simp_all add: title_year_key_def orphan_episode_key_def count_notin)

lemma keys_disjoint:
  "title_year_key n y \<noteq> orphan_episode_key n' y' a b"
  "CHR '':'' \<in> set s \<Longrightarrow> episode_key s a b \<noteq> title_year_key n y"
  "CHR '':'' \<in> set s \<Longrightarrow> episode_key s a b \<noteq> orphan_episode_key n y a' b'"
proof -
  show "title_year_key n y \<noteq> orphan_episode_key n' y' a b"
    using count_sep_key by (metis numeral_eq_one_iff semiring_norm(85))
  have ty: "CHR '':'' \<notin> set (title_year_key n y)" for n y by (simp add: title_year_key_def)
  have oe: "CHR '':'' \<notin> set (orphan_episode_key n y a b)" for n y a b by (simp add: orphan_episode_key_def)
  assume "CHR '':'' \<in> set s"
  then have "CHR '':'' \<in> set (episode_key s a b)" by (simp add: episode_key_def)
  then show "episode_key s a b \<noteq> title_year_key n y" "episode_key s a b \<noteq> orphan_episode_key n y a' b'"
    using ty oe by metis+
qed

lemma global_id_colon: "CHR '':'' \<in> set (global_id c)"
  by (simp add: global_id_def)

end
