(* ===== verification/PeersProps.thy ===== *)
theory PeersProps
  imports Peers Jellyfin
begin

section \<open>What the peer registry guarantees\<close>

text \<open>
  Ids are found, free, not reserved and safe in URLs and paths; the heartbeat's state is a function
  of the last probes; renaming a peer moves everything it owns.
\<close>

subsection \<open>Ids\<close>

lemma parse_02d: "0 \<le> i \<Longrightarrow> parse_nat (fmt_02d i) = Some (nat i)"
  by (auto simp: fmt_02d_def fmt_int_def parse_nat_def digit_val_def parse_digits_fmt)

lemma numbered_id_inj: "numbered_id base n = numbered_id base m \<longleftrightarrow> n = m"
proof
  assume "numbered_id base n = numbered_id base m"
  then have "fmt_02d (int n) = fmt_02d (int m)" by (simp add: numbered_id_def)
  then have "parse_nat (fmt_02d (int n)) = parse_nat (fmt_02d (int m))" by simp
  then show "n = m" by (simp add: parse_02d)
qed simp

lemma next_id_taken: "taken (numbered_id base n) \<Longrightarrow> next_id taken base n = next_id taken base (Suc n)"
  by (subst next_id.simps) (simp add: Let_def)

lemma next_id_free: "\<not> taken (numbered_id base n) \<Longrightarrow> next_id taken base n = Some (numbered_id base n)"
  by (subst next_id.simps) (simp add: Let_def)

lemma next_id_found:
  "\<not> taken (numbered_id base (n + j)) \<Longrightarrow>
     \<exists>k. n \<le> k \<and> k \<le> n + j \<and> next_id taken base n = Some (numbered_id base k) \<and> \<not> taken (numbered_id base k)"
proof (induction j arbitrary: n)
  case 0
  then have "\<not> taken (numbered_id base n)" by simp
  with next_id_free [of taken, OF this] show ?case by (intro exI [of _ n]) simp
next
  case (Suc j)
  show ?case
  proof (cases "taken (numbered_id base n)")
    case True
    have "\<not> taken (numbered_id base (Suc n + j))" using Suc.prems by simp
    from Suc.IH [OF this] obtain k where k: "Suc n \<le> k" "k \<le> Suc n + j"
      "next_id taken base (Suc n) = Some (numbered_id base k)" "\<not> taken (numbered_id base k)" by blast
    with next_id_taken [of taken, OF True] show ?thesis by (intro exI [of _ k]) simp
  next
    case False
    with next_id_free [of taken, OF False] show ?thesis by (intro exI [of _ n]) simp
  qed
qed

lemma free_number:
  assumes "finite {i. taken i}" shows "\<exists>m\<ge>n. \<not> taken (numbered_id base m)"
proof (rule ccontr)
  assume "\<not> (\<exists>m\<ge>n. \<not> taken (numbered_id base m))"
  then have "numbered_id base ` {n..} \<subseteq> {i. taken i}" by auto
  then have "finite (numbered_id base ` {n..})" using assms finite_subset by blast
  moreover have "inj_on (numbered_id base) {n..}" by (simp add: inj_on_def numbered_id_inj)
  ultimately show False using finite_imageD infinite_Ici by blast
qed

lemma numbered_not_reserved: "numbered_id base n \<notin> set reserved_ids"
proof -
  have "CHR ''_'' \<in> set (numbered_id base n)" by (simp add: numbered_id_def)
  moreover have "CHR ''_'' \<notin> set r" if "r \<in> set reserved_ids" for r
    using that by (auto simp: reserved_ids_def)
  ultimately show ?thesis by blast
qed

lemma slug_chars: "c \<in> set (slug name) \<Longrightarrow> slug_char c"
proof -
  assume "c \<in> set (slug name)"
  then have "c \<in> set (dash_runs slug_char False (to_lower (trim_space name)))"
    using trim_set_subset unfolding slug_def replace_runs_def by blast
  then show ?thesis using dash_runs_set [of c slug_char] by (auto simp: slug_char_def)
qed

lemma fmt_nat_alnum: "c \<in> set (fmt_nat n) \<Longrightarrow> is_lower_alnum c"
proof (induction n rule: fmt_nat.induct)
  case (1 n)
  have d: "m < 10 \<Longrightarrow> is_lower_alnum (digit_char m)" for m
    by (auto simp: is_lower_alnum_def digit_char_def less_eq_char_def take_bit_eq_mod)
  show ?case
  proof (cases "n < 10")
    case True
    then show ?thesis using d [of n] "1.prems" by (subst (asm) fmt_nat.simps) auto
  next
    case False
    then show ?thesis using "1.IH" [OF False] "1.prems" d [of "n mod 10"] by (subst (asm) fmt_nat.simps) auto
  qed
qed

lemma numbered_chars: "(\<And>c. c \<in> set base \<Longrightarrow> slug_char c) \<Longrightarrow> c \<in> set (numbered_id base n) \<Longrightarrow> slug_char c"
  using fmt_nat_alnum by (auto simp: numbered_id_def fmt_02d_def fmt_int_def slug_char_def is_lower_alnum_def split: if_splits)

lemma id_for_spec:
  assumes "finite {i. taken i}" and "slug name \<noteq> []"
  shows "\<exists>i. id_for uuid name taken = Some i \<and> \<not> taken i \<and> i \<notin> set reserved_ids \<and> i \<noteq> [] \<and> (\<forall>c \<in> set i. slug_char c)"
proof (cases "\<not> taken (slug name) \<and> slug name \<notin> set reserved_ids")
  case True
  then show ?thesis using assms(2) slug_chars by (auto simp: id_for_def Let_def)
next
  case False
  obtain m where "1 \<le> m" "\<not> taken (numbered_id (slug name) m)" using free_number [OF assms(1)] by blast
  then obtain k where k: "next_id taken (slug name) 1 = Some (numbered_id (slug name) k)" "\<not> taken (numbered_id (slug name) k)"
    using next_id_found [of taken "slug name" 1 "m - 1"] by auto
  have "id_for uuid name taken = Some (numbered_id (slug name) k)"
    using False assms(2) k by (auto simp: id_for_def Let_def)
  moreover have "numbered_id (slug name) k \<noteq> []" by (simp add: numbered_id_def)
  moreover have "\<forall>c \<in> set (numbered_id (slug name) k). slug_char c"
    using numbered_chars [of "slug name"] slug_chars by blast
  ultimately show ?thesis using k(2) numbered_not_reserved by blast
qed

lemma taken_finite:
  assumes "\<And>t f. others = Some (t, f) \<Longrightarrow> finite {i. t i}" shows "finite {i. taken_locked r others i}"
proof -
  have "{i. taken_locked r others i} \<subseteq> fst ` set (rg_peers r) \<union> {i. case others of None \<Rightarrow> False | Some (t, f) \<Rightarrow> t i}"
    by (auto simp: taken_locked_def map_of_eq_None_iff split: if_splits option.splits prod.splits)
  moreover have "finite {i. case others of None \<Rightarrow> False | Some (t, f) \<Rightarrow> t i}"
    using assms by (cases others) auto
  ultimately show ?thesis using finite_subset by blast
qed

lemma store_ids_finite: "store_ids s = (t, f) \<Longrightarrow> finite {i. t i}"
proof -
  assume "store_ids s = (t, f)"
  then have "{i. t i} \<subseteq> (c_id \<circ> snd) ` set (as_clients s)"
    by (force simp: store_ids_def id_taken_def list_ex_iff)
  then show ?thesis using finite_subset by blast
qed

subsection \<open>The heartbeat\<close>

lemma checked_simps:
  "p_missed (checked now ip probe p) = (if probe = None then Suc (p_missed p) else 0)"
  "p_state (checked now ip probe p) =
     (if probe \<noteq> None then Online else if 3 \<le> Suc (p_missed p) then Offline else Degraded)"
  "p_last_seen (checked now ip probe p) = (if probe = None then p_last_seen p else Some now)"
  "p_offering (checked now ip probe p) = offering now (checked now ip probe p)"
  "p_id (checked now ip probe p) = p_id p" "p_url (checked now ip probe p) = p_url p"
  "p_pin (checked now ip probe p) = p_pin p"
  by (auto simp: checked_def Let_def offline_after_misses_def degraded_after_misses_def offering_def
      split: option.split prod.split peer_state.split)

text \<open>A run of probes, oldest first: the time of each, the address and the outcome.\<close>

type_synonym probe = "int \<times> string \<times> (string \<times> string \<times> int) option"

definition probe_run :: "probe list \<Rightarrow> peer \<Rightarrow> peer" where
  "probe_run ps p = fold (\<lambda>(now, ip, out) p. checked now ip out p) ps p"

definition failed :: "probe \<Rightarrow> bool" where "failed pr \<longleftrightarrow> snd (snd pr) = None"

definition trailing_failures :: "probe list \<Rightarrow> nat" where
  "trailing_failures ps = length (takeWhile failed (rev ps))"

lemma probe_run_snoc: "probe_run (ps @ [pr]) p = checked (fst pr) (fst (snd pr)) (snd (snd pr)) (probe_run ps p)"
  by (simp add: probe_run_def case_prod_unfold)

lemma probe_run_missed:
  "p_missed (probe_run ps p) = (if \<forall>pr \<in> set ps. failed pr then p_missed p + length ps else trailing_failures ps)"
proof (induction ps rule: rev_induct)
  case (snoc pr ps)
  show ?case
    by (auto simp: probe_run_snoc checked_simps snoc.IH trailing_failures_def failed_def)
qed (simp add: probe_run_def trailing_failures_def)

lemma probe_run_state:
  assumes "ps \<noteq> []"
  shows "p_state (probe_run ps p) = (let n = p_missed (probe_run ps p) in if n = 0 then Online else if n < 3 then Degraded else Offline)"
  using assms
proof (cases ps rule: rev_cases)
  case (snoc qs pr)
  then show ?thesis by (auto simp: probe_run_snoc checked_simps Let_def)
qed simp

lemma probe_run_seen:
  "p_last_seen (probe_run ps p) = (case find (\<lambda>pr. \<not> failed pr) (rev ps) of None \<Rightarrow> p_last_seen p | Some pr \<Rightarrow> Some (fst pr))"
  by (induction ps rule: rev_induct) (auto simp: probe_run_snoc checked_simps failed_def probe_run_def)

subsection \<open>Renaming\<close>

lemma rekey_get:
  "map_of t new = None \<Longrightarrow> old \<noteq> new \<Longrightarrow>
   map_of (rekey old new t) k = (if k = new then map_of t old else if k = old then None else map_of t k)"
  by (induction t) (auto simp: rekey_def split: if_splits)

lemma rekey_fst_get:
  "(\<And>b. map_of t (new, b) = None) \<Longrightarrow> old \<noteq> new \<Longrightarrow>
   map_of (rekey_fst old new t) (a, b) = (if a = new then map_of t (old, b) else if a = old then None else map_of t (a, b))"
proof (induction t)
  case (Cons x t)
  obtain c e r where x: "x = ((c, e), r)" by (metis surj_pair)
  have "map_of t (new, b) = None" for b using Cons.prems(1) [of b] by (auto simp: x split: if_splits)
  with Cons.IH Cons.prems(2) have IH: "map_of (rekey_fst old new t) (a, b) =
      (if a = new then map_of t (old, b) else if a = old then None else map_of t (a, b))" by blast
  have "c \<noteq> new" using Cons.prems(1) [of e] by (auto simp: x split: if_splits)
  with IH Cons.prems(2) show ?case by (auto simp: rekey_fst_def x)
qed (simp add: rekey_fst_def)

text \<open>Bytes per peer and direction.\<close>

definition traffic_of :: "(string \<times> string, int) tbl \<Rightarrow> string \<Rightarrow> string \<Rightarrow> int" where
  "traffic_of t p dir = (case map_of t (p, dir) of None \<Rightarrow> 0 | Some n \<Rightarrow> n)"

lemma add_traffic_get:
  "traffic_of (add_traffic new rows t) p dir
     = traffic_of t p dir + (if p = new then sum_list (map snd (filter (\<lambda>(k, _). snd k = dir) rows)) else 0)"
proof (induction new rows t rule: add_traffic.induct)
  case (2 new p' dir' n rest t)
  then show ?case by (auto simp: traffic_of_def)
qed simp

lemma keyed_filter_fst: "keyed t \<Longrightarrow> keyed (filter P t)"
  by (simp add: keyed_def distinct_map_filter)

lemma sum_rows_eq:
  "keyed t \<Longrightarrow> sum_list (map snd (filter (\<lambda>(k, _). snd k = dir) (filter (\<lambda>(k, _). fst k = p) t))) = traffic_of t p dir"
proof (induction t)
  case (Cons x t)
  obtain a b n where x: "x = ((a, b), n)" by (metis surj_pair)
  have k: "keyed t" "(a, b) \<notin> fst ` set t" using Cons.prems by (auto simp: keyed_def x)
  have "map_of t (a, b) = None" using k(2) by (simp add: map_of_eq_None_iff)
  with Cons.IH [OF k(1)] show ?case by (auto simp: x traffic_of_def)
qed (simp add: traffic_of_def)

lemma rename_traffic:
  assumes k: "keyed (peer_traffic d)" and ne: "old \<noteq> new"
  shows "traffic_of (peer_traffic (rename_peer_id old new d)) p dir =
     (if p = new then traffic_of (peer_traffic d) new dir + traffic_of (peer_traffic d) old dir
      else if p = old then 0 else traffic_of (peer_traffic d) p dir)"
proof -
  let ?t = "add_traffic new (filter (\<lambda>(k, _). fst k = old) (peer_traffic d)) (peer_traffic d)"
  have kt: "keyed (add_traffic new rows t)" if "keyed t" for rows and t :: "(string \<times> string, int) tbl"
    using that by (induction new rows t rule: add_traffic.induct) auto
  have "traffic_of (peer_traffic (rename_peer_id old new d)) p dir = (if p = old then 0 else traffic_of ?t p dir)"
    using kt [OF k] by (auto simp: rename_peer_id_def Let_def traffic_of_def split: option.split)
  then show ?thesis using ne sum_rows_eq [OF k, of dir old] by (auto simp: add_traffic_get)
qed

lemma rename_mirror:
  assumes "keyed (peer_catalog d)" "old \<noteq> new"
  shows "map_of (peer_catalog (rename_peer_id old new d)) (p, g) =
     (if p = new then map_of (peer_catalog d) (old, g) else if p = old then None else map_of (peer_catalog d) (p, g))"
proof -
  let ?t = "tbl_delete_where (\<lambda>k _. fst k = new) (peer_catalog d)"
  have none: "map_of ?t (new, b) = None" for b using assms(1) by (auto split: option.split)
  have "map_of (peer_catalog (rename_peer_id old new d)) (p, g) = map_of (rekey_fst old new ?t) (p, g)"
    by (simp add: rename_peer_id_def Let_def)
  then show ?thesis using assms by (auto simp: rekey_fst_get [OF none assms(2)] split: option.split)
qed

lemma rename_sync_any:
  assumes "old \<noteq> new"
  shows "map_of (peer_sync_state (rename_peer_id old new d)) p =
     (if p = new then map_of (peer_sync_state d) old else if p = old then None else map_of (peer_sync_state d) p)"
proof -
  have none: "map_of (tbl_delete new (peer_sync_state d)) new = None" by simp
  have "peer_sync_state (rename_peer_id old new d) = rekey old new (tbl_delete new (peer_sync_state d))"
    by (simp add: rename_peer_id_def Let_def)
  then show ?thesis using rekey_get [OF none assms, of p] assms by simp
qed

lemma rename_peer_row:
  assumes "map_of (peers_tbl d) new = None" "old \<noteq> new"
  shows "map_of (peers_tbl (rename_peer_id old new d)) p =
     (if p = new then map_of (peers_tbl d) old else if p = old then None else map_of (peers_tbl d) p)"
  using rekey_get [OF assms] by (simp add: rename_peer_id_def Let_def)

lemma rename_items:
  "map_of (catalog_items (rename_peer_id old new d)) g =
     map_option (\<lambda>r. if i_primary_peer_id r = Some old then r\<lparr>i_primary_peer_id := Some new\<rparr> else r) (map_of (catalog_items d) g)"
  by (simp add: rename_peer_id_def Let_def)

subsection \<open>Memory and table\<close>

definition row_matches :: "string \<Rightarrow> peer \<Rightarrow> peer_row \<Rightarrow> bool" where
  "row_matches i p x \<longleftrightarrow> p_id p = i \<and> pr_url x = p_url p \<and> pr_pin x = p_pin p \<and> pr_name x = p_name p \<and> pr_version x = p_version p"

definition registry_ok :: "registry \<times> database \<Rightarrow> bool" where
  "registry_ok rd \<longleftrightarrow> (case rd of (r, d) \<Rightarrow>
     keyed (rg_peers r) \<and> keyed (peers_tbl d)
     \<and> (\<forall>i. rel_option (row_matches i) (map_of (rg_peers r) i) (map_of (peers_tbl d) i)))"

lemma registry_okD: "registry_ok (r, d) \<Longrightarrow> rel_option (row_matches i) (map_of (rg_peers r) i) (map_of (peers_tbl d) i)"
  by (simp add: registry_ok_def)

lemma registry_ok_set:
  assumes ok: "registry_ok (r, d)" and m: "row_matches i p x"
    and r': "rg_peers r' = tbl_upsert i p (rg_peers r)" and k: "keyed (peers_tbl d')"
    and d': "\<And>j. map_of (peers_tbl d') j = (if j = i then Some x else map_of (peers_tbl d) j)"
  shows "registry_ok (r', d')"
  using registry_okD [OF ok] ok m by (simp add: registry_ok_def r' d' k)

lemma start_heartbeat_peers [simp]: "rg_peers (start_heartbeat i r) = rg_peers r"
  by (simp add: start_heartbeat_def)

subsection \<open>Any sequence of registry operations\<close>

text \<open>The operations that write the registry; the statement of each that writes the table may fail.\<close>

datatype registry_op =
    AddPeer "string \<Rightarrow> string" "go_error option" int string string string string string
  | RemovePeer "go_error option" string
  | Probe "go_error option" int string "(string \<times> string \<times> int) option" string
  | Transports bool bool
  | RunHeartbeat

fun registry_step :: "registry_op \<Rightarrow> registry \<times> database \<Rightarrow> registry \<times> database" where
  "registry_step (AddPeer ip_of fault now i url name version pin) rd = snd (add_peer ip_of fault now i url name version pin rd)"
| "registry_step (RemovePeer fault i) rd = snd (remove_peer fault i rd)"
| "registry_step (Probe fault now ip outcome i) rd = (case check_end fault now ip outcome i rd of (r, d, _) \<Rightarrow> (r, d))"
| "registry_step (Transports http mtls) rd = (set_transports http mtls (fst rd), snd rd)"
| "registry_step RunHeartbeat rd = (run_heartbeat (fst rd), snd rd)"

lemma map_snd_get: "map_of (map (\<lambda>(i, p). (i, f p)) t) k = map_option f (map_of t k)"
  by (induction t) auto

lemma map_snd_keyed: "keyed (map (\<lambda>(i, p). (i, f p)) t) = keyed t"
  by (simp add: keyed_def comp_def case_prod_unfold)

text \<open>
  Which ids the failed statements leave behind: after a failed \<open>DELETE\<close> the row of a peer that is gone, until the
  id is added again or removed with success; after a failed \<open>UPDATE\<close> of a probe a row with a name or a version that are not those in
  memory, until an addition, a removal or the update of a successful probe goes through.
\<close>

fun left_rows :: "registry_op \<Rightarrow> string set \<Rightarrow> string set" where
  "left_rows (RemovePeer (Some e) i) L = insert i L"
| "left_rows (RemovePeer None i) L = L - {i}"
| "left_rows (AddPeer ip_of None now i url name version pin) L = L - {i}"
| "left_rows _ L = L"

fun stale_rows :: "registry_op \<Rightarrow> string set \<Rightarrow> string set" where
  "stale_rows (Probe (Some e) now ip outcome i) S = insert i S"
| "stale_rows (Probe None now ip (Some answer) i) S = S - {i}"
| "stale_rows (RemovePeer None i) S = S - {i}"
| "stale_rows (AddPeer ip_of None now i url name version pin) S = S - {i}"
| "stale_rows _ S = S"

text \<open>How the table follows memory in spite of them: every peer has a row with its URL and its pin, and, unless it is stale, its name and version;
  and a row without a peer is one that was left.\<close>

fun row_tracks :: "string set \<Rightarrow> string set \<Rightarrow> string \<Rightarrow> peer option \<Rightarrow> peer_row option \<Rightarrow> bool" where
  "row_tracks L S i None None \<longleftrightarrow> True"
| "row_tracks L S i None (Some x) \<longleftrightarrow> i \<in> L"
| "row_tracks L S i (Some p) None \<longleftrightarrow> False"
| "row_tracks L S i (Some p) (Some x) \<longleftrightarrow> p_id p = i \<and> pr_url x = p_url p \<and> pr_pin x = p_pin p
     \<and> (i \<notin> S \<longrightarrow> pr_name x = p_name p \<and> pr_version x = p_version p)"

definition registry_tracks :: "string set \<Rightarrow> string set \<Rightarrow> registry \<times> database \<Rightarrow> bool" where
  "registry_tracks L S rd \<longleftrightarrow> keyed (rg_peers (fst rd)) \<and> keyed (peers_tbl (snd rd))
     \<and> (\<forall>i. row_tracks L S i (map_of (rg_peers (fst rd)) i) (map_of (peers_tbl (snd rd)) i))"

lemma registry_tracks_ok: "registry_tracks {} {} rd \<longleftrightarrow> registry_ok rd"
proof -
  have "row_tracks {} {} i p x \<longleftrightarrow> rel_option (row_matches i) p x" for i p x
    by (cases p; cases x) (auto simp: row_matches_def)
  then show ?thesis by (cases rd) (simp add: registry_tracks_def registry_ok_def)
qed

lemma registry_tracksD: "registry_tracks L S (r, d) \<Longrightarrow> row_tracks L S i (map_of (rg_peers r) i) (map_of (peers_tbl d) i)"
  by (simp add: registry_tracks_def)

text \<open>An operation on one id leaves what is said of the others.\<close>

lemma registry_tracks_set:
  assumes ok: "registry_tracks L S (r, d)" and k: "keyed (rg_peers r')" "keyed (peers_tbl d')"
    and other: "\<And>j. j \<noteq> i \<Longrightarrow> map_of (rg_peers r') j = map_of (rg_peers r) j \<and> map_of (peers_tbl d') j = map_of (peers_tbl d) j"
    and sets: "\<And>j. j \<noteq> i \<Longrightarrow> j \<in> L' \<longleftrightarrow> j \<in> L" "\<And>j. j \<noteq> i \<Longrightarrow> j \<in> S' \<longleftrightarrow> j \<in> S"
    and own: "row_tracks L' S' i (map_of (rg_peers r') i) (map_of (peers_tbl d') i)"
  shows "registry_tracks L' S' (r', d')"
proof -
  have "row_tracks L' S' j (map_of (rg_peers r') j) (map_of (peers_tbl d') j)" for j
  proof (cases "j = i")
    case False
    have "row_tracks L' S' j p x = row_tracks L S j p x" for p x using sets [OF False] by (cases p; cases x) auto
    then show ?thesis using registry_tracksD [OF ok, of j] other [OF False] by simp
  qed (use own in simp)
  then show ?thesis using k by (simp add: registry_tracks_def)
qed

lemma add_peer_tracks:
  assumes "registry_tracks L S rd"
  shows "registry_tracks (left_rows (AddPeer ip_of fault now i url name version pin) L)
    (stale_rows (AddPeer ip_of fault now i url name version pin) S) (snd (add_peer ip_of fault now i url name version pin rd))"
proof (cases fault)
  case None
  obtain r d where rd: "rd = (r, d)" by (cases rd)
  have k: "keyed (rg_peers r)" "keyed (peers_tbl d)" using assms by (simp_all add: registry_tracks_def rd)
  show ?thesis
    unfolding add_peer_def rd Let_def None prod.case option.case snd_conv left_rows.simps stale_rows.simps
    by (rule registry_tracks_set [OF assms [unfolded rd], where i = i]) (simp_all add: k split: option.split)
qed (use assms in \<open>simp add: add_peer_def split: prod.split\<close>)

lemma remove_peer_tracks:
  assumes "registry_tracks L S rd"
  shows "registry_tracks (left_rows (RemovePeer fault i) L) (stale_rows (RemovePeer fault i) S) (snd (remove_peer fault i rd))"
proof -
  obtain r d where rd: "rd = (r, d)" by (cases rd)
  have k: "keyed (rg_peers r)" "keyed (peers_tbl d)" using assms by (simp_all add: registry_tracks_def rd)
  show ?thesis
  proof (cases fault)
    case None
    show ?thesis unfolding remove_peer_def rd Let_def None prod.case option.case snd_conv left_rows.simps stale_rows.simps
      by (rule registry_tracks_set [OF assms [unfolded rd], where i = i]) (simp_all add: k)
  next
    case (Some e)
    show ?thesis unfolding remove_peer_def rd Let_def Some prod.case option.case snd_conv left_rows.simps stale_rows.simps
      by (rule registry_tracks_set [OF assms [unfolded rd], where i = i]) (simp_all add: k, cases "map_of (peers_tbl d) i", simp_all)
  qed
qed

lemma check_end_tracks:
  assumes "registry_tracks L S rd"
  shows "registry_tracks (left_rows (Probe fault now ip probe i) L) (stale_rows (Probe fault now ip probe i) S)
    (registry_step (Probe fault now ip probe i) rd)"
proof -
  obtain r d where rd: "rd = (r, d)" by (cases rd)
  have ok: "registry_tracks L S (r, d)" using assms by (simp add: rd)
  have k: "keyed (rg_peers r)" "keyed (peers_tbl d)" using ok by (simp_all add: registry_tracks_def)
  note T = registry_tracksD [OF ok, of i]
  show ?thesis
  proof (cases "map_of (rg_peers r) i")
    case None
    have "registry_tracks (left_rows (Probe fault now ip probe i) L) (stale_rows (Probe fault now ip probe i) S) (r, d)"
      by (rule registry_tracks_set [OF ok, where i = i])
        (use None T k in \<open>cases fault; cases probe; cases "map_of (peers_tbl d) i"; simp\<close>)+
    then show ?thesis using None by (simp add: check_end_def rd)
  next
    case (Some p)
    then obtain x where x: "map_of (peers_tbl d) i = Some x" using T by (cases "map_of (peers_tbl d) i") auto
    have same: "p_id (checked now ip probe p) = p_id p" "p_url (checked now ip probe p) = p_url p" "p_pin (checked now ip probe p) = p_pin p"
      "probe = None \<Longrightarrow> p_name (checked now ip probe p) = p_name p \<and> p_version (checked now ip probe p) = p_version p"
      by (simp_all add: checked_def Let_def split: option.split)
    obtain r' d' called where c: "check_end fault now ip probe i rd = (r', d', called)" by (metis surj_pair)
    have r': "rg_peers r' = tbl_upsert i (checked now ip probe p) (rg_peers r)"
      using c Some by (auto simp: check_end_def rd Let_def)
    have d': "peers_tbl d' = (case fault of Some e \<Rightarrow> peers_tbl d | None \<Rightarrow> tbl_update_where (\<lambda>k _. k = i)
        (\<lambda>x. if probe \<noteq> None then x\<lparr>pr_state := state_name (p_state (checked now ip probe p)), pr_last_seen_at := Some (unix now),
            pr_version := p_version (checked now ip probe p), pr_name := p_name (checked now ip probe p)\<rparr>
          else x\<lparr>pr_state := state_name (p_state (checked now ip probe p))\<rparr>) (peers_tbl d))"
      using c Some by (auto simp: check_end_def rd Let_def split: option.splits)
    have "registry_tracks (left_rows (Probe fault now ip probe i) L) (stale_rows (Probe fault now ip probe i) S) (r', d')"
      by (rule registry_tracks_set [OF ok, where i = i])
        (use T x Some k same in \<open>cases fault; cases probe; simp add: r' d' option.map_ident\<close>)+
    then show ?thesis using c by simp
  qed
qed

lemma set_transports_tracks:
  assumes "registry_tracks L S (r, d)" shows "registry_tracks L S (set_transports http mtls r, d)"
proof -
  let ?r = "r\<lparr>rg_http_off := \<not> http, rg_mtls_off := \<not> mtls\<rparr>"
  let ?f = "\<lambda>p. if enabled ?r p then p else p\<lparr>p_state := Disabled\<rparr>"
  have peers: "rg_peers (set_transports http mtls r) = map (\<lambda>(i, p). (i, ?f p)) (rg_peers r)"
    by (simp add: set_transports_def Let_def)
  have "row_tracks L S i (map_option ?f p) x = row_tracks L S i p x" for i p x by (cases p; cases x) simp_all
  then show ?thesis using assms by (simp add: registry_tracks_def peers map_snd_get map_snd_keyed)
qed

lemma set_transports_ok: "registry_ok (r, d) \<Longrightarrow> registry_ok (set_transports http mtls r, d)"
  using set_transports_tracks [of "{}" "{}" r d] by (simp add: registry_tracks_ok)

lemma run_heartbeat_peers [simp]: "rg_peers (run_heartbeat r) = rg_peers r"
proof -
  have "rg_peers (fold start_heartbeat is r) = rg_peers r" for "is" and r
    by (induction "is" arbitrary: r) simp_all
  then show ?thesis by (simp add: run_heartbeat_def)
qed

lemma registry_step_tracks:
  assumes "registry_tracks L S rd"
  shows "registry_tracks (left_rows opn L) (stale_rows opn S) (registry_step opn rd)"
proof (cases opn)
  case (Transports http mtls)
  then show ?thesis using assms set_transports_tracks [of L S "fst rd" "snd rd"] by simp
next
  case RunHeartbeat
  then show ?thesis using assms by (simp add: registry_tracks_def)
next
  case (AddPeer ip_of fault now i url name version pin)
  then show ?thesis using add_peer_tracks [OF assms] by simp
next
  case (RemovePeer fault i)
  then show ?thesis using remove_peer_tracks [OF assms] by simp
next
  case (Probe fault now ip outcome i)
  then show ?thesis using check_end_tracks [OF assms] by simp
qed

lemma registry_run_tracks:
  "registry_tracks L S rd \<Longrightarrow> registry_tracks (fold left_rows ops L) (fold stale_rows ops S) (fold registry_step ops rd)"
  by (induction ops arbitrary: L S rd) (simp_all add: registry_step_tracks)

subsection \<open>The migration of UUID ids and the load at start-up\<close>

text \<open>What the migration makes of one id.\<close>

definition needs_name :: "(string \<Rightarrow> bool) \<Rightarrow> string \<times> string \<Rightarrow> bool" where
  "needs_name is_uuid row \<longleftrightarrow> is_uuid (fst row) \<and> slug (snd row) \<noteq> []"

definition safe_id :: "string \<Rightarrow> bool" where
  "safe_id i \<longleftrightarrow> i \<notin> set reserved_ids \<and> i \<noteq> [] \<and> (\<forall>c \<in> set i. slug_char c)"

lemma pick_renames_spec:
  "\<exists>news. pick_renames is_uuid rows taken acc = Some (acc @ zip (map fst (filter (needs_name is_uuid) rows)) news)
     \<and> length news = length (filter (needs_name is_uuid) rows) \<and> distinct news
     \<and> set news \<inter> set taken = {} \<and> (\<forall>i \<in> set news. safe_id i)"
proof (induction rows arbitrary: taken acc)
  case (Cons row rows)
  obtain i name where row: "row = (i, name)" by (cases row)
  show ?case
  proof (cases "needs_name is_uuid row")
    case False
    then have "\<not> is_uuid i \<or> slug name = []" by (simp add: needs_name_def row)
    then have "pick_renames is_uuid (row # rows) taken acc = pick_renames is_uuid rows taken acc" by (simp add: row)
    then show ?thesis using Cons.IH [of taken acc] False by simp
  next
    case True
    then have q: "is_uuid i" "slug name \<noteq> []" by (simp_all add: needs_name_def row)
    have "finite {j. j \<in> set taken}" by simp
    from id_for_spec [OF this q(2), of "[]"] obtain new where new: "id_for [] name (\<lambda>j. j \<in> set taken) = Some new"
      "new \<notin> set taken" "safe_id new" unfolding safe_id_def by blast
    obtain news where news: "pick_renames is_uuid rows (new # taken) (acc @ [(i, new)])
        = Some ((acc @ [(i, new)]) @ zip (map fst (filter (needs_name is_uuid) rows)) news)"
      "length news = length (filter (needs_name is_uuid) rows)" "distinct news"
      "set news \<inter> set (new # taken) = {}" "\<forall>i \<in> set news. safe_id i"
      using Cons.IH [of "new # taken" "acc @ [(i, new)]"] by blast
    have "pick_renames is_uuid (row # rows) taken acc
        = Some (acc @ zip (map fst (filter (needs_name is_uuid) (row # rows))) (new # news))"
      using True q new(1) news(1) by (simp add: row)
    moreover have "length (new # news) = length (filter (needs_name is_uuid) (row # rows))" using True news(2) by simp
    moreover have "distinct (new # news)" "set (new # news) \<inter> set taken = {}" "\<forall>i \<in> set (new # news). safe_id i"
      using news new by auto
    ultimately show ?thesis by blast
  qed
qed simp

definition renamed :: "(string \<times> string) list \<Rightarrow> string \<Rightarrow> string" where
  "renamed renames i = (case map_of renames i of None \<Rightarrow> i | Some new \<Rightarrow> new)"

lemma fold_rename_peers:
  "snd ` set renames \<inter> fst ` set renames = {} \<Longrightarrow>
   peers_tbl (fold (\<lambda>(old, new). rename_peer_id old new) renames d) = map (\<lambda>(i, r). (renamed renames i, r)) (peers_tbl d)"
proof (induction renames arbitrary: d)
  case (Cons x renames)
  obtain old new where x: "x = (old, new)" by (cases x)
  have dis: "snd ` set renames \<inter> fst ` set renames = {}" and new: "new \<notin> fst ` set renames"
    using Cons.prems by (auto simp: x)
  have "map_of renames new = None" using new by (simp only: map_of_eq_None_iff not_False_eq_True)
  then have "renamed renames new = new" by (simp add: renamed_def)
  then show ?case
    unfolding x fold_simps prod.case Cons.IH [OF dis]
    by (auto simp: rename_peer_id_def Let_def rekey_def renamed_def)
qed (simp add: renamed_def)

lemma renamed_zip:
  assumes "distinct olds" "length news = length olds" "distinct news"
    and "set news \<inter> ids = {}" "set olds \<subseteq> ids"
  shows "inj_on (renamed (zip olds news)) ids"
    and "i \<in> set olds \<Longrightarrow> renamed (zip olds news) i \<in> set news"
    and "i \<notin> set olds \<Longrightarrow> renamed (zip olds news) i = i"
proof -
  show new: "i \<in> set olds \<Longrightarrow> renamed (zip olds news) i \<in> set news" for i
  proof -
    assume "i \<in> set olds"
    then obtain x where "map_of (zip olds news) i = Some x" using assms(2) by (metis map_of_zip_is_Some)
    then show ?thesis using map_of_SomeD set_zip_rightD by (fastforce simp: renamed_def)
  qed
  show old: "i \<notin> set olds \<Longrightarrow> renamed (zip olds news) i = i" for i
  proof -
    assume "i \<notin> set olds"
    then have "map_of (zip olds news) i = None" using map_of_zip_is_None [of olds news i] assms(2) by simp
    then show ?thesis by (simp add: renamed_def)
  qed
  show "inj_on (renamed (zip olds news)) ids"
  proof (rule inj_onI)
    fix i j assume ij: "i \<in> ids" "j \<in> ids" "renamed (zip olds news) i = renamed (zip olds news) j"
    show "i = j"
    proof (cases "i \<in> set olds \<and> j \<in> set olds")
      case True
      then obtain a b where ab: "a < length olds" "olds ! a = i" "b < length olds" "olds ! b = j"
        by (metis in_set_conv_nth)
      have "map_of (zip olds news) (olds ! a) = Some (news ! a)" "map_of (zip olds news) (olds ! b) = Some (news ! b)"
        using ab assms(1,2) map_of_zip_nth [of olds news] by metis+
      then have "news ! a = news ! b" using ij(3) by (simp add: renamed_def ab)
      then show ?thesis using ab assms(2,3) by (simp add: nth_eq_iff_index_eq)
    next
      case False
      have notnew: "i \<notin> set news" "j \<notin> set news" using ij(1,2) assms(4) by blast+
      have "i \<notin> set olds"
      proof
        assume i: "i \<in> set olds"
        then have "renamed (zip olds news) j = j" using False old by blast
        with new [OF i] ij(3) notnew(2) show False by simp
      qed
      moreover have "j \<notin> set olds"
      proof
        assume j: "j \<in> set olds"
        then have "renamed (zip olds news) i = i" using False old by blast
        with new [OF j] ij(3) notnew(1) show False by simp
      qed
      ultimately show ?thesis using old ij(3) by metis
    qed
  qed
qed

definition migrated_row :: "(string \<Rightarrow> bool) \<Rightarrow> string set \<Rightarrow> string \<times> peer_row \<Rightarrow> string \<times> peer_row \<Rightarrow> bool" where
  "migrated_row is_uuid ids row row' \<longleftrightarrow> snd row' = snd row
     \<and> (if needs_name is_uuid (fst row, pr_name (snd row)) then fst row' \<notin> ids \<and> safe_id (fst row')
        else fst row' = fst row)"

text \<open>The migration of old ids ends and keeps every peer: each row keeps its place and its columns;
  a row whose id is a UUID and whose name leaves a slug gets a new id that was nobody's and is safe in
  URLs and paths, any other row keeps its id; and the ids stay distinct.\<close>

lemma migrate_ok:
  assumes k: "keyed (peers_tbl d)"
  shows "\<exists>d'. migrate_uuid_ids is_uuid None d = Some (Inr (), d') \<and> keyed (peers_tbl d')
     \<and> list_all2 (migrated_row is_uuid (fst ` set (peers_tbl d))) (peers_tbl d) (peers_tbl d')"
proof -
  let ?rows = "map (\<lambda>(i, r). (i, pr_name r)) (peers_tbl d)"
  let ?ids = "fst ` set (peers_tbl d)"
  let ?olds = "map fst (filter (needs_name is_uuid) ?rows)"
  have fst_rows: "map fst ?rows = map fst (peers_tbl d)" by (simp add: case_prod_unfold comp_def)
  obtain news where P: "pick_renames is_uuid ?rows (map fst ?rows) [] = Some (zip ?olds news)"
    "length news = length ?olds" "distinct news" "set news \<inter> ?ids = {}" "\<forall>i \<in> set news. safe_id i"
    using pick_renames_spec [of is_uuid ?rows "map fst ?rows" "[]"] unfolding fst_rows by auto
  have dist: "distinct ?olds" using k unfolding keyed_def fst_rows [symmetric] by (rule distinct_map_filter)
  have sub: "set ?olds \<subseteq> ?ids" by force
  note R = renamed_zip [OF dist P(2,3,4) sub]
  let ?d = "fold (\<lambda>(old, new). rename_peer_id old new) (zip ?olds news) d"
  have dis: "snd ` set (zip ?olds news) \<inter> fst ` set (zip ?olds news) = {}"
  proof -
    have "snd ` set (zip ?olds news) \<subseteq> set news" "fst ` set (zip ?olds news) \<subseteq> set ?olds"
      by (auto dest: set_zip_leftD set_zip_rightD)
    with P(4) sub show ?thesis by fast
  qed
  have tbl: "peers_tbl ?d = map (\<lambda>(i, r). (renamed (zip ?olds news) i, r)) (peers_tbl d)"
    by (rule fold_rename_peers [OF dis])
  have "map fst (peers_tbl ?d) = map (renamed (zip ?olds news)) (map fst (peers_tbl d))"
    unfolding tbl by (simp add: case_prod_unfold comp_def)
  then have kd: "keyed (peers_tbl ?d)" using k R(1) by (simp add: keyed_def distinct_map comp_inj_on)
  have row: "migrated_row is_uuid ?ids (i, r) (renamed (zip ?olds news) i, r)" if mem: "(i, r) \<in> set (peers_tbl d)" for i r
  proof (cases "needs_name is_uuid (i, pr_name r)")
    case True
    then have "i \<in> set ?olds" using mem by force
    with R(2) have "renamed (zip ?olds news) i \<in> set news" by blast
    with P(4,5) True show ?thesis by (auto simp: migrated_row_def)
  next
    case False
    have "i \<notin> set ?olds"
    proof
      assume "i \<in> set ?olds"
      then obtain r' where "(i, r') \<in> set (peers_tbl d)" "needs_name is_uuid (i, pr_name r')" by auto
      moreover have "r' = r" using \<open>(i, r') \<in> set (peers_tbl d)\<close> mem k by (metis keyed_map_of_eq option.inject)
      ultimately show False using False by simp
    qed
    with R(3) False show ?thesis by (simp add: migrated_row_def)
  qed
  have "list_all2 (migrated_row is_uuid ?ids) (peers_tbl d) (peers_tbl ?d)"
    unfolding tbl list_all2_map2 list.rel_refl_strong
    by (rule list.rel_refl_strong) (use row in \<open>auto simp: case_prod_unfold\<close>)
  moreover have "migrate_uuid_ids is_uuid None d = Some (Inr (), ?d)"
    unfolding migrate_uuid_ids_def Let_def P(1) option.case by (simp add: with_tx_def)
  ultimately show ?thesis using kd by blast
qed

lemma seed_peers_keyed: "keyed t \<Longrightarrow> keyed (seed_peers configured t)"
  by (induction configured t rule: seed_peers.induct) simp_all

lemma load_peer_map: "map (load_peer ip_of now) t = map (\<lambda>(i, x). (i, snd (load_peer ip_of now (i, x)))) t"
  by (simp add: load_peer_def Let_def case_prod_unfold)

lemma load_peer_get: "map_of (map (load_peer ip_of now) t) k = map_option (\<lambda>x. snd (load_peer ip_of now (k, x))) (map_of t k)"
  unfolding load_peer_map by (induction t) auto

lemma new_registry_ok:
  assumes "keyed (peers_tbl d)"
  shows "\<exists>r d'. new_registry ip_of is_uuid None None None now configured d = Some (Inr r, d') \<and> registry_ok (r, d')"
proof -
  let ?d = "d\<lparr>peers_tbl := seed_peers configured (peers_tbl d)\<rparr>"
  have "keyed (peers_tbl ?d)" using assms by (simp add: seed_peers_keyed)
  from migrate_ok [OF this, of is_uuid] obtain d' where m: "migrate_uuid_ids is_uuid None ?d = Some (Inr (), d')"
    and k: "keyed (peers_tbl d')" by blast
  let ?r = "\<lparr>rg_peers = map (load_peer ip_of now) (peers_tbl d'), rg_http_off = False, rg_mtls_off = False,
              rg_running = [], rg_has_callback = False\<rparr>"
  have kr: "keyed (rg_peers ?r)" using k by (simp add: keyed_def load_peer_map comp_def case_prod_unfold)
  have "rel_option (row_matches i) (map_of (rg_peers ?r) i) (map_of (peers_tbl d') i)" for i
    by (cases "map_of (peers_tbl d') i") (simp_all add: load_peer_get row_matches_def load_peer_def Let_def)
  then have "registry_ok (?r, d')" using kr k by (simp add: registry_ok_def)
  moreover have "new_registry ip_of is_uuid None None None now configured d = Some (Inr ?r, d')"
    by (simp add: new_registry_def m)
  ultimately show ?thesis by blast
qed

text \<open>A start that loads the registry is one in which no failure mattered.\<close>

lemma new_registry_Inr:
  assumes "new_registry ip_of is_uuid sf mf lf now configured d = Some (Inr r, d')"
  shows "new_registry ip_of is_uuid None None None now configured d = Some (Inr r, d')"
proof -
  have "(case sf of None \<Rightarrow> configured | Some n \<Rightarrow> take n configured) = configured"
    using assms by (auto simp: new_registry_def Let_def split: option.splits if_splits)
  moreover have "migrate_uuid_ids is_uuid None x = Some (Inr u, y)" if "migrate_uuid_ids is_uuid mf x = Some (Inr u, y)" for x u y
    using that by (auto simp: migrate_uuid_ids_def with_tx_def Let_def split: option.splits if_splits)
  ultimately show ?thesis using assms by (auto simp: new_registry_def Let_def split: option.splits sum.splits if_splits)
qed

end
