(* ===== verification/Election.thy ===== *)
theory Election
  imports Network PeersProps
begin

section \<open>The election (internal/catalog/catalog.go)\<close>

text \<open>
  Which copy of each item this node uses: \<open>elect\<close> computes the desired content of \<open>catalog_items\<close>
  from the local index and the mirrors of the offering peers, \<open>writeElection\<close> applies the
  difference, and \<open>Sync\<close> runs the refresh, the pulls, the pruning and the election. A Go map is an
  association list whose order is one iteration order.
\<close>

record item_state =
  st_name :: string
  st_media_type :: string
  st_local :: bool
  st_local_item_id :: string
  st_peer_id :: string
  st_peer_item_id :: string
  st_series_global_id :: string
  st_series_name :: string
  st_season_number :: int
  st_episode_number :: int
  st_hidden :: bool
  st_path :: string
  st_hidden_folder :: bool

definition state_from_entry :: "entry \<Rightarrow> item_state" where
  "state_from_entry e = \<lparr>st_name = e_name e, st_media_type = e_media_type e, st_local = False,
     st_local_item_id = [], st_peer_id = [], st_peer_item_id = [],
     st_series_global_id = e_series_global_id e, st_series_name = e_series_name e,
     st_season_number = e_season_number e, st_episode_number = e_episode_number e,
     st_hidden = False, st_path = e_path e, st_hidden_folder = False\<rparr>"

subsection \<open>elect\<close>

type_synonym states = "(string, item_state) tbl"

text \<open>The local rows; \<open>offered\<close> is the set of hide keys, as a list.\<close>

fun elect_local :: "(string \<times> local_row) list \<Rightarrow> states \<times> string list \<Rightarrow> states \<times> string list" where
  "elect_local [] s = s"
| "elect_local ((g, r) # rows) (desired, offered) =
     (if l_deleted r then elect_local rows (desired, offered)
      else let e = l_entry r;
               st = (state_from_entry e)\<lparr>st_local := True, st_local_item_id := e_item_id e, st_hidden := l_hidden r\<rparr>
           in elect_local rows (tbl_upsert (e_global_id e) st desired, hide_key e # offered))"

text \<open>The rows of the mirrors, by global id and then by peer.\<close>

fun elect_remote ::
  "string list \<Rightarrow> (string \<Rightarrow> string list) \<Rightarrow> string list \<Rightarrow> ((string \<times> string) \<times> mirror_row) list
     \<Rightarrow> states \<times> states \<times> string list \<Rightarrow> states \<times> states \<times> string list" where
  "elect_remote hidden excluded offeringIDs [] s = s"
| "elect_remote hidden excluded offeringIDs (((p, g), r) # rows) (desired, fallback, offered) =
     (let e = m_entry r; offered = hide_key e # offered
      in if p \<notin> set offeringIDs then elect_remote hidden excluded offeringIDs rows (desired, fallback, offered)
         else if map_of desired g \<noteq> None then elect_remote hidden excluded offeringIDs rows (desired, fallback, offered)
         else
           let st = (state_from_entry e)\<lparr>st_peer_id := p, st_peer_item_id := e_item_id e, st_hidden := is_hidden hidden e\<rparr>
           in if under_any_folder (e_path e) (excluded p) then
                elect_remote hidden excluded offeringIDs rows
                  (desired, if map_of fallback g = None then tbl_upsert g (st\<lparr>st_hidden_folder := True\<rparr>) fallback else fallback, offered)
              else elect_remote hidden excluded offeringIDs rows (tbl_upsert g st desired, fallback, offered))"

fun add_fallback :: "(string \<times> item_state) list \<Rightarrow> states \<Rightarrow> states" where
  "add_fallback [] desired = desired"
| "add_fallback ((g, st) # rest) desired =
     add_fallback rest (if map_of desired g = None then tbl_upsert g st desired else desired)"

definition mirror_order :: "mirror \<Rightarrow> ((string \<times> string) \<times> mirror_row) list" where
  "mirror_order m = sort_key (\<lambda>((p, g), r). (g, p)) m"

definition elect :: "go_error option \<Rightarrow> database \<Rightarrow> string list \<Rightarrow> go_error + (states \<times> string list)" where
  "elect fault d offeringIDs =
     (case fault of
        Some e \<Rightarrow> Inl e
      | None \<Rightarrow>
          let (desired, offered) = elect_local (local_catalog d) ([], []);
              (desired, fallback, offered) =
                elect_remote (hidden_set (hidden_items d)) (excluded_folders (peer_excluded_folders d)) offeringIDs
                  (mirror_order (peer_catalog d)) (desired, [], offered)
          in Inr (add_fallback fallback desired, offered))"

subsection \<open>writeElection\<close>

record election_stats =
  es_local :: nat
  es_remote :: nat
  es_upserted :: nat
  es_stale_local_deleted :: nat
  es_orphans_cleared :: nat
  es_inert_deleted :: nat
  es_hidden :: nat
  es_hidden_folder :: nat
  es_hides_dropped :: nat

definition no_election_stats :: election_stats where
  "no_election_stats = \<lparr>es_local = 0, es_remote = 0, es_upserted = 0, es_stale_local_deleted = 0,
     es_orphans_cleared = 0, es_inert_deleted = 0, es_hidden = 0, es_hidden_folder = 0, es_hides_dropped = 0\<rparr>"

fun count_desired :: "(string \<times> item_state) list \<Rightarrow> election_stats \<Rightarrow> election_stats" where
  "count_desired [] s = s"
| "count_desired ((g, d) # rest) s =
     (let s = (if st_hidden d then s\<lparr>es_hidden := Suc (es_hidden s)\<rparr> else s);
          s = (if st_hidden_folder d then s\<lparr>es_hidden_folder := Suc (es_hidden_folder s)\<rparr> else s);
          s = (if st_local d then s\<lparr>es_local := Suc (es_local s)\<rparr> else s\<lparr>es_remote := Suc (es_remote s)\<rparr>)
      in count_desired rest s)"

definition state_of_row :: "item_row \<Rightarrow> item_state" where
  "state_of_row r = \<lparr>st_name = i_name r, st_media_type = i_media_type r, st_local = i_local r,
     st_local_item_id = or_empty (i_local_item_id r), st_peer_id = or_empty (i_primary_peer_id r),
     st_peer_item_id = or_empty (i_primary_item_id r), st_series_global_id = i_series_global_id r,
     st_series_name = i_series_name r, st_season_number = i_season_number r,
     st_episode_number = i_episode_number r, st_hidden = i_hidden r, st_path = i_path r,
     st_hidden_folder = i_hidden_folder r\<rparr>"

text \<open>The row the \<open>INSERT .. ON CONFLICT DO UPDATE\<close> leaves; \<open>strm_path\<close> is the old row's.\<close>

definition row_of_state :: "int \<Rightarrow> item_state \<Rightarrow> string option \<Rightarrow> item_row" where
  "row_of_state now d strm = \<lparr>i_name = st_name d, i_media_type = st_media_type d, i_local = st_local d,
     i_local_item_id = null_if_empty (st_local_item_id d), i_primary_peer_id = null_if_empty (st_peer_id d),
     i_primary_item_id = null_if_empty (st_peer_item_id d), i_strm_path = strm,
     i_series_global_id = st_series_global_id d, i_series_name = st_series_name d,
     i_season_number = st_season_number d, i_episode_number = st_episode_number d, i_hidden = st_hidden d,
     i_path = st_path d, i_hidden_folder = st_hidden_folder d, i_updated_at = now\<rparr>"

type_synonym items = "(string, item_row) tbl"

fun upsert_desired :: "int \<Rightarrow> states \<Rightarrow> (string \<times> item_state) list \<Rightarrow> nat \<times> items \<Rightarrow> nat \<times> items" where
  "upsert_desired now existing [] s = s"
| "upsert_desired now existing ((g, d) # rest) (n, items) =
     (if map_of existing g = Some d then upsert_desired now existing rest (n, items)
      else upsert_desired now existing rest
             (Suc n, tbl_upsert g (row_of_state now d
                (case map_of items g of None \<Rightarrow> None | Some r \<Rightarrow> i_strm_path r)) items))"

fun drop_undesired :: "states \<Rightarrow> (string \<times> item_state) list \<Rightarrow> nat \<times> nat \<times> items \<Rightarrow> nat \<times> nat \<times> items" where
  "drop_undesired desired [] s = s"
| "drop_undesired desired ((g, old) # rest) (stale, cleared, items) =
     (if map_of desired g \<noteq> None then drop_undesired desired rest (stale, cleared, items)
      else if st_local old then drop_undesired desired rest (Suc stale, cleared, tbl_delete g items)
      else if st_peer_id old \<noteq> [] then
        drop_undesired desired rest (stale, Suc cleared,
          tbl_update_where (\<lambda>k _. k = g) (\<lambda>r. r\<lparr>i_primary_peer_id := None, i_primary_item_id := None\<rparr>) items)
      else drop_undesired desired rest (stale, cleared, items))"

definition inert :: "string \<Rightarrow> item_row \<Rightarrow> bool" where
  "inert g r \<longleftrightarrow> \<not> i_local r \<and> i_primary_peer_id r = None \<and> i_strm_path r = None"

definition write_election ::
  "go_error option \<Rightarrow> go_error option \<Rightarrow> int \<Rightarrow> states \<Rightarrow> string list \<Rightarrow> database
     \<Rightarrow> (go_error + election_stats) \<times> database" where
  "write_election rfault tfault now desired offered d =
     (case rfault of
        Some e \<Rightarrow> (Inl e, d)
      | None \<Rightarrow>
          let hidden = hidden_set (hidden_items d);
              st = count_desired desired no_election_stats;
              existing = map (\<lambda>(g, r). (g, state_of_row r)) (catalog_items d)
          in with_tx tfault (\<lambda>d.
               let (upserted, items) = upsert_desired now existing desired (0, catalog_items d);
                   (stale, cleared, items) = drop_undesired desired existing (0, 0, items);
                   gone = tbl_count inert items;
                   items = tbl_delete_where inert items;
                   (dropped, hides) = prune_hidden hidden offered 0 (hidden_items d)
               in Inr (st\<lparr>es_upserted := upserted, es_stale_local_deleted := stale, es_orphans_cleared := cleared,
                          es_inert_deleted := gone, es_hides_dropped := dropped\<rparr>,
                       d\<lparr>catalog_items := items, hidden_items := hides\<rparr>)) d)"

subsection \<open>Sync\<close>

record sync_stats =
  ss_local :: refresh_stats
  ss_local_refreshed :: bool
  ss_peers :: "pull_stats list"
  ss_peers_skipped :: nat
  ss_election :: election_stats

text \<open>What the outside does during one sync: times, the library's listing, faults, the peers' answers.\<close>

record sync_env =
  se_hash :: "entry \<Rightarrow> string"
  se_now :: int
  se_listing :: "go_error + entry list"
  se_rfault :: "go_error option"
  se_tfault :: "go_error option"
  se_pull :: "string \<Rightarrow> pull_env"
  se_fuel :: nat
  se_prune_fault :: "go_error option"
  se_elect_fault :: "go_error option"
  se_write_rfault :: "go_error option"
  se_write_tfault :: "go_error option"

definition online_ids :: "peer list \<Rightarrow> string list" where
  "online_ids ps = map p_id (filter (\<lambda>p. p_state p = Online) ps)"

definition offering_ids :: "int \<Rightarrow> peer list \<Rightarrow> string list" where
  "offering_ids now ps = map p_id (filter (offering now) ps)"

text \<open>The node's own index: a refresh, or only the first one.\<close>

definition sync_local :: "sync_env \<Rightarrow> bool \<Rightarrow> database \<Rightarrow> (go_error + refresh_stats \<times> bool) \<times> database" where
  "sync_local env refreshLocal d =
     (let now = unix (se_now env)
      in if refreshLocal
         then (case refresh_locked (se_hash env) now (se_listing env) (se_rfault env) (se_tfault env) d of
                 (Inl e, d) \<Rightarrow> (Inl e, d) | (Inr st, d) \<Rightarrow> (Inr (st, True), d))
         else (case ensure_indexed (se_hash env) now (se_listing env) (se_rfault env) (se_tfault env) d of
                 (Inl e, d) \<Rightarrow> (Inl e, d) | (Inr _, d) \<Rightarrow> (Inr (no_refresh_stats, False), d)))"

text \<open>The whole sync. \<open>None\<close>: a pull that does not end.\<close>

definition sync :: "sync_env \<Rightarrow> bool \<Rightarrow> peer list \<Rightarrow> database \<Rightarrow> ((go_error + sync_stats) \<times> database) option" where
  "sync env refreshLocal all d =
     (case sync_local env refreshLocal d of
        (Inl e, d) \<Rightarrow> Some (Inl e, d)
      | (Inr (lst, refreshed), d) \<Rightarrow>
          let online = online_ids all; offeringIDs = offering_ids (se_now env) all
          in (case pull_peers (se_pull env) pull_page_size (se_fuel env) online d of
                None \<Rightarrow> None
              | Some (sts, d) \<Rightarrow>
                  (case prune_removed_peers (se_prune_fault env) (map p_id all) d of
                     (Inl e, d) \<Rightarrow> Some (Inl e, d)
                   | (Inr _, d) \<Rightarrow>
                       (case elect (se_elect_fault env) d offeringIDs of
                          Inl e \<Rightarrow> Some (Inl e, d)
                        | Inr (desired, offered) \<Rightarrow>
                            (case write_election (se_write_rfault env) (se_write_tfault env) (unix (se_now env)) desired offered d of
                               (Inl e, d) \<Rightarrow> Some (Inl e, d)
                             | (Inr est, d) \<Rightarrow>
                                 Some (Inr \<lparr>ss_local = lst, ss_local_refreshed = refreshed, ss_peers = sts,
                                            ss_peers_skipped = length all - length online, ss_election = est\<rparr>, d))))))"

end
