(* ===== verification/ElectionProps.thy ===== *)
theory ElectionProps
  imports Election
begin

section \<open>What the election decides\<close>

text \<open>
  An abstract statement of the election rule (\<open>elected\<close>), that \<open>elect\<close> computes it, and what
  \<open>writeElection\<close> leaves in \<open>catalog_items\<close>.
\<close>

subsection \<open>The rule\<close>

definition remote_state :: "string list \<Rightarrow> string \<Rightarrow> entry \<Rightarrow> item_state" where
  "remote_state hidden p e =
     (state_from_entry e)\<lparr>st_peer_id := p, st_peer_item_id := e_item_id e, st_hidden := is_hidden hidden e\<rparr>"

definition local_state :: "local_row \<Rightarrow> item_state" where
  "local_state r = (state_from_entry (l_entry r))\<lparr>st_local := True, st_local_item_id := e_item_id (l_entry r),
     st_hidden := l_hidden r\<rparr>"

text \<open>The offering peers with the item, and those whose copy is not in an excluded folder.\<close>

definition candidates :: "database \<Rightarrow> string list \<Rightarrow> string \<Rightarrow> string list" where
  "candidates d offeringIDs g = filter (\<lambda>p. map_of (peer_catalog d) (p, g) \<noteq> None) (sort offeringIDs)"

definition accepted :: "database \<Rightarrow> string \<Rightarrow> string \<Rightarrow> bool" where
  "accepted d g p = (case map_of (peer_catalog d) (p, g) of
     None \<Rightarrow> False
   | Some r \<Rightarrow> \<not> under_any_folder (e_path (m_entry r)) (excluded_folders (peer_excluded_folders d) p))"

definition elected :: "database \<Rightarrow> string list \<Rightarrow> string \<Rightarrow> item_state option" where
  "elected d offeringIDs g =
     (let hidden = hidden_set (hidden_items d);
          state = (\<lambda>p. map_option (\<lambda>r. remote_state hidden p (m_entry r)) (map_of (peer_catalog d) (p, g)))
      in case map_of (local_catalog d) g of
           Some r \<Rightarrow> if l_deleted r then (case filter (accepted d g) (candidates d offeringIDs g) of
                        p # _ \<Rightarrow> state p
                      | [] \<Rightarrow> (case candidates d offeringIDs g of
                                p # _ \<Rightarrow> map_option (\<lambda>s. s\<lparr>st_hidden_folder := True\<rparr>) (state p) | [] \<Rightarrow> None))
                    else Some (local_state r)
         | None \<Rightarrow> (case filter (accepted d g) (candidates d offeringIDs g) of
                        p # _ \<Rightarrow> state p
                      | [] \<Rightarrow> (case candidates d offeringIDs g of
                                p # _ \<Rightarrow> map_option (\<lambda>s. s\<lparr>st_hidden_folder := True\<rparr>) (state p) | [] \<Rightarrow> None)))"

subsection \<open>The loop over the local rows\<close>

lemma elect_local_keyed: "keyed ds \<Longrightarrow> keyed (fst (elect_local rows (ds, off)))"
  by (induction rows "(ds, off)" arbitrary: ds off rule: elect_local.induct) (auto simp: Let_def)

lemma elect_local_get:
  assumes "keyed rows" and "\<And>g r. (g, r) \<in> set rows \<Longrightarrow> e_global_id (l_entry r) = g"
  shows "map_of (fst (elect_local rows (ds, off))) g =
     (case map_of rows g of None \<Rightarrow> map_of ds g
      | Some r \<Rightarrow> if l_deleted r then map_of ds g else Some (local_state r))"
  using assms
proof (induction rows arbitrary: ds off)
  case (Cons x rows)
  obtain k r where x: "x = (k, r)" by (cases x)
  have kr: "keyed rows" and nk: "map_of rows k = None"
    using Cons.prems(1) by (auto simp: keyed_def x map_of_eq_None_iff)
  have ids: "\<And>g r. (g, r) \<in> set rows \<Longrightarrow> e_global_id (l_entry r) = g" and id: "e_global_id (l_entry r) = k"
    using Cons.prems(2) by (auto simp: x)
  note IH = Cons.IH [OF kr ids]
  show ?case
  proof (cases "l_deleted r")
    case True
    then show ?thesis using nk by (simp add: x IH)
  next
    case False
    then show ?thesis using nk id by (auto simp: x IH Let_def local_state_def split: option.split)
  qed
qed simp

subsection \<open>The loop over the mirrors\<close>

definition cand_row :: "string list \<Rightarrow> string \<Rightarrow> (string \<times> string) \<times> mirror_row \<Rightarrow> bool" where
  "cand_row offeringIDs g x = (case x of ((p, g'), r) \<Rightarrow> g' = g \<and> p \<in> set offeringIDs)"

definition good_row :: "(string \<Rightarrow> string list) \<Rightarrow> string list \<Rightarrow> string \<Rightarrow> (string \<times> string) \<times> mirror_row \<Rightarrow> bool" where
  "good_row excluded offeringIDs g x = (cand_row offeringIDs g x
     \<and> \<not> under_any_folder (e_path (m_entry (snd x))) (excluded (fst (fst x))))"

definition row_state :: "string list \<Rightarrow> (string \<times> string) \<times> mirror_row \<Rightarrow> item_state" where
  "row_state hidden x = remote_state hidden (fst (fst x)) (m_entry (snd x))"

definition or_else :: "'a option \<Rightarrow> 'a option \<Rightarrow> 'a option" where
  "or_else a b = (case a of None \<Rightarrow> b | Some x \<Rightarrow> Some x)"

lemma or_else_simps [simp]: "or_else None b = b" "or_else (Some x) b = Some x" "or_else a None = a"
  by (simp_all add: or_else_def split: option.split)

lemma elect_remote_keyed:
  "keyed ds \<Longrightarrow> keyed fb \<Longrightarrow> elect_remote hidden excluded offeringIDs rows (ds, fb, off) = (ds', fb', off')
     \<Longrightarrow> keyed ds' \<and> keyed fb'"
proof (induction rows arbitrary: ds fb off)
  case (Cons x rows)
  obtain p g r where x: "x = ((p, g), r)" by (metis surj_pair)
  show ?case
    using Cons.prems by (auto simp: x Let_def split: if_split_asm dest!: Cons.IH [rotated 2])
qed simp

lemma elect_remote_get:
  "elect_remote hidden excluded offeringIDs rows (ds, fb, off) = (ds', fb', off') \<Longrightarrow>
     map_of ds' g = or_else (map_of ds g) (map_option (row_state hidden) (find (good_row excluded offeringIDs g) rows))
     \<and> (map_of ds' g = None \<longrightarrow>
          map_of fb' g = or_else (map_of fb g)
            (map_option (\<lambda>x. (row_state hidden x)\<lparr>st_hidden_folder := True\<rparr>) (find (cand_row offeringIDs g) rows)))"
proof (induction rows arbitrary: ds fb off)
  case (Cons x rows)
  obtain p k r where x: "x = ((p, k), r)" by (metis surj_pair)
  show ?case
  proof (cases "p \<in> set offeringIDs \<and> map_of ds k = None")
    case False
    have eq: "elect_remote hidden excluded offeringIDs rows (ds, fb, hide_key (m_entry r) # off) = (ds', fb', off')"
      using Cons.prems False by (auto simp: x Let_def split: if_split_asm)
    note IH = Cons.IH [OF eq]
    show ?thesis
    proof (cases "p \<in> set offeringIDs \<and> k = g")
      case True
      then obtain s where s: "map_of ds g = Some s" using False by auto
      then show ?thesis using IH by simp
    next
      case no: False
      then have "\<not> cand_row offeringIDs g x" by (auto simp: cand_row_def x)
      then show ?thesis using IH by (simp add: good_row_def)
    qed
  next
    case True
    let ?st = "row_state hidden x"
    have st: "(state_from_entry (m_entry r))\<lparr>st_peer_id := p, st_peer_item_id := e_item_id (m_entry r), st_hidden := is_hidden hidden (m_entry r)\<rparr> = ?st"
      by (simp add: row_state_def remote_state_def x)
    show ?thesis
    proof (cases "under_any_folder (e_path (m_entry r)) (excluded p)")
      case ex: True
      let ?fb = "if map_of fb k = None then tbl_upsert k (?st\<lparr>st_hidden_folder := True\<rparr>) fb else fb"
      have eq: "elect_remote hidden excluded offeringIDs rows (ds, ?fb, hide_key (m_entry r) # off) = (ds', fb', off')"
        using Cons.prems True ex unfolding x elect_remote.simps Let_def st [symmetric, unfolded x] by (simp add: x)
      have ng: "\<not> good_row excluded offeringIDs g x" using ex by (simp add: good_row_def x)
      have c: "cand_row offeringIDs g x \<longleftrightarrow> k = g" using True by (auto simp: cand_row_def x)
      show ?thesis
        using Cons.IH [OF eq] ng c by (cases "map_of fb g") (auto split: if_splits)
    next
      case ok: False
      have eq: "elect_remote hidden excluded offeringIDs rows (tbl_upsert k ?st ds, fb, hide_key (m_entry r) # off) = (ds', fb', off')"
        using Cons.prems True ok unfolding x elect_remote.simps Let_def st [symmetric, unfolded x] by (simp add: x)
      have gd: "good_row excluded offeringIDs g x \<longleftrightarrow> k = g" "cand_row offeringIDs g x \<longleftrightarrow> k = g"
        using True ok by (auto simp: good_row_def cand_row_def x)
      show ?thesis
        using Cons.IH [OF eq] gd True by (auto split: if_splits)
    qed
  qed
qed simp

lemma add_fallback_get:
  "keyed fb \<Longrightarrow> map_of (add_fallback fb ds) g = or_else (map_of ds g) (map_of fb g)"
proof (induction fb arbitrary: ds)
  case (Cons x fb)
  obtain k s where x: "x = (k, s)" by (cases x)
  have kf: "keyed fb" "map_of fb k = None" using Cons.prems by (auto simp: keyed_def x map_of_eq_None_iff)
  show ?case using Cons.IH [OF kf(1)] kf(2) by (auto simp: x)
qed (simp add: or_else_def split: option.split)

lemma add_fallback_keyed: "keyed ds \<Longrightarrow> keyed (add_fallback fb ds)"
  by (induction fb ds rule: add_fallback.induct) auto

subsection \<open>The rule is computed\<close>

lemma find_filter: "find P xs = (case filter P xs of [] \<Rightarrow> None | x # _ \<Rightarrow> Some x)"
  by (induction xs) (auto split: list.split)

text \<open>The rows of one item in the mirrors' order, against the sorted list of offering peers.\<close>

lemma mirror_order_rows:
  assumes k: "keyed m"
  shows "map (fst \<circ> fst) (filter (\<lambda>x. snd (fst x) = g \<and> P (fst (fst x)) (snd x)) (mirror_order m))
       = filter (\<lambda>p. case map_of m (p, g) of None \<Rightarrow> False | Some r \<Rightarrow> P p r)
           (sort (remdups (map (fst \<circ> fst) m)))" (is "?L = ?R")
proof (rule sorted_distinct_set_unique)
  let ?F = "filter (\<lambda>x. snd (fst x) = g \<and> P (fst (fst x)) (snd x)) (mirror_order m)"
  have mem: "((p, g'), r) \<in> set (mirror_order m) \<longleftrightarrow> map_of m (p, g') = Some r" for p g' r
    using keyed_map_of_eq [OF k, of "(p, g')" r] by (auto simp: mirror_order_def)
  have "sorted (map (\<lambda>((p, g), r). (g, p)) (mirror_order m))"
    unfolding mirror_order_def by (rule sorted_sort_key)
  then have "sorted (map (\<lambda>((p, g), r). (g, p)) ?F)" by (rule sorted_filter)
  then have "sorted_wrt (\<lambda>x y. (snd (fst x), fst (fst x)) \<le> (snd (fst y), fst (fst y))) ?F"
    by (simp add: sorted_map case_prod_unfold)
  then have "sorted_wrt (\<lambda>x y. fst (fst x) \<le> fst (fst y)) ?F"
    by (rule sorted_wrt_mono_rel [rotated]) (auto simp: less_eq_prod_def)
  then show "sorted ?L" by (simp add: sorted_map)
  have "distinct (map fst (mirror_order m))"
    using k by (simp add: keyed_def mirror_order_def distinct_map)
  then have d: "distinct (mirror_order m)" and inj: "inj_on fst (set (mirror_order m))"
    by (simp_all add: distinct_map)
  show "distinct ?L"
    unfolding distinct_map
  proof
    show "distinct ?F" using d by simp
    show "inj_on (fst \<circ> fst) (set ?F)"
    proof (rule inj_onI)
      fix x y assume "x \<in> set ?F" "y \<in> set ?F" "(fst \<circ> fst) x = (fst \<circ> fst) y"
      then have "x \<in> set (mirror_order m)" "y \<in> set (mirror_order m)" "fst x = fst y"
        by (auto intro: prod_eqI)
      with inj show "x = y" by (auto dest: inj_onD)
    qed
  qed
  show "sorted ?R" by (intro sorted_filter [of "\<lambda>x. x", simplified]) simp
  show "distinct ?R" by simp
  show "set ?L = set ?R"
  proof (rule set_eqI)
    fix p
    have "p \<in> set ?L \<longleftrightarrow> (\<exists>r. map_of m (p, g) = Some r \<and> P p r)"
      using mem by (force simp: image_iff)
    moreover have "p \<in> set ?R \<longleftrightarrow> (\<exists>r. map_of m (p, g) = Some r \<and> P p r)"
      by (auto split: option.splits dest!: map_of_SomeD intro!: rev_image_eqI)
    ultimately show "p \<in> set ?L \<longleftrightarrow> p \<in> set ?R" by simp
  qed
qed

lemma sorted_case_cong:
  fixes xs ys :: "'a :: linorder list"
  assumes "sorted xs" "sorted ys" "set xs = set ys"
  shows "(case xs of [] \<Rightarrow> a | p # _ \<Rightarrow> f p) = (case ys of [] \<Rightarrow> a | p # _ \<Rightarrow> f p)"
proof (cases xs)
  case Nil
  with assms(3) show ?thesis by (cases ys) auto
next
  case (Cons p ps)
  then obtain q qs where ys: "ys = q # qs" using assms(3) by (cases ys) auto
  have "p \<in> set ys" "q \<in> set xs" using assms(3) Cons ys by auto
  with assms(1,2) Cons ys have "q \<le> p" "p \<le> q" by auto
  with Cons ys show ?thesis by simp
qed

lemma find_row:
  assumes k: "keyed m"
  shows "find (\<lambda>x. snd (fst x) = g \<and> P (fst (fst x)) (snd x)) (mirror_order m)
     = (case filter (\<lambda>p. case map_of m (p, g) of None \<Rightarrow> False | Some r \<Rightarrow> P p r) (sort (remdups (map (fst \<circ> fst) m))) of
          [] \<Rightarrow> None | p # _ \<Rightarrow> map_option (\<lambda>r. ((p, g), r)) (map_of m (p, g)))" (is "find ?P _ = _")
proof (cases "filter ?P (mirror_order m)")
  case Nil
  then have "filter (\<lambda>p. case map_of m (p, g) of None \<Rightarrow> False | Some r \<Rightarrow> P p r) (sort (remdups (map (fst \<circ> fst) m))) = []"
    using mirror_order_rows [OF k, of g P] by simp
  with Nil show ?thesis by (simp add: find_filter)
next
  case (Cons x xs)
  then have "x \<in> set (filter ?P (mirror_order m))" by simp
  then have x: "x \<in> set m" "snd (fst x) = g" by (auto simp: mirror_order_def)
  have "map_of m (fst x) = Some (snd x)" using x(1) keyed_map_of_eq [OF k, of "fst x" "snd x"] by simp
  then have "map_option (\<lambda>r. ((fst (fst x), g), r)) (map_of m (fst (fst x), g)) = Some x"
    using x(2) by (cases x; cases "fst x") auto
  moreover have "filter (\<lambda>p. case map_of m (p, g) of None \<Rightarrow> False | Some r \<Rightarrow> P p r) (sort (remdups (map (fst \<circ> fst) m)))
      = fst (fst x) # map (fst \<circ> fst) xs"
    using mirror_order_rows [OF k, of g P] Cons by simp
  ultimately show ?thesis using Cons by (simp only: find_filter list.case)
qed

text \<open>The same choice among the sorted offering peers.\<close>

lemma find_offering:
  assumes k: "keyed m"
    and P: "\<And>p r. map_of m (p, g) = Some r \<Longrightarrow> P p r \<longleftrightarrow> p \<in> set offs \<and> Q p"
  shows "find (\<lambda>x. snd (fst x) = g \<and> P (fst (fst x)) (snd x)) (mirror_order m)
     = (case filter Q (filter (\<lambda>p. map_of m (p, g) \<noteq> None) (sort offs)) of
          [] \<Rightarrow> None | p # _ \<Rightarrow> map_option (\<lambda>r. ((p, g), r)) (map_of m (p, g)))"
  unfolding find_row [OF k]
proof (rule sorted_case_cong)
  show "sorted (filter (\<lambda>p. case map_of m (p, g) of None \<Rightarrow> False | Some r \<Rightarrow> P p r) (sort (remdups (map (fst \<circ> fst) m))))"
    by (intro sorted_filter [of "\<lambda>x. x", simplified]) simp
  show "sorted (filter Q (filter (\<lambda>p. map_of m (p, g) \<noteq> None) (sort offs)))"
    by (intro sorted_filter [of "\<lambda>x. x", simplified]) simp
  show "set (filter (\<lambda>p. case map_of m (p, g) of None \<Rightarrow> False | Some r \<Rightarrow> P p r) (sort (remdups (map (fst \<circ> fst) m))))
      = set (filter Q (filter (\<lambda>p. map_of m (p, g) \<noteq> None) (sort offs)))" (is "set ?A = set ?B")
  proof (rule set_eqI)
    fix p
    have "p \<in> set ?A \<longleftrightarrow> (\<exists>r. map_of m (p, g) = Some r \<and> P p r)"
      by (auto split: option.splits dest!: map_of_SomeD intro!: rev_image_eqI)
    also have "\<dots> \<longleftrightarrow> p \<in> set ?B" using P by auto
    finally show "p \<in> set ?A \<longleftrightarrow> p \<in> set ?B" .
  qed
qed

lemma elect_remote_part:
  assumes k: "keyed (peer_catalog d)"
  shows "map_option (row_state hidden) (find (good_row (excluded_folders (peer_excluded_folders d)) offs g) (mirror_order (peer_catalog d)))
      = (case filter (accepted d g) (candidates d offs g) of [] \<Rightarrow> None
         | p # _ \<Rightarrow> map_option (\<lambda>r. remote_state hidden p (m_entry r)) (map_of (peer_catalog d) (p, g)))"
    and "map_option (\<lambda>x. (row_state hidden x)\<lparr>st_hidden_folder := True\<rparr>) (find (cand_row offs g) (mirror_order (peer_catalog d)))
      = (case candidates d offs g of [] \<Rightarrow> None
         | p # _ \<Rightarrow> map_option (\<lambda>r. (remote_state hidden p (m_entry r))\<lparr>st_hidden_folder := True\<rparr>) (map_of (peer_catalog d) (p, g)))"
proof -
  let ?ex = "excluded_folders (peer_excluded_folders d)"
  have g: "good_row ?ex offs g = (\<lambda>x. snd (fst x) = g \<and> (fst (fst x) \<in> set offs \<and> \<not> under_any_folder (e_path (m_entry (snd x))) (?ex (fst (fst x)))))"
    by (auto simp: good_row_def cand_row_def fun_eq_iff)
  have c: "cand_row offs g = (\<lambda>x. snd (fst x) = g \<and> fst (fst x) \<in> set offs)"
    by (auto simp: cand_row_def fun_eq_iff)
  have 1: "find (good_row ?ex offs g) (mirror_order (peer_catalog d))
      = (case filter (accepted d g) (candidates d offs g) of
          [] \<Rightarrow> None | p # _ \<Rightarrow> map_option (\<lambda>r. ((p, g), r)) (map_of (peer_catalog d) (p, g)))"
    unfolding g candidates_def
    by (rule find_offering [OF k, of g "\<lambda>p r. p \<in> set offs \<and> \<not> under_any_folder (e_path (m_entry r)) (?ex p)" offs "accepted d g"])
       (simp add: accepted_def)
  have 2: "find (cand_row offs g) (mirror_order (peer_catalog d))
      = (case filter (\<lambda>p. True) (candidates d offs g) of
          [] \<Rightarrow> None | p # _ \<Rightarrow> map_option (\<lambda>r. ((p, g), r)) (map_of (peer_catalog d) (p, g)))"
    unfolding c candidates_def
    by (rule find_offering [OF k, of g "\<lambda>p r. p \<in> set offs" offs "\<lambda>p. True"]) simp
  show "map_option (row_state hidden) (find (good_row ?ex offs g) (mirror_order (peer_catalog d)))
      = (case filter (accepted d g) (candidates d offs g) of [] \<Rightarrow> None
         | p # _ \<Rightarrow> map_option (\<lambda>r. remote_state hidden p (m_entry r)) (map_of (peer_catalog d) (p, g)))"
    unfolding 1 by (auto simp: row_state_def option.map_comp comp_def split: list.split)
  show "map_option (\<lambda>x. (row_state hidden x)\<lparr>st_hidden_folder := True\<rparr>) (find (cand_row offs g) (mirror_order (peer_catalog d)))
      = (case candidates d offs g of [] \<Rightarrow> None
         | p # _ \<Rightarrow> map_option (\<lambda>r. (remote_state hidden p (m_entry r))\<lparr>st_hidden_folder := True\<rparr>) (map_of (peer_catalog d) (p, g)))"
    unfolding 2 by (auto simp: row_state_def option.map_comp comp_def split: list.split)
qed

lemma elect_ok:
  assumes el: "elect fault d offs = Inr (desired, offered)"
    and kl: "keyed (local_catalog d)" and km: "keyed (peer_catalog d)"
    and ids: "\<And>g r. map_of (local_catalog d) g = Some r \<Longrightarrow> e_global_id (l_entry r) = g"
  shows "keyed desired \<and> map_of desired g = elected d offs g"
proof -
  let ?h = "hidden_set (hidden_items d)" and ?ex = "excluded_folders (peer_excluded_folders d)"
  obtain ds off where l: "elect_local (local_catalog d) ([], []) = (ds, off)" by (metis surj_pair)
  obtain ds' fb off' where r: "elect_remote ?h ?ex offs (mirror_order (peer_catalog d)) (ds, [], off) = (ds', fb, off')"
    by (metis prod_cases3)
  have des: "desired = add_fallback fb ds'"
    using el l r by (auto simp: elect_def split: option.splits)
  have kd: "keyed ds" using elect_local_keyed [of "[]" "local_catalog d" "[]"] l by simp
  have kf: "keyed ds'" "keyed fb" using elect_remote_keyed [OF kd keyed_Nil r] by simp_all
  have ids': "(g, r) \<in> set (local_catalog d) \<Longrightarrow> e_global_id (l_entry r) = g" for g r
    using ids keyed_map_of_eq [OF kl] by blast
  have dsg: "map_of ds g = (case map_of (local_catalog d) g of None \<Rightarrow> None | Some r \<Rightarrow> if l_deleted r then None else Some (local_state r))"
    using elect_local_get [OF kl ids', of "[]" "[]" g] l by (cases "map_of (local_catalog d) g") simp_all
  have F: "map_of desired g = or_else (map_of ds' g) (map_of fb g)"
    unfolding des by (rule add_fallback_get [OF kf(2)])
  from F elect_remote_get [OF r, of g] have D: "map_of desired g = (case map_of ds g of Some s \<Rightarrow> Some s
      | None \<Rightarrow> or_else (map_option (row_state ?h) (find (good_row ?ex offs g) (mirror_order (peer_catalog d))))
         (map_option (\<lambda>x. (row_state ?h x)\<lparr>st_hidden_folder := True\<rparr>) (find (cand_row offs g) (mirror_order (peer_catalog d)))))"
    by (cases "map_of ds g"; cases "find (good_row ?ex offs g) (mirror_order (peer_catalog d))") auto
  have some: "map_of (peer_catalog d) (p, g) \<noteq> None" if "filter (accepted d g) (candidates d offs g) = p # ps" for p ps
  proof -
    have "p \<in> set (filter (accepted d g) (candidates d offs g))" using that by simp
    then show ?thesis by (simp add: candidates_def)
  qed
  let ?R = "case filter (accepted d g) (candidates d offs g) of
      p # _ \<Rightarrow> map_option (\<lambda>r. remote_state ?h p (m_entry r)) (map_of (peer_catalog d) (p, g))
    | [] \<Rightarrow> (case candidates d offs g of
        p # _ \<Rightarrow> map_option (\<lambda>s. s\<lparr>st_hidden_folder := True\<rparr>)
             (map_option (\<lambda>r. remote_state ?h p (m_entry r)) (map_of (peer_catalog d) (p, g))) | [] \<Rightarrow> None)"
  have R: "or_else (map_option (row_state ?h) (find (good_row ?ex offs g) (mirror_order (peer_catalog d))))
         (map_option (\<lambda>x. (row_state ?h x)\<lparr>st_hidden_folder := True\<rparr>) (find (cand_row offs g) (mirror_order (peer_catalog d)))) = ?R"
    unfolding elect_remote_part [OF km, of ?h offs g]
  proof (cases "filter (accepted d g) (candidates d offs g)")
    case Nil
    then show "or_else (case filter (accepted d g) (candidates d offs g) of [] \<Rightarrow> None
         | p # _ \<Rightarrow> map_option (\<lambda>r. remote_state ?h p (m_entry r)) (map_of (peer_catalog d) (p, g)))
       (case candidates d offs g of [] \<Rightarrow> None
         | p # _ \<Rightarrow> map_option (\<lambda>r. (remote_state ?h p (m_entry r))\<lparr>st_hidden_folder := True\<rparr>) (map_of (peer_catalog d) (p, g))) = ?R"
      by (cases "candidates d offs g") (simp_all add: option.map_comp comp_def)
  next
    case (Cons p ps)
    then show "or_else (case filter (accepted d g) (candidates d offs g) of [] \<Rightarrow> None
         | p # _ \<Rightarrow> map_option (\<lambda>r. remote_state ?h p (m_entry r)) (map_of (peer_catalog d) (p, g)))
       (case candidates d offs g of [] \<Rightarrow> None
         | p # _ \<Rightarrow> map_option (\<lambda>r. (remote_state ?h p (m_entry r))\<lparr>st_hidden_folder := True\<rparr>) (map_of (peer_catalog d) (p, g))) = ?R"
      using some [OF Cons] by auto
  qed
  have "map_of desired g = elected d offs g"
    unfolding D R elected_def Let_def
    using dsg by (cases "map_of (local_catalog d) g") simp_all
  then show ?thesis using add_fallback_keyed [OF kf(1)] des by simp
qed

subsection \<open>Writing the result\<close>

lemma state_of_row_of_state: "state_of_row (row_of_state now s strm) = s"
  by (cases s) (simp add: state_of_row_def row_of_state_def or_empty_def null_if_empty_def)

lemma row_of_state_strm [simp]: "i_strm_path (row_of_state now s strm) = strm"
  by (simp add: row_of_state_def)

lemma existing_get: "map_of (map (\<lambda>(g, r). (g, state_of_row r)) items) g = map_option state_of_row (map_of items g)"
  by (induction items) auto

definition strm_of :: "item_row option \<Rightarrow> string option" where
  "strm_of r = (case r of None \<Rightarrow> None | Some r \<Rightarrow> i_strm_path r)"

lemma upsert_desired_spec:
  assumes "upsert_desired now existing ds (n, items) = (n', items')" and "keyed ds" and "keyed items"
  shows "keyed items' \<and> map_of items' g = (case map_of ds g of
       None \<Rightarrow> map_of items g
     | Some s \<Rightarrow> if map_of existing g = Some s then map_of items g
                 else Some (row_of_state now s (strm_of (map_of items g))))"
  using assms
proof (induction ds arbitrary: n items)
  case (Cons x ds)
  obtain k s where x: "x = (k, s)" by (cases x)
  have kd: "keyed ds" "map_of ds k = None" using Cons.prems(2) by (auto simp: keyed_def x map_of_eq_None_iff)
  show ?case
  proof (cases "map_of existing k = Some s")
    case True
    then have eq: "upsert_desired now existing ds (n, items) = (n', items')" using Cons.prems(1) by (simp add: x)
    show ?thesis using Cons.IH [OF eq kd(1) Cons.prems(3)] kd(2) True by (simp add: x)
  next
    case False
    let ?items = "tbl_upsert k (row_of_state now s (strm_of (map_of items k))) items"
    have eq: "upsert_desired now existing ds (Suc n, ?items) = (n', items')"
      using Cons.prems(1) False by (simp add: x strm_of_def)
    have k: "keyed ?items" using Cons.prems(3) by simp
    show ?thesis
    proof (cases "g = k")
      case True
      with Cons.IH [OF eq kd(1) k] kd(2) False Cons.prems(3) show ?thesis by (simp add: x)
    next
      case ne: False
      then have same: "map_of ?items g = map_of items g" using Cons.prems(3) by simp
      from Cons.IH [OF eq kd(1) k] ne show ?thesis unfolding same by (simp add: x)
    qed
  qed
qed simp

lemma upsert_desired_count:
  "(\<And>g s. (g, s) \<in> set ds \<Longrightarrow> map_of existing g = Some s) \<Longrightarrow> upsert_desired now existing ds s0 = s0"
proof (induction ds arbitrary: s0)
  case (Cons x ds)
  obtain k s where x: "x = (k, s)" by (cases x)
  obtain n items where "s0 = (n, items)" by (cases s0)
  then show ?case using Cons by (auto simp: x)
qed simp

definition cleared :: "item_row \<Rightarrow> item_row" where
  "cleared r = r\<lparr>i_primary_peer_id := None, i_primary_item_id := None\<rparr>"

lemma drop_undesired_spec:
  assumes "drop_undesired desired ex (n, k, items) = (n', k', items')" and "keyed ex" and "keyed items"
  shows "keyed items' \<and> map_of items' g = (case map_of ex g of
       None \<Rightarrow> map_of items g
     | Some old \<Rightarrow> if map_of desired g \<noteq> None then map_of items g
                   else if st_local old then None
                   else if st_peer_id old \<noteq> [] then map_option cleared (map_of items g)
                   else map_of items g)"
  using assms
proof (induction ex arbitrary: n k items)
  case (Cons x ex)
  obtain j old where x: "x = (j, old)" by (cases x)
  have ke: "keyed ex" "map_of ex j = None" using Cons.prems(2) by (auto simp: keyed_def x map_of_eq_None_iff)
  consider (keep) "map_of desired j \<noteq> None \<or> (\<not> st_local old \<and> st_peer_id old = [])"
    | (stale) "map_of desired j = None" "st_local old"
    | (clear) "map_of desired j = None" "\<not> st_local old" "st_peer_id old \<noteq> []" by blast
  then show ?case
  proof cases
    case keep
    then have eq: "drop_undesired desired ex (n, k, items) = (n', k', items')" using Cons.prems(1) by (auto simp: x split: if_splits)
    show ?thesis using Cons.IH [OF eq ke(1) Cons.prems(3)] ke(2) keep by (auto simp: x)
  next
    case stale
    have eq: "drop_undesired desired ex (Suc n, k, tbl_delete j items) = (n', k', items')"
      using Cons.prems(1) stale by (simp add: x)
    have k: "keyed (tbl_delete j items)" using Cons.prems(3) by simp
    show ?thesis
    proof (cases "g = j")
      case True
      with Cons.IH [OF eq ke(1) k] ke(2) stale Cons.prems(3) show ?thesis by (simp add: x)
    next
      case ne: False
      then have same: "map_of (tbl_delete j items) g = map_of items g" using Cons.prems(3) by simp
      from Cons.IH [OF eq ke(1) k] ne show ?thesis unfolding same by (simp add: x)
    qed
  next
    case clear
    let ?items = "tbl_update_where (\<lambda>i _. i = j) cleared items"
    have eq: "drop_undesired desired ex (n, Suc k, ?items) = (n', k', items')"
      using Cons.prems(1) clear by (simp add: x cleared_def [abs_def])
    have k: "keyed ?items" using Cons.prems(3) by simp
    show ?thesis
    proof (cases "g = j")
      case True
      with Cons.IH [OF eq ke(1) k] ke(2) clear Cons.prems(3) show ?thesis
        by (cases "map_of items j") (simp_all add: x)
    next
      case ne: False
      then have same: "map_of ?items g = map_of items g" using Cons.prems(3) by (cases "map_of items g") simp_all
      from Cons.IH [OF eq ke(1) k] ne show ?thesis unfolding same by (simp add: x)
    qed
  qed
qed simp

lemma write_election_unfold:
  assumes "write_election rf tf now desired offered d = (Inr st, d')"
  shows "rf = None \<and> tf = None \<and> (\<exists>n items n2 k items2.
     upsert_desired now (map (\<lambda>(g, r). (g, state_of_row r)) (catalog_items d)) desired (0, catalog_items d) = (n, items)
     \<and> drop_undesired desired (map (\<lambda>(g, r). (g, state_of_row r)) (catalog_items d)) (0, 0, items) = (n2, k, items2)
     \<and> catalog_items d' = tbl_delete_where inert items2
     \<and> hidden_items d' = snd (prune_hidden (hidden_set (hidden_items d)) offered 0 (hidden_items d))
     \<and> d' = d\<lparr>catalog_items := catalog_items d', hidden_items := hidden_items d'\<rparr>
     \<and> es_upserted st = n)"
proof -
  let ?ex = "map (\<lambda>(g, r). (g, state_of_row r)) (catalog_items d)"
  obtain n items where u: "upsert_desired now ?ex desired (0, catalog_items d) = (n, items)" by (metis surj_pair)
  obtain n2 k items2 where dr: "drop_undesired desired ?ex (0, 0, items) = (n2, k, items2)" by (metis prod_cases3)
  obtain dr2 hides where p: "prune_hidden (hidden_set (hidden_items d)) offered 0 (hidden_items d) = (dr2, hides)" by (metis surj_pair)
  show ?thesis
    using assms u dr p by (auto simp: write_election_def Let_def with_tx_def split: option.splits)
qed

text \<open>The row of an item after the election was written.\<close>

lemma write_election_row:
  assumes w: "write_election rf tf now desired offered d = (Inr st, d')"
    and kd: "keyed desired" and ki: "keyed (catalog_items d)"
    and owner: "\<And>s. map_of desired g = Some s \<Longrightarrow> st_local s \<or> st_peer_id s \<noteq> []"
    and named: "\<And>r. map_of (catalog_items d) g = Some r \<Longrightarrow> i_primary_peer_id r \<noteq> Some []"
  shows "case map_of desired g of
      Some s \<Rightarrow> (\<exists>r. map_of (catalog_items d') g = Some r \<and> state_of_row r = s \<and> i_strm_path r = strm_of (map_of (catalog_items d) g))
    | None \<Rightarrow> map_of (catalog_items d') g = (case map_of (catalog_items d) g of
          None \<Rightarrow> None
        | Some r \<Rightarrow> if i_local r \<or> i_strm_path r = None then None
                    else Some (if i_primary_peer_id r = None then r else cleared r))"
proof -
  let ?ex = "map (\<lambda>(g, r). (g, state_of_row r)) (catalog_items d)"
  obtain n items n2 k items2 where u: "upsert_desired now ?ex desired (0, catalog_items d) = (n, items)"
    and dr: "drop_undesired desired ?ex (0, 0, items) = (n2, k, items2)"
    and d': "catalog_items d' = tbl_delete_where inert items2"
    using write_election_unfold [OF w] by blast
  have kex: "keyed ?ex" using ki by (simp add: keyed_def comp_def case_prod_unfold)
  have fu: "keyed items \<and> map_of items g = (case map_of desired g of
       None \<Rightarrow> map_of (catalog_items d) g
     | Some s \<Rightarrow> if map_of ?ex g = Some s then map_of (catalog_items d) g
                 else Some (row_of_state now s (strm_of (map_of (catalog_items d) g))))"
    by (rule upsert_desired_spec [OF u kd ki])
  have fd: "keyed items2 \<and> map_of items2 g = (case map_of ?ex g of
       None \<Rightarrow> map_of items g
     | Some old \<Rightarrow> if map_of desired g \<noteq> None then map_of items g
                   else if st_local old then None
                   else if st_peer_id old \<noteq> [] then map_option cleared (map_of items g)
                   else map_of items g)"
    by (rule drop_undesired_spec [OF dr kex]) (use fu in blast)
  have fin: "map_of (catalog_items d') g = (case map_of items2 g of None \<Rightarrow> None | Some r \<Rightarrow> if inert g r then None else Some r)"
    unfolding d' using fd by (intro get_delete_where) blast
  show ?thesis
  proof (cases "map_of desired g")
    case None
    with fu have i: "map_of items g = map_of (catalog_items d) g" by simp
    show ?thesis
    proof (cases "map_of (catalog_items d) g")
      case N: None
      with None fd fin i show ?thesis by (simp add: existing_get)
    next
      case (Some r)
      have ex: "map_of ?ex g = Some (state_of_row r)" by (simp add: existing_get Some)
      have owner_eq: "st_local (state_of_row r) = i_local r" "st_peer_id (state_of_row r) = or_empty (i_primary_peer_id r)"
        by (simp_all add: state_of_row_def)
      have m2: "map_of items2 g = (if i_local r then None
                   else if or_empty (i_primary_peer_id r) \<noteq> [] then Some (cleared r) else Some r)"
        using fd None i Some by (simp add: ex owner_eq)
      show ?thesis
        unfolding fin m2 using None Some named [OF Some]
        by (cases "i_primary_peer_id r") (auto simp: or_empty_def inert_def cleared_def)
    qed
  next
    case (Some s)
    have i2: "map_of items2 g = map_of items g" using fd Some by (auto split: option.splits)
    obtain r where r: "map_of items g = Some r" "state_of_row r = s" "i_strm_path r = strm_of (map_of (catalog_items d) g)"
      using fu Some by (cases "map_of (catalog_items d) g") (auto simp: existing_get state_of_row_of_state strm_of_def split: if_splits)
    have "\<not> inert g r" using owner [OF Some] r(2) by (auto simp: inert_def state_of_row_def or_empty_def)
    with r i2 fin Some show ?thesis by simp
  qed
qed

lemma write_election_error: "write_election rf tf now desired offered d = (Inl e, d') \<Longrightarrow> d' = d"
  unfolding write_election_def Let_def by (auto split: option.splits dest: with_tx_error)

text \<open>Writing the same result again changes no row.\<close>

lemma write_election_again:
  assumes w: "write_election rf tf now desired offered d = (Inr st, d')"
    and kd: "keyed desired" and ki: "keyed (catalog_items d)"
    and owner: "\<And>g s. map_of desired g = Some s \<Longrightarrow> st_local s \<or> st_peer_id s \<noteq> []"
    and named: "\<And>g r. map_of (catalog_items d) g = Some r \<Longrightarrow> i_primary_peer_id r \<noteq> Some []"
    and w2: "write_election rf' tf' now' desired offered' d' = (Inr st', d'')"
  shows "es_upserted st' = 0"
proof -
  let ?ex = "map (\<lambda>(g, r). (g, state_of_row r)) (catalog_items d')"
  have "map_of ?ex g = Some s" if gs: "(g, s) \<in> set desired" for g s
  proof -
    have "map_of desired g = Some s" using gs keyed_map_of_eq [OF kd] by blast
    with write_election_row [OF w kd ki, of g] owner named show ?thesis by (auto simp: existing_get)
  qed
  then have "upsert_desired now' ?ex desired (0, catalog_items d') = (0, catalog_items d')"
    by (rule upsert_desired_count)
  with write_election_unfold [OF w2] show ?thesis by auto
qed

lemma elected_owner:
  assumes "elected d offs g = Some s" and "[] \<notin> set offs"
  shows "st_local s \<or> st_peer_id s \<noteq> []"
proof -
  have c: "p \<noteq> []" if "candidates d offs g = p # ps" for p ps
  proof -
    have "p \<in> set (candidates d offs g)" using that by simp
    then show ?thesis using assms(2) by (auto simp: candidates_def)
  qed
  have f: "p \<noteq> []" if "filter (accepted d g) (candidates d offs g) = p # ps" for p ps
  proof -
    have "p \<in> set (filter (accepted d g) (candidates d offs g))" using that by simp
    then show ?thesis using assms(2) by (auto simp: candidates_def)
  qed
  show ?thesis
    using assms(1) c f
    by (auto simp: elected_def Let_def local_state_def remote_state_def split: option.splits if_splits list.splits)
qed

end
