(* ===== verification/SyncProps.thy ===== *)
theory SyncProps
  imports ElectionProps
begin

section \<open>What a sync leaves behind\<close>

text \<open>
  The steps of \<open>Catalog.Sync\<close> put together: which tables each step may write, that they keep the
  tables keyed and the index well formed, and that after a sync every row of
  \<open>catalog_items\<close> is the one the election rule chooses from the final tables.
\<close>

subsection \<open>What the steps write\<close>

definition catalog_ok :: "(entry \<Rightarrow> string) \<Rightarrow> database \<Rightarrow> bool" where
  "catalog_ok hash d \<longleftrightarrow> index_ok hash d \<and> keyed (catalog_items d) \<and> keyed (peer_catalog d) \<and> keyed (hidden_items d)
     \<and> (\<forall>g r. map_of (catalog_items d) g = Some r \<longrightarrow> i_primary_peer_id r \<noteq> Some [])"

lemma index_ok_cong:
  "local_catalog d' = local_catalog d \<Longrightarrow> settings_tbl d' = settings_tbl d \<Longrightarrow> index_ok hash d' = index_ok hash d"
  by (simp add: index_ok_def feed_settings_def)

lemma index_ok_ids:
  "index_ok hash d \<Longrightarrow> map_of (local_catalog d) g = Some r \<Longrightarrow> e_global_id (l_entry r) = g"
  by (auto simp: index_ok_def idx_ok_def)

lemma index_ok_keyed: "index_ok hash d \<Longrightarrow> keyed (local_catalog d)"
  by (auto simp: index_ok_def dest: idx_ok_rev rev_ok_keyed)

definition mirrors_only :: "database \<Rightarrow> database \<Rightarrow> bool" where
  "mirrors_only d d' \<longleftrightarrow>
     d' = d\<lparr>peer_sync_state := peer_sync_state d', peer_catalog := peer_catalog d',
            peer_excluded_folders := peer_excluded_folders d'\<rparr>
     \<and> (keyed (peer_catalog d) \<longrightarrow> keyed (peer_catalog d'))"

lemma mirrors_only_refl [simp]: "mirrors_only d d"
  by (simp add: mirrors_only_def)

lemma mirrors_only_trans: "mirrors_only d d' \<Longrightarrow> mirrors_only d' d'' \<Longrightarrow> mirrors_only d d''"
  unfolding mirrors_only_def by (cases d; cases d'; cases d'') simp

lemma mirrors_only_catalog_ok:
  assumes "mirrors_only d d'" "catalog_ok hash d" shows "catalog_ok hash d'"
proof -
  have eq: "local_catalog d' = local_catalog d" "settings_tbl d' = settings_tbl d"
    "catalog_items d' = catalog_items d" "hidden_items d' = hidden_items d"
    using assms(1) unfolding mirrors_only_def by (cases d; cases d'; simp)+
  have "keyed (peer_catalog d')" using assms by (simp add: mirrors_only_def catalog_ok_def)
  then show ?thesis using assms(2) index_ok_cong [OF eq(1,2)] by (simp add: catalog_ok_def eq)
qed

lemma pull_page_only: "pull_page p ans fault (c, st, d) = (res, st', d') \<Longrightarrow> mirrors_only d d'"
  using pull_page_cases [of p ans fault c st d res st' d']
  by (auto simp: mirrors_only_def page_mirror_keyed)

lemma pull_legacy_only: "pull_legacy p ans fault (c, st, d) = (err, st', d') \<Longrightarrow> mirrors_only d d'"
  by (auto simp: pull_legacy_def Let_def mirrors_only_def page_mirror_keyed split: sum.splits prod.splits
      dest!: apply_changes_error apply_changes_ok)

lemma pull_loop_only: "pull_loop env limit p fuel k (c, st, d) = Some (err, st', d') \<Longrightarrow> mirrors_only d d'"
proof (induction fuel arbitrary: k c st d)
  case (Suc fuel)
  obtain res st1 d1 where pg: "pull_page p (pe_fetch env k (cur_epoch c) (cur_rev c) limit) (pe_fault env k) (c, st, d) = (res, st1, d1)"
    by (metis prod_cases3)
  have 1: "mirrors_only d d1" by (rule pull_page_only [OF pg])
  show ?case
  proof (cases res)
    case (Continue c1)
    then have "mirrors_only d1 d'" using Suc.prems pg by (intro Suc.IH) simp
    then show ?thesis by (rule mirrors_only_trans [OF 1])
  next
    case (Done e)
    then show ?thesis using Suc.prems pg 1 by simp
  next
    case Legacy
    then have "mirrors_only d1 d'" using Suc.prems pg by (intro pull_legacy_only) simp
    then show ?thesis by (rule mirrors_only_trans [OF 1])
  qed
qed simp

lemma pull_peer_only: "pull_peer env limit fuel p d = Some (err, st, d') \<Longrightarrow> mirrors_only d d'"
  by (auto simp: pull_peer_def split: sum.splits dest: pull_loop_only)

lemma mark_synced_only: "mark_synced fault now p d = (err, d') \<Longrightarrow> mirrors_only d d'"
  by (auto simp: mark_synced_def mirrors_only_def split: option.splits)

lemma pull_peers_only: "pull_peers envs limit fuel ps d = Some (sts, d') \<Longrightarrow> mirrors_only d d'"
proof (induction ps arbitrary: d sts)
  case (Cons p ps)
  obtain err st d1 where 1: "pull_peer (envs p) limit fuel p d = Some (err, st, d1)"
    using Cons.prems by (auto split: option.splits)
  obtain err' d2 where 2: "(case err of None \<Rightarrow> mark_synced (pe_mark_fault (envs p)) (pe_now (envs p)) p d1
      | Some e \<Rightarrow> (Some e, d1)) = (err', d2)" by (metis surj_pair)
  have m2: "mirrors_only d1 d2" using 2 by (cases err) (auto dest: mark_synced_only)
  obtain sts' where 3: "pull_peers envs limit fuel ps d2 = Some (sts', d')"
    using Cons.prems 1 2 by (auto simp: Let_def split: option.splits prod.splits)
  show ?case using pull_peer_only [OF 1] m2 Cons.IH [OF 3] mirrors_only_trans by blast
qed simp

lemma prune_only: "prune_removed_peers fault known d = (res, d') \<Longrightarrow> mirrors_only d d'"
  by (auto simp: prune_removed_peers_def with_tx_def mirrors_only_def split: option.splits)

subsection \<open>The hides the election drops\<close>

lemma elect_remote_offered:
  "elect_remote hidden excluded offs rows (ds, fb, off) = (ds', fb', off') \<Longrightarrow>
     set off \<union> (\<lambda>x. hide_key (m_entry (snd x))) ` set rows \<subseteq> set off'"
proof (induction rows arbitrary: ds fb off)
  case (Cons x rows)
  obtain p g r where x: "x = ((p, g), r)" by (metis surj_pair)
  obtain ds1 fb1 where "elect_remote hidden excluded offs rows (ds1, fb1, hide_key (m_entry r) # off) = (ds', fb', off')"
    using Cons.prems by (auto simp: x Let_def split: if_split_asm)
  from Cons.IH [OF this] show ?case by (auto simp: x)
qed simp

lemma set_mirror_order [simp]: "set (mirror_order m) = set m"
  by (simp add: mirror_order_def)

lemma elect_offered:
  assumes "elect fault d offs = Inr (desired, offered)" and "map_of (peer_catalog d) (p, g) = Some r"
  shows "hide_key (m_entry r) \<in> set offered"
proof -
  obtain ds off where l: "elect_local (local_catalog d) ([], []) = (ds, off)" by (metis surj_pair)
  obtain ds' fb off' where rm: "elect_remote (hidden_set (hidden_items d)) (excluded_folders (peer_excluded_folders d)) offs
      (mirror_order (peer_catalog d)) (ds, [], off) = (ds', fb, off')"
    by (metis prod_cases3)
  have "offered = off'" using assms(1) l rm by (auto simp: elect_def split: option.splits)
  moreover have "((p, g), r) \<in> set (peer_catalog d)" using assms(2) by (rule map_of_SomeD)
  ultimately show ?thesis using elect_remote_offered [OF rm] by force
qed

lemma remote_state_hidden: "is_hidden h e = is_hidden h' e \<Longrightarrow> remote_state h p e = remote_state h' p e"
  by (simp add: remote_state_def)

lemma elected_cong:
  assumes "local_catalog d' = local_catalog d" "peer_catalog d' = peer_catalog d"
    and "peer_excluded_folders d' = peer_excluded_folders d"
    and hid: "\<And>p r. map_of (peer_catalog d) (p, g) = Some r \<Longrightarrow>
       is_hidden (hidden_set (hidden_items d')) (m_entry r) = is_hidden (hidden_set (hidden_items d)) (m_entry r)"
  shows "elected d' offs g = elected d offs g"
proof -
  have c: "candidates d' offs g = candidates d offs g" by (simp add: candidates_def assms)
  have a: "accepted d' g = accepted d g" by (rule ext) (simp only: accepted_def assms)
  have s: "map_option (\<lambda>r. remote_state (hidden_set (hidden_items d')) p (m_entry r)) (map_of (peer_catalog d) (p, g))
      = map_option (\<lambda>r. remote_state (hidden_set (hidden_items d)) p (m_entry r)) (map_of (peer_catalog d) (p, g))" for p
    using hid by (cases "map_of (peer_catalog d) (p, g)") (simp_all cong: remote_state_hidden)
  show ?thesis unfolding elected_def Let_def c a assms s ..
qed

text \<open>Only hides of items nobody offers are dropped, so the rule chooses the same.\<close>

lemma pruned_hidden:
  assumes "k \<in> set offered" and "keyed t"
  shows "k \<in> set (hidden_set (snd (prune_hidden (hidden_set t) offered n t))) \<longleftrightarrow> k \<in> set (hidden_set t)"
proof -
  have dom: "k \<in> set (hidden_set u) \<longleftrightarrow> map_of u k \<noteq> None" for u :: "(string, int) tbl"
    by (simp add: hidden_set_def map_of_eq_None_iff)
  show ?thesis unfolding dom prune_hidden_get using assms(1) by simp
qed

lemma write_election_elected:
  assumes w: "write_election rf tf now desired offered d = (Inr st, d')"
    and el: "elect fault d offs = Inr (desired, offered)" and k: "keyed (hidden_items d)"
  shows "elected d' offs g = elected d offs g"
proof -
  obtain items where d': "d' = d\<lparr>catalog_items := items, hidden_items := hidden_items d'\<rparr>"
    and h: "hidden_items d' = snd (prune_hidden (hidden_set (hidden_items d)) offered 0 (hidden_items d))"
    using write_election_unfold [OF w] by blast
  show ?thesis
  proof (rule elected_cong)
    show "local_catalog d' = local_catalog d" "peer_catalog d' = peer_catalog d"
      "peer_excluded_folders d' = peer_excluded_folders d" by (subst d', simp)+
    fix p r assume "map_of (peer_catalog d) (p, g) = Some r"
    then have "hide_key (m_entry r) \<in> set offered" by (rule elect_offered [OF el])
    from pruned_hidden [OF this k]
    show "is_hidden (hidden_set (hidden_items d')) (m_entry r) = is_hidden (hidden_set (hidden_items d)) (m_entry r)"
      by (simp add: is_hidden_def Let_def h)
  qed
qed

subsection \<open>A sync\<close>

text \<open>The node's own step: a refresh, or only the first one.\<close>

lemma refresh_locked_catalog_ok:
  assumes "refresh_locked hash now listing rf tf d = (Inr st, d')" and ok: "catalog_ok hash d"
    and room: "\<And>entries. listing = Inr entries \<Longrightarrow> room d entries"
  shows "catalog_ok hash d' \<and> catalog_items d' = catalog_items d"
proof -
  have ik: "index_ok hash d" using ok by (simp add: catalog_ok_def)
  obtain entries where l: "listing = Inr entries" "rf = None" "tf = None"
    using refresh_locked_Inr [OF assms(1) index_okD(1) [OF ik]] by blast
  note S = refresh_spec [OF ik assms(1) [unfolded l] room [OF l(1)]]
  have eq: "catalog_items d' = catalog_items d" "peer_catalog d' = peer_catalog d" "hidden_items d' = hidden_items d"
    by (subst S(7), simp)+
  show ?thesis using ok S(1) by (simp add: catalog_ok_def eq)
qed

lemma ensure_indexed_catalog_ok:
  assumes "ensure_indexed hash now listing rf tf d = (Inr u, d')" and ok: "catalog_ok hash d"
    and room: "\<And>entries. listing = Inr entries \<Longrightarrow> room d entries"
  shows "catalog_ok hash d' \<and> catalog_items d' = catalog_items d"
  using assms(1) ok refresh_locked_catalog_ok [OF _ ok room]
  by (auto simp: ensure_indexed_def split: option.splits prod.splits sum.splits)

text \<open>The row of an item after a sync.\<close>

definition synced_row :: "database \<Rightarrow> database \<Rightarrow> string list \<Rightarrow> string \<Rightarrow> bool" where
  "synced_row d d' offs g \<longleftrightarrow> (case elected d' offs g of
      Some s \<Rightarrow> (\<exists>r. map_of (catalog_items d') g = Some r \<and> state_of_row r = s
                    \<and> i_strm_path r = strm_of (map_of (catalog_items d) g))
    | None \<Rightarrow> map_of (catalog_items d') g = (case map_of (catalog_items d) g of
          None \<Rightarrow> None
        | Some r \<Rightarrow> if i_local r \<or> i_strm_path r = None then None
                    else Some (if i_primary_peer_id r = None then r else cleared r)))"

lemma election_rows:
  assumes ok: "catalog_ok hash d" and el: "elect fault d offs = Inr (desired, offered)"
    and w: "write_election rf tf now desired offered d = (Inr st, d')" and ne: "[] \<notin> set offs"
  shows "synced_row d d' offs g"
proof -
  have k: "keyed (local_catalog d)" "keyed (peer_catalog d)" "keyed (hidden_items d)" "keyed (catalog_items d)"
    using ok by (auto simp: catalog_ok_def intro: index_ok_keyed)
  have ids: "\<And>g r. map_of (local_catalog d) g = Some r \<Longrightarrow> e_global_id (l_entry r) = g"
    using ok by (auto simp: catalog_ok_def intro: index_ok_ids)
  have E: "keyed desired \<and> map_of desired g = elected d offs g" for g
    by (rule elect_ok [OF el k(1,2) ids])
  have kd: "keyed desired" using E by blast
  have own: "\<And>s. map_of desired g = Some s \<Longrightarrow> st_local s \<or> st_peer_id s \<noteq> []"
    using E elected_owner [OF _ ne] by metis
  have named: "\<And>r. map_of (catalog_items d) g = Some r \<Longrightarrow> i_primary_peer_id r \<noteq> Some []"
    using ok by (simp add: catalog_ok_def)
  have "elected d' offs g = map_of desired g" using E write_election_elected [OF w el k(3)] by simp
  with write_election_row [OF w kd k(4) own named] show ?thesis
    unfolding synced_row_def by simp
qed

lemma sync_local_catalog_ok:
  assumes "sync_local env rl d = (Inr x, d')" and ok: "catalog_ok (se_hash env) d"
    and room: "\<And>entries. se_listing env = Inr entries \<Longrightarrow> room d entries"
  shows "catalog_ok (se_hash env) d' \<and> catalog_items d' = catalog_items d"
  using assms(1) refresh_locked_catalog_ok [OF _ ok room] ensure_indexed_catalog_ok [OF _ ok room]
  by (auto simp: sync_local_def Let_def split: if_splits prod.splits sum.splits)

lemma sync_cases:
  assumes "sync env rl all d = Some (Inr st, d')"
  obtains x d1 sts d2 d3 desired offered est
  where "sync_local env rl d = (Inr x, d1)"
    and "pull_peers (se_pull env) pull_page_size (se_fuel env) (online_ids all) d1 = Some (sts, d2)"
    and "prune_removed_peers (se_prune_fault env) (map p_id all) d2 = (Inr (), d3)"
    and "elect (se_elect_fault env) d3 (offering_ids (se_now env) all) = Inr (desired, offered)"
    and "write_election (se_write_rfault env) (se_write_tfault env) (unix (se_now env)) desired offered d3 = (Inr est, d')"
  using assms unfolding sync_def Let_def
  by (clarsimp split: prod.splits sum.splits option.splits)

lemma sync_rows:
  assumes run: "sync env refreshLocal all d = Some (Inr st, d')" and ok: "catalog_ok (se_hash env) d"
    and room: "\<And>entries. se_listing env = Inr entries \<Longrightarrow> room d entries"
    and ids: "[] \<notin> p_id ` set all"
  shows "synced_row d d' (offering_ids (se_now env) all) g"
  using run
proof (rule sync_cases)
  fix x d1 sts d2 d3 desired offered est
  assume 1: "sync_local env refreshLocal d = (Inr x, d1)"
    and 2: "pull_peers (se_pull env) pull_page_size (se_fuel env) (online_ids all) d1 = Some (sts, d2)"
    and 3: "prune_removed_peers (se_prune_fault env) (map p_id all) d2 = (Inr (), d3)"
    and 4: "elect (se_elect_fault env) d3 (offering_ids (se_now env) all) = Inr (desired, offered)"
    and 5: "write_election (se_write_rfault env) (se_write_tfault env) (unix (se_now env)) desired offered d3 = (Inr est, d')"
  have d1: "catalog_ok (se_hash env) d1" "catalog_items d1 = catalog_items d"
    using sync_local_catalog_ok [OF 1 ok room] by blast+
  have m: "mirrors_only d1 d3" using mirrors_only_trans [OF pull_peers_only [OF 2] prune_only [OF 3]] .
  have d3: "catalog_ok (se_hash env) d3" by (rule mirrors_only_catalog_ok [OF m d1(1)])
  have eq: "catalog_items d3 = catalog_items d"
    using m d1(2) unfolding mirrors_only_def by (cases d1; cases d3) simp
  have ne: "[] \<notin> set (offering_ids (se_now env) all)" using ids by (auto simp: offering_ids_def)
  show ?thesis using election_rows [OF d3 4 5 ne, of g] unfolding synced_row_def eq .
qed

end
