(* ===== verification/CatalogTheorems.thy ===== *)
theory CatalogTheorems
  imports SyncProps
begin

section \<open>The catalog's properties\<close>

text \<open>
  What the index, the change feed, the puller, the election and a whole sync promise, each as one
  theorem over the model's operations, with concrete runs as witnesses.
\<close>

subsection \<open>Concrete data for the witnesses\<close>

definition ex_entry :: "string \<Rightarrow> string \<Rightarrow> entry" where
  "ex_entry g name = \<lparr>e_global_id = g, e_item_id = ''i'' @ g, e_name = name, e_year = 1999, e_media_type = ''movie'',
     e_tmdb_id = [], e_tvdb_id = [], e_imdb_id = [], e_path = ''/m/'' @ g, e_series_global_id = [],
     e_series_name = [], e_season_number = 0, e_episode_number = 0\<rparr>"

definition ex_row :: "string \<Rightarrow> int \<Rightarrow> bool \<Rightarrow> local_row" where
  "ex_row g n deleted = \<lparr>l_entry = ex_entry g g, l_hash = g, l_rev = n, l_deleted = deleted, l_hidden = False, l_updated_at = 0\<rparr>"

text \<open>A database just opened, one with an index of two items, and one whose garbage collection went past both.\<close>

definition ex_new :: database where
  "ex_new = empty_db\<lparr>settings_tbl := [(epoch_key, ''ep'')]\<rparr>"

definition ex_indexed :: database where
  "ex_indexed = empty_db\<lparr>local_catalog := [(''a'', ex_row ''a'' 1 False), (''b'', ex_row ''b'' 2 False)],
     settings_tbl := [(epoch_key, ''ep''), (head_key, ''2''), (indexed_at_key, ''5'')]\<rparr>"

definition ex_purged :: database where
  "ex_purged = ex_indexed\<lparr>settings_tbl := [(epoch_key, ''ep''), (head_key, ''3''), (min_rev_key, ''3''), (indexed_at_key, ''5'')]\<rparr>"

definition ex_env :: "database \<Rightarrow> pull_env" where
  "ex_env s = \<lparr>pe_fetch = (\<lambda>_. changes None s), pe_legacy = Inr [], pe_fault = (\<lambda>_. None),
     pe_load_fault = None, pe_mark_fault = None, pe_now = 7\<rparr>"

lemma ex_still: "feed.still s (ex_env s)"
  by (simp add: feed.still_def ex_env_def)

lemma ex_new_settings: "feed_settings ex_new 0 0"
  by code_simp

lemma ex_new_ok: "index_ok e_name ex_new"
  unfolding index_ok_def using ex_new_settings
  by (intro exI [of _ 0]) (simp add: ex_new_def empty_db_def idx_ok_def rev_ok_def hash_ok_def)

lemma ex_rows: "map_of (local_catalog ex_indexed) g
     = (if g = ''a'' then Some (ex_row ''a'' 1 False) else if g = ''b'' then Some (ex_row ''b'' 2 False) else None)"
  by (simp add: ex_indexed_def)

lemma ex_rows_ok:
  assumes "2 \<le> h"
  shows "rev_ok (local_catalog ex_indexed) h" and "hash_ok e_name (local_catalog ex_indexed)"
  using assms by (auto simp: rev_ok_def hash_ok_def ex_rows ex_row_def ex_entry_def keyed_def ex_indexed_def split: if_splits)

lemma ex_indexed_settings: "feed_settings ex_indexed 2 0"
  by code_simp

lemma ex_purged_settings: "feed_settings ex_purged 3 3"
  by code_simp

lemma ex_indexed_ok: "index_ok e_name ex_indexed" and ex_purged_ok: "index_ok e_name ex_purged"
proof -
  have tomb: "l_deleted (ex_row g n False) = False" "e_global_id (l_entry (ex_row g n b)) = g" for g n b
    by (simp_all add: ex_row_def ex_entry_def)
  have "idx_ok (local_catalog ex_indexed) h m" if "2 \<le> h" "0 \<le> m" "m \<le> h" for h m
    using that ex_rows_ok(1) by (auto simp: idx_ok_def ex_rows tomb split: if_splits)
  then have i: "idx_ok (local_catalog ex_indexed) 2 0" "idx_ok (local_catalog ex_indexed) 3 3" by simp_all
  show "index_ok e_name ex_indexed"
    unfolding index_ok_def using ex_indexed_settings i(1) ex_rows_ok(2) [of 2] by blast
  have "local_catalog ex_purged = local_catalog ex_indexed" by (simp add: ex_purged_def)
  then show "index_ok e_name ex_purged"
    unfolding index_ok_def using ex_purged_settings i(2) ex_rows_ok(2) [of 2] by auto
qed

lemma refresh_runs:
  "feed_settings d h m \<Longrightarrow> \<exists>rs. refresh_locked hash now (Inr es) None None d
      = (Inr rs, snd (refresh_locked hash now (Inr es) None None d))"
  by (cases "refresh_tx hash (hidden_set (hidden_items d)) now (collect_current es []) h d")
     (simp add: refresh_locked_ok)

subsection \<open>Replication\<close>

text \<open>C1: Whatever happened before between a serving node and a puller (refreshes, pages, failed
  pages, requested resyncs, a recreated server database, pulls from other peers, pruning), once the
  last page of a pull is applied the puller's mirror of that peer holds exactly the items the
  server then offers, with their current entries, and nothing else.\<close>

theorem complete_pull_mirrors:
  assumes "net_reach hash p n s" and "0 < n" and "net_step hash p n s LastPage s'"
  shows "map_option m_entry (map_of (peer_catalog (cl s')) (p, g)) = visible (local_catalog (sv s)) g"
  using last_page_mirrors [OF assms] by (simp add: mirrors_def row_value_feed)

definition ex_refreshed :: database where
  "ex_refreshed = snd (refresh_locked e_name 5 (Inr [ex_entry ''a'' ''x'', ex_entry ''b'' ''y'']) None None ex_new)"

definition ex_pulled :: database where
  "ex_pulled = snd (snd (pull_page ''p'' (changes None ex_refreshed [] 0 9) None (zero_cursor, no_pull_stats ''p'', empty_db)))"

lemma ex_reach:
  "net_reach e_name ''p'' 9 \<lparr>sv = ex_refreshed, cl = empty_db, running = Some zero_cursor\<rparr>"
proof -
  let ?s0 = "\<lparr>sv = ex_new, cl = empty_db, running = None\<rparr>"
  have 0: "net_reach e_name ''p'' 9 ?s0"
    by (rule net_reach.start [OF ex_new_ok]) (simp_all add: empty_db_def feed_epoch_def ex_new_def get_setting_def)
  obtain rs where rs: "refresh_locked e_name 5 (Inr [ex_entry ''a'' ''x'', ex_entry ''b'' ''y'']) None None ex_new = (Inr rs, ex_refreshed)"
    unfolding ex_refreshed_def using refresh_runs [OF ex_new_settings] by blast
  have "room ex_new [ex_entry ''a'' ''x'', ex_entry ''b'' ''y'']" by code_simp
  then have 1: "net_step e_name ''p'' 9 ?s0 Refresh (?s0\<lparr>sv := ex_refreshed\<rparr>)"
    using rs by (intro net_step.refresh) simp_all
  have "load_cursor None empty_db ''p'' = Inr zero_cursor" by (simp add: load_cursor_def empty_db_def)
  then have 2: "net_step e_name ''p'' 9 (?s0\<lparr>sv := ex_refreshed\<rparr>) Begin (?s0\<lparr>sv := ex_refreshed, running := Some zero_cursor\<rparr>)"
    using net_step.begin_pull [of "?s0\<lparr>sv := ex_refreshed\<rparr>" "''p''" zero_cursor] by simp
  show ?thesis using net_reach.step [OF net_reach.step [OF 0 1] 2] by simp
qed

theorem complete_pull_mirrors_witness:
  "map_option m_entry (map_of (peer_catalog ex_pulled) (''p'', ''b'')) = visible (local_catalog ex_refreshed) ''b''
     \<and> map_option m_entry (map_of (peer_catalog ex_pulled) (''p'', ''b'')) = Some (ex_entry ''b'' ''y'')"
proof -
  let ?s = "\<lparr>sv = ex_refreshed, cl = empty_db, running = Some zero_cursor\<rparr>"
  have fin: "fst (pull_page ''p'' (changes None ex_refreshed [] 0 9) None (zero_cursor, no_pull_stats ''p'', empty_db)) = Done None"
    by code_simp
  from fin obtain st2 where "pull_page ''p'' (changes None ex_refreshed [] 0 9) None (zero_cursor, no_pull_stats ''p'', empty_db)
      = (Done None, st2, ex_pulled)"
    unfolding ex_pulled_def by (metis prod.collapse)
  then have "net_step e_name ''p'' 9 ?s LastPage (?s\<lparr>cl := ex_pulled, running := None\<rparr>)"
    by (intro net_step.last_page [of _ zero_cursor]) (simp_all add: zero_cursor_def)
  from complete_pull_mirrors [OF ex_reach _ this, of "''b''"]
  have "map_option m_entry (map_of (peer_catalog ex_pulled) (''p'', ''b'')) = visible (local_catalog ex_refreshed) ''b''" by simp
  moreover have "visible (local_catalog ex_refreshed) ''b'' = Some (ex_entry ''b'' ''y'')" by code_simp
  ultimately show ?thesis by simp
qed

subsection \<open>When a pull ends\<close>

text \<open>A feed that stays as it is while it is pulled; the first page from scratch decides.\<close>

lemma scratch_page:
  assumes ok: "index_ok hash d" and f: "changes None d ep c n = Inr f" and z: "f_reset f \<or> c = 0"
    and f0: "changes None d [] 0 n = Inr f0"
  shows "f_more f = f_more f0 \<and> f_next f = f_next f0"
  using f f0 z by (auto simp: changes_eq [OF index_okD(1) [OF ok]] Let_def reset_reason_def)

text \<open>C4: A pull from a server that does not change meanwhile returns without error, within as many
  pages as the head revision plus two, whatever the cursor it starts from, provided that the first
  page of a listing from scratch is the last one or reaches past the garbage collection's
  horizon.\<close>

theorem pull_returns:
  assumes "index_ok hash d" and "0 < n" and "feed_epoch d \<noteq> []" and "feed.still d env"
    and "changes None d [] 0 n = Inr f0" and "f_more f0 \<longrightarrow> feed_low d \<le> f_next f0"
    and "pe_load_fault env = None" and "nat (feed_head d) + 1 < fuel"
  shows "\<exists>st db'. pull_peer env n fuel p db = Some (None, st, db')"
proof -
  obtain c where c: "load_cursor None db p = Inr c" using load_cursor_total by blast
  have "\<exists>st db'. pull_loop env n p fuel 0 (c, no_pull_stats p, db) = Some (None, st, db')"
  proof (rule feed.loop_returns [OF assms(1-4) _ assms(8)])
    fix ep c f assume "changes None d ep c n = Inr f" "f_reset f \<or> c = 0" "f_more f"
    then show "feed_low d \<le> f_next f" using scratch_page [OF assms(1) _ _ assms(5)] assms(6) by auto
  qed
  then show ?thesis using c by (simp add: pull_peer_def assms(7))
qed

theorem pull_returns_witness:
  "\<exists>st db'. pull_peer (ex_env ex_indexed) 1 4 ''p'' empty_db = Some (None, st, db')"
proof -
  have e: "feed_epoch ex_indexed \<noteq> []" and h: "feed_head ex_indexed = 2"
    and l: "feed_low ex_indexed = 0" and m: "pe_load_fault (ex_env ex_indexed) = None"
    by code_simp+
  obtain f0 where f0: "changes None ex_indexed [] 0 1 = Inr f0"
    using feed.serve_total [OF ex_indexed_ok, of 1] by auto
  have "0 \<le> f_next f0" using feed.serve_next [OF ex_indexed_ok _ f0] h by (auto split: if_splits)
  with pull_returns [OF ex_indexed_ok _ e ex_still f0 _ m] l h show ?thesis by simp
qed

text \<open>C5: When the first page from scratch has a successor but ends below the garbage collection's
  horizon, a pull from scratch never ends: every second page is answered by a reset, so the loop
  runs out of every amount of fuel.\<close>

theorem pull_never_returns:
  assumes "index_ok hash d" and "0 < n" and "feed.still d env"
    and "changes None d [] 0 n = Inr f0" and "f_more f0" and "f_next f0 < feed_low d"
    and "map_of (peer_sync_state db) p = None" and "pe_load_fault env = None"
  shows "pull_peer env n fuel p db = None"
proof -
  have "load_cursor None db p = Inr zero_cursor" by (simp add: load_cursor_def assms(7))
  moreover have "pull_loop env n p fuel 0 (zero_cursor, no_pull_stats p, db) = None"
  proof (rule feed.loop_never_returns [OF assms(1-3)])
    fix ep c f assume "changes None d ep c n = Inr f" "f_reset f \<or> c = 0"
    then show "f_more f \<and> f_next f < feed_low d" using scratch_page [OF assms(1) _ _ assms(4)] assms(5,6) by auto
  qed (simp add: zero_cursor_def)
  ultimately show ?thesis by (simp add: pull_peer_def assms(8))
qed

theorem pull_never_returns_witness: "pull_peer (ex_env ex_purged) 1 1000 ''p'' empty_db = None"
proof -
  obtain f0 where f0: "changes None ex_purged [] 0 1 = Inr f0"
    using feed.serve_total [OF ex_purged_ok, of 1] by auto
  have "(case changes None ex_purged [] 0 1 of Inl _ \<Rightarrow> False | Inr f \<Rightarrow> f_more f \<and> f_next f < feed_low ex_purged)"
    by code_simp
  then have "f_more f0" "f_next f0 < feed_low ex_purged" by (simp_all only: f0 sum.case)
  with pull_never_returns [OF ex_purged_ok _ ex_still f0] show ?thesis by (simp add: empty_db_def ex_env_def)
qed

subsection \<open>The index\<close>

text \<open>C6: A refresh that succeeds makes the node offer exactly what the library lists: for every
  global id the last listed entry with it, unless the user hid it; items no longer listed, and only
  they, are withdrawn. (The hashes of a listed entry and of the row stored under its id differ when
  the entries do.)\<close>

theorem refresh_offers_listing:
  assumes "index_ok hash d" and "refresh_locked hash now (Inr entries) None None d = (Inr st, d')"
    and "room d entries" and "no_collision hash (local_catalog d) (collect_current entries [])"
  shows "visible (local_catalog d') g
     = offered_listing (hidden_set (hidden_items d)) (collect_current entries []) g"
proof -
  note S = refresh_spec [OF assms(1-3)]
  obtain lc2 rv where lc2: "map_of lc2 g = looped_row hash (hidden_set (hidden_items d)) now (local_catalog d) (collect_current entries []) g rv"
    and gc: "\<And>g. map_of (local_catalog d') g = (case map_of lc2 g of None \<Rightarrow> None
           | Some r \<Rightarrow> if l_deleted r \<and> l_rev r \<le> feed_low d' then None else Some r)"
    using S(8) by blast
  show ?thesis
    unfolding purged_visible [OF gc] by (rule looped_visible [OF lc2 index_okD(3) [OF assms(1)] assms(4)])
qed

theorem refresh_offers_listing_witness:
  "visible (local_catalog (snd (refresh_locked e_name 5 (Inr [ex_entry ''b'' ''z'']) None None ex_indexed))) ''b'' = Some (ex_entry ''b'' ''z'')
   \<and> visible (local_catalog (snd (refresh_locked e_name 5 (Inr [ex_entry ''b'' ''z'']) None None ex_indexed))) ''a'' = None"
proof -
  let ?es = "[ex_entry ''b'' ''z'']"
  obtain st d' where r: "refresh_locked e_name 5 (Inr ?es) None None ex_indexed = (Inr st, d')"
    using refresh_runs [OF ex_indexed_settings] by blast
  have room: "room ex_indexed ?es" by code_simp
  have cur: "collect_current ?es [] = [(''b'', ex_entry ''b'' ''z'')]" by code_simp
  have nc: "no_collision e_name (local_catalog ex_indexed) (collect_current ?es [])"
    unfolding cur by (simp add: no_collision_def ex_rows ex_row_def ex_entry_def)
  have h: "hidden_set (hidden_items ex_indexed) = []" by code_simp
  note T = refresh_offers_listing [OF ex_indexed_ok r room nc]
  have "visible (local_catalog d') ''b'' = Some (ex_entry ''b'' ''z'')" "visible (local_catalog d') ''a'' = None"
    unfolding T cur h by code_simp+
  then show ?thesis by (simp add: r)
qed

text \<open>C7: A refresh keeps the index well formed (revisions unique, positive and at most the head,
  every row under its entry's global id with the entry's hash, tombstones above the horizon),
  leaves the epoch alone, never moves the head or the horizon back, and raises the head by exactly
  the number of changes it reports.\<close>

theorem refresh_keeps_index:
  assumes "index_ok hash d" and "refresh_locked hash now (Inr entries) None None d = (Inr st, d')" and "room d entries"
  shows "index_ok hash d' \<and> feed_epoch d' = feed_epoch d \<and> feed_low d \<le> feed_low d'
     \<and> feed_head d' = feed_head d + int (stats_changed st)"
  using refresh_spec [OF assms] by simp

theorem refresh_keeps_index_witness:
  "index_ok e_name ex_refreshed \<and> feed_head ex_refreshed = 2"
proof -
  let ?es = "[ex_entry ''a'' ''x'', ex_entry ''b'' ''y'']"
  obtain st where r: "refresh_locked e_name 5 (Inr ?es) None None ex_new = (Inr st, ex_refreshed)"
    unfolding ex_refreshed_def using refresh_runs [OF ex_new_settings] by blast
  have "room ex_new ?es" by code_simp
  from refresh_keeps_index [OF ex_new_ok r this] have "index_ok e_name ex_refreshed" by simp
  moreover have "feed_head ex_refreshed = 2" by code_simp
  ultimately show ?thesis by simp
qed

text \<open>Refreshing again with an unchanged library and unchanged hides changes nothing: no change
  is counted and the head stays, so pullers at the head get an empty page.\<close>

lemma refresh_again_is_quiet:
  assumes "index_ok hash d" and "refresh_locked hash now (Inr entries) None None d = (Inr st, d')" and "room d entries"
    and "refresh_locked hash now' (Inr entries) None None d' = (Inr st', d'')"
  shows "stats_changed st' = 0 \<and> rs_head st' = feed_head d'"
proof -
  note S = refresh_spec [OF assms(1-3)]
  obtain lc2 where lc2: "\<And>g. \<exists>rv. map_of lc2 g = looped_row hash (hidden_set (hidden_items d)) now (local_catalog d) (collect_current entries []) g rv"
    and gc: "\<And>g. map_of (local_catalog d') g = (case map_of lc2 g of None \<Rightarrow> None
           | Some r \<Rightarrow> if l_deleted r \<and> l_rev r \<le> feed_low d' then None else Some r)"
    using S(8) by blast
  have hid: "hidden_items d' = hidden_items d" by (subst S(7)) simp
  have ins: "in_step hash (hidden_set (hidden_items d')) (local_catalog d') (collect_current entries [])"
    unfolding hid by (rule looped_in_step [OF lc2 gc])
  have "refresh_tx hash (hidden_set (hidden_items d')) now' (collect_current entries []) (feed_head d') d' = (st', d'')"
    using refresh_locked_Inr [OF assms(4) index_okD(1) [OF S(1)]] by auto
  from refresh_tx_in_step [OF this ins index_ok_keyed [OF S(1)]] show ?thesis .
qed

subsection \<open>The change feed\<close>

text \<open>C8: A page of the feed is complete up to its cursor: it holds exactly the changes after the
  requested revision (after 0 when the server answers with a reset) up to the revision to ask for
  next, at most one per item, as tombstones for withdrawn and hidden items (which a listing from
  scratch leaves out); the next revision lies strictly further when more follows and is the head
  otherwise; and the server resets exactly when the cursor is of another epoch, out of range or
  older than the garbage collection's horizon.\<close>

theorem changes_page:
  assumes "index_ok hash d" and "0 < n" and "changes None d ep c n = Inr f" and "start = (if f_reset f then 0 else c)"
  shows "set (f_changes f) = {change_at g r x | g r x. feed_row d g = Some (r, x) \<and> start < r
             \<and> r \<le> f_next f \<and> (start = 0 \<longrightarrow> x \<noteq> None)}
     \<and> distinct (map ch_global_id (f_changes f))
     \<and> (if f_more f then start < f_next f \<and> f_next f \<le> feed_head d else f_next f = feed_head d)
     \<and> (f_reset f \<longleftrightarrow> ep = [] \<or> ep \<noteq> feed_epoch d \<or> c < 0 \<or> feed_head d < c \<or> (0 < c \<and> c < feed_low d))"
proof (intro conjI)
  show "set (f_changes f) = {change_at g r x | g r x. feed_row d g = Some (r, x) \<and> start < r
             \<and> r \<le> f_next f \<and> (start = 0 \<longrightarrow> x \<noteq> None)}"
    by (rule feed.serve_page [OF assms])
  show "distinct (map ch_global_id (f_changes f))" by (rule feed.serve_distinct [OF assms(1-3)])
  show "if f_more f then start < f_next f \<and> f_next f \<le> feed_head d else f_next f = feed_head d"
    using feed.serve_next [OF assms(1-3)] unfolding assms(4) .
  show "f_reset f \<longleftrightarrow> ep = [] \<or> ep \<noteq> feed_epoch d \<or> c < 0 \<or> feed_head d < c \<or> (0 < c \<and> c < feed_low d)"
    using feed.serve_reset [OF assms(1-3)] by (auto simp: usable_def)
qed

theorem changes_page_witness:
  "\<exists>f. changes None ex_indexed ''ep'' 1 9 = Inr f \<and> \<not> f_reset f \<and> \<not> f_more f \<and> f_next f = 2
     \<and> distinct (map ch_global_id (f_changes f))"
proof -
  obtain f where f: "changes None ex_indexed ''ep'' 1 9 = Inr f"
    using feed.serve_total [OF ex_indexed_ok, of 9] by fastforce
  have "case changes None ex_indexed ''ep'' 1 9 of Inl _ \<Rightarrow> False | Inr f \<Rightarrow> \<not> f_reset f \<and> \<not> f_more f \<and> f_next f = 2" by code_simp
  then have v: "\<not> f_reset f \<and> \<not> f_more f \<and> f_next f = 2" unfolding f sum.case .
  from changes_page [OF ex_indexed_ok _ f refl] show ?thesis using f v by simp
qed

text \<open>The feed's handler answers a cursor or a page size that is not a number, and a page size
  that is not positive, with 400 and leaves the database alone; every page it serves has at least
  one and at most 5000 rows, 1000 when none was asked for.\<close>

lemma changes_query_sound:
  "(case changes_query sinceQ limitQ of
      Inl msg \<Rightarrow> changes_handler hash now listing rf tf cf d ep sinceQ limitQ = (HttpError 400 msg, d)
        \<and> (parse_int64 sinceQ = None \<and> sinceQ \<noteq> [] \<or> limitQ \<noteq> [] \<and> (case parse_int64 limitQ of None \<Rightarrow> True | Some l \<Rightarrow> l \<le> 0))
    | Inr (since, limit) \<Rightarrow> 0 < limit \<and> limit \<le> 5000 \<and> (limitQ = [] \<longrightarrow> limit = 1000)
        \<and> (if sinceQ = [] then since = 0 else parse_int64 sinceQ = Some since))"
proof (cases "changes_query sinceQ limitQ")
  case (Inl msg)
  then show ?thesis
    by (auto simp: changes_handler_def changes_query_def Let_def split: if_splits option.splits)
next
  case (Inr sl)
  obtain since limit where sl: "sl = (since, limit)" by (cases sl)
  have e: "parse_int64 [] = None" by (simp add: parse_int64_def parse_nat_def)
  show ?thesis
    using Inr unfolding sl
    by (auto simp: changes_query_def Let_def default_changes_limit_def max_changes_limit_def e split: if_splits option.splits)
qed

lemma prune_error: "prune_removed_peers fault known d = (Inl e, d') \<Longrightarrow> d' = d"
  unfolding prune_removed_peers_def by (rule with_tx_error)

text \<open>A step of the catalog that reports an error has changed nothing: a refresh (whether the
  library, a read or the transaction failed), the first indexing, a page being applied, the
  pruning of removed peers, the writing of an election, and hiding an item.\<close>

lemma catalog_errors_change_nothing:
  "(refresh_locked hash now listing rf tf d = (Inl e, d') \<or> ensure_indexed hash now listing rf tf d = (Inl e, d')
      \<or> apply_changes tf p cur cs sweep d = (Inl e, d') \<or> prune_removed_peers tf known d = (Inl e, d')
      \<or> write_election rf tf now desired offered d = (Inl e, d') \<or> set_hidden tf now d key hidden = (Inl e, d'))
     \<Longrightarrow> d' = d"
  by (elim disjE)
     (fact refresh_locked_error ensure_indexed_error apply_changes_error prune_error write_election_error set_hidden_error)+

subsection \<open>The election and a whole sync\<close>

text \<open>C9: The election chooses by its rule: a local copy beats every peer's; otherwise the
  offering peer with the least id whose copy is outside that peer's excluded folders; otherwise
  the least offering peer, marked as hidden by its folder; an item nobody offers gets no row.\<close>

theorem election_computes_rule:
  assumes "elect fault d offs = Inr (desired, offered)" and "keyed (local_catalog d)" and "keyed (peer_catalog d)"
    and "\<And>g r. map_of (local_catalog d) g = Some r \<Longrightarrow> e_global_id (l_entry r) = g"
  shows "map_of desired g = elected d offs g"
  using elect_ok [OF assms] by blast

lemma elect_total: "\<exists>desired offered. elect None d offs = Inr (desired, offered)"
  by (simp add: elect_def split: prod.split)

lemma write_election_total: "\<exists>st d'. write_election None None now desired offered d = (Inr st, d')"
  by (simp add: write_election_def with_tx_def Let_def split: prod.split)

definition ex_mirrored :: database where
  "ex_mirrored = ex_indexed\<lparr>peer_catalog := [((''q'', ''a''), \<lparr>m_entry = ex_entry ''a'' ''qa'', m_gen = 1\<rparr>),
       ((''q'', ''c''), \<lparr>m_entry = ex_entry ''c'' ''qc'', m_gen = 1\<rparr>), ((''p'', ''c''), \<lparr>m_entry = ex_entry ''c'' ''pc'', m_gen = 4\<rparr>),
       ((''p'', ''d''), \<lparr>m_entry = ex_entry ''d'' ''pd'', m_gen = 4\<rparr>)],
     peer_excluded_folders := [((''p'', ''/m''), ())]\<rparr>"

lemma ex_mirrored_keyed: "keyed (local_catalog ex_mirrored)" "keyed (peer_catalog ex_mirrored)"
  by (simp_all add: ex_mirrored_def ex_indexed_def keyed_def)

lemma ex_mirrored_ids: "map_of (local_catalog ex_mirrored) g = Some r \<Longrightarrow> e_global_id (l_entry r) = g"
  using ex_rows [of g] by (auto simp: ex_mirrored_def ex_row_def ex_entry_def split: if_splits)

theorem election_computes_rule_witness:
  "\<exists>desired offered. elect None ex_mirrored [''q'', ''p''] = Inr (desired, offered)
     \<and> map_option st_local (map_of desired ''a'') = Some True
     \<and> map_option st_peer_id (map_of desired ''c'') = Some ''q''
     \<and> map_option st_hidden_folder (map_of desired ''d'') = Some True"
proof -
  obtain desired offered where e: "elect None ex_mirrored [''q'', ''p''] = Inr (desired, offered)"
    using elect_total by blast
  note R = election_computes_rule [OF e ex_mirrored_keyed ex_mirrored_ids]
  have "map_option st_local (elected ex_mirrored [''q'', ''p''] ''a'') = Some True"
    "map_option st_peer_id (elected ex_mirrored [''q'', ''p''] ''c'') = Some ''q''"
    "map_option st_hidden_folder (elected ex_mirrored [''q'', ''p''] ''d'') = Some True"
    by code_simp+
  then show ?thesis using e R by auto
qed

text \<open>C10: After a sync that succeeds, every row of the catalog is the one the election rule chooses
  from the final index, mirrors, hides and excluded folders, and keeps the \<open>.strm\<close> path recorded
  before; an item the rule no longer chooses is gone, unless a \<open>.strm\<close> file is still recorded for
  it, in which case its row is kept without an owner.\<close>

theorem sync_elects:
  assumes "sync env refreshLocal all d = Some (Inr st, d')" and "catalog_ok (se_hash env) d"
    and "\<And>entries. se_listing env = Inr entries \<Longrightarrow> room d entries" and "[] \<notin> p_id ` set all"
  shows "case elected d' (offering_ids (se_now env) all) g of
      Some s \<Rightarrow> (\<exists>r. map_of (catalog_items d') g = Some r \<and> state_of_row r = s
                    \<and> i_strm_path r = strm_of (map_of (catalog_items d) g))
    | None \<Rightarrow> map_of (catalog_items d') g = (case map_of (catalog_items d) g of
          None \<Rightarrow> None
        | Some r \<Rightarrow> if i_local r \<or> i_strm_path r = None then None
                    else Some (if i_primary_peer_id r = None then r else cleared r))"
  using sync_rows [OF assms] unfolding synced_row_def .

definition ex_sync_env :: sync_env where
  "ex_sync_env = \<lparr>se_hash = e_name, se_now = 5, se_listing = Inr [ex_entry ''a'' ''x''], se_rfault = None, se_tfault = None,
     se_pull = (\<lambda>_. ex_env ex_indexed), se_fuel = 9, se_prune_fault = None, se_elect_fault = None,
     se_write_rfault = None, se_write_tfault = None\<rparr>"

theorem sync_elects_witness:
  "map_option i_local (map_of (catalog_items (snd (the (sync ex_sync_env True [] ex_new)))) ''a'') = Some True"
proof -
  let ?d' = "snd (the (sync ex_sync_env True [] ex_new))"
  have "case sync ex_sync_env True [] ex_new of None \<Rightarrow> False | Some (r, _) \<Rightarrow> \<not> isl r" by code_simp
  then obtain st where run: "sync ex_sync_env True [] ex_new = Some (Inr st, ?d')"
    by (auto split: option.splits prod.splits) (metis Inl_Inr_False isl_def sum.exhaust_sel)
  have ok: "catalog_ok (se_hash ex_sync_env) ex_new"
    using ex_new_ok by (simp add: catalog_ok_def ex_sync_env_def ex_new_def empty_db_def)
  have "room ex_new entries" if "se_listing ex_sync_env = Inr entries" for entries
  proof -
    have "entries = [ex_entry ''a'' ''x'']" using that by (simp add: ex_sync_env_def)
    moreover have "room ex_new [ex_entry ''a'' ''x'']" by code_simp
    ultimately show ?thesis by simp
  qed
  note T = sync_elects [OF run ok this, of "''a''"]
  have "map_option st_local (elected ?d' (offering_ids (se_now ex_sync_env) []) ''a'') = Some True" by code_simp
  with T show ?thesis by (auto simp: state_of_row_def split: option.splits)
qed

end
