(* ===== verification/PairingTheorems.thy ===== *)
theory PairingTheorems
  imports PeersProps
begin

section \<open>The properties of pairing and of the peer registry\<close>

text \<open>
  The client and invite store and its handlers, the ids, the heartbeat, the renaming and loading of
  peers, and the handlers that add peers; each property with its witness.
\<close>

subsection \<open>The client and invite store\<close>

lemma store_ok_pins_unique:
  assumes "store_ok (s, d)" shows "pins_unique (clients_tbl d)"
proof -
  have k: "keyed (as_clients s)" "keyed (clients_tbl d)" "mem_clients s = db_clients (clients_tbl d)"
    using assms by (simp_all add: store_ok_def)
  have "inj_on (cr_pin \<circ> snd) (set (clients_tbl d))"
  proof (rule inj_onI)
    fix a b assume ab: "a \<in> set (clients_tbl d)" "b \<in> set (clients_tbl d)" "(cr_pin \<circ> snd) a = (cr_pin \<circ> snd) b"
    obtain i r j q where e: "a = (i, r)" "b = (j, q)" by (cases a, cases b)
    have m: "map_of (clients_tbl d) i = Some r" "map_of (clients_tbl d) j = Some q"
      using ab k(2) by (simp_all add: e keyed_def)
    have p: "cr_pin r = cr_pin q" using ab(3) by (simp add: e)
    obtain c where c: "map_of (as_clients s) (cr_pin r) = Some c" "c_id c = i"
      using clients_agree [OF k, of "cr_pin r" i "cr_name r" "cr_created_at r"] m(1) by blast
    obtain c' where c': "map_of (as_clients s) (cr_pin q) = Some c'" "c_id c' = j"
      using clients_agree [OF k, of "cr_pin q" j "cr_name q" "cr_created_at q"] m(2) by blast
    have "i = j" using c c' p by simp
    with m show "a = b" by (simp add: e)
  qed
  moreover have "distinct (clients_tbl d)" using k(2) by (simp add: keyed_def distinct_map)
  ultimately show ?thesis by (simp add: pins_unique_def distinct_map)
qed

lemma row_of_pin_iff:
  assumes "store_ok (s, d)"
  shows "list_ex (\<lambda>(_, x). cr_pin x = pin) (clients_tbl d) \<longleftrightarrow> map_of (as_clients s) pin \<noteq> None"
proof -
  have k: "keyed (as_clients s)" "keyed (clients_tbl d)" "mem_clients s = db_clients (clients_tbl d)"
    using assms by (simp_all add: store_ok_def)
  have "list_ex (\<lambda>(_, x). cr_pin x = pin) (clients_tbl d) \<longleftrightarrow> (\<exists>i r. map_of (clients_tbl d) i = Some r \<and> cr_pin r = pin)"
    using k(2) by (auto simp: list_ex_iff keyed_map_of_eq)
  also have "\<dots> \<longleftrightarrow> map_of (as_clients s) pin \<noteq> None"
    using clients_agree [OF k, of pin] by blast
  finally show ?thesis .
qed

lemma row_of_id_iff:
  assumes "store_ok (s, d)" shows "map_of (clients_tbl d) i \<noteq> None \<longleftrightarrow> id_taken s i"
proof -
  have k: "keyed (as_clients s)" "keyed (clients_tbl d)" "mem_clients s = db_clients (clients_tbl d)"
    using assms by (simp_all add: store_ok_def)
  have "(\<exists>r. map_of (clients_tbl d) i = Some r) \<longleftrightarrow> (\<exists>p c. map_of (as_clients s) p = Some c \<and> c_id c = i)"
  proof
    assume "\<exists>r. map_of (clients_tbl d) i = Some r"
    then obtain r where "map_of (clients_tbl d) i = Some r" by blast
    then show "\<exists>p c. map_of (as_clients s) p = Some c \<and> c_id c = i"
      using clients_agree [OF k, of "cr_pin r" i "cr_name r" "cr_created_at r"] by blast
  next
    assume "\<exists>p c. map_of (as_clients s) p = Some c \<and> c_id c = i"
    then obtain p c where "map_of (as_clients s) p = Some c" "c_id c = i" by blast
    then show "\<exists>r. map_of (clients_tbl d) i = Some r"
      using clients_agree [OF k, of p i "c_name c" "unix (c_created_at c)"] by blast
  qed
  then show ?thesis by (simp add: id_taken_iff [OF k(1)])
qed

lemma insert_client_ok:
  assumes "store_ok (s, d)" and "map_of (as_clients s) (cr_pin r) = None \<Longrightarrow> \<not> id_taken s i"
  shows "insert_client i r (clients_tbl d) \<noteq> None"
  using assms(2) row_of_pin_iff [OF assms(1), of "cr_pin r"] row_of_id_iff [OF assms(1), of i]
  by (auto simp: insert_client_def)

definition ex_client_row :: client_row where
  "ex_client_row = \<lparr>cr_pin = ''pin1'', cr_name = ''nas'', cr_created_at = 10, cr_last_seen_at = None\<rparr>"

definition ex_clients :: database where
  "ex_clients = empty_db\<lparr>clients_tbl := [(''nas'', ex_client_row)],
     invites_tbl := [(''tmp'', \<lparr>ir_created_at = 5, ir_expires_at = 50\<rparr>)]\<rparr>"

definition ex_store :: auth_store where
  "ex_store = projr (new_store None ex_clients)"

lemma ex_store_eq: "new_store None ex_clients = Inr ex_store"
  by (simp add: ex_store_def new_store_def)

lemma ex_clients_keyed: "keyed (clients_tbl ex_clients)" "keyed (invites_tbl ex_clients)" "pins_unique (clients_tbl ex_clients)"
  by (simp_all add: ex_clients_def keyed_def pins_unique_def)

lemma ex_store_ok: "store_ok (ex_store, ex_clients)"
  by (rule new_store_ok [OF ex_store_eq ex_clients_keyed])

text \<open>C23: From the start of the node, after any sequence of invites, listings, cancellations,
  redemptions, revocations and contacts, any of which may fail to write, the clients and invites in
  memory are those in the database: a restart forgets nothing and admits nobody new.\<close>

theorem store_mirrors_database:
  assumes "new_store None d = Inr s" and "keyed (clients_tbl d)" and "keyed (invites_tbl d)" and "pins_unique (clients_tbl d)"
  shows "store_ok (snd (store_run ops (s, d)))"
  by (rule store_run_ok) (rule new_store_ok [OF assms])

theorem store_mirrors_database_witness:
  "store_ok (snd (store_run [Redeem None (20 * second) ''tmp'' ''pin2'' ''tv'' ''tv'', Revoke None ''nas'',
      Redeem None (21 * second) ''tmp'' ''pin3'' ''x'' ''x''] (ex_store, ex_clients)))
   \<and> map (c_id \<circ> snd) (as_clients (fst (snd (store_run [Redeem None (20 * second) ''tmp'' ''pin2'' ''tv'' ''tv'', Revoke None ''nas'',
      Redeem None (21 * second) ''tmp'' ''pin3'' ''x'' ''x''] (ex_store, ex_clients))))) = [''tv'']"
proof (rule conjI)
  show "map (c_id \<circ> snd) (as_clients (fst (snd (store_run [Redeem None (20 * second) ''tmp'' ''pin2'' ''tv'' ''tv'', Revoke None ''nas'',
      Redeem None (21 * second) ''tmp'' ''pin3'' ''x'' ''x''] (ex_store, ex_clients))))) = [''tv'']" by code_simp
qed (rule store_mirrors_database [OF ex_store_eq ex_clients_keyed])

text \<open>C16: An invite is single-use: over any sequence of operations, with any failures, the clients
  admitted with a temporary key are no more than the invites that were pending for it at the start or
  created since.\<close>

theorem invite_admits_once:
  "admitted_n tmp (fst (store_run ops sd)) \<le> pending_n tmp sd + created_n tmp (fst (store_run ops sd))"
  using run_pending [of tmp ops sd] by linarith

text \<open>A redemption succeeds exactly when the invite is pending and not expired, the write does
  not fail, and the id is free or the key is already a client's; then the invite is gone, the key is
  that client's, with the new name and its old id if it had one, and no other client changes. A
  redemption that fails changes nothing and says which of these was the cause.\<close>

lemma redeem_char:
  assumes ok: "store_ok (s, d)"
  shows "case redeem fault now tmp pin name cid (s, d) of
      (Inl e, s', d') \<Rightarrow> s' = s \<and> d' = d
         \<and> (if \<not> is_pending now s tmp then e = ErrInviteInvalid
            else if client_by_pin s pin = None \<and> id_taken s cid then e = ErrIDTaken
            else fault = Some e)
    | (Inr c, s', d') \<Rightarrow> is_pending now s tmp \<and> fault = None \<and> (client_by_pin s pin = None \<longrightarrow> \<not> id_taken s cid)
         \<and> (\<forall>t. \<not> is_pending t s' tmp) \<and> client_by_pin s' pin = Some c \<and> c_name c = name
         \<and> c_id c = (case client_by_pin s pin of None \<Rightarrow> cid | Some x \<Rightarrow> c_id x)
         \<and> (\<forall>p. p \<noteq> pin \<longrightarrow> client_by_pin s' p = client_by_pin s p)"
proof (cases "is_pending now s tmp")
  case False
  then show ?thesis
    by (cases "map_of (as_invites s) tmp") (simp_all add: is_pending_def redeem_def Let_def)
next
  case True
  then obtain iv where iv: "map_of (as_invites s) tmp = Some iv" "now < pi_expires_at iv"
    by (auto simp: is_pending_def split: option.splits)
  show ?thesis
  proof (cases "client_by_pin s pin = None \<and> id_taken s cid")
    case True
    then show ?thesis using iv by (simp add: redeem_def client_by_pin_def is_pending_def)
  next
    case free: False
    show ?thesis
    proof (cases fault)
      case (Some e)
      show ?thesis
        using free iv by (cases "map_of (as_clients s) pin") (simp_all add: redeem_def with_tx_def Let_def client_by_pin_def is_pending_def Some)
    next
      case None
      define row where "row c = \<lparr>cr_pin = pin, cr_name = name, cr_created_at = unix (c_created_at c), cr_last_seen_at = None\<rparr>" for c :: client
      show ?thesis
      proof (cases "map_of (as_clients s) pin")
        case new: None
        with free have nt: "\<not> id_taken s cid" by (simp add: client_by_pin_def)
        let ?c = "\<lparr>c_id = cid, c_pin = pin, c_name = name, c_created_at = now, c_last_seen_at = None\<rparr>"
        obtain t where t: "insert_client cid (row ?c) (clients_tbl d) = Some t"
          using insert_client_ok [OF ok, of "row ?c" cid] nt by blast
        show ?thesis
          using iv True new nt t unfolding row_def
          by (simp add: redeem_def with_tx_def Let_def None client_by_pin_def is_pending_def)
      next
        case (Some x)
        let ?c = "\<lparr>c_id = c_id x, c_pin = pin, c_name = name, c_created_at = c_created_at x, c_last_seen_at = c_last_seen_at x\<rparr>"
        have "cr_pin (row ?c) = pin" by (simp add: row_def)
        then obtain t where t: "insert_client (c_id x) (row ?c) (clients_tbl d) = Some t"
          using insert_client_ok [OF ok, of "row ?c" "c_id x"] Some by auto
        show ?thesis
          using iv True Some t unfolding row_def
          by (simp add: redeem_def with_tx_def Let_def None client_by_pin_def is_pending_def)
      qed
    qed
  qed
qed

text \<open>A revocation that succeeds removes the client with this id, from memory and from what the
  node loads when it starts again; every other client stays.\<close>

lemma revoke_forgets:
  assumes ok: "store_ok (s, d)" and rv: "revoke None cid (s, d) = (Inr (), s', d')"
  shows "\<not> id_taken s' cid
    \<and> (\<forall>s''. new_store None d' = Inr s'' \<longrightarrow> \<not> id_taken s'' cid)
    \<and> (\<forall>p c. client_by_pin s p = Some c \<and> c_id c \<noteq> cid \<longrightarrow> client_by_pin s' p = Some c)"
proof (intro conjI allI impI)
  show gone: "\<not> id_taken s' cid" by (rule revoked_gone [OF ok rv])
  have ok': "store_ok (s', d')" using revoke_ok [OF ok, of None cid] rv by simp
  fix s'' assume ns: "new_store None d' = Inr s''"
  have "keyed (clients_tbl d')" "keyed (invites_tbl d')" using ok' by (simp_all add: store_ok_def)
  from new_store_ok [OF ns this store_ok_pins_unique [OF ok']] have ok'': "store_ok (s'', d')" .
  from gone show "\<not> id_taken s'' cid" using row_of_id_iff [OF ok'] row_of_id_iff [OF ok''] by simp
next
  fix p c assume c: "client_by_pin s p = Some c \<and> c_id c \<noteq> cid"
  have s': "s' = s\<lparr>as_clients := tbl_delete (pin_of_id s cid) (as_clients s)\<rparr>" and ne: "pin_of_id s cid \<noteq> []"
    using rv by (auto simp: revoke_def Let_def split: if_splits)
  have "p \<noteq> pin_of_id s cid"
  proof
    assume p: "p = pin_of_id s cid"
    have k: "keyed (as_clients s)" using ok by (simp add: store_ok_def)
    have "id_taken s cid"
    proof (rule ccontr)
      assume "\<not> id_taken s cid"
      then have "\<forall>x \<in> set (as_clients s). c_id (snd x) \<noteq> cid" by (auto simp: id_taken_def list_ex_iff)
      then have "pin_of_id s cid = []"
        unfolding pin_of_id_def by (induction "as_clients s" rule: rev_induct) (auto intro: fold_invariant [where Q = "\<lambda>x. c_id (snd x) \<noteq> cid"])
      with ne show False ..
    qed
    then obtain q x where x: "map_of (as_clients s) q = Some x" "c_id x = cid" by (auto simp: id_taken_iff [OF k])
    with pin_of_id_eq [OF ok x(1)] c p show False by (simp add: client_by_pin_def)
  qed
  with c show "client_by_pin s' p = Some c" by (simp add: s' client_by_pin_def)
qed

subsection \<open>The pairing handler\<close>

text \<open>\<open>PairHandler\<close> answers 400 to a body it cannot read, to an invalid pin, and to the temporary
  key of the invite itself; 410 when the invite is not pending or expired; 500 when the id is taken or
  the write fails; 200 otherwise. The store and the database change only with the 200.\<close>

lemma pair_handler_outcome:
  assumes "store_ok (s, d)" and "fault \<noteq> Some ErrInviteInvalid"
  shows "case pair_handler assign nodeID version fault now callerPin body (s, d) of (resp, s', d') \<Rightarrow>
     status_of resp = (case body of
         None \<Rightarrow> 400
       | Some (pin, name) \<Rightarrow>
           if \<not> valid_pin pin \<or> pin = callerPin then 400
           else if \<not> is_pending now s callerPin then 410
           else if fault \<noteq> None \<or> client_by_pin s pin = None \<and> id_taken s (assign name pin) then 500
           else 200)
     \<and> (status_of resp \<noteq> 200 \<longrightarrow> s' = s \<and> d' = d)"
proof (cases body)
  case None
  then show ?thesis by (simp add: pair_handler_def)
next
  case (Some pn)
  obtain pin name where pn: "pn = (pin, name)" by (cases pn)
  obtain r s' d' where r: "redeem fault now callerPin pin name (assign name pin) (s, d) = (r, s', d')" by (metis surj_pair)
  note R = redeem_char [OF assms(1), where fault = fault and now = now and tmp = callerPin and pin = pin and name = name
      and cid = "assign name pin", unfolded r prod.case]
  show ?thesis
  proof (cases "\<not> valid_pin pin \<or> pin = callerPin")
    case True
    then show ?thesis by (simp add: pair_handler_def Some pn)
  next
    case valid: False
    show ?thesis
    proof (cases r)
      case (Inl e)
      have e: "e = ErrInviteInvalid \<longleftrightarrow> \<not> is_pending now s callerPin"
        using R assms(2) unfolding Inl sum.case by (auto split: if_splits)
      have h: "pair_handler assign nodeID version fault now callerPin body (s, d)
          = (if e = ErrInviteInvalid then HttpError 410 ''invite no longer valid'' else HttpError 500 ''pairing failed'', s', d')"
        using valid by (simp add: pair_handler_def Some pn r Inl)
      show ?thesis using R valid unfolding h Inl sum.case e by (simp add: Some pn split: if_splits)
    next
      case (Inr c)
      have h: "pair_handler assign nodeID version fault now callerPin body (s, d)
          = (Json 200 \<lparr>pp_node_id = nodeID, pp_version = version\<rparr>, s', d')"
        using valid by (simp add: pair_handler_def Some pn r Inr)
      show ?thesis using R valid unfolding h Inr sum.case by (cases "client_by_pin s pin") (simp_all add: Some pn)
    qed
  qed
qed

subsection \<open>Ids\<close>

lemma taken_by: "taken_locked r (Some (store_ids s)) i \<longleftrightarrow> get_peer r i \<noteq> None \<or> id_taken s i"
  by (simp add: taken_locked_def store_ids_def get_peer_def)

text \<open>The search for a new id ends, for peers and for clients alike: whatever peers and clients
  there are, a node whose name leaves a slug gets an id that no peer and no client has, that is not
  reserved, and that is safe in a URL or a path: lower-case letters, digits, hyphen and underscore.\<close>

lemma fresh_id:
  assumes "slug name \<noteq> []"
  shows "\<exists>i. new_id r (Some (store_ids s)) uuid name = Some i
    \<and> get_peer r i = None \<and> \<not> id_taken s i \<and> i \<notin> set reserved_ids \<and> i \<noteq> [] \<and> (\<forall>c \<in> set i. slug_char c)"
proof -
  have "finite {i. taken_locked r (Some (store_ids s)) i}"
    by (rule taken_finite) (auto dest: store_ids_finite)
  from id_for_spec [OF this assms, of uuid] obtain i where
    "id_for uuid name (taken_locked r (Some (store_ids s))) = Some i" "\<not> taken_locked r (Some (store_ids s)) i"
    "i \<notin> set reserved_ids" "i \<noteq> []" "\<forall>c \<in> set i. slug_char c" by blast
  then show ?thesis by (intro exI [of _ i]) (simp add: new_id_def taken_by)
qed

definition ex_peer :: "string \<Rightarrow> string \<Rightarrow> string \<Rightarrow> peer" where
  "ex_peer i url pin = \<lparr>p_id = i, p_url = url, p_state = Online, p_name = i, p_version = ''1'', p_ip = [], p_pin = pin,
     p_last_seen = None, p_rtt = 0, p_missed = 0, p_offering = True\<rparr>"

definition ex_registry :: registry where
  "ex_registry = \<lparr>rg_peers = [(''tv'', ex_peer ''tv'' ''http://tv'' [])], rg_http_off = False, rg_mtls_off = False,
     rg_running = [], rg_has_callback = False\<rparr>"

lemma add_peer_spec:
  "\<exists>p r' d'. add_peer ip_of None now i url name version pin (r, d) = (Inr (), r', d')
     \<and> p_id p = i \<and> p_pin p = pin \<and> p_name p = name \<and> p_url p = trim_right_set ''/'' url
     \<and> rg_peers r' = tbl_upsert i p (rg_peers r)"
proof -
  let ?q = "\<lparr>p_id = i, p_url = trim_right_set ''/'' url, p_state = Online, p_name = name, p_version = version,
      p_ip = ip_of (trim_right_set ''/'' url), p_pin = pin, p_last_seen = Some now, p_rtt = 0, p_missed = 0, p_offering = True\<rparr>"
  obtain p where p: "p = (if enabled r ?q then ?q else ?q\<lparr>p_state := Disabled\<rparr>)" by blast
  have "\<exists>r' d'. add_peer ip_of None now i url name version pin (r, d) = (Inr (), r', d') \<and> rg_peers r' = tbl_upsert i p (rg_peers r)"
    unfolding add_peer_def Let_def prod.case option.case p [symmetric] by simp
  moreover have "p_id p = i \<and> p_pin p = pin \<and> p_name p = name \<and> p_url p = trim_right_set ''/'' url" by (simp add: p)
  ultimately show ?thesis by blast
qed

lemma get_peer_upsert: "rg_peers r' = tbl_upsert i p (rg_peers r) \<Longrightarrow> get_peer r' j = (if j = i then Some p else get_peer r j)"
  by (simp add: get_peer_def)

text \<open>\<open>AddHandler\<close> always answers, and adds at most one peer: with a 204 the peer it probed is in
  the registry under an id that no peer and no client had, without a pin, and every other peer is as
  before; with any other answer registry and database are as before.\<close>

lemma add_peer_handler_outcome:
  assumes "\<And>name. slug name = [] \<Longrightarrow> get_peer r uuid = None \<and> \<not> id_taken s uuid"
  shows "\<exists>resp r' d'. add_peer_handler ip_of uuid (Some (store_ids s)) fault now probe body (r, d) = Some (resp, r', d')
    \<and> (if status_of resp = 204
       then (\<exists>i p. get_peer r i = None \<and> \<not> id_taken s i \<and> get_peer r' i = Some p \<and> p_pin p = []
               \<and> body \<noteq> None \<and> p_url p = trim_right_set ''/'' (the body) \<and> (\<forall>j. j \<noteq> i \<longrightarrow> get_peer r' j = get_peer r j))
       else r' = r \<and> d' = d)"
proof (cases "rg_http_off r \<or> body = None \<or> body = Some [] \<or> probe (trim_right_set ''/'' (the body)) = None")
  case True
  then have "\<exists>code msg. code \<noteq> 204
      \<and> add_peer_handler ip_of uuid (Some (store_ids s)) fault now probe body (r, d) = Some (HttpError code msg, r, d)"
    by (cases body) (auto simp: add_peer_handler_def)
  then show ?thesis by fastforce
next
  case False
  then obtain url where url: "body = Some url" "url \<noteq> []" "\<not> rg_http_off r" by (cases body) simp_all
  moreover obtain name version where "probe (trim_right_set ''/'' url) = Some (name, version)"
    using False url(1) by (cases "probe (trim_right_set ''/'' url)") auto
  ultimately have b: "body = Some url" "url \<noteq> []" "probe (trim_right_set ''/'' url) = Some (name, version)"
    "\<not> rg_http_off r" by blast+
  obtain i where i: "new_id r (Some (store_ids s)) uuid name = Some i" "get_peer r i = None" "\<not> id_taken s i"
  proof (cases "slug name = []")
    case True
    with assms [of name] that [of uuid] show ?thesis by (simp add: new_id_def id_for_def)
  next
    case False
    from fresh_id [OF this, of r s uuid] that show ?thesis by blast
  qed
  show ?thesis
  proof (cases fault)
    case (Some e)
    then show ?thesis using b i(1) by (simp add: add_peer_handler_def add_peer_def Let_def)
  next
    case None
    obtain p r' d' where a: "add_peer ip_of None now i url name version [] (r, d) = (Inr (), r', d')"
      and p: "p_pin p = []" "p_url p = trim_right_set ''/'' url" "rg_peers r' = tbl_upsert i p (rg_peers r)"
      using add_peer_spec by blast
    have h: "add_peer_handler ip_of uuid (Some (store_ids s)) fault now probe body (r, d) = Some (Status 204, r', d')"
      using b i(1) a by (simp add: add_peer_handler_def None)
    have "get_peer r' i = Some p" "\<forall>j. j \<noteq> i \<longrightarrow> get_peer r' j = get_peer r j" by (simp_all add: get_peer_upsert [OF p(3)])
    with h i p(1,2) b(1) show ?thesis by auto
  qed
qed

text \<open>Under which id a redeemed peer goes: its own if its key is known, a peer's by URL that carries its
  name, or one that no peer has and that is free or already its client id.\<close>

definition redeemed_id_ok :: "registry \<Rightarrow> auth_store \<Rightarrow> string \<Rightarrow> string \<Rightarrow> string \<Rightarrow> bool" where
  "redeemed_id_ok r s name pin i \<longleftrightarrow>
     (case get_peer r i of
        Some q \<Rightarrow> p_pin q = pin \<or> p_pin q = [] \<and> (p_name q = name \<or> i = name)
      | None \<Rightarrow> id_for_pin s pin = Some i \<or> \<not> id_taken s i)"

lemma id_for_redeemed_ok:
  assumes ok: "registry_ok (r, d)" and uuid: "slug name = [] \<Longrightarrow> get_peer r uuid = None \<and> \<not> id_taken s uuid"
  shows "\<exists>i how. id_for_redeemed r (Some (store_ids s)) uuid name pin = Some (i, how) \<and> redeemed_id_ok r s name pin i"
proof -
  have k: "keyed (rg_peers r)" using ok by (simp add: registry_ok_def)
  have get: "get_peer r i = Some q \<and> p_id q = i" if "(i, q) \<in> set (rg_peers r)" for i q
  proof -
    have m: "map_of (rg_peers r) i = Some q" using that k by (simp add: keyed_def)
    with registry_okD [OF ok, of i] have "p_id q = i" by (auto simp: option_rel_Some1 row_matches_def)
    with m show ?thesis by (simp add: get_peer_def)
  qed
  have found: "x \<in> set (rg_peers r) \<and> P x" if "find P (rg_peers r) = Some x" for P x
    using that by (metis (no_types) find_Some_iff nth_mem)
  show ?thesis
  proof (cases "peer_by_pin r pin")
    case (Some p)
    then obtain i where "find (\<lambda>(i, p). p_pin p = pin) (rg_peers r) = Some (i, p)"
      by (auto simp: peer_by_pin_def split: if_splits)
    with found have m: "(i, p) \<in> set (rg_peers r)" "p_pin p = pin" by blast+
    have "id_for_redeemed r (Some (store_ids s)) uuid name pin = Some (p_id p, RePair)" by (simp add: id_for_redeemed_def Some)
    moreover have "redeemed_id_ok r s name pin (p_id p)" using get [OF m(1)] m(2) by (simp add: redeemed_id_ok_def)
    ultimately show ?thesis by blast
  next
    case no_pin: None
    show ?thesis
    proof (cases "find (\<lambda>(i, p). p_pin p = [] \<and> name \<noteq> [] \<and> (p_name p = name \<or> i = name)) (rg_peers r)")
      case (Some x)
      obtain i p where x: "x = (i, p)" by (cases x)
      have m: "(i, p) \<in> set (rg_peers r)" "p_pin p = []" "p_name p = name \<or> i = name"
        using found [OF Some] by (auto simp: x)
      have "id_for_redeemed r (Some (store_ids s)) uuid name pin = Some (i, Upgrade)"
        by (simp add: id_for_redeemed_def no_pin Some x)
      moreover have "redeemed_id_ok r s name pin i" using get [OF m(1)] m(2,3) by (simp add: redeemed_id_ok_def)
      ultimately show ?thesis by blast
    next
      case None
      have e: "id_for_redeemed r (Some (store_ids s)) uuid name pin = map_option (\<lambda>i. (i, NewPeer)) (new_id_for_pin r (Some (store_ids s)) uuid name pin)"
        by (simp add: id_for_redeemed_def no_pin None)
      obtain j where j: "new_id r (Some (store_ids s)) uuid name = Some j" "get_peer r j = None" "\<not> id_taken s j"
      proof (cases "slug name = []")
        case True
        with uuid that [of uuid] show ?thesis by (simp add: new_id_def id_for_def)
      next
        case False
        from fresh_id [OF this, of r s uuid] that show ?thesis by blast
      qed
      obtain i where i: "new_id_for_pin r (Some (store_ids s)) uuid name pin = Some i" "redeemed_id_ok r s name pin i"
      proof (cases "id_for_pin s pin")
        case None
        with j that [of j] show ?thesis by (simp add: new_id_for_pin_def new_id_def store_ids_def redeemed_id_ok_def)
      next
        case (Some i)
        show ?thesis
        proof (cases "get_peer r i")
          case None
          with Some that [of i] show ?thesis by (simp add: new_id_for_pin_def store_ids_def redeemed_id_ok_def get_peer_def)
        next
          case (Some q)
          with \<open>id_for_pin s pin = Some i\<close> j that [of j] show ?thesis
            by (simp add: new_id_for_pin_def new_id_def store_ids_def redeemed_id_ok_def get_peer_def)
        qed
      qed
      show ?thesis using i(2) unfolding e i(1) by simp
    qed
  qed
qed

text \<open>\<open>RedeemHandler\<close> always answers. It answers 200 only for an invite that parses and has not
  expired, redeemed at its issuer; then the registry pins the invite's key for one peer: the peer that
  had this key, one by URL with that name, or a new one under an id that is free or already this key's
  client id. No other peer changes; with any other answer nothing changes.\<close>

lemma redeem_handler_outcome:
  assumes ok: "registry_ok (r, d)" and uuid: "\<And>name. slug name = [] \<Longrightarrow> get_peer r uuid = None \<and> \<not> id_taken s uuid"
  shows "\<exists>resp r' d'. redeem_handler ip_of uuid (Some (store_ids s)) fault now hasIdentity body paired (r, d) = Some (resp, r', d')
    \<and> (if status_of resp = 200
       then (\<exists>iv res i p. body = Some (Inr iv) \<and> \<not> invite_expired iv now \<and> paired = Inr res
               \<and> redeemed_id_ok r s (pp_node_id res) (iv_pin iv) i
               \<and> get_peer r' i = Some p \<and> p_pin p = iv_pin iv \<and> p_name p = pp_node_id res
               \<and> (\<forall>j. j \<noteq> i \<longrightarrow> get_peer r' j = get_peer r j))
       else r' = r \<and> d' = d)"
proof (cases "\<exists>iv res. \<not> rg_mtls_off r \<and> hasIdentity \<and> body = Some (Inr iv) \<and> \<not> invite_expired iv now \<and> paired = Inr res")
  case False
  then have "\<exists>code msg. code \<noteq> 200
      \<and> redeem_handler ip_of uuid (Some (store_ids s)) fault now hasIdentity body paired (r, d) = Some (HttpError code msg, r, d)"
    by (cases body; cases "the body"; cases paired) (auto simp: redeem_handler_def)
  then show ?thesis by fastforce
next
  case True
  then obtain iv res where b: "\<not> rg_mtls_off r" "hasIdentity" "body = Some (Inr iv)" "\<not> invite_expired iv now" "paired = Inr res"
    by blast
  obtain i how where i: "id_for_redeemed r (Some (store_ids s)) uuid (pp_node_id res) (iv_pin iv) = Some (i, how)"
    "redeemed_id_ok r s (pp_node_id res) (iv_pin iv) i"
    using id_for_redeemed_ok [OF ok uuid] by blast
  show ?thesis
  proof (cases fault)
    case (Some e)
    then show ?thesis using b i(1) by (simp add: redeem_handler_def add_peer_def Let_def)
  next
    case None
    obtain p r' d' where a: "add_peer ip_of None now i (iv_url iv) (pp_node_id res) (pp_version res) (iv_pin iv) (r, d) = (Inr (), r', d')"
      and p: "p_pin p = iv_pin iv" "p_name p = pp_node_id res" "rg_peers r' = tbl_upsert i p (rg_peers r)"
      using add_peer_spec by blast
    have g: "get_peer r' j = (if j = i then Some p else get_peer r j)" for j by (rule get_peer_upsert [OF p(3)])
    then have h: "redeem_handler ip_of uuid (Some (store_ids s)) fault now hasIdentity body paired (r, d) = Some (Json 200 (dto_of [] p), r', d')"
      using b i(1) a by (simp add: redeem_handler_def None)
    show ?thesis using h i(2) p(1,2) b g by auto
  qed
qed

subsection \<open>Memory and table of the registry\<close>

text \<open>C29: From the start of the node, with whatever peers are configured and whatever ids are migrated,
  and after any sequence of additions, removals, probes and changes of transport, each failing or not, the
  table follows the registry in memory: every peer in memory has a row with its id, URL and pin, and with its name and version unless the last
  update of that row failed (\<open>stale_rows\<close>); and a row without a peer in memory is the row of a removed peer whose \<open>DELETE\<close> failed
  (\<open>left_rows\<close>). Where no such failure is outstanding, memory and table hold the same peers.\<close>

theorem registry_mirrors_table:
  assumes "keyed (peers_tbl d)"
    and "new_registry ip_of is_uuid sf mf lf now configured d = Some (Inr r, d')"
  shows "registry_tracks (fold left_rows ops {}) (fold stale_rows ops {}) (fold registry_step ops (r, d'))
    \<and> (fold left_rows ops {} = {} \<and> fold stale_rows ops {} = {} \<longrightarrow> registry_ok (fold registry_step ops (r, d')))"
proof -
  from new_registry_ok [OF assms(1), of ip_of is_uuid now configured] new_registry_Inr [OF assms(2)]
  have "registry_tracks {} {} (r, d')" by (simp add: registry_tracks_ok)
  from registry_run_tracks [OF this, of ops] show ?thesis using registry_tracks_ok by metis
qed

definition ex_registry_db :: database where
  "ex_registry_db = ex_clients\<lparr>peers_tbl := [(''tv'', \<lparr>pr_url = ''http://tv'', pr_state = ''ONLINE'', pr_last_seen_at = None,
      pr_version = ''1'', pr_name = ''tv'', pr_pin = []\<rparr>)]\<rparr>"

theorem registry_mirrors_table_witness:
  "\<exists>r d'. new_registry (\<lambda>_. []) (\<lambda>i. i = ''u-1'') None None None 7 [(''u-1'', ''http://n'')] ex_registry_db = Some (Inr r, d')
     \<and> registry_ok (fold registry_step [Probe None 8 [] None ''u-1'', RemovePeer (Some (ErrDb ''locked'')) ''tv'', RemovePeer None ''tv'',
          AddPeer (\<lambda>_. []) None 9 ''x'' ''http://x/'' ''x'' ''1'' []] (r, d'))
     \<and> registry_tracks {''tv''} {''u-1''}
          (fold registry_step [Probe (Some (ErrDb ''locked'')) 8 [] None ''u-1'', RemovePeer (Some (ErrDb ''locked'')) ''tv''] (r, d'))"
proof -
  have k: "keyed (peers_tbl ex_registry_db)" by (simp add: ex_registry_db_def keyed_def)
  from new_registry_ok [OF k, of "\<lambda>_. []" "\<lambda>i. i = ''u-1''" 7 "[(''u-1'', ''http://n'')]"]
  obtain r d' where "new_registry (\<lambda>_. []) (\<lambda>i. i = ''u-1'') None None None 7 [(''u-1'', ''http://n'')] ex_registry_db = Some (Inr r, d')"
    by blast
  note T = registry_mirrors_table [OF k this] and start = this
  show ?thesis
    using start T [of "[Probe None 8 [] None ''u-1'', RemovePeer (Some (ErrDb ''locked'')) ''tv'', RemovePeer None ''tv'',
        AddPeer (\<lambda>_. []) None 9 ''x'' ''http://x/'' ''x'' ''1'' []]"]
      T [of "[Probe (Some (ErrDb ''locked'')) 8 [] None ''u-1'', RemovePeer (Some (ErrDb ''locked'')) ''tv'']"] by auto
qed

text \<open>Renaming a peer moves all it owns to the new id and loses nothing: its row, its mirror, its
  sync position, and the items it serves, whatever was left under the new id being replaced; its traffic is added to
  that of the new id.\<close>

lemma rename_moves_everything:
  assumes "keyed (peer_catalog d)" and "keyed (peer_traffic d)"
    and "map_of (peers_tbl d) new = None" and "old \<noteq> new"
  shows "map_of (peers_tbl (rename_peer_id old new d)) new = map_of (peers_tbl d) old
    \<and> map_of (peers_tbl (rename_peer_id old new d)) old = None
    \<and> map_of (peer_catalog (rename_peer_id old new d)) (new, g) = map_of (peer_catalog d) (old, g)
    \<and> map_of (peer_catalog (rename_peer_id old new d)) (old, g) = None
    \<and> map_of (peer_sync_state (rename_peer_id old new d)) new = map_of (peer_sync_state d) old
    \<and> map_of (peer_sync_state (rename_peer_id old new d)) old = None
    \<and> traffic_of (peer_traffic (rename_peer_id old new d)) new dir
        = traffic_of (peer_traffic d) new dir + traffic_of (peer_traffic d) old dir
    \<and> traffic_of (peer_traffic (rename_peer_id old new d)) old dir = 0
    \<and> map_of (catalog_items (rename_peer_id old new d)) g
        = map_option (\<lambda>r. if i_primary_peer_id r = Some old then r\<lparr>i_primary_peer_id := Some new\<rparr> else r) (map_of (catalog_items d) g)"
proof -
  have s: "map_of (peer_sync_state (rename_peer_id old new d)) p =
     (if p = new then map_of (peer_sync_state d) old else if p = old then None else map_of (peer_sync_state d) p)" for p
    by (rule rename_sync_any [OF assms(4)])
  show ?thesis
    using assms(4)
    by (simp add: rename_peer_row [OF assms(3,4)] rename_mirror [OF assms(1,4)] s rename_traffic [OF assms(2,4)] rename_items)
qed

subsection \<open>The heartbeat\<close>

text \<open>C32: After any run of probes that ran at all, a peer's state says how many of the latest probes
  failed in a row: none, \<open>ONLINE\<close>; one or two, \<open>DEGRADED\<close>; three or more, \<open>OFFLINE\<close> (counting on
  from before the run if all of it failed). It was last seen at its last success, and it offers its
  catalog while it is online or was seen less than fifteen minutes before the last probe.\<close>

theorem heartbeat_state:
  assumes "ps \<noteq> []"
  shows "p_missed (probe_run ps p) = (if \<forall>pr \<in> set ps. failed pr then p_missed p + length ps else trailing_failures ps)
    \<and> p_state (probe_run ps p) = (let n = p_missed (probe_run ps p) in if n = 0 then Online else if n < 3 then Degraded else Offline)
    \<and> p_last_seen (probe_run ps p) = (case find (\<lambda>pr. \<not> failed pr) (rev ps) of None \<Rightarrow> p_last_seen p | Some pr \<Rightarrow> Some (fst pr))
    \<and> p_offering (probe_run ps p) = (p_state (probe_run ps p) = Online
         \<or> (\<exists>t. p_last_seen (probe_run ps p) = Some t \<and> fst (last ps) - t < withdraw_after))"
proof (intro conjI)
  obtain qs pr where ps: "ps = qs @ [pr]" using assms by (cases ps rule: rev_cases) auto
  show "p_offering (probe_run ps p) = (p_state (probe_run ps p) = Online
         \<or> (\<exists>t. p_last_seen (probe_run ps p) = Some t \<and> fst (last ps) - t < withdraw_after))"
  proof -
    have "p_state (probe_run ps p) \<noteq> Disabled" by (simp add: ps probe_run_snoc checked_simps)
    moreover have "p_offering (probe_run ps p) = offering (fst pr) (probe_run ps p)"
      unfolding ps probe_run_snoc by (rule checked_simps(4))
    ultimately show ?thesis
      by (cases "p_state (probe_run ps p)"; cases "p_last_seen (probe_run ps p)") (simp_all add: offering_def ps)
  qed
qed (rule probe_run_missed probe_run_state [OF assms] probe_run_seen)+

theorem heartbeat_state_witness:
  "p_state (probe_run [(1, [], Some ([], [], 0)), (2, [], None), (3, [], None), (4, [], None)] (ex_peer ''tv'' ''http://tv'' [])) = Offline
   \<and> p_offering (probe_run [(1, [], Some ([], [], 0)), (2, [], None), (3, [], None), (4, [], None)] (ex_peer ''tv'' ''http://tv'' []))"
proof -
  note H = heartbeat_state [of "[(1, [], Some ([], [], 0)), (2, [], None), (3, [], None), (4, [], None)]" "ex_peer ''tv'' ''http://tv'' []"]
  from H show ?thesis by (simp add: failed_def trailing_failures_def withdraw_after_def second_def Let_def)
qed

subsection \<open>The address a pin is for\<close>

text \<open>The address under which a peer's pin is looked up is the one the transport dials for its URL,
  for every URL a peer can have: the scheme is https, there is a host, and the port is 443 unless given;
  and only such URLs pass.\<close>

lemma pin_address_is_dialed:
  assumes "parse raw = Some u"
  shows "addr_of parse raw =
    (if u_scheme u = ''https'' \<and> u_hostname u \<noteq> [] \<and> \<not> u_has_user u \<and> u_path u \<in> {[], ''/''} \<and> u_raw_query u = [] \<and> u_fragment u = []
     then Some (canonical_addr u) else None)"
  using assms by (simp add: addr_of_def canonical_url_def canonical_addr_def Let_def)

end
