(* ===== verification/Strm.thy ===== *)
theory Strm
  imports Schema Sha256
begin

section \<open>Redirect files (internal/strm/strm.go)\<close>

text \<open>
  The \<open>.strm\<close> files that point Jellyfin at items of other nodes: the path and the content of the file
  of a catalog row, and \<open>Reconcile\<close>, which writes, moves and removes files until the disk holds
  exactly those. The file system is a record of regular files and directories, named by their cleaned
  paths (every path the code passes was made by \<open>filepath.Join\<close> or \<open>filepath.Dir\<close>, or recorded
  by it); there are no symbolic links. What the operating system may refuse is a record of faults, per path,
  fixed during one \<open>Reconcile\<close>.
\<close>

subsection \<open>Names\<close>

definition sanitize :: "string \<Rightarrow> string" where
  "sanitize name =
     (let name = map (\<lambda>c. if c = CHR ''/'' \<or> c = CHR 0x00 then CHR ''-'' else c) name;
          name = trim_space name
      in if name = [] then ''untitled'' else name)"

definition media_root :: "string \<Rightarrow> string" where
  "media_root mediaType = (if mediaType = ''movie'' then ''movies'' else ''series'')"

definition max_name_bytes :: int where "max_name_bytes = 255"

text \<open>\<open>truncateUTF8\<close>: the loop steps back to the start of a rune.\<close>

fun rune_boundary :: "string \<Rightarrow> nat \<Rightarrow> nat" where
  "rune_boundary s 0 = 0"
| "rune_boundary s (Suc n) = (if rune_start (s ! Suc n) then Suc n else rune_boundary s n)"

definition truncate_utf8 :: "string \<Rightarrow> int \<Rightarrow> string" where
  "truncate_utf8 s n =
     (if n \<le> 0 then []
      else if int (length s) \<le> n then s
      else take (rune_boundary s (nat n)) s)"

definition season_dir_name :: "int \<Rightarrow> string" where
  "season_dir_name season = (if season = 0 then ''Specials'' else ''Season '' @ fmt_02d season)"

definition provider_disambiguator :: "string \<Rightarrow> string" where
  "provider_disambiguator globalID =
     (case cut_at CHR '':'' globalID of (kind, rest, _) \<Rightarrow>
        if kind = ''tmdb'' then ''tmdbid-'' @ rest
        else if kind = ''tvdb'' then ''tvdbid-'' @ rest
        else if kind = ''imdb'' then ''imdbid-'' @ rest
        else ''id-'' @ take 8 rest)"

definition max_disambiguator_bytes :: nat where "max_disambiguator_bytes = 64"

definition disambiguator :: "string \<Rightarrow> string" where
  "disambiguator globalID =
     (let d = provider_disambiguator globalID
      in if max_disambiguator_bytes < length d then ''id-'' @ hex_encode (take 4 (sha256 globalID)) else d)"

subsection \<open>Rows and paths\<close>

record strm_row =
  r_global_id :: string
  r_name :: string
  r_media_type :: string
  r_peer_id :: string
  r_item_id :: string
  r_local :: bool
  r_hidden :: bool
  r_hidden_folder :: bool
  r_old_path :: "string option"
  r_series_global_id :: string
  r_series_name :: string
  r_season :: int
  r_episode :: int

definition scan_row :: "string \<times> item_row \<Rightarrow> strm_row" where
  "scan_row kr = (case kr of (gid, r) \<Rightarrow>
     \<lparr>r_global_id = gid, r_name = i_name r, r_media_type = i_media_type r, r_peer_id = or_empty (i_primary_peer_id r),
      r_item_id = or_empty (i_primary_item_id r), r_local = i_local r, r_hidden = i_hidden r,
      r_hidden_folder = i_hidden_folder r, r_old_path = i_strm_path r, r_series_global_id = i_series_global_id r,
      r_series_name = i_series_name r, r_season = i_season_number r, r_episode = i_episode_number r\<rparr>)"

text \<open>Go's integer division truncates towards zero.\<close>

definition half :: "int \<Rightarrow> int" where
  "half a = (if a < 0 then - (- a div 2) else a div 2)"

definition season_tag :: "strm_row \<Rightarrow> string" where
  "season_tag r = '' - S'' @ fmt_02d (r_season r) @ ''E'' @ fmt_02d (r_episode r) @ '' - ''"

definition id_suffix :: "string \<Rightarrow> string" where
  "id_suffix globalID = '' ['' @ disambiguator globalID @ '']''"

text \<open>The path's elements below the folder of the peer: an episode gets the series, season and file names
  Jellyfin expects, any other item a folder of its own. Display names are shortened, ids are not.\<close>

definition episode_names :: "strm_row \<Rightarrow> string list" where
  "episode_names r =
     (let seriesSuffix = id_suffix (r_series_global_id r);
          seriesDir = truncate_utf8 (sanitize (r_series_name r)) (max_name_bytes - int (length seriesSuffix)) @ seriesSuffix;
          fixed = season_tag r @ id_suffix (r_global_id r) @ ''.strm'';
          avail = max_name_bytes - int (length fixed);
          series = sanitize (r_series_name r);
          name = sanitize (r_name r);
          (series, name) =
            (if avail < int (length series) + int (length name)
             then let series = truncate_utf8 series (max (half avail) (avail - int (length name)))
                  in (series, truncate_utf8 name (avail - int (length series)))
             else (series, name));
          filename = series @ season_tag r @ name @ id_suffix (r_global_id r) @ ''.strm''
      in [seriesDir, season_dir_name (r_season r), filename])"

definition item_names :: "strm_row \<Rightarrow> string list" where
  "item_names r =
     (let suffix = id_suffix (r_global_id r);
          dir = truncate_utf8 (sanitize (r_name r)) (max_name_bytes - int (length suffix) - int (length ''.strm'')) @ suffix
      in [dir, dir @ ''.strm''])"

definition file_names :: "strm_row \<Rightarrow> string list" where
  "file_names r = (if r_media_type r = ''episode'' \<and> r_series_global_id r \<noteq> [] then episode_names r else item_names r)"

definition path_for :: "string \<Rightarrow> strm_row \<Rightarrow> string" where
  "path_for outputDir r =
     (let peerDir = path_join [outputDir, media_root (r_media_type r), sanitize (r_peer_id r)]
      in path_join (peerDir # file_names r))"

definition url_for :: "string \<Rightarrow> string \<Rightarrow> string \<Rightarrow> string" where
  "url_for baseURL peerID itemID = trim_right_set ''/'' baseURL @ ''/api/v1/proxy/stream/'' @ peerID @ ''/'' @ itemID"

definition want_strm :: "strm_row \<Rightarrow> bool" where
  "want_strm r \<longleftrightarrow> \<not> r_local r \<and> \<not> r_hidden r \<and> \<not> r_hidden_folder r \<and> r_peer_id r \<noteq> [] \<and> r_item_id r \<noteq> []
     \<and> r_media_type r \<noteq> ''series''"

subsection \<open>The file system\<close>

record fsys =
  fs_files :: "(string, string) tbl"
  fs_dirs :: "string list"

text \<open>
  A write can fail before there is a temporary file, or after: then the temporary file is removed, or
  stays behind with what was written of it, when its removal fails as well.
\<close>

datatype write_fault = NoTemp | NotReplaced "(string \<times> string) option"

record faults =
  ff_mkdir :: "string \<Rightarrow> bool"
  ff_read :: "string \<Rightarrow> bool"
  ff_write :: "string \<Rightarrow> write_fault option"
  ff_remove :: "string \<Rightarrow> bool"
  ff_readdir :: "string \<Rightarrow> bool"
  ff_query :: "go_error option"
  ff_save :: "go_error option"

definition no_faults :: faults where
  "no_faults = \<lparr>ff_mkdir = (\<lambda>_. False), ff_read = (\<lambda>_. False), ff_write = (\<lambda>_. None), ff_remove = (\<lambda>_. False),
     ff_readdir = (\<lambda>_. False), ff_query = None, ff_save = None\<rparr>"

definition below :: "string \<Rightarrow> string \<Rightarrow> bool" where
  "below dir p \<longleftrightarrow> has_prefix (dir @ ''/'') p"

datatype removal = Removed | NotExist | RemoveFailed

text \<open>\<open>os.Remove\<close>: a file, or an empty directory. Under a regular file there is nothing, and asking for it
  is an error other than "does not exist".\<close>

definition os_remove :: "faults \<Rightarrow> string \<Rightarrow> fsys \<Rightarrow> removal \<times> fsys" where
  "os_remove F p fs =
     (if ff_remove F p \<or> list_ex (\<lambda>(q, _). below q p) (fs_files fs) then (RemoveFailed, fs)
      else if map_of (fs_files fs) p \<noteq> None then (Removed, fs\<lparr>fs_files := tbl_delete p (fs_files fs)\<rparr>)
      else if p \<in> set (fs_dirs fs) then
        (if list_ex (\<lambda>(q, _). below p q) (fs_files fs) \<or> list_ex (below p) (fs_dirs fs) then (RemoveFailed, fs)
         else (Removed, fs\<lparr>fs_dirs := removeAll p (fs_dirs fs)\<rparr>))
      else (NotExist, fs))"

text \<open>\<open>os.MkdirAll\<close>: the directories from the top down; whether it succeeded.\<close>

definition ancestors :: "string \<Rightarrow> string list" where
  "ancestors p = map (\<lambda>k. unsplit (is_abs p) (take k (path_elems p))) [1..<Suc (length (path_elems p))]"

fun make_dirs :: "faults \<Rightarrow> string list \<Rightarrow> fsys \<Rightarrow> bool \<times> fsys" where
  "make_dirs F [] fs = (True, fs)"
| "make_dirs F (q # qs) fs =
     (if map_of (fs_files fs) q \<noteq> None then (False, fs)
      else if q \<in> set (fs_dirs fs) then make_dirs F qs fs
      else if ff_mkdir F q then (False, fs)
      else make_dirs F qs (fs\<lparr>fs_dirs := fs_dirs fs @ [q]\<rparr>))"

definition mkdir_all :: "faults \<Rightarrow> string \<Rightarrow> fsys \<Rightarrow> bool \<times> fsys" where
  "mkdir_all F p fs = (if p \<in> set (fs_dirs fs) then (True, fs) else make_dirs F (ancestors p) fs)"

subsection \<open>Writing and removing one file\<close>

definition temp_prefix :: string where "temp_prefix = ''.jellysync-''"

definition temp_path :: "string \<Rightarrow> string \<Rightarrow> string" where
  "temp_path dir rnd = path_join [dir, temp_prefix @ rnd @ ''.tmp'']"

definition write_if_changed :: "faults \<Rightarrow> string \<Rightarrow> string \<Rightarrow> fsys \<Rightarrow> (go_error + bool) \<times> fsys" where
  "write_if_changed F path content fs =
     (if \<not> ff_read F path \<and> map_of (fs_files fs) path = Some content then (Inr False, fs)
      else case mkdir_all F (path_dir path) fs of
        (False, fs) \<Rightarrow> (Inl (ErrMsg ''creating dir''), fs)
      | (True, fs) \<Rightarrow>
          (case ff_write F path of
             Some NoTemp \<Rightarrow> (Inl (ErrMsg ''creating temp file''), fs)
           | Some (NotReplaced left) \<Rightarrow>
               (Inl (ErrMsg ''writing file''),
                (case left of None \<Rightarrow> fs
                 | Some (rnd, part) \<Rightarrow> fs\<lparr>fs_files := tbl_upsert (temp_path (path_dir path) rnd) part (fs_files fs)\<rparr>))
           | None \<Rightarrow>
               if path \<in> set (fs_dirs fs) then (Inl (ErrMsg ''writing file''), fs)
               else (Inr True, fs\<lparr>fs_files := tbl_upsert path content (fs_files fs)\<rparr>)))"

definition within :: "string \<Rightarrow> string \<Rightarrow> bool" where
  "within path dir =
     (case path_rel dir (path_clean path) of
        None \<Rightarrow> False
      | Some rel \<Rightarrow> rel \<noteq> ''.'' \<and> rel \<noteq> ''..'' \<and> \<not> has_prefix ''../'' rel \<and> \<not> is_abs rel)"

definition strm_roots :: "string list" where "strm_roots = [''movies'', ''series'']"

definition root_dirs :: "string \<Rightarrow> string list" where
  "root_dirs base = map (\<lambda>root. path_join [base, root]) strm_roots"

subsection \<open>Paths inside a directory\<close>

lemma has_prefix_ex: "has_prefix p s \<longleftrightarrow> (\<exists>t. s = p @ t)"
  unfolding has_prefix_def by (metis append_eq_conv_conj)

lemma strip_common_append [simp]: "strip_common bs (bs @ ts) = ([], ts)"
  by (induction bs) (cases ts, simp_all)

lemma strip_common_Nil: "strip_common bs ts = ([], us) \<Longrightarrow> ts = bs @ us"
  by (induction bs ts rule: strip_common.induct) (auto split: if_splits)

lemma unsplit_rel: "es \<noteq> [] \<Longrightarrow> unsplit False es = join_with ''/'' es"
  by (simp add: unsplit_def)

lemma canon_drop: "canon r (as @ bs) \<Longrightarrow> as \<noteq> [] \<or> \<not> r \<Longrightarrow> canon False bs"
proof -
  assume c: "canon r (as @ bs)"
  then obtain k ps where e: "as @ bs = replicate k ''..'' @ ps" and p: "\<forall>p \<in> set ps. plain_elem p" by (auto simp: canon_def)
  have "bs = replicate (k - length as) ''..'' @ drop (length as - k) ps"
    using arg_cong [OF e, of "drop (length as)"] by simp
  then show ?thesis by (rule canonI) (use p in \<open>auto dest: in_set_dropD\<close>)
qed

lemma canon_False: "canon r es \<Longrightarrow> canon False es"
  by (auto simp: canon_def)

lemma within_iff:
  "within p d \<longleftrightarrow> is_abs p = is_abs d
     \<and> (\<exists>es. es \<noteq> [] \<and> hd es \<noteq> ''..'' \<and> path_elems p = path_elems d @ es)"
proof (cases "is_abs p = is_abs d")
  case False
  then show ?thesis by (simp add: within_def path_rel_def)
next
  case True
  obtain bs ts where st: "strip_common (path_elems d) (path_elems p) = (bs, ts)" by (cases "strip_common (path_elems d) (path_elems p)")
  show ?thesis
  proof (cases bs)
    case (Cons b bs')
    have none: "path_elems p \<noteq> path_elems d @ es" for es using st strip_common_append [of "path_elems d" es] Cons by auto
    have "has_prefix ''../'' (unsplit False (replicate (length bs) ''..'' @ ts)) \<or> unsplit False (replicate (length bs) ''..'' @ ts) = ''..''"
    proof (cases "replicate (length bs') ''..'' @ ts")
      case Nil
      then show ?thesis by (simp add: Cons unsplit_def)
    next
      case (Cons x xs)
      then show ?thesis by (simp add: \<open>bs = b # bs'\<close> unsplit_def has_prefix_def)
    qed
    then show ?thesis using True none by (auto simp: within_def path_rel_def st)
  next
    case Nil
    with st have p: "path_elems p = path_elems d @ ts" by (simp add: strip_common_Nil)
    have rel: "path_rel d (path_clean p) = Some (unsplit False ts)" using True by (simp add: path_rel_def st Nil)
    have c: "canon False ts"
    proof -
      have "canon (is_abs p) (path_elems d @ ts)" using canon_path_elems [of p] by (simp add: p)
      then show ?thesis by (cases "path_elems d = [] \<and> is_abs p") (auto dest: canon_False intro: canon_drop)
    qed
    have e: "path_elems (unsplit False ts) = ts" "is_abs (unsplit False ts) = False"
      using c by (simp_all add: path_elems_unsplit is_abs_unsplit)
    have dot: "unsplit False ts = ''.'' \<longleftrightarrow> ts = []"
    proof
      assume "unsplit False ts = ''.''"
      then have "ts = path_elems ''.''" using e(1) by simp
      then show "ts = []" by (simp add: path_elems_def is_abs_def has_prefix_def)
    qed (simp add: unsplit_def)
    have up: "unsplit False ts = ''..'' \<or> has_prefix ''../'' (unsplit False ts) \<longleftrightarrow> ts \<noteq> [] \<and> hd ts = ''..''"
    proof (cases ts)
      case (Cons x xs)
      have x: "x \<noteq> []" "CHR ''/'' \<notin> set x" using canon_elem [OF c, of x] Cons by auto
      show ?thesis
      proof (cases xs)
        case Nil
        then have "unsplit False ts = x" by (simp add: Cons unsplit_def)
        moreover have "\<not> has_prefix ''../'' x" using x(2) by (auto simp: has_prefix_ex)
        ultimately show ?thesis by (simp add: Cons)
      next
        case (Cons y ys)
        have u: "unsplit False ts = x @ CHR ''/'' # join_with ''/'' xs" by (simp add: \<open>ts = x # xs\<close> Cons unsplit_def join_with_Cons)
        have "has_prefix ''../'' (x @ CHR ''/'' # join_with ''/'' xs) \<longleftrightarrow> x = ''..''"
        proof
          assume "has_prefix ''../'' (x @ CHR ''/'' # join_with ''/'' xs)"
          then obtain rest where "x @ CHR ''/'' # join_with ''/'' xs = ''..'' @ CHR ''/'' # rest"
            by (auto simp: has_prefix_ex)
          then have "split_on CHR ''/'' (x @ CHR ''/'' # join_with ''/'' xs) = split_on CHR ''/'' (''..'' @ CHR ''/'' # rest)" by simp
          then show "x = ''..''" using x(2) by (simp add: split_on_append_sep split_on_no_sep)
        qed (simp add: has_prefix_def)
        moreover have "x @ CHR ''/'' # join_with ''/'' xs \<noteq> ''..''"
        proof
          assume eq: "x @ CHR ''/'' # join_with ''/'' xs = ''..''"
          have "CHR ''/'' \<in> set (x @ CHR ''/'' # join_with ''/'' xs)" by simp
          then show False unfolding eq by simp
        qed
        ultimately show ?thesis unfolding u by (simp add: \<open>ts = x # xs\<close>)
      qed
    qed (simp add: unsplit_def has_prefix_def)
    show ?thesis
      using True dot up e(2) p by (auto simp: within_def rel)
  qed
qed

lemma path_clean_eq: "path_clean p = p \<Longrightarrow> p = unsplit (is_abs p) (path_elems p)"
  by (simp add: path_clean_def)

lemma path_dir_snoc:
  assumes "canon r (es @ [e])" and "e \<noteq> ''..''"
  shows "path_dir (unsplit r (es @ [e])) = unsplit r es"
proof -
  have e: "CHR ''/'' \<notin> set e" "e \<noteq> []" using canon_elem [OF assms(1), of e] by auto
  have ce: "canon r es" by (rule canon_butlast [OF assms])
  let ?pre = "(if r then ''/'' else []) @ (if es = [] then [] else join_with ''/'' es @ ''/'')"
  have p: "unsplit r (es @ [e]) = ?pre @ e" by (simp add: unsplit_def join_with_append)
  have "dropWhile (\<lambda>c. c \<noteq> CHR ''/'') (rev (?pre @ e)) = rev ?pre"
  proof -
    have v: "rev ?pre = [] \<or> (\<exists>v. rev ?pre = CHR ''/'' # v)" by (cases "es = []"; cases r) auto
    have "dropWhile (\<lambda>c. c \<noteq> CHR ''/'') (rev e @ rev ?pre) = dropWhile (\<lambda>c. c \<noteq> CHR ''/'') (rev ?pre)"
      using e(1) by (intro dropWhile_append2) auto
    also have "\<dots> = rev ?pre" using v by (elim disjE exE) (simp_all only: dropWhile.simps simp_thms if_False)
    finally show ?thesis by (simp only: rev_append)
  qed
  then have d: "path_dir (unsplit r (es @ [e])) = path_clean ?pre" unfolding path_dir_def p by simp
  have abs: "is_abs ?pre = r"
  proof (cases "es = []")
    case True
    then show ?thesis by (simp add: is_abs_def has_prefix_def)
  next
    case False
    then obtain w ws where w: "es = w # ws" by (cases es) auto
    then have "w \<noteq> []" "CHR ''/'' \<notin> set w" using canon_elem [OF ce, of w] by auto
    then obtain c v where v: "join_with ''/'' (w # ws) = c # v" "c \<noteq> CHR ''/''"
      using join_with_hd [of w "''/''" ws] by (metis list.set_sel(1))
    show ?thesis using False v by (simp add: w is_abs_def has_prefix_def)
  qed
  have "path_elems ?pre = es"
  proof (cases "es = []")
    case False
    have "split_on CHR ''/'' (join_with ''/'' es) = es" using canon_elem [OF ce] False by (intro split_join) auto
    then have "split_on CHR ''/'' (join_with ''/'' es @ ''/'') = es @ [[]]" by (simp add: split_on_append_sep)
    then have "split_on CHR ''/'' ?pre = (if r then [[]] else []) @ es @ [[]]"
      using False by (simp split: list.split)
    moreover have "clean_elems r [] (es @ [[]]) = es"
      using clean_elems_canon [OF ce] by (simp add: clean_elems_append)
    ultimately show ?thesis unfolding path_elems_def abs by (cases r) simp_all
  next
    case True
    then show ?thesis unfolding path_elems_def abs by simp
  qed
  then show ?thesis by (simp add: d path_clean_def abs)
qed

lemma path_dir_clean [simp]: "path_clean (path_dir p) = path_dir p"
  by (simp add: path_dir_def)

text \<open>Inside a directory, the parent of a cleaned path has its elements but the last.\<close>

lemma path_dir_within:
  assumes "path_clean p = p" and "within p d"
  shows "path_elems (path_dir p) = butlast (path_elems p) \<and> is_abs (path_dir p) = is_abs p
    \<and> path_dir p = unsplit (is_abs p) (butlast (path_elems p)) \<and> path_elems p \<noteq> []"
proof -
  obtain es where es: "es \<noteq> []" "hd es \<noteq> ''..''" "path_elems p = path_elems d @ es"
    using assms(2) by (auto simp: within_iff)
  have c: "canon (is_abs p) (path_elems p)" by (rule canon_path_elems)
  have ne: "path_elems p \<noteq> []" using es by simp
  have last: "last (path_elems p) \<noteq> ''..''"
  proof
    assume l: "last (path_elems p) = ''..''"
    obtain k ps where kp: "path_elems p = replicate k ''..'' @ ps" "\<forall>q \<in> set ps. plain_elem q"
      using c by (auto simp: canon_def)
    have "ps = []"
    proof (rule ccontr)
      assume "ps \<noteq> []"
      then have "last ps = ''..''" using l kp(1) by simp
      moreover have "last ps \<in> set ps" using \<open>ps \<noteq> []\<close> by (rule last_in_set)
      ultimately have "last ps = ''..''" "last ps \<in> set ps" by blast+
      with kp(2) show False by (metis plain_not_dots(1))
    qed
    with kp(1) es(3) have "path_elems d @ es = replicate k ''..''" by simp
    then have "hd es \<in> set (replicate k ''..'')" using es(1) by (metis UnCI list.set_sel(1) set_append)
    with es(2) show False by simp
  qed
  have p: "p = unsplit (is_abs p) (butlast (path_elems p) @ [last (path_elems p)])"
    using path_clean_eq [OF assms(1)] ne by simp
  have cl: "canon (is_abs p) (butlast (path_elems p) @ [last (path_elems p)])" using c ne by simp
  have d: "path_dir p = unsplit (is_abs p) (butlast (path_elems p))"
    using path_dir_snoc [OF cl last] p by simp
  have "canon (is_abs p) (butlast (path_elems p))" by (rule canon_butlast [OF cl last])
  then show ?thesis using ne by (simp add: d path_elems_unsplit is_abs_unsplit)
qed

subsection \<open>Removing a file and the directories it leaves empty\<close>

text \<open>The loop of \<open>removeStrm\<close> over the directories above the file, from the innermost one up.\<close>

function remove_empty :: "faults \<Rightarrow> string \<Rightarrow> string \<Rightarrow> fsys \<Rightarrow> fsys" where
  "remove_empty F boundary dir fs =
     (if dir = boundary \<or> \<not> within dir boundary then fs
      else if dir \<in> set (root_dirs boundary) then fs
      else case os_remove F dir fs of
             (Removed, fs) \<Rightarrow> remove_empty F boundary (path_dir dir) fs
           | (_, fs) \<Rightarrow> fs)"
  by pat_completeness auto
termination
proof (relation "measures [\<lambda>(F, b, dir, fs). if path_clean dir = dir then 0 else 1,
                            \<lambda>(F, b, dir, fs). length (path_elems dir)]", goal_cases)
  case (2 F boundary dir fs r fs' )
  then have w: "within dir boundary" by blast
  show ?case
  proof (cases "path_clean dir = dir")
    case True
    from path_dir_within [OF this w] have "path_elems (path_dir dir) = butlast (path_elems dir)" "path_elems dir \<noteq> []" by blast+
    then have "length (path_elems (path_dir dir)) < length (path_elems dir)" by simp
    with True show ?thesis by (simp del: length_butlast)
  qed simp
qed simp

declare remove_empty.simps [simp del]

definition remove_strm :: "faults \<Rightarrow> string \<Rightarrow> string \<Rightarrow> fsys \<Rightarrow> (go_error + unit) \<times> fsys" where
  "remove_strm F path outputDir fs =
     (case os_remove F path fs of
        (RemoveFailed, fs) \<Rightarrow> (Inl (ErrMsg ''removing''), fs)
      | (_, fs) \<Rightarrow>
          let boundary = path_clean outputDir
          in if \<not> within path boundary then (Inr (), fs)
             else (Inr (), remove_empty F boundary (path_dir path) fs))"

subsection \<open>Sweeping\<close>

text \<open>
  \<open>filepath.WalkDir\<close> visits the files below a root in lexical order. A directory that cannot be read
  is reported once, and nothing below it is visited. Removing a visited file, and then directories it
  leaves empty, takes nothing away that is still to be visited, so the walk is a fold over the files
  there at its start.
\<close>

definition walk_dirs :: "string \<Rightarrow> fsys \<Rightarrow> string list" where
  "walk_dirs root fs = filter (\<lambda>u. u = root \<or> below root u) (fs_dirs fs)"

definition unreadable :: "faults \<Rightarrow> string \<Rightarrow> fsys \<Rightarrow> string list" where
  "unreadable F root fs = filter (ff_readdir F) (walk_dirs root fs)"

definition walk_errors :: "faults \<Rightarrow> string \<Rightarrow> fsys \<Rightarrow> nat" where
  "walk_errors F root fs =
     (if root \<notin> set (fs_dirs fs) then 1
      else length (remdups (filter (\<lambda>u. \<not> list_ex (\<lambda>v. below v u) (unreadable F root fs)) (unreadable F root fs))))"

definition walk_files :: "faults \<Rightarrow> string \<Rightarrow> fsys \<Rightarrow> string list" where
  "walk_files F root fs =
     (if root \<notin> set (fs_dirs fs) then []
      else sort_key path_elems (filter (\<lambda>p. below root p \<and> \<not> list_ex (\<lambda>u. below u p) (unreadable F root fs))
                                       (map fst (fs_files fs))))"

definition sweepable :: "string \<Rightarrow> bool" where
  "sweepable path \<longleftrightarrow> has_suffix ''.strm'' (path_base path) \<or> has_prefix temp_prefix (path_base path)"

definition sweep_file :: "faults \<Rightarrow> string \<Rightarrow> string list \<Rightarrow> string \<Rightarrow> nat \<times> nat \<times> fsys \<Rightarrow> nat \<times> nat \<times> fsys" where
  "sweep_file F outputDir keep path z =
     (case z of (swept, failed, fs) \<Rightarrow>
        if path \<in> set keep then (swept, failed, fs)
        else if \<not> sweepable path then (swept, failed, fs)
        else case remove_strm F path outputDir fs of
               (Inl _, fs) \<Rightarrow> (swept, Suc failed, fs)
             | (Inr _, fs) \<Rightarrow> (Suc swept, failed, fs))"

definition sweep_root :: "faults \<Rightarrow> string \<Rightarrow> string list \<Rightarrow> string \<Rightarrow> nat \<times> nat \<times> fsys \<Rightarrow> nat \<times> nat \<times> fsys" where
  "sweep_root F outputDir keep root z =
     (case z of (swept, failed, fs) \<Rightarrow>
        fold (sweep_file F outputDir keep) (walk_files F root fs) (swept, failed + walk_errors F root fs, fs))"

definition sweep :: "faults \<Rightarrow> string \<Rightarrow> string list \<Rightarrow> fsys \<Rightarrow> nat \<times> nat \<times> fsys" where
  "sweep F outputDir keep fs = fold (sweep_root F outputDir keep) (root_dirs outputDir) (0, 0, fs)"

subsection \<open>Reconcile\<close>

record strm_stats =
  st_written :: nat
  st_moved :: nat
  st_removed :: nat
  st_unchanged :: nat
  st_swept :: nat
  st_failed :: nat

definition zero_stats :: strm_stats where
  "zero_stats = \<lparr>st_written = 0, st_moved = 0, st_removed = 0, st_unchanged = 0, st_swept = 0, st_failed = 0\<rparr>"

text \<open>What the loop over the rows has done so far.\<close>

record progress =
  pg_fs :: fsys
  pg_keep :: "string list"
  pg_claimed :: "(string, string) tbl"
  pg_stats :: strm_stats
  pg_updates :: "(string \<times> string) list"

definition fail :: "progress \<Rightarrow> progress" where
  "fail z = z\<lparr>pg_stats := (pg_stats z)\<lparr>st_failed := Suc (st_failed (pg_stats z))\<rparr>\<rparr>"

definition unwanted_row :: "faults \<Rightarrow> string \<Rightarrow> strm_row \<Rightarrow> progress \<Rightarrow> progress" where
  "unwanted_row F outputDir r z =
     (case r_old_path r of
        None \<Rightarrow> z
      | Some old \<Rightarrow>
          (case remove_strm F old outputDir (pg_fs z) of
             (Inl _, fs) \<Rightarrow> fail (z\<lparr>pg_fs := fs, pg_keep := old # pg_keep z\<rparr>)
           | (Inr _, fs) \<Rightarrow>
               z\<lparr>pg_fs := fs, pg_stats := (pg_stats z)\<lparr>st_removed := Suc (st_removed (pg_stats z))\<rparr>,
                 pg_updates := pg_updates z @ [(r_global_id r, [])]\<rparr>))"

text \<open>After the write: the old file, if the row moves, and the update of its recorded path.\<close>

definition settle_row :: "faults \<Rightarrow> string \<Rightarrow> strm_row \<Rightarrow> string \<Rightarrow> progress \<Rightarrow> progress" where
  "settle_row F outputDir r desired z =
     (case r_old_path r of
        None \<Rightarrow> z\<lparr>pg_updates := pg_updates z @ [(r_global_id r, desired)]\<rparr>
      | Some old \<Rightarrow>
          if old = desired then z
          else (case remove_strm F old outputDir (pg_fs z) of
                  (Inl _, fs) \<Rightarrow> fail (z\<lparr>pg_fs := fs\<rparr>)
                | (Inr _, fs) \<Rightarrow>
                    z\<lparr>pg_fs := fs, pg_keep := removeAll old (pg_keep z),
                      pg_stats := (pg_stats z)\<lparr>st_moved := Suc (st_moved (pg_stats z))\<rparr>,
                      pg_updates := pg_updates z @ [(r_global_id r, desired)]\<rparr>))"

text \<open>Until its old file is gone, a moving row keeps it.\<close>

definition keep_old :: "string \<Rightarrow> strm_row \<Rightarrow> progress \<Rightarrow> progress" where
  "keep_old desired r z =
     (case r_old_path r of
        None \<Rightarrow> z
      | Some old \<Rightarrow> if old = desired then z else z\<lparr>pg_keep := old # pg_keep z\<rparr>)"

definition count_write :: "bool \<Rightarrow> progress \<Rightarrow> progress" where
  "count_write wrote z =
     (if wrote then z\<lparr>pg_stats := (pg_stats z)\<lparr>st_written := Suc (st_written (pg_stats z))\<rparr>\<rparr>
      else z\<lparr>pg_stats := (pg_stats z)\<lparr>st_unchanged := Suc (st_unchanged (pg_stats z))\<rparr>\<rparr>)"

definition wanted_row :: "faults \<Rightarrow> string \<Rightarrow> string \<Rightarrow> strm_row \<Rightarrow> progress \<Rightarrow> progress" where
  "wanted_row F outputDir baseURL r z =
     (let desired = path_for outputDir r;
          content = url_for baseURL (r_peer_id r) (r_item_id r);
          z = keep_old desired r z
      in case map_of (pg_claimed z) desired of
           Some owner \<Rightarrow> fail z
         | None \<Rightarrow>
             let z = z\<lparr>pg_claimed := (desired, r_global_id r) # pg_claimed z, pg_keep := desired # pg_keep z\<rparr>
             in (case write_if_changed F desired content (pg_fs z) of
                   (Inl _, fs) \<Rightarrow> fail (z\<lparr>pg_fs := fs\<rparr>)
                 | (Inr wrote, fs) \<Rightarrow> settle_row F outputDir r desired (count_write wrote (z\<lparr>pg_fs := fs\<rparr>))))"

definition reconcile_row :: "faults \<Rightarrow> string \<Rightarrow> string \<Rightarrow> strm_row \<Rightarrow> progress \<Rightarrow> progress" where
  "reconcile_row F outputDir baseURL r z =
     (if \<not> want_strm r then unwanted_row F outputDir r z else wanted_row F outputDir baseURL r z)"

definition save_path :: "string \<times> string \<Rightarrow> (string, item_row) tbl \<Rightarrow> (string, item_row) tbl" where
  "save_path u t =
     tbl_update_where (\<lambda>k _. k = fst u) (\<lambda>x. x\<lparr>i_strm_path := (if snd u \<noteq> [] then Some (snd u) else None)\<rparr>) t"

definition save_paths :: "go_error option \<Rightarrow> (string \<times> string) list \<Rightarrow> database \<Rightarrow> (go_error + unit) \<times> database" where
  "save_paths fault updates d =
     (if updates = [] then (Inr (), d)
      else with_tx fault (\<lambda>d. Inr ((), d\<lparr>catalog_items := fold save_path updates (catalog_items d)\<rparr>)) d)"

definition scan_rows :: "database \<Rightarrow> strm_row list" where
  "scan_rows d = map scan_row (sort_key fst (catalog_items d))"

fun make_roots :: "faults \<Rightarrow> string list \<Rightarrow> fsys \<Rightarrow> bool \<times> fsys" where
  "make_roots F [] fs = (True, fs)"
| "make_roots F (root # roots) fs =
     (case mkdir_all F root fs of (False, fs) \<Rightarrow> (False, fs) | (True, fs) \<Rightarrow> make_roots F roots fs)"

text \<open>The result: an error or none, the counters, the file system and the database.\<close>

definition reconcile ::
  "faults \<Rightarrow> string \<Rightarrow> string \<Rightarrow> database \<times> fsys \<Rightarrow> go_error option \<times> strm_stats \<times> database \<times> fsys" where
  "reconcile F outputDir baseURL df =
     (let (d, fs) = df
      in case make_roots F (root_dirs outputDir) fs of
           (False, fs) \<Rightarrow> (Some (ErrMsg ''creating dir''), zero_stats, d, fs)
         | (True, fs) \<Rightarrow>
             (case ff_query F of
                Some e \<Rightarrow> (Some (ErrDb ''querying catalog_items''), zero_stats, d, fs)
              | None \<Rightarrow>
                  let z = fold (reconcile_row F outputDir baseURL) (scan_rows d)
                            \<lparr>pg_fs = fs, pg_keep = [], pg_claimed = [], pg_stats = zero_stats, pg_updates = []\<rparr>
                  in (case save_paths (ff_save F) (pg_updates z) d of
                        (Inl e, d) \<Rightarrow> (Some e, pg_stats z, d, pg_fs z)
                      | (Inr _, d) \<Rightarrow>
                          (case sweep F outputDir (pg_keep z) (pg_fs z) of (swept, failed, fs) \<Rightarrow>
                             (None, (pg_stats z)\<lparr>st_swept := st_swept (pg_stats z) + swept,
                                                 st_failed := st_failed (pg_stats z) + failed\<rparr>, d, fs)))))"

end
