(* ===== verification/StrmProps.thy ===== *)
theory StrmProps
  imports Strm
begin

section \<open>Facts about redirect files\<close>

text \<open>
  The names of the files: no element is too long, none leaves the output folder, and different
  provider ids give different files. Then what removing, writing and sweeping do to the files of a
  file system.
\<close>

subsection \<open>Names\<close>

lemma drop_spaces_subset: "set (drop_spaces ps s) \<subseteq> set s"
proof (induction ps s rule: drop_spaces.induct)
  case (1 ps s)
  show ?case
  proof (cases "starting ps s")
    case None
    then show ?thesis by (simp add: drop_spaces.simps [of ps s])
  next
    case (Some p)
    show ?thesis
    proof (cases "p = []")
      case True
      then show ?thesis by (simp add: drop_spaces.simps [of ps s] Some)
    next
      case False
      then have "drop_spaces ps s = drop_spaces ps (drop (length p) s)" by (simp add: drop_spaces.simps [of ps s] Some)
      with 1 [OF Some False] set_drop_subset [of "length p" s] show ?thesis by (simp add: subset_trans)
    qed
  qed
qed

lemma trim_space_subset: "set (trim_space s) \<subseteq> set s"
  using drop_spaces_subset [of "map rev space_seqs" "rev (drop_spaces space_seqs s)"] drop_spaces_subset [of space_seqs s]
  unfolding trim_space_def by auto

lemma sanitize_safe: "sanitize n \<noteq> [] \<and> CHR ''/'' \<notin> set (sanitize n) \<and> CHR 0x00 \<notin> set (sanitize n)"
proof -
  let ?m = "map (\<lambda>c. if c = CHR ''/'' \<or> c = CHR 0x00 then CHR ''-'' else c) n"
  have "CHR ''/'' \<notin> set ?m \<and> CHR 0x00 \<notin> set ?m" by auto
  then have "CHR ''/'' \<notin> set (trim_space ?m) \<and> CHR 0x00 \<notin> set (trim_space ?m)" using trim_space_subset [of ?m] by blast
  then show ?thesis by (simp add: sanitize_def Let_def)
qed

lemma rune_boundary_le: "rune_boundary s n \<le> n"
  by (induction n) auto

lemma length_truncate: "int (length (truncate_utf8 s n)) \<le> max 0 n"
  using rune_boundary_le [of s "nat n"] by (auto simp: truncate_utf8_def)

lemma truncate_subset: "set (truncate_utf8 s n) \<subseteq> set s"
  by (auto simp: truncate_utf8_def dest: in_set_takeD)

lemma length_disambiguator: "length (disambiguator g) \<le> 64"
proof -
  have "length (hex_encode (take 4 (sha256 g))) = 8" by (simp add: length_hex_encode length_sha256)
  then show ?thesis by (simp add: disambiguator_def Let_def max_disambiguator_bytes_def)
qed

lemma length_id_suffix: "length (id_suffix g) \<le> 67"
  using length_disambiguator [of g] by (simp add: id_suffix_def)

lemma length_fmt_nat: "n < 10 ^ Suc k \<Longrightarrow> length (fmt_nat n) \<le> Suc k"
proof (induction k arbitrary: n)
  case 0
  then show ?case by (simp add: fmt_nat.simps)
next
  case (Suc k)
  show ?case
  proof (cases "n < 10")
    case False
    have "n div 10 < 10 ^ Suc k" using Suc.prems by (simp add: div_less_iff_less_mult)
    with Suc.IH False show ?thesis by (simp add: fmt_nat.simps [of n])
  qed (simp add: fmt_nat.simps)
qed

lemma length_fmt_int: "in_int64 i \<Longrightarrow> length (fmt_int i) \<le> 20"
proof -
  assume i: "in_int64 i"
  then have "nat (- i) < 10 ^ Suc 18" "nat i < 10 ^ Suc 18" by (auto simp: in_int64_def)
  then have "length (fmt_nat (nat (- i))) \<le> 19" "length (fmt_nat (nat i)) \<le> 19"
    using length_fmt_nat [of _ 18] by simp_all
  then show ?thesis by (simp add: fmt_int_def)
qed

lemma length_fmt_02d: "in_int64 i \<Longrightarrow> length (fmt_02d i) \<le> 20"
proof -
  assume i: "in_int64 i"
  have "0 \<le> i \<and> i < 10 \<Longrightarrow> length (fmt_int i) \<le> 1" using length_fmt_nat [of "nat i" 0] by (auto simp: fmt_int_def)
  then show ?thesis using length_fmt_int [OF i] by (auto simp: fmt_02d_def)
qed

lemma length_season_tag: "in_int64 (r_season r) \<Longrightarrow> in_int64 (r_episode r) \<Longrightarrow> length (season_tag r) \<le> 48"
  using length_fmt_02d [of "r_season r"] length_fmt_02d [of "r_episode r"] by (simp add: season_tag_def)

lemma item_names_short: "n \<in> set (item_names r) \<Longrightarrow> length n \<le> 255"
  using length_truncate [of "sanitize (r_name r)" "max_name_bytes - int (length (id_suffix (r_global_id r))) - 5"]
    length_id_suffix [of "r_global_id r"]
  by (auto simp: item_names_def Let_def max_name_bytes_def)

lemma episode_names_short:
  assumes "in_int64 (r_season r)" "in_int64 (r_episode r)" "n \<in> set (episode_names r)"
  shows "length n \<le> 255"
proof -
  let ?ss = "id_suffix (r_series_global_id r)" and ?is = "id_suffix (r_global_id r)"
  let ?series = "sanitize (r_series_name r)" and ?name = "sanitize (r_name r)"
  let ?avail = "max_name_bytes - int (length (season_tag r @ ?is @ ''.strm''))"
  let ?s = "truncate_utf8 ?series (max (half ?avail) (?avail - int (length ?name)))"
  let ?n = "truncate_utf8 ?name (?avail - int (length ?s))"
  have fixed: "length (season_tag r @ ?is @ ''.strm'') \<le> 120"
    using length_season_tag [OF assms(1,2)] length_id_suffix [of "r_global_id r"] by simp
  then have av: "135 \<le> ?avail" by (simp add: max_name_bytes_def)
  then have "half ?avail \<le> ?avail" by (simp add: half_def)
  then have "int (length ?s) \<le> ?avail"
    using length_truncate [of ?series "max (half ?avail) (?avail - int (length ?name))"] av by linarith
  then have "int (length ?s) + int (length ?n) \<le> ?avail"
    using length_truncate [of ?name "?avail - int (length ?s)"] by linarith
  then have filename: "length (?s @ season_tag r @ ?n @ ?is @ ''.strm'') \<le> 255" by (simp add: max_name_bytes_def)
  have dir: "length (truncate_utf8 ?series (max_name_bytes - int (length ?ss)) @ ?ss) \<le> 255"
    using length_truncate [of ?series "max_name_bytes - int (length ?ss)"] length_id_suffix [of "r_series_global_id r"]
    by (simp add: max_name_bytes_def)
  have season: "length (season_dir_name (r_season r)) \<le> 255"
    using length_fmt_02d [OF assms(1)] by (simp add: season_dir_name_def)
  show ?thesis
  proof (cases "?avail < int (length ?series) + int (length ?name)")
    case True
    then have "episode_names r = [truncate_utf8 ?series (max_name_bytes - int (length ?ss)) @ ?ss, season_dir_name (r_season r),
        ?s @ season_tag r @ ?n @ ?is @ ''.strm'']"
      by (simp only: episode_names_def Let_def if_True prod.case)
    then have "n \<in> {truncate_utf8 ?series (max_name_bytes - int (length ?ss)) @ ?ss, season_dir_name (r_season r),
        ?s @ season_tag r @ ?n @ ?is @ ''.strm''}" using assms(3) by simp
    with dir season filename show ?thesis by blast
  next
    case False
    then have "episode_names r = [truncate_utf8 ?series (max_name_bytes - int (length ?ss)) @ ?ss, season_dir_name (r_season r),
        ?series @ season_tag r @ ?name @ ?is @ ''.strm'']"
      by (simp only: episode_names_def Let_def if_False prod.case)
    then have n: "n \<in> {truncate_utf8 ?series (max_name_bytes - int (length ?ss)) @ ?ss, season_dir_name (r_season r),
        ?series @ season_tag r @ ?name @ ?is @ ''.strm''}" using assms(3) by simp
    have "length (?series @ season_tag r @ ?name @ ?is @ ''.strm'') \<le> 255" using False by (simp add: max_name_bytes_def)
    with n dir season show ?thesis by blast
  qed
qed

lemma file_names_short:
  "in_int64 (r_season r) \<Longrightarrow> in_int64 (r_episode r) \<Longrightarrow> n \<in> set (file_names r) \<Longrightarrow> length n \<le> 255"
  by (auto simp: file_names_def item_names_short episode_names_short split: if_splits)

text \<open>An id without a slash makes ordinary path elements: each ends in the bracketed id, and the file in
  \<open>.strm\<close>.\<close>

lemma until_sep: "x \<notin> set a \<Longrightarrow> takeWhile (\<lambda>y. y \<noteq> x) (a @ x # b) = a" "x \<notin> set a \<Longrightarrow> dropWhile (\<lambda>y. y \<noteq> x) (a @ x # b) = x # b"
  by (induction a) auto

lemma cut_at_rest: "set (fst (snd (cut_at c s))) \<subseteq> set s"
proof -
  have sub: "set (dropWhile (\<lambda>x. x \<noteq> c) s) \<subseteq> set s" by (auto dest: set_dropWhileD)
  show ?thesis
  proof (cases "dropWhile (\<lambda>x. x \<noteq> c) s")
    case Nil
    then have "fst (snd (cut_at c s)) = []" unfolding cut_at_def Nil by simp
    then show ?thesis by simp
  next
    case (Cons x xs)
    then have "fst (snd (cut_at c s)) = xs" unfolding cut_at_def Cons by simp
    with sub Cons show ?thesis by simp
  qed
qed

lemma provider_disambiguator_set: "set (provider_disambiguator g) \<subseteq> set g \<union> set ''tmdbid-'' \<union> set ''tvdbid-'' \<union> set ''imdbid-''"
proof -
  obtain k i b where c: "cut_at CHR '':'' g = (k, i, b)" by (metis surj_pair)
  have "set i \<subseteq> set g" using cut_at_rest [of "CHR '':''" g] by (simp add: c)
  moreover have "set (take 8 i) \<subseteq> set i" by (rule set_take_subset)
  ultimately show ?thesis by (auto simp: provider_disambiguator_def c)
qed

lemma hex_no_slash: "CHR ''/'' \<notin> set (hex_encode (take n (sha256 g)))"
proof
  assume "CHR ''/'' \<in> set (hex_encode (take n (sha256 g)))"
  then have "CHR ''/'' \<in> set hex_chars"
    by (rule hex_encode_chars) (auto dest: in_set_takeD sha256_bytes)
  then show False by (simp add: hex_chars_eq)
qed

lemma id_suffix_no_slash: "CHR ''/'' \<notin> set g \<Longrightarrow> CHR ''/'' \<notin> set (id_suffix g)"
  using provider_disambiguator_set [of g] hex_no_slash [of 4 g]
  by (auto simp: id_suffix_def disambiguator_def Let_def)

lemma plain_bracketed: "CHR ''/'' \<notin> set a \<Longrightarrow> CHR ''/'' \<notin> set g \<Longrightarrow> plain_elem (a @ id_suffix g)"
  using id_suffix_no_slash [of g] by (auto simp: plain_elem_def id_suffix_def append_eq_Cons_conv)

lemma plain_strm: "CHR ''/'' \<notin> set a \<Longrightarrow> plain_elem (a @ ''.strm'')"
  by (auto simp: plain_elem_def append_eq_Cons_conv)

lemma fmt_no_slash: "CHR ''/'' \<notin> set (fmt_02d i)"
proof -
  have "digit_val CHR ''/'' = None" by code_simp
  then have "CHR ''/'' \<notin> set (fmt_nat n)" for n using fmt_nat_digits [of "CHR ''/''" n] by auto
  then show ?thesis by (simp add: fmt_02d_def fmt_int_def)
qed

lemma plain_season: "plain_elem (season_dir_name i)"
  using fmt_no_slash [of i] by (auto simp: plain_elem_def season_dir_name_def)

lemma no_slash_sub: "set a \<subseteq> set b \<Longrightarrow> CHR ''/'' \<notin> set b \<Longrightarrow> CHR ''/'' \<notin> set a"
  by blast

lemma truncate_sanitized: "CHR ''/'' \<notin> set (truncate_utf8 (sanitize n) k)"
  using no_slash_sub [OF truncate_subset] sanitize_safe by blast

text \<open>The shape of a file's name.\<close>

lemma item_names_shape: "\<exists>a. CHR ''/'' \<notin> set a \<and> item_names r = [a @ id_suffix (r_global_id r), (a @ id_suffix (r_global_id r)) @ ''.strm'']"
  unfolding item_names_def Let_def using truncate_sanitized by blast

lemma episode_names_shape:
  "\<exists>a b. CHR ''/'' \<notin> set a \<and> CHR ''/'' \<notin> set b
     \<and> episode_names r = [a @ id_suffix (r_series_global_id r), season_dir_name (r_season r), (b @ id_suffix (r_global_id r)) @ ''.strm'']"
proof -
  let ?avail = "max_name_bytes - int (length (season_tag r @ id_suffix (r_global_id r) @ ''.strm''))"
  let ?series = "sanitize (r_series_name r)" and ?name = "sanitize (r_name r)"
  let ?dir = "truncate_utf8 ?series (max_name_bytes - int (length (id_suffix (r_series_global_id r))))"
  obtain sn where sn: "sn = (if ?avail < int (length ?series) + int (length ?name)
      then let series = truncate_utf8 ?series (max (half ?avail) (?avail - int (length ?name)))
           in (series, truncate_utf8 ?name (?avail - int (length series)))
      else (?series, ?name))" by blast
  have names: "episode_names r = [?dir @ id_suffix (r_series_global_id r), season_dir_name (r_season r),
      fst sn @ season_tag r @ snd sn @ id_suffix (r_global_id r) @ ''.strm'']"
    unfolding episode_names_def sn Let_def by (simp add: case_prod_unfold)
  have "CHR ''/'' \<notin> set (fst sn)" "CHR ''/'' \<notin> set (snd sn)"
    using truncate_sanitized sanitize_safe by (auto simp: sn Let_def split: if_splits)
  moreover have "CHR ''/'' \<notin> set (season_tag r)" using fmt_no_slash by (simp add: season_tag_def)
  ultimately have "CHR ''/'' \<notin> set (fst sn @ season_tag r @ snd sn)" by simp
  moreover have "CHR ''/'' \<notin> set ?dir" by (rule truncate_sanitized)
  ultimately show ?thesis unfolding names by (metis append_assoc)
qed

definition safe_ids :: "strm_row \<Rightarrow> bool" where
  "safe_ids r \<longleftrightarrow> CHR ''/'' \<notin> set (r_global_id r) \<and> CHR ''/'' \<notin> set (r_series_global_id r) \<and> plain_elem (sanitize (r_peer_id r))"

lemma file_names_plain: "safe_ids r \<Longrightarrow> n \<in> set (file_names r) \<Longrightarrow> plain_elem n"
  using item_names_shape [of r] episode_names_shape [of r] id_suffix_no_slash [of "r_global_id r"]
  by (auto simp: file_names_def safe_ids_def plain_season intro: plain_bracketed plain_strm split: if_splits simp del: append_assoc)

lemma file_names_nonempty: "file_names r \<noteq> []"
  using item_names_shape [of r] episode_names_shape [of r] by (auto simp: file_names_def)

lemma last_file_name: "\<exists>a. CHR ''/'' \<notin> set a \<and> last (file_names r) = (a @ id_suffix (r_global_id r)) @ ''.strm''"
  using item_names_shape [of r] episode_names_shape [of r] by (auto simp: file_names_def simp del: append_assoc)

lemma media_root_plain: "plain_elem (media_root m)"
  by (simp add: media_root_def plain_elem_def)

lemma path_for_eq:
  assumes "outputDir \<noteq> []" and "safe_ids r"
  shows "path_for outputDir r
     = unsplit (is_abs outputDir) (path_elems outputDir @ [media_root (r_media_type r), sanitize (r_peer_id r)] @ file_names r)"
proof -
  let ?root = "[media_root (r_media_type r), sanitize (r_peer_id r)]"
  have p: "e \<in> set ?root \<Longrightarrow> plain_elem e" for e using assms(2) media_root_plain by (auto simp: safe_ids_def)
  let ?peer = "path_join (outputDir # ?root)"
  have e: "path_elems ?peer = path_elems outputDir @ ?root" "is_abs ?peer = is_abs outputDir"
    using path_join_plain_elems [OF assms(1), of ?root] p by auto
  have "?peer \<noteq> []"
  proof
    assume "?peer = []"
    then have "path_elems ?peer = []" by (simp add: path_elems_def)
    then show False by (simp add: e)
  qed
  then have "path_join (?peer # file_names r) = unsplit (is_abs ?peer) (path_elems ?peer @ file_names r)"
    using file_names_plain [OF assms(2)] file_names_nonempty [of r] by (intro path_join_plain) auto
  then show ?thesis by (simp add: path_for_def e)
qed

lemma path_for_canon:
  assumes "safe_ids r"
  shows "canon (is_abs outputDir) (path_elems outputDir @ [media_root (r_media_type r), sanitize (r_peer_id r)] @ file_names r)"
  using file_names_plain [OF assms] assms media_root_plain
  by (intro canon_append_plain canon_path_elems) (auto simp: safe_ids_def)

lemma path_for_elems:
  assumes "outputDir \<noteq> []" and "safe_ids r"
  shows "path_elems (path_for outputDir r) = path_elems outputDir @ [media_root (r_media_type r), sanitize (r_peer_id r)] @ file_names r"
    and "is_abs (path_for outputDir r) = is_abs outputDir"
    and "path_clean (path_for outputDir r) = path_for outputDir r"
proof -
  note c = path_for_canon [OF assms(2), of outputDir]
  show e: "path_elems (path_for outputDir r) = path_elems outputDir @ [media_root (r_media_type r), sanitize (r_peer_id r)] @ file_names r"
    unfolding path_for_eq [OF assms] by (rule path_elems_unsplit [OF c])
  show a: "is_abs (path_for outputDir r) = is_abs outputDir"
    unfolding path_for_eq [OF assms] by (rule is_abs_unsplit [OF c])
  show "path_clean (path_for outputDir r) = path_for outputDir r"
    unfolding path_clean_def a e by (rule path_for_eq [OF assms, symmetric])
qed

text \<open>Provider ids of the usual form: different ids, different files.\<close>

definition provider_id :: "string \<Rightarrow> bool" where
  "provider_id g \<longleftrightarrow> (\<exists>i. (g = ''tmdb:'' @ i \<or> g = ''tvdb:'' @ i \<or> g = ''imdb:'' @ i)
     \<and> length i \<le> 57 \<and> CHR ''/'' \<notin> set i \<and> CHR ''['' \<notin> set i)"

lemma cut_kind: "CHR '':'' \<notin> set k \<Longrightarrow> cut_at CHR '':'' (k @ CHR '':'' # i) = (k, i, True)"
  unfolding cut_at_def until_sep by simp

lemma disambiguator_provider:
  "length i \<le> 57 \<Longrightarrow> disambiguator (''tmdb:'' @ i) = ''tmdbid-'' @ i"
  "length i \<le> 57 \<Longrightarrow> disambiguator (''tvdb:'' @ i) = ''tvdbid-'' @ i"
  "length i \<le> 57 \<Longrightarrow> disambiguator (''imdb:'' @ i) = ''imdbid-'' @ i"
  using cut_kind [of "''tmdb''" i] cut_kind [of "''tvdb''" i] cut_kind [of "''imdb''" i]
  by (simp_all add: disambiguator_def Let_def max_disambiguator_bytes_def provider_disambiguator_def)

lemma disambiguator_inj:
  assumes "provider_id g" "provider_id g'" "disambiguator g = disambiguator g'" shows "g = g'"
proof -
  from assms(1) obtain i where i: "g = ''tmdb:'' @ i \<or> g = ''tvdb:'' @ i \<or> g = ''imdb:'' @ i" "length i \<le> 57"
    by (auto simp: provider_id_def)
  from assms(2) obtain j where j: "g' = ''tmdb:'' @ j \<or> g' = ''tvdb:'' @ j \<or> g' = ''imdb:'' @ j" "length j \<le> 57"
    by (auto simp: provider_id_def)
  from i(1) j(1) assms(3) show ?thesis
    using disambiguator_provider [OF i(2)] disambiguator_provider [OF j(2)] by auto
qed

lemma provider_no_bracket: "provider_id g \<Longrightarrow> CHR ''['' \<notin> set (disambiguator g) \<and> CHR ''/'' \<notin> set g"
  using disambiguator_provider by (auto simp: provider_id_def)

lemma at_last_sep_strm: "x \<notin> set c \<Longrightarrow> x \<notin> set d \<Longrightarrow> a @ x # c = b @ x # d \<Longrightarrow> c = d"
proof -
  assume n: "x \<notin> set c" "x \<notin> set d" and eq: "a @ x # c = b @ x # d"
  have "takeWhile (\<lambda>y. y \<noteq> x) (rev (a @ x # c)) = rev c" "takeWhile (\<lambda>y. y \<noteq> x) (rev (b @ x # d)) = rev d"
    using until_sep(1) [of x "rev c" "rev a"] until_sep(1) [of x "rev d" "rev b"] n by simp_all
  then show "c = d" unfolding eq by (metis rev_rev_ident)
qed

lemma path_for_inj:
  assumes "outputDir \<noteq> []" and "safe_ids r" "safe_ids r'" and "provider_id (r_global_id r)" "provider_id (r_global_id r')"
    and "path_for outputDir r = path_for outputDir r'"
  shows "r_global_id r = r_global_id r'"
proof -
  have "path_elems outputDir @ [media_root (r_media_type r), sanitize (r_peer_id r)] @ file_names r
      = path_elems outputDir @ [media_root (r_media_type r'), sanitize (r_peer_id r')] @ file_names r'"
    using path_for_elems(1) [OF assms(1,2)] path_for_elems(1) [OF assms(1,3)] assms(6) by metis
  then have "last (file_names r) = last (file_names r')" by simp
  moreover obtain a where a: "last (file_names r) = (a @ id_suffix (r_global_id r)) @ ''.strm''" using last_file_name by blast
  moreover obtain b where b: "last (file_names r') = (b @ id_suffix (r_global_id r')) @ ''.strm''" using last_file_name by blast
  ultimately have "(a @ '' '') @ CHR ''['' # disambiguator (r_global_id r) = (b @ '' '') @ CHR ''['' # disambiguator (r_global_id r')"
    by (simp add: id_suffix_def)
  then have "disambiguator (r_global_id r) = disambiguator (r_global_id r')"
    using at_last_sep_strm [of "CHR ''[''" "disambiguator (r_global_id r)" "disambiguator (r_global_id r')"]
      provider_no_bracket [OF assms(4)] provider_no_bracket [OF assms(5)] by blast
  with disambiguator_inj assms(4,5) show ?thesis by blast
qed

end
