(* ===== verification/StrmFiles.thy ===== *)
theory StrmFiles
  imports StrmProps
begin

section \<open>What reconciling does to the files\<close>

text \<open>
  The effect of each step on the files, whatever fails: removing a file takes only that file, whatever
  directories go with it; writing puts only that file, or leaves a temporary one; sweeping takes only
  redirect and temporary files under the two folders that no row keeps.
\<close>

abbreviation file_at :: "fsys \<Rightarrow> string \<Rightarrow> string option" where
  "file_at fs p \<equiv> map_of (fs_files fs) p"

definition clean_files :: "fsys \<Rightarrow> bool" where
  "clean_files fs \<longleftrightarrow> keyed (fs_files fs) \<and> (\<forall>p. file_at fs p \<noteq> None \<longrightarrow> path_clean p = p)"

subsection \<open>Removing\<close>

lemma above_iff: "list_ex (\<lambda>(q, _). below q p) (fs_files fs) \<longleftrightarrow> (\<exists>q. below q p \<and> file_at fs q \<noteq> None)"
  by (force simp: list_ex_iff map_of_eq_None_iff)

lemma os_remove_spec:
  assumes "os_remove F p fs = (res, fs')"
  shows "res = RemoveFailed \<Longrightarrow> fs' = fs"
    and "q \<noteq> p \<Longrightarrow> file_at fs' q = file_at fs q"
    and "keyed (fs_files fs) \<Longrightarrow> keyed (fs_files fs')"
    and "res \<noteq> RemoveFailed \<Longrightarrow> file_at fs' p = None"
    and "res \<noteq> RemoveFailed \<Longrightarrow> below q p \<Longrightarrow> file_at fs q = None"
    and "q \<noteq> p \<Longrightarrow> q \<in> set (fs_dirs fs) \<Longrightarrow> q \<in> set (fs_dirs fs')"
    and "file_at fs p = None \<Longrightarrow> fs_files fs' = fs_files fs"
  using assms above_iff [of p fs]
  by (auto simp: os_remove_def split: if_splits)

lemma below_trans: "below a b \<Longrightarrow> below b c \<Longrightarrow> below a c"
  by (auto simp: below_def has_prefix_ex)

lemma parent_below:
  assumes "path_clean p = p" and "within p d" and "path_elems (path_dir p) \<noteq> []"
  shows "below (path_dir p) p"
proof -
  note P = path_dir_within [OF assms(1,2)]
  have pe: "path_elems (path_dir p) = butlast (path_elems p)" "path_dir p = unsplit (is_abs p) (butlast (path_elems p))" "path_elems p \<noteq> []"
    using P by blast+
  have es: "butlast (path_elems p) \<noteq> []" using assms(3) unfolding pe(1) .
  have "p = unsplit (is_abs p) (butlast (path_elems p) @ [last (path_elems p)])"
    using path_clean_eq [OF assms(1)] pe(3) by simp
  also have "\<dots> = unsplit (is_abs p) (butlast (path_elems p)) @ ''/'' @ last (path_elems p)"
    using es by (simp add: unsplit_def join_with_append)
  finally have "p = path_dir p @ ''/'' @ last (path_elems p)" unfolding pe(2) [symmetric] .
  then show ?thesis unfolding below_def has_prefix_ex by (metis append_assoc)
qed

lemma within_elems: "within p d \<Longrightarrow> path_elems p \<noteq> []"
  by (auto simp: within_iff)

lemma remove_empty_files:
  "path_clean dir = dir \<Longrightarrow> (within dir b \<Longrightarrow> below dir p) \<Longrightarrow> (\<And>q. below q p \<Longrightarrow> file_at fs q = None)
     \<Longrightarrow> fs_files (remove_empty F b dir fs) = fs_files fs"
proof (induction F b dir fs rule: remove_empty.induct)
  case (1 F b dir fs)
  show ?case
  proof (cases "dir = b \<or> \<not> within dir b \<or> dir \<in> set (root_dirs b)")
    case True
    then show ?thesis by (subst remove_empty.simps) auto
  next
    case False
    then have w: "dir \<noteq> b" "within dir b" "dir \<notin> set (root_dirs b)" by auto
    have dp: "below dir p" using "1.prems"(2) w(2) .
    obtain res fs' where r: "os_remove F dir fs = (res, fs')" by (cases "os_remove F dir fs")
    have same: "fs_files fs' = fs_files fs" using os_remove_spec(7) [OF r] "1.prems"(3) [OF dp] .
    show ?thesis
    proof (cases "res = Removed")
      case True
      have below': "below (path_dir dir) p" if "within (path_dir dir) b"
        using parent_below [OF "1.prems"(1) w(2) within_elems [OF that]] dp by (rule below_trans)
      have "fs_files (remove_empty F b (path_dir dir) fs') = fs_files fs'"
        by (rule "1.IH" [OF _ _ r [symmetric]]) (use w True below' "1.prems"(3) same in auto)
      then show ?thesis using w r True same by (subst remove_empty.simps) simp
    next
      case False
      then show ?thesis using w r same by (subst remove_empty.simps) (auto split: removal.split)
    qed
  qed
qed

lemma remove_empty_roots:
  "x \<in> set (root_dirs b) \<Longrightarrow> x \<in> set (fs_dirs fs) \<Longrightarrow> x \<in> set (fs_dirs (remove_empty F b dir fs))"
proof (induction F b dir fs rule: remove_empty.induct)
  case (1 F b dir fs)
  show ?case
  proof (cases "dir = b \<or> \<not> within dir b \<or> dir \<in> set (root_dirs b)")
    case True
    then show ?thesis using "1.prems" by (subst remove_empty.simps) auto
  next
    case False
    then have w: "dir \<noteq> b" "within dir b" "dir \<notin> set (root_dirs b)" by auto
    obtain res fs' where r: "os_remove F dir fs = (res, fs')" by (cases "os_remove F dir fs")
    have "x \<noteq> dir" using "1.prems"(1) w(3) by blast
    then have x: "x \<in> set (fs_dirs fs')" using os_remove_spec(6) [OF r] "1.prems"(2) by blast
    show ?thesis
    proof (cases "res = Removed")
      case True
      have "x \<in> set (fs_dirs (remove_empty F b (path_dir dir) fs'))"
        by (rule "1.IH" [OF _ _ r [symmetric]]) (use w True "1.prems"(1) x in auto)
      then show ?thesis using w r True by (subst remove_empty.simps) simp
    next
      case False
      then show ?thesis using w r x by (subst remove_empty.simps) (auto split: removal.split)
    qed
  qed
qed

lemma root_dirs_clean: "out \<noteq> [] \<Longrightarrow> root_dirs (path_clean out) = root_dirs out"
proof -
  assume "out \<noteq> []"
  have "path_clean out \<noteq> []"
    using canon_elem [OF canon_path_elems [of out], of "hd (path_elems out)"] join_with_hd [of "hd (path_elems out)" "''/''" "tl (path_elems out)"]
    by (cases "path_elems out") (auto simp: path_clean_def unsplit_def)
  moreover have "plain_elem ''movies''" "plain_elem ''series''" by (simp_all add: plain_elem_def)
  ultimately have "path_join [path_clean out, ''movies''] = path_join [out, ''movies'']"
    "path_join [path_clean out, ''series''] = path_join [out, ''series'']"
    using \<open>out \<noteq> []\<close> path_join_plain [of _ "[''movies'']"] path_join_plain [of _ "[''series'']"] by simp_all
  then show ?thesis by (simp add: root_dirs_def strm_roots_def)
qed

lemma remove_strm_spec:
  assumes r: "remove_strm F p out fs = (res, fs')" and c: "path_clean p = p"
  shows "isl res \<Longrightarrow> fs' = fs"
    and "q \<noteq> p \<Longrightarrow> file_at fs' q = file_at fs q"
    and "keyed (fs_files fs) \<Longrightarrow> keyed (fs_files fs')"
    and "\<not> isl res \<Longrightarrow> file_at fs' p = None"
    and "out \<noteq> [] \<Longrightarrow> x \<in> set (root_dirs out) \<Longrightarrow> x \<noteq> p \<Longrightarrow> x \<in> set (fs_dirs fs) \<Longrightarrow> x \<in> set (fs_dirs fs')"
proof -
  obtain rm fs1 where rm: "os_remove F p fs = (rm, fs1)" by (cases "os_remove F p fs")
  note O = os_remove_spec [OF rm]
  show "isl res \<Longrightarrow> fs' = fs" using r O(1) by (auto simp: remove_strm_def rm Let_def split: removal.splits if_splits)
  let ?b = "path_clean out"
  have ok: "fs_files fs' = fs_files fs1 \<and> (out \<noteq> [] \<and> x \<in> set (root_dirs out) \<and> x \<in> set (fs_dirs fs1) \<longrightarrow> x \<in> set (fs_dirs fs'))" if f: "rm \<noteq> RemoveFailed"
  proof (cases "within p ?b")
    case False
    then have "fs' = fs1" using r f by (auto simp: remove_strm_def rm Let_def split: removal.splits)
    then show ?thesis by simp
  next
    case True
    then have e: "fs' = remove_empty F ?b (path_dir p) fs1" using r f by (auto simp: remove_strm_def rm Let_def split: removal.splits)
    have "fs_files fs' = fs_files fs1"
      unfolding e
    proof (rule remove_empty_files)
      show "within (path_dir p) ?b \<Longrightarrow> below (path_dir p) p" using parent_below [OF c True] within_elems by blast
      show "file_at fs1 q = None" if "below q p" for q
      proof -
        have "q \<noteq> p" using that by (auto simp: below_def has_prefix_ex)
        then show ?thesis using O(2) O(5) [OF f that] by metis
      qed
    qed simp
    then show ?thesis using remove_empty_roots [of x ?b] root_dirs_clean [of out] by (simp add: e)
  qed
  have failed: "fs' = fs1 \<and> isl res" if "rm = RemoveFailed" using r that by (auto simp: remove_strm_def rm)
  have files: "fs_files fs' = fs_files fs1" using ok failed by (cases "rm = RemoveFailed") blast+
  show "q \<noteq> p \<Longrightarrow> file_at fs' q = file_at fs q"
    unfolding files by (rule O(2))
  show "keyed (fs_files fs) \<Longrightarrow> keyed (fs_files fs')"
    unfolding files by (rule O(3))
  show "file_at fs' p = None" if "\<not> isl res"
  proof -
    have "rm \<noteq> RemoveFailed" using failed that by blast
    then show ?thesis unfolding files by (rule O(4))
  qed
  show "x \<in> set (fs_dirs fs')" if "out \<noteq> []" "x \<in> set (root_dirs out)" "x \<noteq> p" "x \<in> set (fs_dirs fs)"
  proof -
    have "x \<in> set (fs_dirs fs1)" by (rule O(6) [OF that(3,4)])
    then show ?thesis using ok failed that(1,2) by (cases "rm = RemoveFailed") blast+
  qed
qed

subsection \<open>Writing\<close>

lemma make_dirs_spec:
  "fs_files (snd (make_dirs F qs fs)) = fs_files fs \<and> set (fs_dirs fs) \<subseteq> set (fs_dirs (snd (make_dirs F qs fs)))
     \<and> (fst (make_dirs F qs fs) \<longrightarrow> set qs \<subseteq> set (fs_dirs (snd (make_dirs F qs fs))))"
proof (induction F qs fs rule: make_dirs.induct)
  case (2 F q qs fs)
  let ?fs = "fs\<lparr>fs_dirs := fs_dirs fs @ [q]\<rparr>"
  consider "map_of (fs_files fs) q \<noteq> None \<or> (q \<notin> set (fs_dirs fs) \<and> ff_mkdir F q)"
    | "map_of (fs_files fs) q = None" "q \<in> set (fs_dirs fs)"
    | "map_of (fs_files fs) q = None" "q \<notin> set (fs_dirs fs)" "\<not> ff_mkdir F q" by blast
  then show ?case
  proof cases
    case 1
    then have "make_dirs F (q # qs) fs = (False, fs)" by auto
    then show ?thesis by simp
  next
    case 2
    then have "make_dirs F (q # qs) fs = make_dirs F qs fs" by simp
    then show ?thesis using "2.IH"(1) 2 by auto
  next
    case 3
    then have "make_dirs F (q # qs) fs = make_dirs F qs ?fs" by simp
    then show ?thesis using "2.IH"(2) 3 by auto
  qed
qed simp

lemma mkdir_all_spec:
  "mkdir_all F p fs = (ok, fs') \<Longrightarrow> fs_files fs' = fs_files fs \<and> set (fs_dirs fs) \<subseteq> set (fs_dirs fs')"
  using make_dirs_spec [of F "ancestors p" fs] by (cases "p \<in> set (fs_dirs fs)") (auto simp: mkdir_all_def)

lemma path_join_clean [simp]: "e \<noteq> [] \<Longrightarrow> path_clean (path_join (e # es)) = path_join (e # es)"
  by (simp add: path_join_def)

lemma path_clean_nonempty: "path_clean p \<noteq> []"
  using canon_elem [OF canon_path_elems [of p], of "hd (path_elems p)"] join_with_hd [of "hd (path_elems p)" "''/''" "tl (path_elems p)"]
  by (cases "path_elems p") (auto simp: path_clean_def unsplit_def)

lemma path_dir_nonempty: "path_dir p \<noteq> []"
  unfolding path_dir_def by (rule path_clean_nonempty)

lemma temp_clean: "path_clean (temp_path (path_dir p) rnd) = temp_path (path_dir p) rnd"
  by (simp add: temp_path_def path_dir_nonempty)

lemma path_base_last:
  assumes "canon r (es @ [e])" shows "path_base (unsplit r (es @ [e])) = e"
proof -
  have e: "CHR ''/'' \<notin> set e" using canon_elem [OF assms, of e] by simp
  have "\<forall>c \<in> set (rev e). c \<noteq> CHR ''/''" using e by auto
  then have tw: "takeWhile (\<lambda>c. c \<noteq> CHR ''/'') (rev e) = rev e" unfolding takeWhile_eq_all_conv .
  show ?thesis
  proof (cases "es = [] \<and> \<not> r")
    case True
    then have "unsplit r (es @ [e]) = e" by (simp add: unsplit_def)
    then show ?thesis unfolding path_base_def by (simp only: tw rev_rev_ident)
  next
    case False
    then have "\<exists>pre. unsplit r (es @ [e]) = pre @ CHR ''/'' # e"
      by (cases "es = []") (auto simp: unsplit_def join_with_append)
    then obtain pre where "unsplit r (es @ [e]) = pre @ CHR ''/'' # e" by blast
    then show ?thesis using until_sep(1) [of "CHR ''/''" "rev e" "rev pre"] e by (simp add: path_base_def)
  qed
qed

lemma temp_base:
  assumes "CHR ''/'' \<notin> set rnd" shows "path_base (temp_path (path_dir p) rnd) = temp_prefix @ rnd @ ''.tmp''"
proof -
  let ?n = "temp_prefix @ rnd @ ''.tmp''"
  have pl: "plain_elem ?n" using assms by (simp add: plain_elem_def temp_prefix_def)
  have "temp_path (path_dir p) rnd = unsplit (is_abs (path_dir p)) (path_elems (path_dir p) @ [?n])"
    unfolding temp_path_def using pl by (intro path_join_plain) (auto simp: path_dir_nonempty)
  moreover have "canon (is_abs (path_dir p)) (path_elems (path_dir p) @ [?n])"
    by (rule canon_snoc_plain [OF canon_path_elems pl])
  ultimately show ?thesis by (simp add: path_base_last)
qed

text \<open>The random part of a temporary file's name has no slash.\<close>

definition temp_names_ok :: "faults \<Rightarrow> bool" where
  "temp_names_ok F \<longleftrightarrow> (\<forall>p rnd part. ff_write F p = Some (NotReplaced (Some (rnd, part))) \<longrightarrow> CHR ''/'' \<notin> set rnd)"

definition is_temp :: "string \<Rightarrow> bool" where
  "is_temp p \<longleftrightarrow> has_prefix temp_prefix (path_base p)"

lemma write_spec:
  assumes w: "write_if_changed F p content fs = (res, fs')" and t: "temp_names_ok F"
  shows "q \<noteq> p \<Longrightarrow> \<not> is_temp q \<Longrightarrow> file_at fs' q = file_at fs q"
    and "isl res \<Longrightarrow> \<not> is_temp p \<Longrightarrow> file_at fs' p = file_at fs p"
    and "\<not> isl res \<Longrightarrow> q \<noteq> p \<Longrightarrow> file_at fs' q = file_at fs q"
    and "\<not> isl res \<Longrightarrow> file_at fs' p = Some content"
    and "path_clean p = p \<Longrightarrow> clean_files fs \<Longrightarrow> clean_files fs'"
    and "set (fs_dirs fs) \<subseteq> set (fs_dirs fs')"
    and "file_at fs p \<noteq> None \<Longrightarrow> file_at fs' p \<noteq> None"
proof -
  obtain ok fs1 where m: "mkdir_all F (path_dir p) fs = (ok, fs1)" by (cases "mkdir_all F (path_dir p) fs")
  have m1: "fs_files fs1 = fs_files fs" "set (fs_dirs fs) \<subseteq> set (fs_dirs fs1)" using mkdir_all_spec [OF m] by auto
  have temp: "CHR ''/'' \<notin> set rnd \<Longrightarrow> is_temp (temp_path (path_dir p) rnd)" for rnd
    by (simp add: is_temp_def temp_base has_prefix_ex)
  consider (same) "fs' = fs" "res = Inr False" "file_at fs p = Some content"
    | (err) "isl res" "fs' = fs1"
    | (left) rnd part where "isl res" "fs' = fs1\<lparr>fs_files := tbl_upsert (temp_path (path_dir p) rnd) part (fs_files fs1)\<rparr>" "CHR ''/'' \<notin> set rnd"
    | (wrote) "res = Inr True" "fs' = fs1\<lparr>fs_files := tbl_upsert p content (fs_files fs1)\<rparr>"
  proof (cases "\<not> ff_read F p \<and> file_at fs p = Some content")
    case True
    then show thesis using same w by (simp add: write_if_changed_def)
  next
    case no: False
    show thesis
    proof (cases ok)
      case False
      then show thesis using err w no by (auto simp: write_if_changed_def m)
    next
      case True
      show thesis
      proof (cases "ff_write F p")
        case None
        then show thesis using err wrote w no True by (auto simp: write_if_changed_def m split: if_splits)
      next
        case (Some f)
        show thesis
        proof (cases f)
          case NoTemp
          then show thesis using err w no True Some by (auto simp: write_if_changed_def m)
        next
          case (NotReplaced x)
          show thesis
          proof (cases x)
            case None
            then show thesis using err w no True Some NotReplaced by (auto simp: write_if_changed_def m)
          next
            case (Some y)
            obtain rnd part where y: "y = (rnd, part)" by (cases y)
            have "ff_write F p = Some (NotReplaced (Some (rnd, part)))" using \<open>ff_write F p = Some f\<close> NotReplaced Some y by simp
            then have "CHR ''/'' \<notin> set rnd" using t unfolding temp_names_ok_def by blast
            then show thesis using left w no True \<open>ff_write F p = Some f\<close> NotReplaced Some y by (auto simp: write_if_changed_def m)
          qed
        qed
      qed
    qed
  qed
  note cases = this
  show "q \<noteq> p \<Longrightarrow> \<not> is_temp q \<Longrightarrow> file_at fs' q = file_at fs q"
  proof (rule cases)
    fix rnd part assume a: "\<not> is_temp q" and l: "CHR ''/'' \<notin> set rnd"
      "fs' = fs1\<lparr>fs_files := tbl_upsert (temp_path (path_dir p) rnd) part (fs_files fs1)\<rparr>"
    have "q \<noteq> temp_path (path_dir p) rnd" using a temp [OF l(1)] by auto
    then show "file_at fs' q = file_at fs q" by (simp add: l(2) m1(1))
  qed (simp_all add: m1(1))
  show "isl res \<Longrightarrow> \<not> is_temp p \<Longrightarrow> file_at fs' p = file_at fs p"
  proof (rule cases)
    fix rnd part assume a: "\<not> is_temp p" and l: "CHR ''/'' \<notin> set rnd"
      "fs' = fs1\<lparr>fs_files := tbl_upsert (temp_path (path_dir p) rnd) part (fs_files fs1)\<rparr>"
    have "p \<noteq> temp_path (path_dir p) rnd" using a temp [OF l(1)] by auto
    then show "file_at fs' p = file_at fs p" by (simp add: l(2) m1(1))
  qed (simp_all add: m1(1))
  show "\<not> isl res \<Longrightarrow> q \<noteq> p \<Longrightarrow> file_at fs' q = file_at fs q"
    by (rule cases) (simp_all add: m1(1))
  show "\<not> isl res \<Longrightarrow> file_at fs' p = Some content"
    by (rule cases) simp_all
  show "path_clean p = p \<Longrightarrow> clean_files fs \<Longrightarrow> clean_files fs'"
    by (rule cases) (simp_all add: m1(1) temp_clean clean_files_def)
  show "set (fs_dirs fs) \<subseteq> set (fs_dirs fs')"
    by (rule cases) (simp_all add: m1(2))
  show "file_at fs p \<noteq> None \<Longrightarrow> file_at fs' p \<noteq> None"
    by (rule cases) (simp_all add: m1(1))
qed

end
