(* ===== verification/StrmRun.thy ===== *)
theory StrmRun
  imports StrmFiles
begin

section \<open>A whole reconcile\<close>

text \<open>
  The loop over the rows, row by row, then the sweep and the recorded paths: first what holds whatever
  fails, then what a run without failures achieves.
\<close>

lemma path_for_clean [simp]: "path_clean (path_for out r) = path_for out r"
proof -
  have "path_join [out, media_root (r_media_type r), sanitize (r_peer_id r)] \<noteq> []"
    using path_clean_nonempty by (auto simp: path_join_def media_root_def)
  then show ?thesis by (simp add: path_for_def Let_def)
qed

lemma path_for_nonempty: "path_for out r \<noteq> []"
  using path_clean_nonempty [of "path_for out r"] by simp

lemma path_for_old [simp]: "path_for out (r\<lparr>r_old_path := x\<rparr>) = path_for out r"
  by (simp add: path_for_def file_names_def episode_names_def item_names_def season_tag_def Let_def)

lemma want_old [simp]: "want_strm (r\<lparr>r_old_path := x\<rparr>) = want_strm r"
  by (simp add: want_strm_def)

lemma fail_simps [simp]:
  "pg_fs (fail z) = pg_fs z" "pg_keep (fail z) = pg_keep z" "pg_claimed (fail z) = pg_claimed z"
  "pg_updates (fail z) = pg_updates z" "st_failed (pg_stats (fail z)) = Suc (st_failed (pg_stats z))"
  by (simp_all add: fail_def)

definition old_clean :: "strm_row \<Rightarrow> bool" where
  "old_clean r \<longleftrightarrow> (\<forall>p. r_old_path r = Some p \<longrightarrow> path_clean p = p)"

subsection \<open>One row, whatever fails\<close>

text \<open>What a step keeps: clean files, the two folders, and every file the row has nothing to do with.\<close>

definition harmless :: "string \<Rightarrow> strm_row \<Rightarrow> fsys \<Rightarrow> fsys \<Rightarrow> bool" where
  "harmless out r fs fs' \<longleftrightarrow>
     (clean_files fs \<longrightarrow> clean_files fs')
     \<and> (\<forall>x \<in> set (root_dirs out). r_old_path r \<noteq> Some x \<longrightarrow> x \<in> set (fs_dirs fs) \<longrightarrow> x \<in> set (fs_dirs fs'))
     \<and> (\<forall>q. \<not> is_temp q \<longrightarrow> r_old_path r \<noteq> Some q \<longrightarrow> \<not> (want_strm r \<and> path_for out r = q) \<longrightarrow> file_at fs' q = file_at fs q)"

lemma harmless_refl [simp]: "harmless out r fs fs"
  by (simp add: harmless_def)

lemma harmless_trans: "harmless out r a b \<Longrightarrow> harmless out r b c \<Longrightarrow> harmless out r a c"
  by (simp add: harmless_def)

lemma remove_harmless:
  assumes "remove_strm F p out fs = (res, fs')" "r_old_path r = Some p" "old_clean r" "out \<noteq> []"
  shows "harmless out r fs fs'"
proof -
  have c: "path_clean p = p" using assms(2,3) by (simp add: old_clean_def)
  note R = remove_strm_spec [OF assms(1) c]
  have "clean_files fs \<Longrightarrow> clean_files fs'"
    unfolding clean_files_def using R(2) R(3) c by metis
  moreover have "\<forall>x \<in> set (root_dirs out). r_old_path r \<noteq> Some x \<longrightarrow> x \<in> set (fs_dirs fs) \<longrightarrow> x \<in> set (fs_dirs fs')"
    using R(5) [OF assms(4)] assms(2) by blast
  ultimately show ?thesis using R(2) assms(2) by (simp add: harmless_def)
qed

lemma write_harmless:
  assumes "write_if_changed F (path_for out r) content fs = (res, fs')" "temp_names_ok F" "want_strm r"
  shows "harmless out r fs fs'"
proof -
  note W = write_spec [OF assms(1,2)]
  have "\<forall>q. \<not> is_temp q \<longrightarrow> path_for out r \<noteq> q \<longrightarrow> file_at fs' q = file_at fs q" using W(1) by metis
  then show ?thesis using W(5) W(6) assms(3) by (auto simp: harmless_def)
qed

lemma unwanted_harmless: "old_clean r \<Longrightarrow> out \<noteq> [] \<Longrightarrow> harmless out r (pg_fs z) (pg_fs (unwanted_row F out r z))"
  by (auto simp: unwanted_row_def split: option.split prod.split sum.split dest: remove_harmless [rotated])

lemma settle_harmless: "old_clean r \<Longrightarrow> out \<noteq> [] \<Longrightarrow> harmless out r (pg_fs z) (pg_fs (settle_row F out r desired z))"
  by (auto simp: settle_row_def split: option.split prod.split sum.split dest: remove_harmless [rotated])

lemma keep_old_simps [simp]:
  "pg_fs (keep_old d r z) = pg_fs z" "pg_claimed (keep_old d r z) = pg_claimed z" "pg_updates (keep_old d r z) = pg_updates z"
  "pg_stats (keep_old d r z) = pg_stats z"
  "set (pg_keep (keep_old d r z)) = set (pg_keep z) \<union> {p. r_old_path r = Some p \<and> p \<noteq> d}"
  by (auto simp: keep_old_def split: option.split)

lemma count_write_simps [simp]:
  "pg_fs (count_write w z) = pg_fs z" "pg_claimed (count_write w z) = pg_claimed z" "pg_updates (count_write w z) = pg_updates z"
  "pg_keep (count_write w z) = pg_keep z" "st_failed (pg_stats (count_write w z)) = st_failed (pg_stats z)"
  by (simp_all add: count_write_def)

definition claim_path :: "string \<Rightarrow> strm_row \<Rightarrow> progress \<Rightarrow> progress" where
  "claim_path d r z = (let z = keep_old d r z in z\<lparr>pg_claimed := (d, r_global_id r) # pg_claimed z, pg_keep := d # pg_keep z\<rparr>)"

lemma wanted_row_eq:
  "wanted_row F out base r z =
     (case map_of (pg_claimed z) (path_for out r) of
        Some owner \<Rightarrow> fail (keep_old (path_for out r) r z)
      | None \<Rightarrow> (case write_if_changed F (path_for out r) (url_for base (r_peer_id r) (r_item_id r)) (pg_fs z) of
          (Inl _, fs) \<Rightarrow> fail ((claim_path (path_for out r) r z)\<lparr>pg_fs := fs\<rparr>)
        | (Inr wrote, fs) \<Rightarrow> settle_row F out r (path_for out r) (count_write wrote ((claim_path (path_for out r) r z)\<lparr>pg_fs := fs\<rparr>))))"
  by (cases "map_of (pg_claimed z) (path_for out r)") (simp_all add: wanted_row_def claim_path_def Let_def split: prod.split sum.split)

lemma wanted_row_Inr:
  assumes "map_of (pg_claimed z) (path_for out r) = None"
    and "write_if_changed F (path_for out r) (url_for base (r_peer_id r) (r_item_id r)) (pg_fs z) = (Inr wrote, fs')"
  shows "\<exists>z3. wanted_row F out base r z = settle_row F out r (path_for out r) z3 \<and> pg_fs z3 = fs'"
  by (rule exI [of _ "count_write wrote ((claim_path (path_for out r) r z)\<lparr>pg_fs := fs'\<rparr>)"]) (simp add: wanted_row_eq assms)

lemma wanted_harmless:
  assumes "want_strm r" "old_clean r" "out \<noteq> []" "temp_names_ok F"
  shows "harmless out r (pg_fs z) (pg_fs (wanted_row F out base r z))"
proof -
  obtain res fs' where w: "write_if_changed F (path_for out r) (url_for base (r_peer_id r) (r_item_id r)) (pg_fs z) = (res, fs')"
    by (cases "write_if_changed F (path_for out r) (url_for base (r_peer_id r) (r_item_id r)) (pg_fs z)")
  have h: "harmless out r (pg_fs z) fs'" by (rule write_harmless [OF w assms(4,1)])
  show ?thesis
  proof (cases "map_of (pg_claimed z) (path_for out r)")
    case (Some owner)
    then show ?thesis by (simp add: wanted_row_def Let_def)
  next
    case None
    show ?thesis
    proof (cases res)
      case (Inl e)
      then show ?thesis using None w h by (simp add: wanted_row_def Let_def)
    next
      case (Inr wrote)
      then obtain z3 where z3: "wanted_row F out base r z = settle_row F out r (path_for out r) z3" "pg_fs z3 = fs'"
        using None w wanted_row_Inr [of z out r F base wrote fs'] by blast
      show ?thesis
        using harmless_trans [OF h] settle_harmless [OF assms(2,3), of z3 F "path_for out r"] by (simp add: z3)
    qed
  qed
qed

lemma row_harmless:
  "old_clean r \<Longrightarrow> out \<noteq> [] \<Longrightarrow> temp_names_ok F \<Longrightarrow> harmless out r (pg_fs z) (pg_fs (reconcile_row F out base r z))"
  by (simp add: reconcile_row_def unwanted_harmless wanted_harmless)

lemma rows_harmless:
  assumes "\<And>r. r \<in> set rows \<Longrightarrow> old_clean r" "out \<noteq> []" "temp_names_ok F"
  shows "clean_files (pg_fs z) \<Longrightarrow> clean_files (pg_fs (fold (reconcile_row F out base) rows z))"
    and "x \<in> set (root_dirs out) \<Longrightarrow> (\<And>r. r \<in> set rows \<Longrightarrow> r_old_path r \<noteq> Some x) \<Longrightarrow> x \<in> set (fs_dirs (pg_fs z))
       \<Longrightarrow> x \<in> set (fs_dirs (pg_fs (fold (reconcile_row F out base) rows z)))"
    and "\<not> is_temp q \<Longrightarrow> (\<And>r. r \<in> set rows \<Longrightarrow> r_old_path r \<noteq> Some q) \<Longrightarrow> (\<And>r. r \<in> set rows \<Longrightarrow> want_strm r \<Longrightarrow> path_for out r \<noteq> q)
       \<Longrightarrow> file_at (pg_fs (fold (reconcile_row F out base) rows z)) q = file_at (pg_fs z) q"
proof -
  have step: "r \<in> set rows \<Longrightarrow> harmless out r (pg_fs z) (pg_fs (reconcile_row F out base r z))" for r z
    by (rule row_harmless [OF assms])
  show "clean_files (pg_fs z) \<Longrightarrow> clean_files (pg_fs (fold (reconcile_row F out base) rows z))"
    using step by (induction rows arbitrary: z) (auto simp: harmless_def)
  show "x \<in> set (root_dirs out) \<Longrightarrow> (\<And>r. r \<in> set rows \<Longrightarrow> r_old_path r \<noteq> Some x) \<Longrightarrow> x \<in> set (fs_dirs (pg_fs z))
       \<Longrightarrow> x \<in> set (fs_dirs (pg_fs (fold (reconcile_row F out base) rows z)))"
    using step by (induction rows arbitrary: z) (auto simp: harmless_def)
  show "\<not> is_temp q \<Longrightarrow> (\<And>r. r \<in> set rows \<Longrightarrow> r_old_path r \<noteq> Some q) \<Longrightarrow> (\<And>r. r \<in> set rows \<Longrightarrow> want_strm r \<Longrightarrow> path_for out r \<noteq> q)
       \<Longrightarrow> file_at (pg_fs (fold (reconcile_row F out base) rows z)) q = file_at (pg_fs z) q"
    using step
  proof (induction rows arbitrary: z)
    case (Cons r rows)
    have "file_at (pg_fs (reconcile_row F out base r z)) q = file_at (pg_fs z) q"
      using Cons.prems by (auto simp: harmless_def)
    moreover have "file_at (pg_fs (fold (reconcile_row F out base) rows (reconcile_row F out base r z))) q
        = file_at (pg_fs (reconcile_row F out base r z)) q"
      by (rule Cons.IH) (use Cons.prems in auto)
    ultimately show ?case by simp
  qed simp
qed

subsection \<open>A row that does not fail\<close>

definition failures :: "progress \<Rightarrow> nat" where
  "failures z = st_failed (pg_stats z)"

lemma failures_simps [simp]:
  "failures (fail z) = Suc (failures z)" "failures (keep_old d r z) = failures z" "failures (count_write w z) = failures z"
  "failures (claim_path d r z) = failures z" "failures (z\<lparr>pg_fs := fs\<rparr>) = failures z"
  by (simp_all add: failures_def claim_path_def Let_def)

lemma claim_path_simps [simp]:
  "pg_fs (claim_path d r z) = pg_fs z" "pg_claimed (claim_path d r z) = (d, r_global_id r) # pg_claimed z"
  "pg_updates (claim_path d r z) = pg_updates z"
  "set (pg_keep (claim_path d r z)) = insert d (set (pg_keep z)) \<union> {p. r_old_path r = Some p \<and> p \<noteq> d}"
  by (auto simp: claim_path_def Let_def)

text \<open>What a row asks to be recorded.\<close>

definition row_update :: "string \<Rightarrow> strm_row \<Rightarrow> (string \<times> string) list" where
  "row_update out r =
     (if want_strm r then (if r_old_path r = Some (path_for out r) then [] else [(r_global_id r, path_for out r)])
      else if r_old_path r = None then [] else [(r_global_id r, [])])"

lemma unwanted_ok:
  assumes "\<not> want_strm r" "old_clean r" "failures (unwanted_row F out r z) \<le> failures z"
  shows "pg_keep (unwanted_row F out r z) = pg_keep z" and "pg_claimed (unwanted_row F out r z) = pg_claimed z"
    and "pg_updates (unwanted_row F out r z) = pg_updates z @ row_update out r"
    and "r_old_path r \<noteq> Some q \<Longrightarrow> file_at (pg_fs (unwanted_row F out r z)) q = file_at (pg_fs z) q"
    and "r_old_path r = Some q \<Longrightarrow> file_at (pg_fs (unwanted_row F out r z)) q = None"
proof -
  have all: "pg_keep (unwanted_row F out r z) = pg_keep z \<and> pg_claimed (unwanted_row F out r z) = pg_claimed z
    \<and> pg_updates (unwanted_row F out r z) = pg_updates z @ row_update out r
    \<and> (r_old_path r \<noteq> Some q \<longrightarrow> file_at (pg_fs (unwanted_row F out r z)) q = file_at (pg_fs z) q)
    \<and> (r_old_path r = Some q \<longrightarrow> file_at (pg_fs (unwanted_row F out r z)) q = None)" for q
  proof (cases "r_old_path r")
    case None
    then show ?thesis using assms(1) by (simp add: unwanted_row_def row_update_def)
  next
    case (Some old)
    obtain res fs' where rm: "remove_strm F old out (pg_fs z) = (res, fs')" by (cases "remove_strm F old out (pg_fs z)")
    have "path_clean old = old" using assms(2) Some by (simp add: old_clean_def)
    note R = remove_strm_spec [OF rm this]
    show ?thesis
    proof (cases res)
      case (Inl e)
      then show ?thesis using assms(3) Some rm by (simp add: unwanted_row_def failures_def)
    next
      case (Inr u)
      then have e: "unwanted_row F out r z = z\<lparr>pg_fs := fs', pg_stats := (pg_stats z)\<lparr>st_removed := Suc (st_removed (pg_stats z))\<rparr>,
          pg_updates := pg_updates z @ [(r_global_id r, [])]\<rparr>"
        using Some rm by (simp add: unwanted_row_def)
      show ?thesis unfolding e using assms(1) Some R(2) [of q] R(4) Inr by (auto simp: row_update_def)
    qed
  qed
  show "pg_keep (unwanted_row F out r z) = pg_keep z" "pg_claimed (unwanted_row F out r z) = pg_claimed z"
    "pg_updates (unwanted_row F out r z) = pg_updates z @ row_update out r"
    "r_old_path r \<noteq> Some q \<Longrightarrow> file_at (pg_fs (unwanted_row F out r z)) q = file_at (pg_fs z) q"
    "r_old_path r = Some q \<Longrightarrow> file_at (pg_fs (unwanted_row F out r z)) q = None"
    using all by blast+
qed

lemma settle_ok:
  assumes "old_clean r" "failures (settle_row F out r d z) \<le> failures z"
  shows "set (pg_keep (settle_row F out r d z)) = set (pg_keep z) - {p. r_old_path r = Some p \<and> p \<noteq> d}
    \<and> pg_claimed (settle_row F out r d z) = pg_claimed z
    \<and> pg_updates (settle_row F out r d z) = pg_updates z @ (if r_old_path r = Some d then [] else [(r_global_id r, d)])
    \<and> (r_old_path r \<noteq> Some q \<or> q = d \<longrightarrow> file_at (pg_fs (settle_row F out r d z)) q = file_at (pg_fs z) q)
    \<and> (r_old_path r = Some q \<longrightarrow> q \<noteq> d \<longrightarrow> file_at (pg_fs (settle_row F out r d z)) q = None)"
proof (cases "r_old_path r")
  case None
  then show ?thesis by (simp add: settle_row_def)
next
  case (Some old)
  show ?thesis
  proof (cases "old = d")
    case True
    then show ?thesis using Some by (auto simp: settle_row_def)
  next
    case False
    obtain res fs' where rm: "remove_strm F old out (pg_fs z) = (res, fs')" by (cases "remove_strm F old out (pg_fs z)")
    have "path_clean old = old" using assms(1) Some by (simp add: old_clean_def)
    note R = remove_strm_spec [OF rm this]
    show ?thesis
    proof (cases res)
      case (Inl e)
      then show ?thesis using assms(2) Some rm False by (simp add: settle_row_def failures_def)
    next
      case (Inr u)
      then have "settle_row F out r d z = z\<lparr>pg_fs := fs', pg_keep := removeAll old (pg_keep z),
          pg_stats := (pg_stats z)\<lparr>st_moved := Suc (st_moved (pg_stats z))\<rparr>, pg_updates := pg_updates z @ [(r_global_id r, d)]\<rparr>"
        using Some rm False by (simp add: settle_row_def)
      then show ?thesis using Some False R(2) [of q] R(4) Inr by auto
    qed
  qed
qed

lemma settle_failures: "failures z \<le> failures (settle_row F out r d z)"
  by (simp add: settle_row_def failures_def split: option.split prod.split sum.split)

lemma wanted_ok:
  assumes "want_strm r" "old_clean r" "temp_names_ok F" "failures (wanted_row F out base r z) \<le> failures z"
  shows "map_of (pg_claimed z) (path_for out r) = None
    \<and> pg_claimed (wanted_row F out base r z) = (path_for out r, r_global_id r) # pg_claimed z
    \<and> set (pg_keep (wanted_row F out base r z)) = insert (path_for out r) (set (pg_keep z)) - {p. r_old_path r = Some p \<and> p \<noteq> path_for out r}
    \<and> pg_updates (wanted_row F out base r z) = pg_updates z @ row_update out r
    \<and> file_at (pg_fs (wanted_row F out base r z)) (path_for out r) = Some (url_for base (r_peer_id r) (r_item_id r))
    \<and> (r_old_path r \<noteq> Some q \<and> q \<noteq> path_for out r \<longrightarrow> file_at (pg_fs (wanted_row F out base r z)) q = file_at (pg_fs z) q)"
proof -
  let ?d = "path_for out r" and ?c = "url_for base (r_peer_id r) (r_item_id r)"
  have none: "map_of (pg_claimed z) ?d = None"
    using assms(4) by (cases "map_of (pg_claimed z) ?d") (simp_all add: wanted_row_eq)
  obtain res fs' where w: "write_if_changed F ?d ?c (pg_fs z) = (res, fs')" by (cases "write_if_changed F ?d ?c (pg_fs z)")
  note W = write_spec [OF w assms(3)]
  show ?thesis
  proof (cases res)
    case (Inl e)
    then show ?thesis using assms(4) none w by (simp add: wanted_row_eq)
  next
    case (Inr wrote)
    define z3 where "z3 = count_write wrote ((claim_path ?d r z)\<lparr>pg_fs := fs'\<rparr>)"
    have e: "wanted_row F out base r z = settle_row F out r ?d z3"
      using none w Inr by (simp add: wanted_row_eq z3_def)
    have z3: "pg_fs z3 = fs'" "pg_claimed z3 = (?d, r_global_id r) # pg_claimed z" "pg_updates z3 = pg_updates z"
      "set (pg_keep z3) = insert ?d (set (pg_keep z)) \<union> {p. r_old_path r = Some p \<and> p \<noteq> ?d}" "failures z3 = failures z"
      unfolding z3_def by simp_all
    have f: "failures (settle_row F out r ?d z3) \<le> failures z3" using assms(4) by (simp add: e z3(5))
    note S = settle_ok [OF assms(2) f]
    have "file_at (pg_fs (settle_row F out r ?d z3)) ?d = Some ?c"
      using S [of ?d] W(4) Inr by (simp add: z3(1))
    moreover have "file_at (pg_fs (settle_row F out r ?d z3)) q = file_at (pg_fs z) q" if "r_old_path r \<noteq> Some q" "q \<noteq> ?d"
      using S [of q] W(3) [of q] Inr that by (simp add: z3(1))
    ultimately show ?thesis
      using S [of q] none assms(1) unfolding e z3 by (auto simp: row_update_def)
  qed
qed

lemma row_failures: "failures z \<le> failures (reconcile_row F out base r z)"
proof (cases "want_strm r")
  case False
  then show ?thesis
    by (simp add: reconcile_row_def unwanted_row_def failures_def split: option.split prod.split sum.split)
next
  case True
  have "failures z \<le> failures (wanted_row F out base r z)"
    using settle_failures [of "count_write w ((claim_path (path_for out r) r z)\<lparr>pg_fs := fs\<rparr>)" F out r "path_for out r" for w fs]
    by (simp add: wanted_row_eq split: option.split prod.split sum.split)
  with True show ?thesis by (simp add: reconcile_row_def)
qed

lemma rows_failures: "failures z \<le> failures (fold (reconcile_row F out base) rows z)"
proof (induction rows arbitrary: z)
  case (Cons r rows)
  show ?case using row_failures [of z F out base r] Cons [of "reconcile_row F out base r z"] by simp
qed simp

subsection \<open>All rows, none failing\<close>

definition wanted_files :: "string \<Rightarrow> string \<Rightarrow> strm_row list \<Rightarrow> (string, string) tbl" where
  "wanted_files out base rows = map (\<lambda>r. (path_for out r, url_for base (r_peer_id r) (r_item_id r))) (filter want_strm rows)"

text \<open>No row has recorded the path that belongs to another.\<close>

definition no_clash :: "string \<Rightarrow> strm_row list \<Rightarrow> bool" where
  "no_clash out rows \<longleftrightarrow>
     (\<forall>r \<in> set rows. \<forall>r' \<in> set rows. want_strm r' \<longrightarrow> r_old_path r = Some (path_for out r') \<longrightarrow> r = r')"

definition start_progress :: "fsys \<Rightarrow> progress" where
  "start_progress fs = \<lparr>pg_fs = fs, pg_keep = [], pg_claimed = [], pg_stats = zero_stats, pg_updates = []\<rparr>"

lemma wanted_files_snoc:
  "wanted_files out base (rows @ [r]) = wanted_files out base rows
     @ (if want_strm r then [(path_for out r, url_for base (r_peer_id r) (r_item_id r))] else [])"
  by (simp add: wanted_files_def)

lemma wanted_files_path: "p \<in> fst ` set (wanted_files out base rows) \<longleftrightarrow> (\<exists>r \<in> set rows. want_strm r \<and> p = path_for out r)"
  by (auto simp: wanted_files_def image_image)

lemma rows_ok:
  assumes "temp_names_ok F"
  shows "(\<And>r. r \<in> set rows \<Longrightarrow> old_clean r) \<Longrightarrow> no_clash out rows
     \<Longrightarrow> failures (fold (reconcile_row F out base) rows (start_progress fs)) = 0
     \<Longrightarrow> (let z = fold (reconcile_row F out base) rows (start_progress fs); W = wanted_files out base rows in
            distinct (map fst W) \<and> set (pg_keep z) = fst ` set W \<and> fst ` set (pg_claimed z) = fst ` set W
            \<and> pg_updates z = concat (map (row_update out) rows)
            \<and> (\<forall>(p, c) \<in> set W. file_at (pg_fs z) p = Some c))"
proof (induction rows rule: rev_induct)
  case Nil
  then show ?case by (simp add: start_progress_def wanted_files_def)
next
  case (snoc r rows)
  let ?z = "fold (reconcile_row F out base) rows (start_progress fs)"
  let ?z' = "reconcile_row F out base r ?z"
  let ?W = "wanted_files out base rows"
  have f': "failures ?z' = 0" using snoc.prems(3) by simp
  then have f: "failures ?z = 0" using row_failures [of ?z F out base r] by simp
  have le: "failures ?z' \<le> failures ?z" by (simp add: f')
  have nc: "no_clash out rows" using snoc.prems(2) by (simp add: no_clash_def)
  have oc: "old_clean r" using snoc.prems(1) by simp
  from snoc.IH [OF _ nc f] snoc.prems(1) have
    W: "distinct (map fst ?W)" "set (pg_keep ?z) = fst ` set ?W" "fst ` set (pg_claimed ?z) = fst ` set ?W"
      "pg_updates ?z = concat (map (row_update out) rows)" "\<And>p c. (p, c) \<in> set ?W \<Longrightarrow> file_at (pg_fs ?z) p = Some c"
    by (auto simp: Let_def)
  have other: "r_old_path r \<noteq> Some p \<or> want_strm r \<and> p = path_for out r" if p: "p \<in> fst ` set ?W" for p
  proof (rule ccontr)
    assume a: "\<not> (r_old_path r \<noteq> Some p \<or> want_strm r \<and> p = path_for out r)"
    obtain r' where r': "r' \<in> set rows" "want_strm r'" "p = path_for out r'" using p unfolding wanted_files_path by blast
    have "r_old_path r = Some (path_for out r')" using a r'(3) by simp
    moreover have "r \<in> set (rows @ [r])" "r' \<in> set (rows @ [r])" using r'(1) by simp_all
    ultimately have "r = r'" using snoc.prems(2) r'(2) unfolding no_clash_def by blast
    with a r' show False by simp
  qed
  show ?case
  proof (cases "want_strm r")
    case False
    have z': "?z' = unwanted_row F out r ?z" using False by (simp add: reconcile_row_def)
    note U = unwanted_ok [OF False oc le [unfolded z']]
    have W': "wanted_files out base (rows @ [r]) = ?W" using False by (simp add: wanted_files_snoc)
    have "file_at (pg_fs ?z') p = Some c" if "(p, c) \<in> set ?W" for p c
    proof -
      have "p \<in> fst ` set ?W" using that by force
      with other False have "r_old_path r \<noteq> Some p" by blast
      with U(4) W(5) [OF that] show ?thesis by (simp add: z')
    qed
    then show ?thesis using W U(1-3) by (auto simp: Let_def W' z')
  next
    case True
    have z': "?z' = wanted_row F out base r ?z" using True by (simp add: reconcile_row_def)
    note D = wanted_ok [OF True oc assms le [unfolded z']]
    have new: "path_for out r \<notin> fst ` set ?W" using D [of "[]"] W(3) by (metis map_of_eq_None_iff)
    have old: "r_old_path r \<noteq> Some p" if "p \<in> fst ` set ?W" for p using other [OF that] new that by blast
    have keep: "set (pg_keep ?z') = insert (path_for out r) (fst ` set ?W)"
    proof -
      have "set (pg_keep ?z') = insert (path_for out r) (fst ` set ?W) - {p. r_old_path r = Some p \<and> p \<noteq> path_for out r}"
        using D [of "[]"] W(2) by (simp add: z')
      then show ?thesis using old by auto
    qed
    have W': "wanted_files out base (rows @ [r]) = ?W @ [(path_for out r, url_for base (r_peer_id r) (r_item_id r))]"
      using True by (simp add: wanted_files_snoc)
    have "file_at (pg_fs ?z') p = Some c" if "(p, c) \<in> set (?W @ [(path_for out r, url_for base (r_peer_id r) (r_item_id r))])" for p c
    proof (cases "(p, c) \<in> set ?W")
      case in_W: True
      then have "p \<in> fst ` set ?W" by force
      then have "r_old_path r \<noteq> Some p" "p \<noteq> path_for out r" using old new by blast+
      with D [of p] W(5) [OF in_W] show ?thesis by (simp add: z')
    next
      case False
      with that D [of "[]"] show ?thesis by (simp add: z')
    qed
    then show ?thesis
      using W(1,4) new keep D [of "[]"] W(3) by (auto simp: Let_def W' z')
  qed
qed

subsection \<open>The sweep\<close>

lemma sweep_files_spec:
  assumes "out \<noteq> []"
  shows "fold (sweep_file F out keep) ps (sw, fl, fs) = (sw', fl', fs') \<Longrightarrow> \<forall>p \<in> set ps. path_clean p = p \<Longrightarrow>
     fl \<le> fl'
     \<and> (file_at fs' q = file_at fs q \<or> file_at fs' q = None)
     \<and> (q \<in> set keep \<or> \<not> sweepable q \<or> q \<notin> set ps \<longrightarrow> file_at fs' q = file_at fs q)
     \<and> (fl' \<le> fl \<longrightarrow> q \<in> set ps \<longrightarrow> q \<notin> set keep \<longrightarrow> sweepable q \<longrightarrow> file_at fs' q = None)
     \<and> (keyed (fs_files fs) \<longrightarrow> keyed (fs_files fs'))
     \<and> (x \<in> set (root_dirs out) \<longrightarrow> x \<notin> set ps \<longrightarrow> x \<in> set (fs_dirs fs) \<longrightarrow> x \<in> set (fs_dirs fs'))
     \<and> ((\<forall>p \<in> set ps. p \<in> set keep \<or> \<not> sweepable p) \<longrightarrow> sw' = sw \<and> fl' = fl \<and> fs' = fs)"
proof (induction ps arbitrary: sw fl fs)
  case (Cons p ps)
  obtain sw1 fl1 fs1 where s: "sweep_file F out keep p (sw, fl, fs) = (sw1, fl1, fs1)" by (metis surj_pair)
  have rest: "fold (sweep_file F out keep) ps (sw1, fl1, fs1) = (sw', fl', fs')" using Cons.prems(1) by (simp add: s)
  have clean: "\<forall>p \<in> set ps. path_clean p = p" using Cons.prems(2) by simp
  note IH = Cons.IH [OF rest clean]
  have one: "fl \<le> fl1 \<and> (file_at fs1 q = file_at fs q \<or> file_at fs1 q = None)
     \<and> (q \<in> set keep \<or> \<not> sweepable q \<or> q \<noteq> p \<longrightarrow> file_at fs1 q = file_at fs q)
     \<and> (fl1 \<le> fl \<longrightarrow> q = p \<longrightarrow> q \<notin> set keep \<longrightarrow> sweepable q \<longrightarrow> file_at fs1 q = None)
     \<and> (keyed (fs_files fs) \<longrightarrow> keyed (fs_files fs1))
     \<and> (x \<in> set (root_dirs out) \<longrightarrow> x \<noteq> p \<longrightarrow> x \<in> set (fs_dirs fs) \<longrightarrow> x \<in> set (fs_dirs fs1))
     \<and> (p \<in> set keep \<or> \<not> sweepable p \<longrightarrow> sw1 = sw \<and> fl1 = fl \<and> fs1 = fs)"
  proof (cases "p \<in> set keep \<or> \<not> sweepable p")
    case True
    then have "sw1 = sw" "fl1 = fl" "fs1 = fs" using s by (auto simp: sweep_file_def split: if_splits)
    with True show ?thesis by auto
  next
    case False
    obtain res fs2 where rm: "remove_strm F p out fs = (res, fs2)" by (cases "remove_strm F p out fs")
    have "path_clean p = p" using Cons.prems(2) by simp
    note R = remove_strm_spec [OF rm this]
    have fs2: "fs1 = fs2" "fl1 = (if isl res then Suc fl else fl)"
      using s False rm by (auto simp: sweep_file_def split: sum.splits)
    show ?thesis
    proof (cases "isl res")
      case True
      then show ?thesis using R(1) False by (simp add: fs2)
    next
      case ok: False
      show ?thesis using R(2) [of q] R(3) R(4) [OF ok] R(5) [OF assms, of x] False ok by (cases "q = p") (simp_all add: fs2)
    qed
  qed
  have mono: "fl \<le> fl1" "fl1 \<le> fl'" by (fact one [THEN conjunct1] IH [THEN conjunct1])+
  show ?case
  proof (intro conjI impI)
    show "fl \<le> fl'" using mono by simp
    show "file_at fs' q = file_at fs q \<or> file_at fs' q = None" using one [THEN conjunct2, THEN conjunct1] IH [THEN conjunct2, THEN conjunct1] by auto
  next
    assume a: "q \<in> set keep \<or> \<not> sweepable q \<or> q \<notin> set (p # ps)"
    then have "q \<in> set keep \<or> \<not> sweepable q \<or> q \<noteq> p" "q \<in> set keep \<or> \<not> sweepable q \<or> q \<notin> set ps" by auto
    then have "file_at fs1 q = file_at fs q" "file_at fs' q = file_at fs1 q" using one IH by blast+
    then show "file_at fs' q = file_at fs q" by simp
  next
    assume a: "fl' \<le> fl" "q \<in> set (p # ps)" "q \<notin> set keep" "sweepable q"
    have le: "fl1 \<le> fl" "fl' \<le> fl1" using mono a(1) by simp_all
    show "file_at fs' q = None"
    proof (cases "q = p")
      case True
      then have "file_at fs1 q = None"
        using one [THEN conjunct2, THEN conjunct2, THEN conjunct2, THEN conjunct1, rule_format, OF le(1) _ a(3,4)] by simp
      then show ?thesis using IH [THEN conjunct2, THEN conjunct1] by auto
    next
      case False
      then have "q \<in> set ps" using a(2) by simp
      then show ?thesis
        using IH [THEN conjunct2, THEN conjunct2, THEN conjunct2, THEN conjunct1, rule_format, OF le(2) _ a(3,4)] by simp
    qed
  next
    assume "keyed (fs_files fs)"
    with one [THEN conjunct2, THEN conjunct2, THEN conjunct2, THEN conjunct2, THEN conjunct1] have "keyed (fs_files fs1)" by (rule mp)
    with IH [THEN conjunct2, THEN conjunct2, THEN conjunct2, THEN conjunct2, THEN conjunct1] show "keyed (fs_files fs')" by (rule mp)
  next
    assume "x \<in> set (root_dirs out)" "x \<notin> set (p # ps)" "x \<in> set (fs_dirs fs)"
    then have x: "x \<in> set (root_dirs out)" "x \<noteq> p" "x \<notin> set ps" "x \<in> set (fs_dirs fs)" by simp_all
    have "x \<in> set (fs_dirs fs1)" by (rule one [THEN conjunct2, THEN conjunct2, THEN conjunct2, THEN conjunct2, THEN conjunct2, THEN conjunct1, rule_format, OF x(1,2,4)])
    then show "x \<in> set (fs_dirs fs')" by (rule IH [THEN conjunct2, THEN conjunct2, THEN conjunct2, THEN conjunct2, THEN conjunct2, THEN conjunct1, rule_format, OF x(1,3)])
  next
    assume "\<forall>p \<in> set (p # ps). p \<in> set keep \<or> \<not> sweepable p"
    then have a: "p \<in> set keep \<or> \<not> sweepable p" "\<forall>p \<in> set ps. p \<in> set keep \<or> \<not> sweepable p" by simp_all
    have "sw1 = sw \<and> fl1 = fl \<and> fs1 = fs" "sw' = sw1 \<and> fl' = fl1 \<and> fs' = fs1"
      by (fact one [THEN conjunct2, THEN conjunct2, THEN conjunct2, THEN conjunct2, THEN conjunct2, THEN conjunct2, THEN mp, OF a(1)] IH [THEN conjunct2, THEN conjunct2, THEN conjunct2, THEN conjunct2, THEN conjunct2, THEN conjunct2, THEN mp, OF a(2)])+
    then show "sw' = sw" "fl' = fl" "fs' = fs" by simp_all
  qed
qed simp

lemma walk_errors_none:
  assumes "walk_errors F root fs = 0"
  shows "root \<in> set (fs_dirs fs) \<and> unreadable F root fs = []"
proof -
  have root: "root \<in> set (fs_dirs fs)" using assms by (auto simp: walk_errors_def split: if_splits)
  let ?U = "unreadable F root fs"
  have "filter (\<lambda>u. \<not> list_ex (\<lambda>v. below v u) ?U) ?U = []" using assms root by (simp add: walk_errors_def)
  then have all: "\<exists>v \<in> set ?U. below v u" if "u \<in> set ?U" for u using that by (auto simp: filter_empty_conv list_ex_iff)
  have "?U = []"
  proof (rule ccontr)
    assume "?U \<noteq> []"
    then obtain u where u: "u \<in> set ?U" "\<And>v. v \<in> set ?U \<Longrightarrow> length u \<le> length v"
      using ex_has_least_nat [of "\<lambda>u. u \<in> set ?U" "hd ?U" length] hd_in_set by blast
    obtain v where "v \<in> set ?U" "below v u" using all [OF u(1)] by blast
    then have "length v < length u" by (auto simp: below_def has_prefix_ex)
    with u(2) \<open>v \<in> set ?U\<close> show False by fastforce
  qed
  with root show ?thesis by simp
qed

lemma file_at_iff: "file_at fs p \<noteq> None \<longleftrightarrow> p \<in> set (map fst (fs_files fs))"
  by (simp add: map_of_eq_None_iff)

lemma walk_files_mem:
  "p \<in> set (walk_files F root fs) \<longleftrightarrow> root \<in> set (fs_dirs fs) \<and> below root p \<and> file_at fs p \<noteq> None
     \<and> \<not> list_ex (\<lambda>u. below u p) (unreadable F root fs)"
  unfolding file_at_iff by (simp add: walk_files_def) blast

lemma walk_files_set: "set (walk_files F root fs) \<subseteq> {p. below root p \<and> file_at fs p \<noteq> None}"
  using walk_files_mem [of _ F root fs] by blast

lemma walk_files_all:
  "walk_errors F root fs = 0 \<Longrightarrow> below root p \<Longrightarrow> file_at fs p \<noteq> None \<Longrightarrow> p \<in> set (walk_files F root fs)"
  using walk_errors_none [of F root fs] walk_files_mem [of p F root fs] by simp

lemma root_not_below:
  assumes "out \<noteq> []" "a \<in> set (root_dirs out)" "b \<in> set (root_dirs out)" shows "\<not> below a b"
proof -
  have p: "plain_elem ''movies''" "plain_elem ''series''" by (simp_all add: plain_elem_def)
  have len: "length x = length y" if "x \<in> set (root_dirs out)" "y \<in> set (root_dirs out)" for x y
  proof -
    have "path_join [out, ''movies''] = unsplit (is_abs out) (path_elems out @ [''movies''])"
      "path_join [out, ''series''] = unsplit (is_abs out) (path_elems out @ [''series''])"
      using path_join_plain [OF assms(1), of "[''movies'']"] path_join_plain [OF assms(1), of "[''series'']"] p by simp_all
    then have "length (path_join [out, ''movies'']) = length (path_join [out, ''series''])"
      by (cases "path_elems out = []") (simp_all add: unsplit_def join_with_append)
    with that show ?thesis by (auto simp: root_dirs_def strm_roots_def)
  qed
  show ?thesis
  proof
    assume "below a b"
    then have "length a < length b" by (auto simp: below_def has_prefix_ex)
    with len [OF assms(2,3)] show False by simp
  qed
qed

lemma sweep_root_spec:
  assumes "out \<noteq> []" "root \<in> set (root_dirs out)" "clean_files fs"
    and "sweep_root F out keep root (sw, fl, fs) = (sw', fl', fs')"
  shows "fl \<le> fl'"
    and "file_at fs' q = file_at fs q \<or> file_at fs' q = None"
    and "q \<in> set keep \<or> \<not> sweepable q \<or> \<not> below root q \<Longrightarrow> file_at fs' q = file_at fs q"
    and "fl' = fl \<Longrightarrow> below root q \<Longrightarrow> q \<notin> set keep \<Longrightarrow> sweepable q \<Longrightarrow> file_at fs' q = None"
    and "clean_files fs'"
    and "x \<in> set (root_dirs out) \<Longrightarrow> x \<in> set (fs_dirs fs) \<Longrightarrow> x \<in> set (fs_dirs fs')"
    and "walk_errors F root fs = 0 \<Longrightarrow> (\<And>p. below root p \<Longrightarrow> file_at fs p \<noteq> None \<Longrightarrow> p \<in> set keep \<or> \<not> sweepable p)
       \<Longrightarrow> sw' = sw \<and> fl' = fl \<and> fs' = fs"
proof -
  have f: "fold (sweep_file F out keep) (walk_files F root fs) (sw, fl + walk_errors F root fs, fs) = (sw', fl', fs')"
    using assms(4) by (simp add: sweep_root_def)
  have c: "\<forall>p \<in> set (walk_files F root fs). path_clean p = p"
    using walk_files_set [of F root fs] assms(3) by (auto simp: clean_files_def)
  note S = sweep_files_spec [OF assms(1) f c]
  have mono: "fl + walk_errors F root fs \<le> fl'" by (rule S [THEN conjunct1])
  then show "fl \<le> fl'" by simp
  show two: "file_at fs' q = file_at fs q \<or> file_at fs' q = None" for q by (rule S [THEN conjunct2, THEN conjunct1])
  show same: "file_at fs' q = file_at fs q" if "q \<in> set keep \<or> \<not> sweepable q \<or> \<not> below root q" for q
  proof -
    have "q \<in> set keep \<or> \<not> sweepable q \<or> q \<notin> set (walk_files F root fs)" using that walk_files_set [of F root fs] by blast
    then show ?thesis by (rule S [THEN conjunct2, THEN conjunct2, THEN conjunct1, THEN mp])
  qed
  show "file_at fs' q = None" if "fl' = fl" "below root q" "q \<notin> set keep" "sweepable q"
  proof (cases "file_at fs q")
    case None
    with two [of q] show ?thesis by auto
  next
    case (Some t)
    have we: "walk_errors F root fs = 0" "fl' \<le> fl + walk_errors F root fs" using mono that(1) by simp_all
    have "q \<in> set (walk_files F root fs)" using walk_files_all [OF we(1) that(2)] Some by simp
    from S [THEN conjunct2, THEN conjunct2, THEN conjunct2, THEN conjunct1, rule_format, OF we(2) this that(3,4)] show ?thesis .
  qed
  have "keyed (fs_files fs')"
    by (rule S [THEN conjunct2, THEN conjunct2, THEN conjunct2, THEN conjunct2, THEN conjunct1, THEN mp]) (use assms(3) in \<open>simp add: clean_files_def\<close>)
  then show "clean_files fs'" using two assms(3) unfolding clean_files_def by metis
  show "x \<in> set (fs_dirs fs')" if x: "x \<in> set (root_dirs out)" "x \<in> set (fs_dirs fs)"
  proof -
    have "x \<notin> set (walk_files F root fs)" using walk_files_set [of F root fs] root_not_below [OF assms(1,2) x(1)] by blast
    from S [THEN conjunct2, THEN conjunct2, THEN conjunct2, THEN conjunct2, THEN conjunct2, THEN conjunct1, rule_format, OF x(1) this x(2)]
    show ?thesis .
  qed
  show "sw' = sw \<and> fl' = fl \<and> fs' = fs"
    if "walk_errors F root fs = 0" "\<And>p. below root p \<Longrightarrow> file_at fs p \<noteq> None \<Longrightarrow> p \<in> set keep \<or> \<not> sweepable p"
  proof -
    have "\<forall>p \<in> set (walk_files F root fs). p \<in> set keep \<or> \<not> sweepable p" using that(2) walk_files_set [of F root fs] by blast
    from S [THEN conjunct2, THEN conjunct2, THEN conjunct2, THEN conjunct2, THEN conjunct2, THEN conjunct2, THEN mp, OF this] that(1)
    show ?thesis by simp
  qed
qed

lemma sweep_spec:
  assumes "out \<noteq> []" "clean_files fs" "sweep F out keep fs = (sw, fl, fs')"
  shows "q \<in> set keep \<or> \<not> sweepable q \<or> (\<forall>root \<in> set (root_dirs out). \<not> below root q) \<Longrightarrow> file_at fs' q = file_at fs q"
    and "fl = 0 \<Longrightarrow> root \<in> set (root_dirs out) \<Longrightarrow> below root q \<Longrightarrow> q \<notin> set keep \<Longrightarrow> sweepable q \<Longrightarrow> file_at fs' q = None"
    and "file_at fs' q = file_at fs q \<or> file_at fs' q = None"
    and "clean_files fs'"
    and "x \<in> set (root_dirs out) \<Longrightarrow> x \<in> set (fs_dirs fs) \<Longrightarrow> x \<in> set (fs_dirs fs')"
proof -
  obtain a b where ab: "root_dirs out = [a, b]" by (simp add: root_dirs_def strm_roots_def)
  have in_ab: "a \<in> set (root_dirs out)" "b \<in> set (root_dirs out)" by (simp_all add: ab)
  obtain sw1 fl1 fs1 where 1: "sweep_root F out keep a (0, 0, fs) = (sw1, fl1, fs1)" by (metis surj_pair)
  have 2: "sweep_root F out keep b (sw1, fl1, fs1) = (sw, fl, fs')" using assms(3) by (simp add: sweep_def ab 1)
  note A = sweep_root_spec [OF assms(1) in_ab(1) assms(2) 1]
  note B = sweep_root_spec [OF assms(1) in_ab(2) A(5) 2]
  show "file_at fs' q = file_at fs q" if "q \<in> set keep \<or> \<not> sweepable q \<or> (\<forall>root \<in> set (root_dirs out). \<not> below root q)"
  proof -
    have "q \<in> set keep \<or> \<not> sweepable q \<or> \<not> below a q" "q \<in> set keep \<or> \<not> sweepable q \<or> \<not> below b q" using that by (auto simp: ab)
    then show ?thesis using A(3) B(3) by simp
  qed
  show "file_at fs' q = None" if z: "fl = 0" "root \<in> set (root_dirs out)" "below root q" "q \<notin> set keep" "sweepable q"
  proof -
    have f: "fl1 = 0" "fl = fl1" using B(1) z(1) by simp_all
    consider "root = a" | "root = b" using z(2) by (auto simp: ab)
    then show ?thesis
    proof cases
      case 1
      then have "file_at fs1 q = None" using A(4) f(1) z(3-5) by simp
      then show ?thesis using B(2) [of q] by auto
    next
      case 2
      then show ?thesis using B(4) f(2) z(3-5) by simp
    qed
  qed
  show "file_at fs' q = file_at fs q \<or> file_at fs' q = None" using A(2) [of q] B(2) [of q] by auto
  show "clean_files fs'" by (rule B(5))
  show "x \<in> set (fs_dirs fs')" if "x \<in> set (root_dirs out)" "x \<in> set (fs_dirs fs)"
    using A(6) [OF that] B(6) [OF that(1)] by blast
qed

subsection \<open>The recorded paths\<close>

definition updated :: "string \<Rightarrow> (string \<times> string) list \<Rightarrow> item_row \<Rightarrow> item_row" where
  "updated gid us x = fold (\<lambda>u x. if fst u = gid then x\<lparr>i_strm_path := (if snd u \<noteq> [] then Some (snd u) else None)\<rparr> else x) us x"

lemma save_fold: "fold save_path us t = map (\<lambda>(k, x). (k, updated k us x)) t"
proof (induction us arbitrary: t)
  case (Cons u us)
  have one: "save_path u t = map (\<lambda>(k, x). (k, updated k [u] x)) t"
    unfolding save_path_def tbl_update_where_def by (rule map_cong) (auto simp: updated_def)
  have two: "updated k (u # us) x = updated k us (updated k [u] x)" for k x by (simp add: updated_def)
  show ?case unfolding fold_simps Cons one two by (simp add: case_prod_unfold)
qed (simp add: updated_def)

definition final_path :: "string \<Rightarrow> strm_row \<Rightarrow> string option" where
  "final_path out r = (if want_strm r then Some (path_for out r) else None)"

lemma updated_rows:
  "distinct (map r_global_id rows) \<Longrightarrow>
   updated gid (concat (map (row_update out) rows)) x =
     (case find (\<lambda>r. r_global_id r = gid) rows of None \<Rightarrow> x | Some r \<Rightarrow> updated gid (row_update out r) x)"
proof (induction rows arbitrary: x)
  case (Cons r rows)
  have app: "updated gid (us @ vs) x = updated gid vs (updated gid us x)" for us vs x by (simp add: updated_def)
  show ?case
  proof (cases "r_global_id r = gid")
    case True
    then have "gid \<notin> r_global_id ` set rows" using Cons.prems by simp
    then have "find (\<lambda>r. r_global_id r = gid) rows = None" unfolding find_None_iff by blast
    then show ?thesis using Cons True by (simp add: app)
  next
    case False
    then have "updated gid (row_update out r) x = x" by (simp add: updated_def row_update_def)
    then show ?thesis using Cons False by (simp add: app)
  qed
qed (simp add: updated_def)

lemma updated_own: "updated (r_global_id r) (row_update out r) x =
    (if row_update out r = [] then x else x\<lparr>i_strm_path := final_path out r\<rparr>)"
  using path_for_nonempty [of out r] by (simp add: updated_def row_update_def final_path_def)

lemma updated_scan:
  "updated g (row_update out (scan_row (g, x))) x = x\<lparr>i_strm_path := final_path out (scan_row (g, x))\<rparr>"
proof -
  have g: "r_global_id (scan_row (g, x)) = g" and o: "r_old_path (scan_row (g, x)) = i_strm_path x" by (simp_all add: scan_row_def)
  have "row_update out (scan_row (g, x)) = [] \<Longrightarrow> final_path out (scan_row (g, x)) = i_strm_path x"
    using o by (auto simp: row_update_def final_path_def split: if_splits)
  then show ?thesis using updated_own [of "scan_row (g, x)" out x] g by (simp split: if_splits)
qed

lemma scan_rows_ids:
  assumes "keyed (catalog_items d)"
  shows "distinct (map r_global_id (scan_rows d))"
    and "r \<in> set (scan_rows d) \<longleftrightarrow> (\<exists>g x. map_of (catalog_items d) g = Some x \<and> r = scan_row (g, x))"
proof -
  have "map r_global_id (scan_rows d) = map fst (sort_key fst (catalog_items d))"
    by (simp add: scan_rows_def scan_row_def case_prod_unfold comp_def)
  moreover have "distinct (map fst (sort_key fst (catalog_items d)))"
    using assms by (simp add: keyed_def distinct_map)
  ultimately show "distinct (map r_global_id (scan_rows d))" by simp
  show "r \<in> set (scan_rows d) \<longleftrightarrow> (\<exists>g x. map_of (catalog_items d) g = Some x \<and> r = scan_row (g, x))"
    using assms by (force simp: scan_rows_def keyed_map_of_eq)
qed

lemma find_own:
  "distinct (map r_global_id rows) \<Longrightarrow> r \<in> set rows \<Longrightarrow> find (\<lambda>x. r_global_id x = r_global_id r) rows = Some r"
  by (induction rows) auto

lemma saved_items:
  assumes "keyed (catalog_items d)"
  shows "fold save_path (concat (map (row_update out) (scan_rows d))) (catalog_items d)
    = map (\<lambda>(g, x). (g, x\<lparr>i_strm_path := final_path out (scan_row (g, x))\<rparr>)) (catalog_items d)"
  unfolding save_fold
proof (rule map_cong [OF refl])
  fix gx assume gx: "gx \<in> set (catalog_items d)"
  obtain g x where e: "gx = (g, x)" by (cases gx)
  have m: "map_of (catalog_items d) g = Some x" using gx assms by (simp add: e keyed_map_of_eq)
  have mem: "scan_row (g, x) \<in> set (scan_rows d)" using scan_rows_ids(2) [OF assms] m by blast
  have id: "r_global_id (scan_row (g, x)) = g" by (simp add: scan_row_def)
  have "find (\<lambda>r. r_global_id r = g) (scan_rows d) = Some (scan_row (g, x))"
    using find_own [OF scan_rows_ids(1) [OF assms] mem] by (simp add: id)
  then show "(case gx of (k, x) \<Rightarrow> (k, updated k (concat (map (row_update out) (scan_rows d))) x))
      = (case gx of (g, x) \<Rightarrow> (g, x\<lparr>i_strm_path := final_path out (scan_row (g, x))\<rparr>))"
    by (simp add: e updated_rows [OF scan_rows_ids(1) [OF assms]] updated_scan)
qed

lemma sort_key_map_fst:
  "sort_key fst (map (\<lambda>(k, x). (k, f k x)) t) = map (\<lambda>(k, x). (k, f k x)) (sort_key fst t)"
  for t :: "('k :: linorder \<times> 'v) list"
proof (induction t)
  case (Cons p t)
  have ins: "insort_key fst (case p of (k, x) \<Rightarrow> (k, f k x)) (map (\<lambda>(k, x). (k, f k x)) u)
      = map (\<lambda>(k, x). (k, f k x)) (insort_key fst p u)" for u :: "('k \<times> 'v) list"
    by (induction u) (auto simp: case_prod_unfold)
  show ?case using Cons ins [of "sort_key fst t"] by simp
qed simp

lemma scan_saved:
  "scan_rows (d\<lparr>catalog_items := map (\<lambda>(g, x). (g, x\<lparr>i_strm_path := final_path out (scan_row (g, x))\<rparr>)) (catalog_items d)\<rparr>)
     = map (\<lambda>r. r\<lparr>r_old_path := final_path out r\<rparr>) (scan_rows d)"
proof -
  have one: "scan_row (g, x\<lparr>i_strm_path := v\<rparr>) = (scan_row (g, x))\<lparr>r_old_path := v\<rparr>" for g x v by (simp add: scan_row_def)
  have items: "catalog_items (d\<lparr>catalog_items := t\<rparr>) = t" for t by simp
  show ?thesis
    unfolding scan_rows_def items sort_key_map_fst map_map
    by (rule map_cong [OF refl]) (auto simp: one)
qed

subsection \<open>The run\<close>

lemma mkdir_all_made: "mkdir_all F p fs = (True, fs') \<Longrightarrow> path_clean p = p \<Longrightarrow> path_elems p \<noteq> [] \<Longrightarrow> p \<in> set (fs_dirs fs')"
proof -
  assume m: "mkdir_all F p fs = (True, fs')" and c: "path_clean p = p" and e: "path_elems p \<noteq> []"
  have "p \<in> set (ancestors p)"
    using e path_clean_eq [OF c] by (auto simp: ancestors_def intro!: image_eqI [of _ _ "length (path_elems p)"] simp: Suc_le_eq)
  then show ?thesis using m make_dirs_spec [of F "ancestors p" fs] by (auto simp: mkdir_all_def split: if_splits)
qed

lemma make_roots_spec:
  "make_roots F roots fs = (True, fs') \<Longrightarrow> \<forall>root \<in> set roots. path_clean root = root \<and> path_elems root \<noteq> [] \<Longrightarrow>
     fs_files fs' = fs_files fs \<and> set (fs_dirs fs) \<subseteq> set (fs_dirs fs') \<and> set roots \<subseteq> set (fs_dirs fs')"
proof (induction F roots fs rule: make_roots.induct)
  case (2 F root roots fs)
  obtain ok fs1 where m: "mkdir_all F root fs = (ok, fs1)" by (cases "mkdir_all F root fs")
  with 2 have ok: "ok" by (auto split: bool.splits)
  with 2 m have r: "make_roots F roots fs1 = (True, fs')" by simp
  have "fs_files fs' = fs_files fs1 \<and> set (fs_dirs fs1) \<subseteq> set (fs_dirs fs') \<and> set roots \<subseteq> set (fs_dirs fs')"
    by (rule "2.IH" [OF m [symmetric] _ r]) (use ok 2 in auto)
  moreover have "root \<in> set (fs_dirs fs1)" using mkdir_all_made [of F root fs fs1] m ok 2(3) by simp
  ultimately show ?case using mkdir_all_spec [OF m] by auto
qed simp

lemma make_roots_files: "fs_files (snd (make_roots F roots fs)) = fs_files fs"
proof (induction roots arbitrary: fs)
  case (Cons root roots)
  obtain ok1 fs1 where m1: "mkdir_all F root fs = (ok1, fs1)" by (cases "mkdir_all F root fs")
  show ?case using Cons [of fs1] mkdir_all_spec [OF m1] by (cases ok1) (simp_all add: m1)
qed simp

lemma root_dirs_ok:
  assumes "out \<noteq> []" shows "\<forall>root \<in> set (root_dirs out). path_clean root = root \<and> path_elems root \<noteq> []"
  using path_join_plain_elems(1) [OF assms, of "[''movies'']"] path_join_plain_elems(1) [OF assms, of "[''series'']"] assms
  by (simp add: root_dirs_def strm_roots_def plain_elem_def)

lemma reconcile_split:
  assumes "reconcile F out base (d, fs) = (None, st, d', fs')"
  obtains fs0 z sw fl where "make_roots F (root_dirs out) fs = (True, fs0)"
    and "z = fold (reconcile_row F out base) (scan_rows d) (start_progress fs0)"
    and "save_paths (ff_save F) (pg_updates z) d = (Inr (), d')"
    and "sweep F out (pg_keep z) (pg_fs z) = (sw, fl, fs')"
    and "st_failed st = failures z + fl"
proof -
  obtain ok fs0 where m: "make_roots F (root_dirs out) fs = (ok, fs0)" by (cases "make_roots F (root_dirs out) fs")
  have ok: ok using assms m by (cases ok) (simp_all add: reconcile_def)
  have q: "ff_query F = None" using assms m ok by (cases "ff_query F") (simp_all add: reconcile_def)
  define z where "z = fold (reconcile_row F out base) (scan_rows d) (start_progress fs0)"
  obtain r d1 where s: "save_paths (ff_save F) (pg_updates z) d = (r, d1)" by (cases "save_paths (ff_save F) (pg_updates z) d")
  obtain sw fl fs1 where w: "sweep F out (pg_keep z) (pg_fs z) = (sw, fl, fs1)" by (metis surj_pair)
  have m': "make_roots F (root_dirs out) fs = (True, fs0)" using m ok by simp
  have run: "reconcile F out base (d, fs) = (case r of Inl e \<Rightarrow> (Some e, pg_stats z, d1, pg_fs z)
      | Inr u \<Rightarrow> (None, (pg_stats z)\<lparr>st_swept := st_swept (pg_stats z) + sw, st_failed := st_failed (pg_stats z) + fl\<rparr>, d1, fs1))"
    unfolding reconcile_def Let_def prod.case m' bool.case q option.case start_progress_def [symmetric] z_def [symmetric] s w
    by (rule refl)
  from assms have "r = Inr ()" "d1 = d'" "fs1 = fs'" "st_failed st = failures z + fl"
    unfolding run by (auto simp: failures_def split: sum.splits)
  with that m ok z_def s w show thesis by simp
qed

end
