(* ===== verification/LibraryTheorems.thy ===== *)
theory LibraryTheorems
  imports Jellyfin Hidden
begin

section \<open>The properties of the local library, of hides and of folder exclusions\<close>

text \<open>
  What a node offers of its Jellyfin library, how the ids that nodes share identify items, which files
  count as under a library root or an excluded folder, and the two user settings on items; each
  property with its witness.
\<close>

subsection \<open>The listing\<close>

text \<open>A path is under a library root element by element: the root itself, or the root followed by a separator.\<close>

definition under_root :: "string \<Rightarrow> string \<Rightarrow> bool" where
  "under_root path root \<longleftrightarrow> (let p = trim_right_set [CHR ''/'', CHR 0x5C] root
     in p = [] \<or> path = p \<or> has_prefix (p @ ''/'') path \<or> has_prefix (p @ [CHR 0x5C]) path)"

lemma under_any_eq: "under_any path roots = Some True \<longleftrightarrow> (\<exists>root \<in> set roots. under_root path root)"
proof -
  have next_char: "has_prefix p s \<and> byte_at s (length p) = Some c \<longleftrightarrow> has_prefix (p @ [c]) s" for p s :: string and c
  proof
    assume "has_prefix p s \<and> byte_at s (length p) = Some c"
    then show "has_prefix (p @ [c]) s" by (auto simp: has_prefix_def byte_at_def take_Suc_conv_app_nth split: if_splits)
  next
    assume a: "has_prefix (p @ [c]) s"
    then have l: "length p < length s" by (auto simp: has_prefix_def) (metis Suc_le_lessD length_append_singleton length_take min.absorb_iff2 nat_le_linear take_all)
    with a show "has_prefix p s \<and> byte_at s (length p) = Some c" by (simp add: has_prefix_def byte_at_def take_Suc_conv_app_nth)
  qed
  show ?thesis
  proof (induction path roots rule: under_any.induct)
    case (2 path root roots)
    let ?p = "trim_right_set [CHR ''/'', CHR 0x5C] root"
    show ?case
    proof (cases "?p = [] \<or> path = ?p \<or> \<not> has_prefix ?p path")
      case True
      have "\<not> has_prefix ?p path \<Longrightarrow> \<not> has_prefix (?p @ [c]) path" for c using next_char [of ?p path c] by blast
      with True 2 show ?thesis by (auto simp: Let_def under_root_def)
    next
      case False
      then obtain c where c: "byte_at path (length ?p) = Some c"
        using has_prefix_longer [of ?p path] by (auto simp: byte_at_def)
      have nc: "has_prefix (?p @ [x]) path \<longleftrightarrow> c = x" for x using next_char [of ?p path x] False c by auto
      show ?thesis using False c 2 nc [of "CHR ''/''"] nc [of "CHR 0x5C"] by (auto simp: Let_def under_root_def)
    qed
  qed simp
qed

text \<open>Which items a listing keeps: what is not virtual and has a location in the file system or none, a movie or an episode only with a path, and
  what has a path only under a library root, if those can be read.\<close>

definition kept_in_listing :: "go_error + string list \<Rightarrow> raw_item \<Rightarrow> bool" where
  "kept_in_listing roots ri \<longleftrightarrow> \<not> ri_is_virtual ri \<and> ri_location_type ri \<in> {[], ''FileSystem''}
     \<and> \<not> (to_lower (ri_type ri) \<in> {''movie'', ''episode''} \<and> ri_path ri = [])
     \<and> (case roots of Inl _ \<Rightarrow> True | Inr rs \<Rightarrow> ri_path ri = [] \<or> (\<exists>root \<in> set rs. under_root (ri_path ri) root))"

text \<open>What it says of an item, in a listing of \<open>items\<close>: an episode names its series by the global id that the series has in the same listing (the last
  one of that id, none if it is not there), and the hash that identifies an item without provider ids is of its title and year, or of its place in
  the series.\<close>

definition listed_as :: "(string \<Rightarrow> string) \<Rightarrow> catalog_item list \<Rightarrow> raw_item \<Rightarrow> catalog_item \<Rightarrow> bool" where
  "listed_as h items ri it \<longleftrightarrow>
     ci_item_id it = ri_id ri \<and> ci_name it = ri_name ri \<and> ci_year it = ri_year ri \<and> ci_media_type it = to_lower (ri_type ri) \<and> ci_path it = ri_path ri
     \<and> ci_tmdb_id it = provider ''Tmdb'' ri \<and> ci_tvdb_id it = provider ''Tvdb'' ri \<and> ci_imdb_id it = provider ''Imdb'' ri
     \<and> (let same = filter (\<lambda>x. ci_media_type x = ''series'' \<and> ci_item_id x = ri_series_id ri) items;
            series = (if same = [] then [] else global_id (last same))
        in if to_lower (ri_type ri) = ''episode''
           then ci_series_global_id it = series \<and> ci_series_name it = ri_series_name ri
             \<and> ci_season_number it = ri_parent_index ri \<and> ci_episode_number it = ri_index ri
             \<and> ci_hash it = h ((if series \<noteq> [] then series else ''orphan_'' @ normalize (ri_name ri) @ ''_'' @ fmt_int (ri_year ri))
                  @ ''_'' @ fmt_int (ri_parent_index ri) @ ''_'' @ fmt_int (ri_index ri))
           else ci_series_global_id it = [] \<and> ci_series_name it = [] \<and> ci_season_number it = 0 \<and> ci_episode_number it = 0
             \<and> ci_hash it = h (normalize (ri_name ri) @ ''_'' @ fmt_int (ri_year ri)))"

lemma build_item_fields:
  "ci_media_type (build_item h S ri) = to_lower (ri_type ri)" "ci_item_id (build_item h S ri) = ri_id ri"
  by (simp_all add: build_item_def base_item_def Let_def)

lemma build_series_item: "to_lower (ri_type ri) \<noteq> ''episode'' \<Longrightarrow>
  build_item h S ri = (base_item ri)\<lparr>ci_hash := h (title_year_key (ri_name ri) (ri_year ri))\<rparr>"
  by (simp add: build_item_def base_item_def Let_def)

lemma series_ids_get:
  "map_of (series_global_ids h raw m) k =
     (let same = filter (\<lambda>ri. to_lower (ri_type ri) = ''series'' \<and> is_real_media ri \<and> ri_id ri = k) raw
      in if same = [] then map_of m k else Some (global_id (build_item h S (last same))))"
proof (induction h raw m rule: series_global_ids.induct)
  case (2 h ri rest m)
  then show ?case
  proof (cases "to_lower (ri_type ri) \<noteq> ''series'' \<or> \<not> is_real_media ri")
    case False
    then have "build_item h S ri = (base_item ri)\<lparr>ci_hash := h (title_year_key (ri_name ri) (ri_year ri))\<rparr>"
      by (intro build_series_item) simp
    then show ?thesis using False "2.IH"(2) [OF False] by (auto simp: Let_def)
  qed (auto simp: Let_def)
qed simp

lemma build_listed:
  assumes "items = build_catalog_items h raw"
  shows "list_all2 (listed_as h items) (filter is_real_media raw) items"
proof -
  let ?S = "series_global_ids h raw []"
  have items: "items = map (build_item h ?S) (filter is_real_media raw)" using assms by (simp add: build_catalog_items_def Let_def)
  have same: "filter (\<lambda>x. ci_media_type x = ''series'' \<and> ci_item_id x = k) items
      = map (build_item h ?S) (filter (\<lambda>ri. to_lower (ri_type ri) = ''series'' \<and> is_real_media ri \<and> ri_id ri = k) raw)" for k
    unfolding items by (simp add: filter_map comp_def build_item_fields) (rule arg_cong [where f = "map _"], rule filter_cong, auto)
  have S: "(case map_of ?S k of None \<Rightarrow> [] | Some g \<Rightarrow> g)
      = (let same = filter (\<lambda>x. ci_media_type x = ''series'' \<and> ci_item_id x = k) items in if same = [] then [] else global_id (last same))" for k
    unfolding same series_ids_get [of h raw "[]" k ?S] by (simp add: Let_def last_map)
  have "listed_as h items ri (build_item h ?S ri)" for ri
    unfolding listed_as_def Let_def build_item_def base_item_def using S [of "ri_series_id ri"]
    by (simp add: Let_def episode_key_def orphan_episode_key_def title_year_key_def)
  then show ?thesis unfolding items [unfolded items] by (simp add: list_all2_conv_all_nth items)
qed

text \<open>C36: Listing the library never panics. When Jellyfin answers with its items, the listing has, in their order, exactly the items that are not
  virtual, whose location is in the file system or not told, that have a path if they are movies or episodes, and whose path, if they have one, is
  the root of a library or under one, path element by path element; when the roots cannot be read, none is dropped for its path. Each is listed with the
  fields Jellyfin gives it, an episode with the global id of its series in the same listing (\<open>listed_as\<close>). When the
  items cannot be read, the listing is an error.\<close>

theorem list_items_spec:
  "case resp of
     Inr (n, Some raw) \<Rightarrow>
       if n \<noteq> 200 then list_items h resp libs = Some (Inl (ErrMsg ''listing items: status''))
       else \<exists>items. list_items h resp libs = Some (Inr items)
         \<and> list_all2 (listed_as h items) (filter (kept_in_listing (library_roots libs)) raw) items
   | Inr (n, None) \<Rightarrow> list_items h resp libs = Some (Inl (ErrMsg (if n \<noteq> 200 then ''listing items: status'' else ''decoding items'')))
   | Inl _ \<Rightarrow> list_items h resp libs = Some (Inl (ErrMsg ''listing items''))"
proof -
  have kept: "is_real_media ri \<and> (case roots of Inl _ \<Rightarrow> True | Inr rs \<Rightarrow> ri_path ri = [] \<or> (\<exists>root \<in> set rs. under_root (ri_path ri) root))
      \<longleftrightarrow> kept_in_listing roots ri" for roots ri
    by (auto simp: kept_in_listing_def is_real_media_def)
  have "\<exists>items. list_items h (Inr (200, Some raw)) libs = Some (Inr items)
      \<and> list_all2 (listed_as h items) (filter (kept_in_listing (library_roots libs)) raw) items" for raw
  proof (cases "library_roots libs")
    case (Inl e)
    then have "filter is_real_media raw = filter (kept_in_listing (library_roots libs)) raw"
      by (intro filter_cong) (simp_all add: kept [symmetric])
    then show ?thesis using build_listed [of "build_catalog_items h raw" h raw] Inl by (simp add: list_items_def)
  next
    case (Inr rs)
    let ?raw = "filter (\<lambda>ri. ri_path ri = [] \<or> (\<exists>root \<in> set rs. under_root (ri_path ri) root)) raw"
    have "filter is_real_media ?raw = filter (kept_in_listing (library_roots libs)) raw"
      unfolding filter_filter by (intro filter_cong) (use Inr in \<open>auto simp: kept [symmetric]\<close>)
    then show ?thesis using build_listed [of "build_catalog_items h ?raw" h ?raw] Inr
      by (simp add: list_items_def drop_orphans_eq under_any_eq)
  qed
  then show ?thesis by (auto simp: list_items_def split: sum.split option.split)
qed

definition ex_raw :: "string \<Rightarrow> string \<Rightarrow> string \<Rightarrow> string \<Rightarrow> raw_item" where
  "ex_raw i name ty path = \<lparr>ri_id = i, ri_name = name, ri_year = 1999, ri_type = ty, ri_path = path, ri_provider_ids = [],
     ri_series_id = ''s1'', ri_series_name = ''Show'', ri_parent_index = 1, ri_index = 2, ri_location_type = [], ri_is_virtual = False\<rparr>"

text \<open>A movie under a root, one beside it, and one that is only announced.\<close>

definition ex_raws :: "raw_item list" where
  "ex_raws = [ex_raw ''1'' ''A'' ''Movie'' ''/m/a.mkv'', ex_raw ''2'' ''B'' ''Movie'' ''/m2/b.mkv'',
     (ex_raw ''3'' ''C'' ''Movie'' ''/m/c.mkv'')\<lparr>ri_is_virtual := True\<rparr>]"

definition ex_folders :: "go_error + (nat \<times> string list list option)" where
  "ex_folders = Inr (200, Some [[''/m/'']])"

theorem list_items_spec_witness:
  "\<exists>items. list_items (\<lambda>s. s) (Inr (200, Some ex_raws)) ex_folders = Some (Inr items) \<and> map ci_item_id items = [''1'']"
proof -
  have kept: "filter (kept_in_listing (library_roots ex_folders)) ex_raws = [ex_raw ''1'' ''A'' ''Movie'' ''/m/a.mkv'']"
    by code_simp
  note T = list_items_spec [where resp = "Inr (200, Some ex_raws)" and h = "\<lambda>s. s" and libs = ex_folders, unfolded sum.case prod.case option.case kept]
  then obtain items where i: "list_items (\<lambda>s. s) (Inr (200, Some ex_raws)) ex_folders = Some (Inr items)"
    "list_all2 (listed_as (\<lambda>s. s) items) [ex_raw ''1'' ''A'' ''Movie'' ''/m/a.mkv''] items" by (auto simp del: list.rel_inject)
  obtain it where "items = [it]" "listed_as (\<lambda>s. s) items (ex_raw ''1'' ''A'' ''Movie'' ''/m/a.mkv'') it"
    using i(2) by (auto simp only: list_all2_Cons1 list_all2_Nil)
  then have "map ci_item_id items = [''1'']" unfolding listed_as_def by (simp add: ex_raw_def)
  with i(1) show ?thesis by (intro exI [of _ items] conjI)
qed

subsection \<open>Ids\<close>

text \<open>What an item without a provider id is, for all nodes: an episode is its series, season and number,
  or without a series its title, year, season and number; anything else is its title and year.\<close>

datatype item_identity = EpisodeOf string int int | OrphanEpisode string int int int | TitleYear string int

definition identity_of :: "(string, string) tbl \<Rightarrow> raw_item \<Rightarrow> item_identity" where
  "identity_of series ri =
     (if to_lower (ri_type ri) = ''episode'' then
        (case map_of series (ri_series_id ri) of
           None \<Rightarrow> OrphanEpisode (normalize (ri_name ri)) (ri_year ri) (ri_parent_index ri) (ri_index ri)
         | Some g \<Rightarrow> EpisodeOf g (ri_parent_index ri) (ri_index ri))
      else TitleYear (normalize (ri_name ri)) (ri_year ri))"

definition no_provider :: "raw_item \<Rightarrow> bool" where
  "no_provider ri \<longleftrightarrow> provider ''Tmdb'' ri = [] \<and> provider ''Tvdb'' ri = [] \<and> provider ''Imdb'' ri = []"

lemma series_ids_colon:
  "(\<And>k g. map_of m k = Some g \<Longrightarrow> CHR '':'' \<in> set g) \<Longrightarrow> map_of (series_global_ids h raw m) k = Some g \<Longrightarrow> CHR '':'' \<in> set g"
proof (induction h raw m rule: series_global_ids.induct)
  case (2 h ri rest m)
  let ?m = "tbl_upsert (ri_id ri) (global_id ((base_item ri)\<lparr>ci_hash := h (title_year_key (ri_name ri) (ri_year ri))\<rparr>)) m"
  have m': "map_of ?m k = Some g \<Longrightarrow> CHR '':'' \<in> set g" for k g
    using "2.prems"(1) [of k g] global_id_colon by (auto split: if_splits)
  show ?case
  proof (cases "to_lower (ri_type ri) \<noteq> ''series'' \<or> \<not> is_real_media ri")
    case True
    have "map_of (series_global_ids h rest m) k = Some g" using "2.prems"(2) True by simp
    with "2.IH"(1) [OF True] "2.prems"(1) show ?thesis by blast
  next
    case False
    have "map_of (series_global_ids h rest ?m) k = Some g" using "2.prems"(2) False by simp
    with "2.IH"(2) [OF False] m' show ?thesis by blast
  qed
qed simp

definition identity_key :: "item_identity \<Rightarrow> string" where
  "identity_key i = (case i of
      EpisodeOf g s e \<Rightarrow> episode_key g s e
    | OrphanEpisode n y s e \<Rightarrow> ''orphan_'' @ n @ ''_'' @ fmt_int y @ ''_'' @ fmt_int s @ ''_'' @ fmt_int e
    | TitleYear n y \<Rightarrow> n @ ''_'' @ fmt_int y)"

lemma fallback_id:
  assumes "no_provider ri" and "\<And>k g. map_of series k = Some g \<Longrightarrow> g \<noteq> []"
  shows "global_id (build_item h series ri) = ''titleyear:'' @ h (identity_key (identity_of series ri))"
  using assms(1) assms(2) [of "ri_series_id ri"]
  by (cases "map_of series (ri_series_id ri)")
     (simp_all add: no_provider_def build_item_def base_item_def global_id_def identity_of_def identity_key_def
       title_year_key_def orphan_episode_key_def Let_def)

lemma identity_key_inj:
  assumes "\<And>k g. map_of series k = Some g \<Longrightarrow> CHR '':'' \<in> set g"
  shows "identity_key (identity_of series ri) = identity_key (identity_of series rj) \<longleftrightarrow> identity_of series ri = identity_of series rj"
proof -
  have key: "identity_key (identity_of series r) =
      (if to_lower (ri_type r) = ''episode'' then
         (case map_of series (ri_series_id r) of
            None \<Rightarrow> orphan_episode_key (ri_name r) (ri_year r) (ri_parent_index r) (ri_index r)
          | Some g \<Rightarrow> episode_key g (ri_parent_index r) (ri_index r))
       else title_year_key (ri_name r) (ri_year r))" for r
    by (simp add: identity_of_def identity_key_def title_year_key_def orphan_episode_key_def split: option.split)
  note ne = keys_disjoint keys_disjoint [symmetric]
  show ?thesis
    unfolding key
    by (cases "to_lower (ri_type ri) = ''episode''"; cases "to_lower (ri_type rj) = ''episode''";
        cases "map_of series (ri_series_id ri)"; cases "map_of series (ri_series_id rj)")
       (simp_all add: identity_of_def episode_key_inj title_year_key_inj orphan_episode_key_inj ne assms [of "ri_series_id ri"]
          assms [of "ri_series_id rj"])
qed

text \<open>Without provider ids, two items of a listing have the same id exactly when they are the same
  thing: the same episode of the same series, the same title and year, or for an episode without a
  series the same title, year, season and number; provided that the hash of the names has no
  collision.\<close>

lemma fallback_ids_identify:
  assumes "inj h" and "no_provider ri" and "no_provider rj"
  shows "global_id (build_item h (series_global_ids h raw []) ri) = global_id (build_item h (series_global_ids h raw []) rj)
     \<longleftrightarrow> identity_of (series_global_ids h raw []) ri = identity_of (series_global_ids h raw []) rj"
proof -
  let ?S = "series_global_ids h raw []"
  have colon: "map_of ?S k = Some g \<Longrightarrow> CHR '':'' \<in> set g" for k g by (rule series_ids_colon) simp_all
  then have ne: "map_of ?S k = Some g \<Longrightarrow> g \<noteq> []" for k g by fastforce
  have f: "global_id (build_item h ?S ri) = ''titleyear:'' @ h (identity_key (identity_of ?S ri))"
    "global_id (build_item h ?S rj) = ''titleyear:'' @ h (identity_key (identity_of ?S rj))"
    using fallback_id [OF assms(2), of ?S h] fallback_id [OF assms(3), of ?S h] ne by blast+
  show ?thesis
    unfolding f same_append_eq inj_eq [OF assms(1)]
    by (rule identity_key_inj) (rule colon)
qed

text \<open>A provider id alone decides, whatever the type: a movie and a series with the same number share an id.\<close>

lemma provider_id_ignores_type:
  "ci_tmdb_id c \<noteq> [] \<Longrightarrow> ci_tmdb_id c' = ci_tmdb_id c \<Longrightarrow> global_id c = global_id c'"
  by (simp add: global_id_def)

subsection \<open>Folder exclusions\<close>




text \<open>The documentation of the handler accepts \<open>D:/\<close>; the code does not.\<close>

lemma windows_root_refused: "\<not> is_abs_folder (normalize_folder ''D:/'')"
  by code_simp

subsection \<open>Hides\<close>

text \<open>The two places that decide whether an item is hidden agree: the Go function the index and the
  election use on an entry, and the SQL expression the listings use on the row made of it.\<close>

lemma hidden_go_equals_sql:
  assumes "i_media_type r = e_media_type e" and "i_series_global_id r = e_series_global_id e" and "i_series_name r = e_series_name e"
    and "[] \<notin> set (hidden_set hid)"
  shows "hidden_wanted_expr hid (e_global_id e) r = is_hidden (hidden_set hid) e"
proof -
  have "k \<in> fst ` set hid \<longleftrightarrow> k \<noteq> [] \<and> k \<in> fst ` set hid" for k
    using assms(4) unfolding hidden_set_def set_map by blast
  then show ?thesis
    by (simp add: hidden_wanted_expr_def is_hidden_def hide_key_def series_key_def series_key_expr_def null_if_empty_def
        hidden_set_def assms(1-3) Let_def)
qed

text \<open>The hide handler answers 400 to a body it cannot read or an empty key, 500 when the write
  fails, 404 to a hide of something that is neither a movie nor a series of the catalog, and 204
  otherwise; after a 204 the key is hidden exactly when that was asked, and no other key changes;
  otherwise nothing changes.\<close>

lemma hide_handler_outcome:
  "case hide_handler fault now d req of (resp, d') \<Rightarrow>
     status_of resp = (case req of
         None \<Rightarrow> 400
       | Some (key, hide) \<Rightarrow>
           if key = [] then 400
           else if fault \<noteq> None then 500
           else if hide \<and> \<not> item_exists (catalog_items d) key then 404
           else 204)
     \<and> (status_of resp = 204 \<longrightarrow> (\<forall>k. k \<in> set (hidden_set (hidden_items d')) \<longleftrightarrow>
           (if k = fst (the req) then snd (the req) else k \<in> set (hidden_set (hidden_items d)))))
     \<and> (status_of resp \<noteq> 204 \<longrightarrow> d' = d)"
proof -
  have dom: "k \<in> set (hidden_set t) \<longleftrightarrow> map_of t k \<noteq> None" for t and k :: string
    by (simp add: hidden_set_def map_of_eq_None_iff)
  show ?thesis
  proof (cases req)
    case None
    then show ?thesis by (simp add: hide_handler_def)
  next
    case (Some kh)
    obtain key hide where kh: "kh = (key, hide)" by (cases kh)
    consider "key = []" | e where "key \<noteq> []" "fault = Some e" | "key \<noteq> []" "fault = None" "hide" "\<not> item_exists (catalog_items d) key"
      | "key \<noteq> []" "fault = None" "hide" "item_exists (catalog_items d) key" | "key \<noteq> []" "fault = None" "\<not> hide" by (cases fault) auto
    then show ?thesis
      by cases (simp_all add: hide_handler_def set_hidden_def Some kh dom)
  qed
qed

subsection \<open>The schema\<close>

text \<open>Adding the missing columns of a table keeps the existing columns in place, leaves every wanted
  column present, and does nothing the second time, so that opening a database again is safe.\<close>

lemma missing_columns_added:
  "take (length cols) (add_missing_columns cols wanted) = cols
   \<and> set (map column_name wanted) \<subseteq> set (add_missing_columns cols wanted)
   \<and> add_missing_columns (add_missing_columns cols wanted) wanted = add_missing_columns cols wanted"
  by (simp only: add_missing_columns_keeps add_missing_columns_covers add_missing_columns_idem simp_thms)

end
