(* ===== verification/StrmTheorems.thy ===== *)
theory StrmTheorems
  imports StrmRun LibraryTheorems
begin

section \<open>The properties of the redirect files\<close>

text \<open>
  Names and places of the files, what a reconcile achieves when nothing fails, and what it keeps
  whatever fails; each property with its witness.
\<close>

subsection \<open>Names\<close>

definition ex_strm_row :: "string \<Rightarrow> string \<Rightarrow> strm_row" where
  "ex_strm_row g n = \<lparr>r_global_id = g, r_name = n, r_media_type = ''movie'', r_peer_id = ''nas'', r_item_id = ''i1'',
     r_local = False, r_hidden = False, r_hidden_folder = False, r_old_path = None, r_series_global_id = [],
     r_series_name = [], r_season = 0, r_episode = 0\<rparr>"

lemma ex_strm_row_simps [simp]:
  "r_global_id (ex_strm_row g n) = g" "r_series_global_id (ex_strm_row g n) = []" "r_peer_id (ex_strm_row g n) = ''nas''"
  "r_media_type (ex_strm_row g n) = ''movie''" "want_strm (ex_strm_row g n)" "r_old_path (ex_strm_row g n) = None"
  "r_season (ex_strm_row g n) = 0" "r_episode (ex_strm_row g n) = 0"
  by (simp_all add: ex_strm_row_def want_strm_def)

lemma sanitize_nas: "sanitize ''nas'' = ''nas''"
  by code_simp

lemma ex_safe: "CHR ''/'' \<notin> set g \<Longrightarrow> safe_ids (ex_strm_row g n)"
  by (simp add: safe_ids_def sanitize_nas plain_elem_def)

text \<open>C33: Below the folder of the peer, no element of the path of a redirect file is longer than 255
  bytes, whatever names and ids the peer sends, so that creating the file cannot fail for its name.\<close>

theorem strm_names_fit:
  assumes "in_int64 (r_season r)" and "in_int64 (r_episode r)" and "n \<in> set (file_names r)"
  shows "length n \<le> 255"
  by (rule file_names_short [OF assms])

theorem strm_names_fit_witness:
  "length (last (file_names (ex_strm_row (''tmdb:'' @ replicate 300 CHR ''7'') (replicate 600 CHR ''x'')))) \<le> 255"
  by (rule strm_names_fit [where r = "ex_strm_row (''tmdb:'' @ replicate 300 CHR ''7'') (replicate 600 CHR ''x'')"])
     (simp_all only: ex_strm_row_simps last_in_set file_names_nonempty not_False_eq_True, simp_all add: in_int64_def)

lemma unsplit_snoc_ex: "\<exists>q. unsplit r (es @ [e]) = q @ e"
  by (cases "es = []") (auto simp: unsplit_def join_with_append)

text \<open>C34: When neither id of a row has a slash and the peer's folder is an ordinary name, its redirect
  file lies inside the output folder, under \<open>movies\<close> or \<open>series\<close> and the peer's folder; its name ends
  in \<open>.strm\<close>; and when Jellyfin lists it back, this node does not take it for an item of its own,
  wherever its output folder is.\<close>

theorem strm_path_inside:
  assumes "outputDir \<noteq> []" and "safe_ids r"
  shows "within (path_for outputDir r) (path_join [outputDir, media_root (r_media_type r), sanitize (r_peer_id r)])
    \<and> path_ext (path_for outputDir r) = ''.strm''
    \<and> (ci_path it = path_for outputDir r \<longrightarrow> is_strm anyDir it)"
proof -
  let ?root = "[media_root (r_media_type r), sanitize (r_peer_id r)]"
  have p: "e \<in> set ?root \<Longrightarrow> plain_elem e" for e using assms(2) media_root_plain by (auto simp: safe_ids_def)
  have j: "path_elems (path_join (outputDir # ?root)) = path_elems outputDir @ ?root" "is_abs (path_join (outputDir # ?root)) = is_abs outputDir"
    using path_join_plain_elems [OF assms(1), of ?root] p by auto
  have plain: "plain_elem (hd (file_names r))" using file_names_plain [OF assms(2)] file_names_nonempty [of r] by simp
  then have "hd (file_names r) \<noteq> ''..''" by (auto simp: plain_elem_def)
  then have w: "within (path_for outputDir r) (path_join (outputDir # ?root))"
    using path_for_elems [OF assms] file_names_nonempty [of r] by (simp add: within_iff j)
  obtain a where a: "last (file_names r) = (a @ id_suffix (r_global_id r)) @ ''.strm''" using last_file_name by blast
  define b where "b = a @ id_suffix (r_global_id r)"
  have "\<exists>pre. path_for outputDir r = pre @ b @ ''.strm''"
  proof -
    obtain ns where ns: "file_names r = ns @ [b @ ''.strm'']"
      using a file_names_nonempty [of r] by (metis append_butlast_last_id b_def)
    have "path_for outputDir r = unsplit (is_abs outputDir) ((path_elems outputDir @ ?root @ ns) @ [b @ ''.strm''])"
      using path_for_eq [OF assms] by (simp add: ns)
    moreover obtain q where "unsplit (is_abs outputDir) ((path_elems outputDir @ ?root @ ns) @ [b @ ''.strm'']) = q @ b @ ''.strm''"
      using unsplit_snoc_ex by blast
    ultimately show ?thesis by auto
  qed
  then obtain pre where pre: "path_for outputDir r = (pre @ b) @ CHR ''.'' # ''strm''" by auto
  have t: "takeWhile (\<lambda>c. c \<noteq> CHR ''/'') (rev (path_for outputDir r)) = ''mrts.'' @ takeWhile (\<lambda>c. c \<noteq> CHR ''/'') (rev (pre @ b))"
    unfolding pre by simp
  have ext: "path_ext (path_for outputDir r) = ''.strm''"
    unfolding path_ext_def t by simp
  have "is_strm anyDir it" if "ci_path it = path_for outputDir r"
    using ext by (simp add: is_strm_def that equal_fold_def)
  with w ext show ?thesis by blast
qed

theorem strm_path_inside_witness:
  "within (path_for ''/out'' (ex_strm_row ''tmdb:603'' ''Up/Down'')) ''/out/movies/nas''
   \<and> path_ext (path_for ''/out'' (ex_strm_row ''tmdb:603'' ''Up/Down'')) = ''.strm''"
proof -
  have "path_join [''/out'', media_root (r_media_type (ex_strm_row ''tmdb:603'' ''Up/Down'')), sanitize (r_peer_id (ex_strm_row ''tmdb:603'' ''Up/Down''))]
      = ''/out/movies/nas''" by code_simp
  moreover have "safe_ids (ex_strm_row ''tmdb:603'' ''Up/Down'')" by (rule ex_safe) simp
  ultimately show ?thesis using strm_path_inside [of "''/out''" "ex_strm_row ''tmdb:603'' ''Up/Down''"] by simp
qed

text \<open>An id that a peer sends with \<open>..\<close> elements takes the file out of the output folder.\<close>

lemma strm_path_escapes:
  "path_for ''/out'' (ex_strm_row ''tmdb:/../../../../etc/x'' ''A'') = ''/etc/x].strm''"
  by code_simp

text \<open>C35: Items with different provider ids get different files, even when they share their name.\<close>

theorem strm_paths_distinct:
  assumes "outputDir \<noteq> []" and "safe_ids r" and "safe_ids r'"
    and "provider_id (r_global_id r)" and "provider_id (r_global_id r')" and "r_global_id r \<noteq> r_global_id r'"
  shows "path_for outputDir r \<noteq> path_for outputDir r'"
  using path_for_inj [OF assms(1-5)] assms(6) by blast

lemma ex_provider: "provider_id ''tmdb:603''" "provider_id ''tvdb:603''"
  unfolding provider_id_def by (rule exI [of _ "''603''"], simp)+

theorem strm_paths_distinct_witness:
  "path_for ''/out'' (ex_strm_row ''tmdb:603'' ''Alice'') \<noteq> path_for ''/out'' (ex_strm_row ''tvdb:603'' ''Alice'')"
  by (rule strm_paths_distinct) (simp_all add: ex_safe ex_provider)

subsection \<open>A reconcile in which nothing fails\<close>

text \<open>The rows and files \<open>reconcile\<close> starts from.\<close>

definition strm_state_ok :: "string \<Rightarrow> database \<Rightarrow> fsys \<Rightarrow> bool" where
  "strm_state_ok out d fs \<longleftrightarrow> out \<noteq> [] \<and> keyed (catalog_items d) \<and> clean_files fs
     \<and> (\<forall>r \<in> set (scan_rows d). old_clean r) \<and> no_clash out (scan_rows d)"

lemma reconcile_ok:
  assumes "strm_state_ok out d fs" and "temp_names_ok F"
    and "reconcile F out base (d, fs) = (None, st, d', fs')" and "st_failed st = 0"
  shows "(\<forall>root \<in> set (root_dirs out). \<forall>p. below root p \<longrightarrow> sweepable p \<longrightarrow> file_at fs' p = map_of (wanted_files out base (scan_rows d)) p)
    \<and> (\<forall>(p, c) \<in> set (wanted_files out base (scan_rows d)). file_at fs' p = Some c)
    \<and> distinct (map fst (wanted_files out base (scan_rows d)))
    \<and> d' = d\<lparr>catalog_items := map (\<lambda>(g, x). (g, x\<lparr>i_strm_path := final_path out (scan_row (g, x))\<rparr>)) (catalog_items d)\<rparr>
    \<and> clean_files fs'"
proof -
  note S = assms(1) [unfolded strm_state_ok_def]
  obtain fs0 z sw fl where R: "make_roots F (root_dirs out) fs = (True, fs0)"
    "z = fold (reconcile_row F out base) (scan_rows d) (start_progress fs0)"
    "save_paths (ff_save F) (pg_updates z) d = (Inr (), d')" "sweep F out (pg_keep z) (pg_fs z) = (sw, fl, fs')"
    "st_failed st = failures z + fl"
    by (rule reconcile_split [OF assms(3)])
  let ?W = "wanted_files out base (scan_rows d)"
  have f: "failures z = 0" "fl = 0" using R(5) assms(4) by simp_all
  have c0: "clean_files fs0" using make_roots_spec [OF R(1) root_dirs_ok] S by (simp add: clean_files_def)
  have cz: "clean_files (pg_fs z)"
    unfolding R(2) by (rule rows_harmless(1)) (use S assms(2) c0 in \<open>simp_all add: start_progress_def\<close>)
  have W: "distinct (map fst ?W)" "set (pg_keep z) = fst ` set ?W" "pg_updates z = concat (map (row_update out) (scan_rows d))"
    "\<forall>(p, c) \<in> set ?W. file_at (pg_fs z) p = Some c"
    using rows_ok [OF assms(2), of "scan_rows d" out base fs0] S f(1) by (simp_all add: Let_def R(2))
  have out: "out \<noteq> []" using S by blast
  note SW = sweep_spec [OF out cz R(4)]
  have kept: "file_at fs' p = Some c" if "(p, c) \<in> set ?W" for p c
  proof -
    have "p \<in> set (pg_keep z)" using that W(2) by force
    then show ?thesis using SW(1) [of p] W(4) that by auto
  qed
  have exact: "file_at fs' p = map_of ?W p" if "root \<in> set (root_dirs out)" "below root p" "sweepable p" for root p
  proof (cases "map_of ?W p")
    case None
    then have "p \<notin> set (pg_keep z)" by (simp add: W(2) map_of_eq_None_iff)
    with SW(2) [OF f(2) that(1,2) _ that(3)] None show ?thesis by simp
  next
    case (Some c)
    with kept show ?thesis by (simp add: map_of_SomeD)
  qed
  have db: "d' = d\<lparr>catalog_items := map (\<lambda>(g, x). (g, x\<lparr>i_strm_path := final_path out (scan_row (g, x))\<rparr>)) (catalog_items d)\<rparr>"
  proof -
    have saved: "fold save_path (pg_updates z) (catalog_items d) = map (\<lambda>(g, x). (g, x\<lparr>i_strm_path := final_path out (scan_row (g, x))\<rparr>)) (catalog_items d)"
      unfolding W(3) by (rule saved_items) (use S in blast)
    show ?thesis
    proof (cases "pg_updates z = []")
      case True
      then show ?thesis using R(3) saved by (simp add: save_paths_def)
    next
      case False
      then have "with_tx (ff_save F) (\<lambda>d. Inr ((), d\<lparr>catalog_items := fold save_path (pg_updates z) (catalog_items d)\<rparr>)) d = (Inr (), d')"
        using R(3) by (simp add: save_paths_def)
      from with_tx_ok [OF this] show ?thesis using saved by simp
    qed
  qed
  show ?thesis using kept exact W(1) db SW(4) by blast
qed

text \<open>C11: After a reconcile without failures, the redirect files under \<open>movies\<close> and \<open>series\<close> are exactly
  those of the rows that want one: neither local nor hidden, offered by a peer and not a series, each
  with the stream's address in it; no temporary file is left. Every row has recorded its own file, and
  a row that wants none has recorded none. This is as long as no row has recorded the path that another row wants: a row that moves or is no longer
  wanted removes the file it recorded, also when it has become another's (\<open>clashing_path_loses_file\<close>), which is then written in the next cycle.\<close>

theorem reconcile_exact:
  assumes "out \<noteq> []" and "keyed (catalog_items d)" and "clean_files fs" and "\<forall>r \<in> set (scan_rows d). old_clean r"
    and "\<forall>r \<in> set (scan_rows d). \<forall>r' \<in> set (scan_rows d). want_strm r' \<and> r_old_path r = Some (path_for out r') \<longrightarrow> r = r'"
    and "temp_names_ok F"
    and "reconcile F out base (d, fs) = (None, st, d', fs')" and "st_failed st = 0"
    and "root \<in> set (root_dirs out)" and "below root p" and "sweepable p"
  shows "file_at fs' p = map_of (wanted_files out base (scan_rows d)) p
    \<and> map_of (catalog_items d') g = map_option (\<lambda>x. x\<lparr>i_strm_path := final_path out (scan_row (g, x))\<rparr>) (map_of (catalog_items d) g)"
proof -
  have get: "map_of (map (\<lambda>(k, x). (k, f k x)) t) g = map_option (f g) (map_of t g)" for f and t :: "(string \<times> item_row) list"
    by (induction t) auto
  have ok: "strm_state_ok out d fs" using assms(1-5) by (simp add: strm_state_ok_def no_clash_def)
  show ?thesis
    using reconcile_ok [OF ok assms(6-8)] assms(9-11) by (simp add: get)
qed

definition ex_item_row :: "bool \<Rightarrow> string option \<Rightarrow> item_row" where
  "ex_item_row here path = \<lparr>i_name = ''A'', i_media_type = ''movie'', i_local = here, i_local_item_id = None,
     i_primary_peer_id = Some ''nas'', i_primary_item_id = Some ''i1'', i_strm_path = path, i_series_global_id = [], i_series_name = [],
     i_season_number = 0, i_episode_number = 0, i_hidden = False, i_path = ''/m/a'', i_hidden_folder = False, i_updated_at = 0\<rparr>"

definition ex_strm_db :: database where
  "ex_strm_db = empty_db\<lparr>catalog_items := [(''tmdb:1'', ex_item_row False (Some ''/old/a.strm'')), (''tmdb:2'', ex_item_row True (Some ''/out/movies/nas/b.strm''))]\<rparr>"

definition ex_fs :: fsys where
  "ex_fs = \<lparr>fs_files = [(''/out/movies/nas/b.strm'', ''x''), (''/out/movies/nas/b.nfo'', ''n''), (''/out/series/stray.strm'', ''y''), (''/old/a.strm'', ''z'')],
     fs_dirs = [''/out'', ''/out/movies'', ''/out/movies/nas'', ''/out/series'', ''/old'']\<rparr>"

definition ex_new_path :: string where "ex_new_path = ''/out/movies/nas/A [tmdbid-1]/A [tmdbid-1].strm''"

lemma ex_scan: "scan_rows ex_strm_db = [scan_row (''tmdb:1'', ex_item_row False (Some ''/old/a.strm'')),
    scan_row (''tmdb:2'', ex_item_row True (Some ''/out/movies/nas/b.strm''))]"
  by code_simp

lemma ex_strm_ok: "strm_state_ok ''/out'' ex_strm_db ex_fs"
proof -
  have "path_clean ''/old/a.strm'' = ''/old/a.strm''" "path_clean ''/out/movies/nas/b.strm'' = ''/out/movies/nas/b.strm''"
    "path_clean ''/out/movies/nas/b.nfo'' = ''/out/movies/nas/b.nfo''" "path_clean ''/out/series/stray.strm'' = ''/out/series/stray.strm''"
    by code_simp+
  note clean = this
  let ?r1 = "scan_row (''tmdb:1'', ex_item_row False (Some ''/old/a.strm''))"
  let ?r2 = "scan_row (''tmdb:2'', ex_item_row True (Some ''/out/movies/nas/b.strm''))"
  have p1: "path_for ''/out'' ?r1 = ex_new_path" by code_simp
  have w2: "\<not> want_strm ?r2" by code_simp
  have o: "r_old_path ?r1 = Some ''/old/a.strm''" "r_old_path ?r2 = Some ''/out/movies/nas/b.strm''"
    by (simp_all add: scan_row_def ex_item_row_def)
  have ne: "ex_new_path \<noteq> ''/old/a.strm''" "ex_new_path \<noteq> ''/out/movies/nas/b.strm''" by (simp_all add: ex_new_path_def)
  have "no_clash ''/out'' (scan_rows ex_strm_db)" using w2 ne [symmetric] by (simp add: no_clash_def ex_scan p1 o)
  moreover have "\<forall>r \<in> set (scan_rows ex_strm_db). old_clean r" using clean by (simp add: ex_scan old_clean_def o)
  moreover have "keyed (catalog_items ex_strm_db)" by (simp add: ex_strm_db_def keyed_def)
  moreover have "clean_files ex_fs" using clean by (simp add: clean_files_def ex_fs_def keyed_def)
  ultimately show ?thesis by (simp add: strm_state_ok_def)
qed

lemma no_faults_ok: "temp_names_ok no_faults"
  by (simp add: temp_names_ok_def no_faults_def)

lemma ex_reconcile:
  "case reconcile no_faults ''/out'' ''http://me'' (ex_strm_db, ex_fs) of (e, st, d', fs') \<Rightarrow> e = None \<and> st_failed st = 0
     \<and> st_written st = 1 \<and> st_moved st = 1 \<and> st_removed st = 1 \<and> st_swept st = 1"
  by code_simp

theorem reconcile_exact_witness:
  "\<exists>st d' fs'. reconcile no_faults ''/out'' ''http://me'' (ex_strm_db, ex_fs) = (None, st, d', fs')
     \<and> file_at fs' ex_new_path = Some ''http://me/api/v1/proxy/stream/nas/i1'' \<and> file_at fs' ''/out/series/stray.strm'' = None
     \<and> map_option i_strm_path (map_of (catalog_items d') ''tmdb:2'') = Some None"
proof -
  obtain e st d' fs' where r: "reconcile no_faults ''/out'' ''http://me'' (ex_strm_db, ex_fs) = (e, st, d', fs')" by (metis surj_pair)
  have e: "e = None" "st_failed st = 0" using ex_reconcile by (simp_all add: r)
  note r' = r [unfolded e(1)]
  have roots: "''/out/movies'' \<in> set (root_dirs ''/out'')" "''/out/series'' \<in> set (root_dirs ''/out'')" by code_simp+
  have p: "below ''/out/movies'' ex_new_path" "sweepable ex_new_path" "below ''/out/series'' ''/out/series/stray.strm''" "sweepable ''/out/series/stray.strm''"
    by code_simp+
  have ok: "''/out'' \<noteq> []" "keyed (catalog_items ex_strm_db)" "clean_files ex_fs" "\<forall>r \<in> set (scan_rows ex_strm_db). old_clean r"
    "\<forall>r \<in> set (scan_rows ex_strm_db). \<forall>r' \<in> set (scan_rows ex_strm_db). want_strm r' \<and> r_old_path r = Some (path_for ''/out'' r') \<longrightarrow> r = r'"
    using ex_strm_ok by (simp_all add: strm_state_ok_def no_clash_def)
  note X = reconcile_exact [OF ok no_faults_ok r' e(2)]
  have w: "wanted_files ''/out'' ''http://me'' (scan_rows ex_strm_db) = [(ex_new_path, ''http://me/api/v1/proxy/stream/nas/i1'')]" by code_simp
  have f: "final_path ''/out'' (scan_row (''tmdb:2'', ex_item_row True (Some ''/out/movies/nas/b.strm''))) = None" by code_simp
  have "file_at fs' ex_new_path = Some ''http://me/api/v1/proxy/stream/nas/i1''" using X [OF roots(1) p(1,2)] by (simp add: w)
  moreover have "file_at fs' ''/out/series/stray.strm'' = None" using X [OF roots(2) p(3,4)] by (simp add: w ex_new_path_def)
  moreover have "map_option i_strm_path (map_of (catalog_items d') ''tmdb:2'') = Some None"
    using X [OF roots(2) p(3,4), of "''tmdb:2''"] f by (simp add: ex_strm_db_def)
  ultimately show ?thesis using r' by blast
qed

text \<open>Two rows with one recorded path: the one that has become local removes the file the other still wants, and nothing counts as failed.\<close>

definition ex_clash_db :: database where
  "ex_clash_db = empty_db\<lparr>catalog_items := [(''tmdb:1'', ex_item_row False (Some ex_new_path)), (''tmdb:2'', ex_item_row True (Some ex_new_path))]\<rparr>"

lemma clashing_path_loses_file:
  "(case reconcile no_faults ''/out'' ''http://me'' (ex_clash_db, ex_fs\<lparr>fs_files := [(ex_new_path, ''http://me/api/v1/proxy/stream/nas/i1'')]\<rparr>) of
      (e, st, d', fs') \<Rightarrow> e = None \<and> st_failed st = 0 \<and> file_at fs' ex_new_path = None)
   \<and> map fst (wanted_files ''/out'' ''http://me'' (scan_rows ex_clash_db)) = [ex_new_path]"
  by code_simp

text \<open>A row whose file is there and recorded: nothing is done.\<close>

lemma quiet_row:
  assumes "r_old_path r = final_path out r" and "\<not> ff_read F (path_for out r)"
    and "want_strm r \<Longrightarrow> file_at (pg_fs z) (path_for out r) = Some (url_for base (r_peer_id r) (r_item_id r))"
    and "want_strm r \<Longrightarrow> map_of (pg_claimed z) (path_for out r) = None"
  shows "reconcile_row F out base r z = (if want_strm r then count_write False (claim_path (path_for out r) r z) else z)"
proof (cases "want_strm r")
  case False
  then show ?thesis using assms(1) by (simp add: reconcile_row_def unwanted_row_def final_path_def)
next
  case True
  have w: "write_if_changed F (path_for out r) (url_for base (r_peer_id r) (r_item_id r)) (pg_fs z) = (Inr False, pg_fs z)"
    using assms(2) assms(3) [OF True] by (simp add: write_if_changed_def)
  have c: "(claim_path (path_for out r) r z)\<lparr>pg_fs := pg_fs z\<rparr> = claim_path (path_for out r) r z"
    using True assms(1) by (simp add: claim_path_def keep_old_def final_path_def Let_def)
  show ?thesis
    using True assms(1) assms(4) [OF True] by (simp add: reconcile_row_def wanted_row_eq settle_row_def final_path_def w c)
qed

lemma quiet_rows:
  assumes "\<And>p. \<not> ff_read F p"
  shows "\<forall>r \<in> set rows. r_old_path r = final_path out r \<Longrightarrow> distinct (map fst (wanted_files out base rows))
    \<Longrightarrow> \<forall>(p, c) \<in> set (wanted_files out base rows). file_at (pg_fs z) p = Some c \<Longrightarrow> fst ` set (wanted_files out base rows) \<inter> fst ` set (pg_claimed z) = {}
    \<Longrightarrow> (let z' = fold (reconcile_row F out base) rows z in pg_fs z' = pg_fs z \<and> pg_updates z' = pg_updates z
          \<and> set (pg_keep z') = set (pg_keep z) \<union> fst ` set (wanted_files out base rows)
          \<and> pg_stats z' = (pg_stats z)\<lparr>st_unchanged := st_unchanged (pg_stats z) + length (wanted_files out base rows)\<rparr>)"
proof (induction rows arbitrary: z)
  case (Cons r rows)
  show ?case
  proof (cases "want_strm r")
    case False
    have "reconcile_row F out base r z = z" using quiet_row [of r out F z base] Cons.prems(1) False assms by simp
    moreover have "wanted_files out base (r # rows) = wanted_files out base rows" using False by (simp add: wanted_files_def)
    ultimately show ?thesis using Cons by simp
  next
    case True
    let ?d = "path_for out r"
    have W: "wanted_files out base (r # rows) = (?d, url_for base (r_peer_id r) (r_item_id r)) # wanted_files out base rows"
      using True by (simp add: wanted_files_def)
    have none: "map_of (pg_claimed z) ?d = None" using Cons.prems(4) by (simp add: W map_of_eq_None_iff)
    let ?z = "count_write False (claim_path ?d r z)"
    have old: "r_old_path r = Some ?d" using Cons.prems(1) True by (simp add: final_path_def)
    have step: "reconcile_row F out base r z = ?z"
      using quiet_row [of r out F z base] Cons.prems(1,3) True none assms by (simp add: W)
    have keep: "set (pg_keep ?z) = insert ?d (set (pg_keep z))" using old by auto
    have stats: "pg_stats ?z = (pg_stats z)\<lparr>st_unchanged := Suc (st_unchanged (pg_stats z))\<rparr>"
      by (simp add: count_write_def claim_path_def Let_def)
    have claimed: "fst ` set (wanted_files out base rows) \<inter> fst ` set (pg_claimed ?z) = {}"
      using Cons.prems(2,4) by (auto simp: W)
    have "let z' = fold (reconcile_row F out base) rows ?z in pg_fs z' = pg_fs ?z \<and> pg_updates z' = pg_updates ?z
          \<and> set (pg_keep z') = set (pg_keep ?z) \<union> fst ` set (wanted_files out base rows)
          \<and> pg_stats z' = (pg_stats ?z)\<lparr>st_unchanged := st_unchanged (pg_stats ?z) + length (wanted_files out base rows)\<rparr>"
      by (rule Cons.IH) (use Cons.prems claimed in \<open>simp_all add: W\<close>)
    then show ?thesis unfolding fold_simps step Let_def W keep stats by simp
  qed
qed (simp add: wanted_files_def)

lemma start_simps [simp]:
  "pg_fs (start_progress fs) = fs" "pg_keep (start_progress fs) = []" "pg_claimed (start_progress fs) = []"
  "pg_stats (start_progress fs) = zero_stats" "pg_updates (start_progress fs) = []"
  by (simp_all add: start_progress_def)

lemma no_walk_errors: "root \<in> set (fs_dirs fs) \<Longrightarrow> walk_errors no_faults root fs = 0"
  by (simp add: walk_errors_def unreadable_def no_faults_def)

lemma quiet_sweep:
  assumes "out \<noteq> []" "clean_files fs" "set (root_dirs out) \<subseteq> set (fs_dirs fs)"
    and "\<And>root p. root \<in> set (root_dirs out) \<Longrightarrow> below root p \<Longrightarrow> sweepable p \<Longrightarrow> file_at fs p \<noteq> None \<Longrightarrow> p \<in> set keep"
  shows "sweep no_faults out keep fs = (0, 0, fs)"
proof -
  have one: "sweep_root no_faults out keep root (0, 0, fs) = (0, 0, fs)" if root: "root \<in> set (root_dirs out)" for root
  proof -
    obtain sw fl fs1 where s: "sweep_root no_faults out keep root (0, 0, fs) = (sw, fl, fs1)" by (metis surj_pair)
    have "walk_errors no_faults root fs = 0" using no_walk_errors assms(3) root by blast
    from sweep_root_spec(7) [OF assms(1) root assms(2) s this] assms(4) [OF root] have "sw = 0 \<and> fl = 0 \<and> fs1 = fs" by blast
    with s show ?thesis by simp
  qed
  have "fold (sweep_root no_faults out keep) roots (0, 0, fs) = (0, 0, fs)" if "set roots \<subseteq> set (root_dirs out)" for roots
    using that one by (induction roots) auto
  then show ?thesis by (simp add: sweep_def)
qed

lemma quiet_roots: "set roots \<subseteq> set (fs_dirs fs) \<Longrightarrow> make_roots F roots fs = (True, fs)"
  by (induction roots) (auto simp: mkdir_all_def)

text \<open>A reconcile right after one that had no failures does nothing: it writes, moves, removes and
  sweeps no file, finds every wanted file unchanged, and leaves file system and database as they are.\<close>

lemma reconcile_again_is_quiet:
  assumes "strm_state_ok out d fs" and "temp_names_ok F"
    and "reconcile F out base (d, fs) = (None, st, d', fs')" and "st_failed st = 0"
    and "\<forall>r \<in> set (scan_rows d). r_old_path r \<notin> Some ` set (root_dirs out)"
  shows "reconcile no_faults out base (d', fs')
    = (None, zero_stats\<lparr>st_unchanged := length (filter want_strm (scan_rows d))\<rparr>, d', fs')"
proof -
  note S = assms(1) [unfolded strm_state_ok_def]
  have out: "out \<noteq> []" using S by blast
  obtain fs0 z sw fl where R: "make_roots F (root_dirs out) fs = (True, fs0)"
    "z = fold (reconcile_row F out base) (scan_rows d) (start_progress fs0)"
    "save_paths (ff_save F) (pg_updates z) d = (Inr (), d')" "sweep F out (pg_keep z) (pg_fs z) = (sw, fl, fs')"
    "st_failed st = failures z + fl"
    by (rule reconcile_split [OF assms(3)])
  have K: "\<forall>root \<in> set (root_dirs out). \<forall>p. below root p \<longrightarrow> sweepable p \<longrightarrow> file_at fs' p = map_of (wanted_files out base (scan_rows d)) p"
    "\<forall>(p, c) \<in> set (wanted_files out base (scan_rows d)). file_at fs' p = Some c"
    "distinct (map fst (wanted_files out base (scan_rows d)))"
    "d' = d\<lparr>catalog_items := map (\<lambda>(g, x). (g, x\<lparr>i_strm_path := final_path out (scan_row (g, x))\<rparr>)) (catalog_items d)\<rparr>"
    "clean_files fs'"
    using reconcile_ok [OF assms(1-4)] by blast+
  note M = make_roots_spec [OF R(1) root_dirs_ok [OF out]]
  have cz: "clean_files (pg_fs z)"
    unfolding R(2) by (rule rows_harmless(1)) (use S assms(2) M in \<open>simp_all add: start_progress_def clean_files_def\<close>)
  have roots: "set (root_dirs out) \<subseteq> set (fs_dirs fs')"
  proof
    fix x assume x: "x \<in> set (root_dirs out)"
    have "x \<in> set (fs_dirs (pg_fs z))"
      unfolding R(2) by (rule rows_harmless(2)) (use S assms(2,5) M x in \<open>auto simp: start_progress_def\<close>)
    then show "x \<in> set (fs_dirs fs')" by (rule sweep_spec(5) [OF out cz R(4) x])
  qed
  let ?rows = "map (\<lambda>r. r\<lparr>r_old_path := final_path out r\<rparr>) (scan_rows d)"
  have rows: "scan_rows d' = ?rows" unfolding K(4) by (rule scan_saved)
  have W: "wanted_files out base ?rows = wanted_files out base (scan_rows d)"
    by (simp add: wanted_files_def filter_map comp_def)
  have fp: "\<forall>r \<in> set ?rows. r_old_path r = final_path out r" by (simp add: final_path_def)
  let ?z = "fold (reconcile_row no_faults out base) ?rows (start_progress fs')"
  have nr: "\<not> ff_read no_faults p" for p by (simp add: no_faults_def)
  have w2: "distinct (map fst (wanted_files out base ?rows))" unfolding W by (rule K(3))
  have w3: "\<forall>(p, c) \<in> set (wanted_files out base ?rows). file_at (pg_fs (start_progress fs')) p = Some c"
    unfolding W start_simps by (rule K(2))
  have w4: "fst ` set (wanted_files out base ?rows) \<inter> fst ` set (pg_claimed (start_progress fs')) = {}" by simp
  note Q = quiet_rows [of no_faults, OF nr fp w2 w3 w4, unfolded Let_def W start_simps]
  have len: "length (wanted_files out base (scan_rows d)) = length (filter want_strm (scan_rows d))" by (simp add: wanted_files_def)
  have Z: "pg_fs ?z = fs'" "pg_updates ?z = []" "set (pg_keep ?z) = fst ` set (wanted_files out base (scan_rows d))"
    "pg_stats ?z = zero_stats\<lparr>st_unchanged := st_unchanged zero_stats + length (filter want_strm (scan_rows d))\<rparr>"
    using Q by (simp_all only: len list.set Un_empty_left)
  have "sweep no_faults out (pg_keep ?z) fs' = (0, 0, fs')"
  proof (rule quiet_sweep [OF out K(5) roots])
    fix root p assume "root \<in> set (root_dirs out)" "below root p" "sweepable p" "file_at fs' p \<noteq> None"
    then have "map_of (wanted_files out base (scan_rows d)) p \<noteq> None" using K(1) by simp
    then show "p \<in> set (pg_keep ?z)" by (simp add: Z(3) map_of_eq_None_iff)
  qed
  then show ?thesis
    using quiet_roots [OF roots, of no_faults] Z(1,2,4)
    unfolding reconcile_def Let_def prod.case rows start_progress_def [symmetric]
    by (simp add: no_faults_def save_paths_def zero_stats_def)
qed

subsection \<open>What holds whatever fails\<close>

lemma reconcile_end:
  assumes "make_roots F (root_dirs out) fs = (True, fs0)" "ff_query F = None" "reconcile F out base (d, fs) = (err, st, d', fs')"
    and "z = fold (reconcile_row F out base) (scan_rows d) (start_progress fs0)" and w: "sweep F out (pg_keep z) (pg_fs z) = (sw, fl, fs1)"
  shows "fs' = pg_fs z \<or> fs' = fs1"
proof -
  obtain res d1 where s: "save_paths (ff_save F) (pg_updates z) d = (res, d1)" by (cases "save_paths (ff_save F) (pg_updates z) d")
  have "reconcile F out base (d, fs) = (case res of Inl e \<Rightarrow> (Some e, pg_stats z, d1, pg_fs z)
    | Inr u \<Rightarrow> (None, (pg_stats z)\<lparr>st_swept := st_swept (pg_stats z) + sw, st_failed := st_failed (pg_stats z) + fl\<rparr>, d1, fs1))"
    unfolding reconcile_def Let_def prod.case assms(1) bool.case assms(2) option.case start_progress_def [symmetric] assms(4) [symmetric] s w
    by (rule refl)
  then show ?thesis using assms(3) by (cases res) auto
qed

text \<open>Every part of a reconcile was carried out to the end, or the run ended before it and the files are those of then.\<close>

lemma reconcile_stages:
  assumes "reconcile F out base (d, fs) = (err, st, d', fs')" and "out \<noteq> []"
  shows "fs_files fs' = fs_files fs
    \<or> (\<exists>fs0 z sw fl fs1. fs_files fs0 = fs_files fs \<and> z = fold (reconcile_row F out base) (scan_rows d) (start_progress fs0)
        \<and> sweep F out (pg_keep z) (pg_fs z) = (sw, fl, fs1) \<and> (fs' = pg_fs z \<or> fs' = fs1))"
proof -
  obtain ok fs0 where m: "make_roots F (root_dirs out) fs = (ok, fs0)" by (cases "make_roots F (root_dirs out) fs")
  have f0: "fs_files fs0 = fs_files fs" using make_roots_files [of F "root_dirs out" fs] m by simp
  show ?thesis
  proof (cases "ok \<and> ff_query F = None")
    case False
    then have "fs' = fs0" using assms(1) m by (cases ok; cases "ff_query F") (auto simp: reconcile_def)
    then show ?thesis using f0 by simp
  next
    case True
    let ?z = "fold (reconcile_row F out base) (scan_rows d) (start_progress fs0)"
    obtain sw fl fs1 where w: "sweep F out (pg_keep ?z) (pg_fs ?z) = (sw, fl, fs1)" by (metis surj_pair)
    have "fs' = pg_fs ?z \<or> fs' = fs1" by (rule reconcile_end [OF _ _ assms(1) refl w]) (use m True in simp_all)
    then show ?thesis using f0 w by blast
  qed
qed

text \<open>C30: Whatever fails during a reconcile, also when it ends with an error, it touches no file but those it is about: a file that no row
  has recorded or wants, that is not a temporary file, and that is not a redirect file under \<open>movies\<close>
  or \<open>series\<close> (artwork, metadata, anything outside) is as it was.\<close>

theorem reconcile_touches_only_its_files:
  assumes "out \<noteq> []" and "clean_files fs" and "\<forall>r \<in> set (scan_rows d). old_clean r"
    and "temp_names_ok F" and "reconcile F out base (d, fs) = (err, st, d', fs')"
    and "\<forall>r \<in> set (scan_rows d). r_old_path r \<noteq> Some q \<and> (want_strm r \<longrightarrow> path_for out r \<noteq> q)"
    and "\<not> is_temp q" and "\<not> sweepable q \<or> (\<forall>root \<in> set (root_dirs out). \<not> below root q)"
  shows "file_at fs' q = file_at fs q"
  using reconcile_stages [OF assms(5,1)]
proof (rule disjE)
  assume "fs_files fs' = fs_files fs"
  then show ?thesis by simp
next
  assume "\<exists>fs0 z sw fl fs1. fs_files fs0 = fs_files fs \<and> z = fold (reconcile_row F out base) (scan_rows d) (start_progress fs0)
    \<and> sweep F out (pg_keep z) (pg_fs z) = (sw, fl, fs1) \<and> (fs' = pg_fs z \<or> fs' = fs1)"
  then obtain fs0 z sw fl fs1 where f0: "fs_files fs0 = fs_files fs" and z: "z = fold (reconcile_row F out base) (scan_rows d) (start_progress fs0)"
    and w: "sweep F out (pg_keep z) (pg_fs z) = (sw, fl, fs1)" and fs': "fs' = pg_fs z \<or> fs' = fs1" by blast
  have cz: "clean_files (pg_fs z)"
    unfolding z by (rule rows_harmless(1)) (use assms f0 in \<open>simp_all add: start_progress_def clean_files_def\<close>)
  have "file_at (pg_fs z) q = file_at (pg_fs (start_progress fs0)) q"
    unfolding z by (rule rows_harmless(3)) (use assms in auto)
  moreover have "file_at fs1 q = file_at (pg_fs z) q"
    by (rule sweep_spec(1) [OF assms(1) cz w]) (use assms(8) in blast)
  ultimately show ?thesis using fs' f0 by (auto simp: start_progress_def)
qed

text \<open>A run that ends because the paths cannot be stored.\<close>

definition ex_stuck :: faults where
  "ex_stuck = no_faults\<lparr>ff_save := Some (ErrDb ''locked'')\<rparr>"

theorem reconcile_touches_only_its_files_witness:
  "\<exists>e st d' fs'. reconcile ex_stuck ''/out'' ''http://me'' (ex_strm_db, ex_fs) = (Some e, st, d', fs')
     \<and> file_at fs' ''/out/movies/nas/b.nfo'' = Some ''n''"
proof -
  obtain err st d' fs' where r: "reconcile ex_stuck ''/out'' ''http://me'' (ex_strm_db, ex_fs) = (err, st, d', fs')" by (metis surj_pair)
  have "fst (reconcile ex_stuck ''/out'' ''http://me'' (ex_strm_db, ex_fs)) \<noteq> None" by code_simp
  then obtain e where e: "err = Some e" using r by auto
  note S = ex_strm_ok [unfolded strm_state_ok_def]
  have t: "temp_names_ok ex_stuck" using no_faults_ok by (simp add: ex_stuck_def temp_names_ok_def)
  have "\<forall>r \<in> set (scan_rows ex_strm_db). r_old_path r \<noteq> Some ''/out/movies/nas/b.nfo''
      \<and> (want_strm r \<longrightarrow> path_for ''/out'' r \<noteq> ''/out/movies/nas/b.nfo'')"
    "\<not> is_temp ''/out/movies/nas/b.nfo''" "\<not> sweepable ''/out/movies/nas/b.nfo''"
    by code_simp+
  with reconcile_touches_only_its_files [OF _ _ _ t r, of "''/out/movies/nas/b.nfo''"] S
  have "file_at fs' ''/out/movies/nas/b.nfo'' = file_at ex_fs ''/out/movies/nas/b.nfo''" by blast
  then show ?thesis using r e by (simp add: ex_fs_def)
qed

text \<open>What the rows of other items leave alone: the files a row keeps, and the paths it may claim.\<close>

lemma kept_steps:
  "pg_keep (fail z) = pg_keep z" "pg_keep (count_write b z) = pg_keep z" "pg_keep (z\<lparr>pg_fs := fs\<rparr>) = pg_keep z"
  "set (pg_keep z) \<subseteq> set (pg_keep (keep_old p r z))" "set (pg_keep z) \<subseteq> set (pg_keep (claim_path p r z))"
  by (auto simp: fail_def count_write_def keep_old_def claim_path_def split: option.split)

lemma settle_keeps:
  "q \<in> set (pg_keep z) \<Longrightarrow> r_old_path r \<noteq> Some q \<Longrightarrow> q \<in> set (pg_keep (settle_row F out r p z))"
  by (auto simp: settle_row_def fail_def split: option.split prod.split sum.split)

lemma unwanted_keeps: "q \<in> set (pg_keep z) \<Longrightarrow> q \<in> set (pg_keep (unwanted_row F out r z))"
  by (auto simp: unwanted_row_def fail_def split: option.split prod.split sum.split)

lemma other_row_keeps:
  assumes "q \<in> set (pg_keep z)" "r_old_path r \<noteq> Some q"
  shows "q \<in> set (pg_keep (reconcile_row F out base r z))"
proof (cases "want_strm r")
  case False
  then show ?thesis using unwanted_keeps [OF assms(1)] by (simp add: reconcile_row_def)
next
  case w: True
  show ?thesis
  proof (cases "map_of (pg_claimed z) (path_for out r)")
    case (Some owner)
    then show ?thesis
      using w assms(1) kept_steps(4) [of z "path_for out r" r] by (auto simp: reconcile_row_def wanted_row_eq kept_steps(1))
  next
    case None
    obtain res fs' where wr: "write_if_changed F (path_for out r) (url_for base (r_peer_id r) (r_item_id r)) (pg_fs z) = (res, fs')"
      by (cases "write_if_changed F (path_for out r) (url_for base (r_peer_id r) (r_item_id r)) (pg_fs z)")
    have k: "q \<in> set (pg_keep (claim_path (path_for out r) r z))" using assms(1) kept_steps(5) by blast
    show ?thesis
    proof (cases res)
      case (Inl e)
      then show ?thesis using k w None wr by (simp add: reconcile_row_def wanted_row_eq kept_steps)
    next
      case (Inr wrote)
      then show ?thesis
        using settle_keeps [OF _ assms(2)] k w None wr by (simp add: reconcile_row_def wanted_row_eq kept_steps)
    qed
  qed
qed

lemma claimed_steps:
  "pg_claimed (fail z) = pg_claimed z" "pg_claimed (count_write b z) = pg_claimed z" "pg_claimed (z\<lparr>pg_fs := fs\<rparr>) = pg_claimed z"
  "pg_claimed (keep_old p r z) = pg_claimed z" "pg_claimed (claim_path p r z) = (p, r_global_id r) # pg_claimed z"
  "pg_claimed (settle_row F out r p z) = pg_claimed z" "pg_claimed (unwanted_row F out r z) = pg_claimed z"
  by (simp_all add: fail_def count_write_def keep_old_def claim_path_def settle_row_def unwanted_row_def
      split: option.split prod.split sum.split)

lemma other_row_claims:
  "fst ` set (pg_claimed (reconcile_row F out base r z)) \<subseteq> fst ` set (pg_claimed z) \<union> {p. want_strm r \<and> p = path_for out r}"
  by (auto simp: reconcile_row_def wanted_row_eq claimed_steps split: option.splits prod.splits sum.splits)

definition apart :: "string \<Rightarrow> strm_row \<Rightarrow> string \<Rightarrow> bool" where
  "apart out r q \<longleftrightarrow> r_old_path r \<noteq> Some q \<and> (want_strm r \<longrightarrow> path_for out r \<noteq> q)"

lemma other_rows:
  assumes "\<forall>r \<in> set rows. old_clean r \<and> apart out r q" "out \<noteq> []" "temp_names_ok F" "\<not> is_temp q"
  shows "file_at (pg_fs (fold (reconcile_row F out base) rows z)) q = file_at (pg_fs z) q"
    and "q \<in> set (pg_keep z) \<Longrightarrow> q \<in> set (pg_keep (fold (reconcile_row F out base) rows z))"
    and "q \<notin> fst ` set (pg_claimed z) \<Longrightarrow> q \<notin> fst ` set (pg_claimed (fold (reconcile_row F out base) rows z))"
proof -
  show "file_at (pg_fs (fold (reconcile_row F out base) rows z)) q = file_at (pg_fs z) q"
    by (rule rows_harmless(3)) (use assms in \<open>auto simp: apart_def\<close>)
  show "q \<in> set (pg_keep z) \<Longrightarrow> q \<in> set (pg_keep (fold (reconcile_row F out base) rows z))"
    using assms(1) by (induction rows arbitrary: z) (simp_all add: other_row_keeps apart_def)
  show "q \<notin> fst ` set (pg_claimed z) \<Longrightarrow> q \<notin> fst ` set (pg_claimed (fold (reconcile_row F out base) rows z))"
    using assms(1)
  proof (induction rows arbitrary: z)
    case (Cons r rows)
    have "q \<notin> fst ` set (pg_claimed (reconcile_row F out base r z))"
      using Cons.prems other_row_claims [of F out base r z] by (auto simp: apart_def)
    then show ?case using Cons by simp
  qed simp
qed

lemma own_row_keeps:
  assumes w: "want_strm r" and prev: "r_old_path r = Some op" and c: "path_clean op = op" and t: "temp_names_ok F" and nt: "\<not> is_temp op"
    and free: "path_for out r \<notin> fst ` set (pg_claimed z)" and there: "file_at (pg_fs z) op \<noteq> None"
  shows "\<exists>q \<in> {op, path_for out r}. file_at (pg_fs (reconcile_row F out base r z)) q \<noteq> None
    \<and> q \<in> set (pg_keep (reconcile_row F out base r z))"
proof -
  let ?d = "path_for out r" and ?c = "url_for base (r_peer_id r) (r_item_id r)"
  have none: "map_of (pg_claimed z) ?d = None" using free by (simp add: map_of_eq_None_iff)
  obtain res fs' where wr: "write_if_changed F ?d ?c (pg_fs z) = (res, fs')" by (cases "write_if_changed F ?d ?c (pg_fs z)")
  note W = write_spec [OF wr t]
  show ?thesis
  proof (cases res)
    case (Inl e)
    have "reconcile_row F out base r z = fail ((claim_path ?d r z)\<lparr>pg_fs := fs'\<rparr>)"
      using w none wr Inl by (simp add: reconcile_row_def wanted_row_eq)
    moreover have "file_at fs' op \<noteq> None" using W(1) [of op] W(7) there nt by (cases "op = ?d") auto
    ultimately show ?thesis using prev by auto
  next
    case (Inr wrote)
    let ?z = "count_write wrote ((claim_path ?d r z)\<lparr>pg_fs := fs'\<rparr>)"
    have e: "reconcile_row F out base r z = settle_row F out r ?d ?z"
      using w none wr Inr by (simp add: reconcile_row_def wanted_row_eq)
    have fd: "file_at fs' ?d = Some ?c" using W(4) Inr by simp
    show ?thesis
    proof (cases "op = ?d")
      case True
      then show ?thesis using prev fd by (simp add: e settle_row_def)
    next
      case False
      obtain rr fs2 where rm: "remove_strm F op out fs' = (rr, fs2)" by (cases "remove_strm F op out fs'")
      have "file_at fs2 ?d = Some ?c" using remove_strm_spec(2) [OF rm c, of ?d] False fd by simp
      then show ?thesis using prev rm False by (cases rr) (simp_all add: e settle_row_def)
    qed
  qed
qed

text \<open>The rows of one reconcile leave the item one of its two files, and protect it from the sweep.\<close>

lemma rows_keep_one:
  assumes "out \<noteq> []" "temp_names_ok F" and dist: "distinct rows" and clean: "\<forall>r' \<in> set rows. old_clean r'"
    and mem: "r \<in> set rows" and r: "want_strm r" "r_old_path r = Some old" and present: "file_at fs old \<noteq> None"
    and apart: "\<forall>r' \<in> set rows. r' \<noteq> r \<longrightarrow> apart out r' old \<and> apart out r' (path_for out r)"
    and temp: "\<not> is_temp old" "\<not> is_temp (path_for out r)"
  obtains q where "q \<in> {old, path_for out r}" "file_at (pg_fs (fold (reconcile_row F out base) rows (start_progress fs))) q \<noteq> None"
    "q \<in> set (pg_keep (fold (reconcile_row F out base) rows (start_progress fs)))"
proof -
  obtain xs ys where rows: "rows = xs @ r # ys" using mem by (meson split_list)
  have other: "\<forall>r' \<in> set xs \<union> set ys. old_clean r' \<and> apart out r' old \<and> apart out r' (path_for out r)"
    using clean apart dist by (auto simp: rows)
  define z1 where "z1 = fold (reconcile_row F out base) xs (start_progress fs)"
  have o1: "\<forall>r' \<in> set xs. old_clean r' \<and> apart out r' old" "\<forall>r' \<in> set xs. old_clean r' \<and> apart out r' (path_for out r)"
    using other by auto
  have f1: "file_at (pg_fs z1) old \<noteq> None"
    using other_rows(1) [OF o1(1) assms(1,2) temp(1), of base "start_progress fs"] present by (simp add: z1_def)
  have c1: "path_for out r \<notin> fst ` set (pg_claimed z1)"
    using other_rows(3) [OF o1(2) assms(1,2) temp(2), of "start_progress fs" base] by (simp add: z1_def)
  have oc: "path_clean old = old" using clean mem r(2) by (auto simp: old_clean_def)
  obtain q where q: "q \<in> {old, path_for out r}" "file_at (pg_fs (reconcile_row F out base r z1)) q \<noteq> None"
    "q \<in> set (pg_keep (reconcile_row F out base r z1))"
    using own_row_keeps [OF r oc assms(2) temp(1) c1 f1, of base] by blast
  have oq: "\<forall>r' \<in> set ys. old_clean r' \<and> apart out r' q" and nq: "\<not> is_temp q" using other q(1) temp by auto
  show ?thesis
    by (rule that [OF q(1)])
      (use other_rows(1,2) [OF oq assms(1,2) nq] q(2,3) in \<open>simp_all add: rows z1_def\<close>)
qed

text \<open>Where a reconcile that gets past its first steps ends.\<close>

text \<open>C13: Whatever fails, a wanted item that had its redirect file keeps one: after a reconcile, failing
  or not, the file at its recorded path or the one at its new path exists, as long as no other row has
  recorded or wants one of these two paths.\<close>

theorem item_never_without_file:
  assumes "out \<noteq> []" and "keyed (catalog_items d)" and "clean_files fs" and "\<forall>r' \<in> set (scan_rows d). old_clean r'"
    and "temp_names_ok F" and "reconcile F out base (d, fs) = (err, st, d', fs')"
    and "r \<in> set (scan_rows d)" and "want_strm r" and "r_old_path r = Some old" and "file_at fs old \<noteq> None"
    and "\<forall>r' \<in> set (scan_rows d). r' \<noteq> r \<longrightarrow> apart out r' old \<and> apart out r' (path_for out r)"
    and "\<not> is_temp old" and "\<not> is_temp (path_for out r)"
  shows "file_at fs' old \<noteq> None \<or> file_at fs' (path_for out r) \<noteq> None"
proof -
  obtain ok fs0 where m: "make_roots F (root_dirs out) fs = (ok, fs0)" by (cases "make_roots F (root_dirs out) fs")
  have files0: "fs_files fs0 = fs_files fs" using make_roots_files [of F "root_dirs out" fs] m by simp
  show ?thesis
  proof (cases "ok \<and> ff_query F = None")
    case False
    then have "fs' = fs0" using assms(6) m by (cases ok; cases "ff_query F") (simp_all add: reconcile_def)
    then show ?thesis using assms(10) files0 by simp
  next
    case True
    then have ready: "make_roots F (root_dirs out) fs = (True, fs0)" "ff_query F = None" using m by simp_all
    define z where "z = fold (reconcile_row F out base) (scan_rows d) (start_progress fs0)"
    have dist: "distinct (scan_rows d)" using scan_rows_ids(1) [OF assms(2)] by (simp add: distinct_map)
    have present: "file_at fs0 old \<noteq> None" using assms(10) files0 by simp
    obtain q where q: "q \<in> {old, path_for out r}" "file_at (pg_fs z) q \<noteq> None" "q \<in> set (pg_keep z)"
      unfolding z_def by (rule rows_keep_one [OF assms(1,5) dist assms(4,7,8,9) present assms(11,12,13)])
    have cz: "clean_files (pg_fs z)"
      unfolding z_def by (rule rows_harmless(1)) (use assms(1,3,4,5) files0 in \<open>simp_all add: clean_files_def\<close>)
    obtain sw fl fs1 where w: "sweep F out (pg_keep z) (pg_fs z) = (sw, fl, fs1)" by (metis surj_pair)
    have "file_at fs1 q \<noteq> None" using sweep_spec(1) [OF assms(1) cz w, of q] q(2,3) by simp
    then have "file_at fs' q \<noteq> None" using reconcile_end [OF ready assms(6) z_def w] q(2) by auto
    then show ?thesis using q(1) by auto
  qed
qed

definition ex_faults :: faults where
  "ex_faults = no_faults\<lparr>ff_write := (\<lambda>p. if p = ex_new_path then Some (NotReplaced (Some (''77'', ''htt''))) else None)\<rparr>"

theorem item_never_without_file_witness:
  "\<exists>err st d' fs'. reconcile ex_faults ''/out'' ''http://me'' (ex_strm_db, ex_fs) = (err, st, d', fs') \<and> st_failed st = 1
     \<and> (file_at fs' ''/old/a.strm'' \<noteq> None \<or> file_at fs' ex_new_path \<noteq> None)"
proof -
  obtain err st d' fs' where r: "reconcile ex_faults ''/out'' ''http://me'' (ex_strm_db, ex_fs) = (err, st, d', fs')" by (metis surj_pair)
  have "case reconcile ex_faults ''/out'' ''http://me'' (ex_strm_db, ex_fs) of (err, st, d', fs') \<Rightarrow> st_failed st = 1" by code_simp
  then have f: "st_failed st = 1" by (simp add: r)
  have t: "temp_names_ok ex_faults" by (auto simp: temp_names_ok_def ex_faults_def no_faults_def split: if_splits)
  note S = ex_strm_ok [unfolded strm_state_ok_def]
  let ?r = "scan_row (''tmdb:1'', ex_item_row False (Some ''/old/a.strm''))"
  have w: "want_strm ?r" "path_for ''/out'' ?r = ex_new_path" by code_simp+
  have o: "r_old_path ?r = Some ''/old/a.strm''" by (simp add: scan_row_def ex_item_row_def)
  have mem: "?r \<in> set (scan_rows ex_strm_db)" by (simp add: ex_scan)
  have a: "\<forall>r' \<in> set (scan_rows ex_strm_db). r' \<noteq> ?r \<longrightarrow> apart ''/out'' r' ''/old/a.strm'' \<and> apart ''/out'' r' (path_for ''/out'' ?r)"
    by code_simp
  have nt: "\<not> is_temp ''/old/a.strm''" "\<not> is_temp ex_new_path" by code_simp+
  have "file_at ex_fs ''/old/a.strm'' \<noteq> None" by (simp add: ex_fs_def)
  with item_never_without_file [OF _ _ _ _ t r mem w(1) o _ a nt(1)] S nt(2) w(2)
  have "file_at fs' ''/old/a.strm'' \<noteq> None \<or> file_at fs' ex_new_path \<noteq> None" by simp
  with r f show ?thesis by blast
qed

end
