(* ===== verification/SyncRun.thy ===== *)
theory SyncRun
  imports Election Strm
begin

section \<open>Sync runs (syncrun.go, syncstatus.go, synctrigger/http.go, the loop of app.go)\<close>

text \<open>
  One run of the node's own sync with the statuses it reports, the queue that merges requests for runs,
  the loop that waits for the next one, and the endpoint that asks for a run here or at a peer.
  Times are nanoseconds; the texts of errors are a parameter.
\<close>

subsection \<open>Statuses\<close>

definition state_idle :: string where "state_idle = ''idle''"
definition state_running :: string where "state_running = ''running''"
definition state_success :: string where "state_success = ''success''"
definition state_error :: string where "state_error = ''error''"
definition state_unreachable :: string where "state_unreachable = ''unreachable''"

definition stage_catalog :: string where "stage_catalog = ''syncing_catalog''"
definition stage_writing :: string where "stage_writing = ''writing_files''"

lemmas status_names = state_idle_def state_running_def state_success_def state_error_def state_unreachable_def
  stage_catalog_def stage_writing_def

text \<open>The zero value of \<open>time.Time\<close>: the first of January of the year 1.\<close>

definition zero_time :: int where "zero_time = - 62135596800 * 10 ^ 9"

record status =
  sy_state :: string
  sy_stage :: string
  sy_percent :: int
  sy_started :: int
  sy_finished :: int
  sy_error :: string

definition no_status :: status where
  "no_status = \<lparr>sy_state = [], sy_stage = [], sy_percent = 0, sy_started = zero_time, sy_finished = zero_time, sy_error = []\<rparr>"

type_synonym tracker = "(string, status) tbl"

definition tracker_set :: "string \<Rightarrow> status \<Rightarrow> tracker \<Rightarrow> tracker" where
  "tracker_set k s t = tbl_upsert k s t"

definition tracker_get :: "tracker \<Rightarrow> string \<Rightarrow> status option" where
  "tracker_get t k = map_of t k"

definition tracker_all :: "tracker \<Rightarrow> tracker" where
  "tracker_all t = t"

text \<open>What the peer port shows of the statuses: only this node's own.\<close>

definition local_sync_status :: "tracker \<Rightarrow> tracker" where
  "local_sync_status t = (case tracker_get t ''local'' of None \<Rightarrow> [] | Some st \<Rightarrow> [(''local'', st)])"

subsection \<open>Requests and their queue\<close>

record sync_request =
  rq_refresh_local :: bool
  rq_reason :: string

definition zero_request :: sync_request where
  "zero_request = \<lparr>rq_refresh_local = False, rq_reason = []\<rparr>"

definition merge_requests :: "sync_request \<Rightarrow> sync_request \<Rightarrow> sync_request" where
  "merge_requests r o' =
     \<lparr>rq_refresh_local = (rq_refresh_local r \<or> rq_refresh_local o'),
      rq_reason = (if rq_reason r = [] then rq_reason o'
                   else if rq_reason o' \<noteq> [] \<and> rq_reason o' \<notin> set (split_on CHR ''+'' (rq_reason r))
                        then rq_reason r @ ''+'' @ rq_reason o'
                   else rq_reason r)\<rparr>"

text \<open>The queue: the pending request, and whether the channel of capacity one holds a token.\<close>

record queue =
  q_pending :: "sync_request option"
  q_wake :: bool

definition new_queue :: queue where
  "new_queue = \<lparr>q_pending = None, q_wake = False\<rparr>"

text \<open>\<open>Push\<close> sets the pending request under the lock, and afterwards sends a token unless there is one.\<close>

definition push_pending :: "sync_request \<Rightarrow> queue \<Rightarrow> queue" where
  "push_pending r q = q\<lparr>q_pending := Some (case q_pending q of None \<Rightarrow> r | Some p \<Rightarrow> merge_requests p r)\<rparr>"

definition push_wake :: "queue \<Rightarrow> queue" where
  "push_wake q = q\<lparr>q_wake := True\<rparr>"

definition push :: "sync_request \<Rightarrow> queue \<Rightarrow> queue" where
  "push r q = push_wake (push_pending r q)"

definition take_request :: "queue \<Rightarrow> sync_request option \<times> queue" where
  "take_request q = (q_pending q, q\<lparr>q_pending := None\<rparr>)"

text \<open>One turn of the loop of \<open>waitForNextRun\<close>, by the case its \<open>select\<close> picks; \<open>None\<close>: it goes on waiting.\<close>

datatype wake_event = Cancelled | Token | Timer

definition scheduled_request :: sync_request where
  "scheduled_request = \<lparr>rq_refresh_local = True, rq_reason = ''scheduled''\<rparr>"

fun wait_turn :: "wake_event \<Rightarrow> queue \<Rightarrow> sync_request option \<times> queue" where
  "wait_turn Cancelled q = (Some zero_request, q)"
| "wait_turn Token q = take_request (q\<lparr>q_wake := False\<rparr>)"
| "wait_turn Timer q =
     (case take_request q of
        (None, q) \<Rightarrow> (Some scheduled_request, q)
      | (Some queued, q) \<Rightarrow> (Some (merge_requests scheduled_request queued), q))"

fun wait_for_next_run :: "wake_event list \<Rightarrow> queue \<Rightarrow> sync_request option \<times> queue" where
  "wait_for_next_run [] q = (None, q)"
| "wait_for_next_run (e # es) q =
     (case wait_turn e q of
        (Some r, q) \<Rightarrow> (Some r, q)
      | (None, q) \<Rightarrow> wait_for_next_run es q)"

subsection \<open>The loop and those who ask for runs, interleaved\<close>

text \<open>
  The state of the loop: the queue, how many pushes have set the pending request but not yet sent their
  token, whether the loop waits (otherwise it runs a sync), and, for the specification only, the requests
  pushed since the last one was taken.
\<close>

record loop_state =
  lp_queue :: queue
  lp_sending :: nat
  lp_waiting :: bool
  lp_asked :: "sync_request list"

datatype loop_event = Asked sync_request | Sent | Finished | Started sync_request | Idled

definition loop_start :: loop_state where
  "loop_start = \<lparr>lp_queue = new_queue, lp_sending = 0, lp_waiting = False, lp_asked = []\<rparr>"

inductive loop_step :: "loop_state \<Rightarrow> loop_event \<Rightarrow> loop_state \<Rightarrow> bool" where
  asked: "loop_step s (Asked r)
    (s\<lparr>lp_queue := push_pending r (lp_queue s), lp_sending := Suc (lp_sending s), lp_asked := lp_asked s @ [r]\<rparr>)"
| sent: "lp_sending s = Suc n \<Longrightarrow> loop_step s Sent (s\<lparr>lp_queue := push_wake (lp_queue s), lp_sending := n\<rparr>)"
| finished: "\<not> lp_waiting s \<Longrightarrow> loop_step s Finished (s\<lparr>lp_waiting := True\<rparr>)"
| woken: "lp_waiting s \<Longrightarrow> q_wake (lp_queue s) \<Longrightarrow> wait_turn Token (lp_queue s) = (Some r, q)
    \<Longrightarrow> loop_step s (Started r) (s\<lparr>lp_queue := q, lp_waiting := False, lp_asked := []\<rparr>)"
| idled: "lp_waiting s \<Longrightarrow> q_wake (lp_queue s) \<Longrightarrow> wait_turn Token (lp_queue s) = (None, q)
    \<Longrightarrow> loop_step s Idled (s\<lparr>lp_queue := q\<rparr>)"
| ticked: "lp_waiting s \<Longrightarrow> wait_turn Timer (lp_queue s) = (Some r, q)
    \<Longrightarrow> loop_step s (Started r) (s\<lparr>lp_queue := q, lp_waiting := False, lp_asked := []\<rparr>)"

inductive_cases started_cases: "loop_step s (Started r) s'"
inductive_simps loop_step_simps: "loop_step s e s'"

inductive loop_reach :: "loop_state \<Rightarrow> bool" where
  start: "loop_reach loop_start"
| step: "loop_reach s \<Longrightarrow> loop_step s e s' \<Longrightarrow> loop_reach s'"

subsection \<open>One run\<close>

text \<open>What a run meets: the sync's environment, the peers at its start and when it notifies them, the
  faults of the file system, times and the texts of errors.\<close>

record run_env =
  rn_sync :: sync_env
  rn_peers :: "peer list"
  rn_peers_then :: "peer list"
  rn_faults :: faults
  rn_started :: int
  rn_finished :: int
  rn_text :: "go_error \<Rightarrow> string"
  rn_output_dir :: string
  rn_base_url :: string

text \<open>\<open>NotifyPeers\<close>: the peers that get a request; what they answer only changes the log.\<close>

definition notify_peers :: "peer list \<Rightarrow> string list" where
  "notify_peers ps = map p_id (filter (\<lambda>p. p_state p = Online) ps)"

definition running_status :: "run_env \<Rightarrow> string \<Rightarrow> status" where
  "running_status env stage = no_status\<lparr>sy_state := state_running, sy_stage := stage, sy_started := rn_started env\<rparr>"

definition failed_status :: "run_env \<Rightarrow> string \<Rightarrow> go_error \<Rightarrow> status" where
  "failed_status env what e =
     no_status\<lparr>sy_state := state_error, sy_started := rn_started env, sy_finished := rn_finished env,
               sy_error := what @ '': '' @ rn_text env e\<rparr>"

definition success_status :: "run_env \<Rightarrow> status" where
  "success_status env =
     no_status\<lparr>sy_state := state_success, sy_percent := 100, sy_started := rn_started env, sy_finished := rn_finished env\<rparr>"

text \<open>The statistics of the local refresh are set as soon as it is done, so peers are notified of its
  changes even if the rest of the sync fails.\<close>

definition local_changes :: "run_env \<Rightarrow> sync_request \<Rightarrow> database \<Rightarrow> nat" where
  "local_changes env req d =
     (case sync_local (rn_sync env) (rq_refresh_local req) d of
        (Inl e, _) \<Rightarrow> 0
      | (Inr (lst, _), _) \<Rightarrow> stats_changed lst)"

record run_result =
  rs_error :: "go_error option"
  rs_statuses :: "status list"
  rs_notified :: "string list"
  rs_files :: strm_stats

text \<open>\<open>None\<close>: a pull of the sync does not end.\<close>

definition run_local :: "run_env \<Rightarrow> sync_request \<Rightarrow> database \<times> fsys \<Rightarrow> (run_result \<times> database \<times> fsys) option" where
  "run_local env req df =
     (let (d, fs) = df;
          notified = (if 0 < local_changes env req d then notify_peers (rn_peers_then env) else []);
          catalog = running_status env stage_catalog;
          writing = running_status env stage_writing
      in case sync (rn_sync env) (rq_refresh_local req) (rn_peers env) d of
           None \<Rightarrow> None
         | Some (Inl e, d) \<Rightarrow>
             Some (\<lparr>rs_error = Some e, rs_statuses = [catalog, failed_status env ''catalog sync'' e],
                    rs_notified = notified, rs_files = zero_stats\<rparr>, d, fs)
         | Some (Inr st, d) \<Rightarrow>
             (case reconcile (rn_faults env) (rn_output_dir env) (rn_base_url env) (d, fs) of
                (Some e, files, d, fs) \<Rightarrow>
                  Some (\<lparr>rs_error = Some e, rs_statuses = [catalog, writing, failed_status env ''strm reconcile'' e],
                         rs_notified = notified, rs_files = files\<rparr>, d, fs)
              | (None, files, d, fs) \<Rightarrow>
                  Some (\<lparr>rs_error = None, rs_statuses = [catalog, writing, success_status env],
                         rs_notified = notified, rs_files = files\<rparr>, d, fs)))"

text \<open>The tracker after the run.\<close>

definition tracked :: "run_result \<Rightarrow> tracker \<Rightarrow> tracker" where
  "tracked r t = fold (tracker_set ''local'') (rs_statuses r) t"

subsection \<open>Asking for a run (synctrigger/http.go)\<close>

text \<open>What the endpoint starts: a local sync, or the background work of a remote one.\<close>

datatype triggered = NoTrigger | TriggerLocal | TriggerRemote peer bool

definition trigger_handler ::
  "registry \<Rightarrow> string \<Rightarrow> bool \<Rightarrow> bool \<Rightarrow> go_error option \<Rightarrow> database \<Rightarrow> unit response \<times> triggered \<times> database" where
  "trigger_handler r peerID force resync fault d =
     (if peerID = [] \<or> peerID = ''local'' then (Status 202, TriggerLocal, d)
      else case get_peer r peerID of
        None \<Rightarrow> (HttpError 404 ''unknown peer'', NoTrigger, d)
      | Some p \<Rightarrow>
          if p_state p = Disabled then (HttpError 409 ''peer disabled: its transport is turned off on this node'', NoTrigger, d)
          else if resync then
            (case request_resync fault d (p_id p) of
               (Inl e, d) \<Rightarrow> (HttpError 500 ''requesting resync failed'', NoTrigger, d)
             | (Inr _, d) \<Rightarrow> (Status 202, TriggerRemote p force, d))
          else (Status 202, TriggerRemote p force, d))"

definition unreachable_status :: "int \<Rightarrow> int \<Rightarrow> string \<Rightarrow> status" where
  "unreachable_status started now msg =
     no_status\<lparr>sy_state := state_unreachable, sy_started := started, sy_finished := now, sy_error := msg\<rparr>"

text \<open>
  Waiting for the pull: each second, before the deadline, the local status is read; the list holds what
  is read, with the time of the reading. The result is the statuses set for the peer, in order.
\<close>

fun wait_for_local_run :: "int \<Rightarrow> int \<Rightarrow> status option list \<Rightarrow> status list" where
  "wait_for_local_run started now [] = [unreachable_status started now ''timed out waiting for the pull to finish'']"
| "wait_for_local_run started now (None # rest) = wait_for_local_run started now rest"
| "wait_for_local_run started now (Some st # rest) =
     (if sy_started st < started then wait_for_local_run started now rest
      else if sy_state st = state_success \<or> sy_state st = state_error then [st\<lparr>sy_started := started\<rparr>]
      else st\<lparr>sy_started := started\<rparr> # wait_for_local_run started now rest)"

text \<open>What polling the peer's status yields: no request, no answer, a body that does not decode, or one
  with or without a status of its own.\<close>

datatype poll_answer = BadRequest | Unanswered string | Undecoded | Polled "status option"

fun poll_remote_status :: "int \<Rightarrow> int \<Rightarrow> poll_answer list \<Rightarrow> status list \<times> bool" where
  "poll_remote_status started now [] = ([unreachable_status started now ''timed out waiting for peer sync status''], False)"
| "poll_remote_status started now (BadRequest # rest) = poll_remote_status started now rest"
| "poll_remote_status started now (Unanswered msg # rest) = ([unreachable_status started now msg], False)"
| "poll_remote_status started now (Undecoded # rest) = poll_remote_status started now rest"
| "poll_remote_status started now (Polled None # rest) = poll_remote_status started now rest"
| "poll_remote_status started now (Polled (Some st) # rest) =
     (let st = st\<lparr>sy_started := started\<rparr>
      in if sy_state st = state_success then ([st], True)
         else if sy_state st = state_error then ([st], False)
         else (case poll_remote_status started now rest of (sts, ok) \<Rightarrow> (st # sts, ok)))"

text \<open>The background work: the statuses set for the peer, and whether a pull is queued. The peer's
  answer to the request for a refresh is a status code or a failure.\<close>

definition trigger_remote ::
  "int \<Rightarrow> int \<Rightarrow> bool \<Rightarrow> string + nat \<Rightarrow> poll_answer list \<Rightarrow> status option list \<Rightarrow> status list \<times> bool" where
  "trigger_remote started now force answer polls waits =
     (let first = no_status\<lparr>sy_state := state_running, sy_started := started\<rparr>
      in if \<not> force then (first # wait_for_local_run started now waits, True)
         else
           let err = (case answer of
                        Inl msg \<Rightarrow> Some msg
                      | Inr code \<Rightarrow>
                          if code = 202 then None
                          else if code = 429 then Some ''peer refused: a refresh was requested too recently, try again later''
                          else Some (''peer returned status '' @ fmt_nat code))
           in (case err of
                 Some msg \<Rightarrow> ([first, unreachable_status started now msg], False)
               | None \<Rightarrow> (case poll_remote_status started now polls of (sts, ok) \<Rightarrow> (first # sts, ok))))"

definition manual_refresh :: sync_request where
  "manual_refresh = \<lparr>rq_refresh_local = True, rq_reason = ''manual''\<rparr>"

definition manual_pull :: sync_request where
  "manual_pull = \<lparr>rq_refresh_local = False, rq_reason = ''manual''\<rparr>"

definition peer_notify :: sync_request where
  "peer_notify = \<lparr>rq_refresh_local = False, rq_reason = ''peer-notify''\<rparr>"

definition notify_handler :: "queue \<Rightarrow> unit response \<times> queue" where
  "notify_handler q = (Status 202, push peer_notify q)"

end
