(* ===== verification/SyncRunProps.thy ===== *)
theory SyncRunProps
  imports SyncRun SyncProps StrmTheorems
begin

section \<open>What the queue, the loop and a run guarantee\<close>

text \<open>
  Merging requests is the union of what they ask for, and the pending request is always the merge of
  those asked since the last one was taken; a run keeps the node's state well formed, whatever fails,
  and its redirect files follow the election.
\<close>

subsection \<open>Merging is union\<close>

definition parts :: "string \<Rightarrow> string set" where
  "parts s = set (split_on CHR ''+'' s) - {[]}"

lemma parts_Nil [simp]: "parts [] = {}"
  by (simp add: parts_def)

lemma parts_append: "parts (a @ CHR ''+'' # b) = parts a \<union> parts b"
  by (auto simp: parts_def split_on_append_sep)

lemma parts_member: "s \<in> set (split_on CHR ''+'' t) \<Longrightarrow> parts s \<subseteq> parts t"
proof
  fix w assume s: "s \<in> set (split_on CHR ''+'' t)" and w: "w \<in> parts s"
  have "split_on CHR ''+'' s = [s]" by (rule split_on_no_sep [OF split_on_parts [OF s]])
  with w have "w = s" "s \<noteq> []" by (auto simp: parts_def)
  with s show "w \<in> parts t" by (simp add: parts_def)
qed

lemma merge_parts:
  "rq_refresh_local (merge_requests r q) = (rq_refresh_local r \<or> rq_refresh_local q)"
  "parts (rq_reason (merge_requests r q)) = parts (rq_reason r) \<union> parts (rq_reason q)"
  using parts_member [of "rq_reason q" "rq_reason r"] by (auto simp: merge_requests_def parts_append)

text \<open>What a request covers.\<close>

definition covers :: "sync_request \<Rightarrow> sync_request \<Rightarrow> bool" where
  "covers r q \<longleftrightarrow> (rq_refresh_local q \<longrightarrow> rq_refresh_local r) \<and> parts (rq_reason q) \<subseteq> parts (rq_reason r)"

lemma covers_refl [simp]: "covers r r"
  by (simp add: covers_def)

lemma covers_merge [simp]: "covers (merge_requests a b) q \<longleftrightarrow> (rq_refresh_local q \<longrightarrow> rq_refresh_local a \<or> rq_refresh_local b)
    \<and> parts (rq_reason q) \<subseteq> parts (rq_reason a) \<union> parts (rq_reason b)"
  by (simp add: covers_def merge_parts)

text \<open>The request that a list of requests merges to, as a specification: what any of them asks for.\<close>

definition asks_for :: "sync_request list \<Rightarrow> bool \<times> string set" where
  "asks_for rs = (list_ex rq_refresh_local rs, \<Union>r \<in> set rs. parts (rq_reason r))"

definition meaning :: "sync_request \<Rightarrow> bool \<times> string set" where
  "meaning r = (rq_refresh_local r, parts (rq_reason r))"

subsection \<open>The invariant of the loop\<close>

definition loop_ok :: "loop_state \<Rightarrow> bool" where
  "loop_ok s \<longleftrightarrow>
     (case q_pending (lp_queue s) of None \<Rightarrow> lp_asked s = [] | Some p \<Rightarrow> lp_asked s \<noteq> [] \<and> meaning p = asks_for (lp_asked s))
     \<and> (lp_asked s \<noteq> [] \<longrightarrow> q_wake (lp_queue s) \<or> 0 < lp_sending s)"

lemma asks_for_snoc:
  "asks_for (rs @ [r]) = (fst (asks_for rs) \<or> rq_refresh_local r, snd (asks_for rs) \<union> parts (rq_reason r))"
  by (auto simp: asks_for_def)

lemma loop_step_ok: "loop_step s e s' \<Longrightarrow> loop_ok s \<Longrightarrow> loop_ok s'"
proof (induction rule: loop_step.induct)
  case (asked s r)
  show ?case
  proof (cases "q_pending (lp_queue s)")
    case None
    then have "lp_asked s = []" using asked by (simp add: loop_ok_def)
    then show ?thesis using None by (simp add: loop_ok_def push_pending_def meaning_def asks_for_def)
  next
    case (Some p)
    then have "meaning p = asks_for (lp_asked s)" using asked by (simp add: loop_ok_def)
    then have "meaning (merge_requests p r) = asks_for (lp_asked s @ [r])"
      by (simp add: asks_for_snoc meaning_def merge_parts) (metis fst_conv snd_conv)
    then show ?thesis using Some by (simp add: loop_ok_def push_pending_def)
  qed
next
  case (sent s n)
  then show ?case by (cases "q_pending (lp_queue s)") (simp_all add: loop_ok_def push_wake_def)
qed (auto simp: loop_ok_def take_request_def split: option.splits)

lemma loop_reach_ok: "loop_reach s \<Longrightarrow> loop_ok s"
  by (induction rule: loop_reach.induct) (auto simp: loop_start_def new_queue_def loop_ok_def dest: loop_step_ok)

text \<open>What a started run covers.\<close>

lemma started_covers:
  assumes "loop_reach s" and "loop_step s (Started r) s'" and "q \<in> set (lp_asked s)"
  shows "covers r q"
proof -
  have "lp_asked s \<noteq> []" using assms(3) by auto
  then obtain p where p: "q_pending (lp_queue s) = Some p" "meaning p = asks_for (lp_asked s)"
    using loop_reach_ok [OF assms(1)] by (auto simp: loop_ok_def split: option.splits)
  have c: "covers p q"
    using p(2) assms(3) by (auto simp: meaning_def asks_for_def covers_def list_ex_iff)
  have "r = p \<or> r = merge_requests scheduled_request p"
    using assms(2) p(1) by (auto elim!: started_cases simp: take_request_def)
  then show ?thesis using c by (auto simp: covers_def merge_parts)
qed

subsection \<open>The state of a node across runs\<close>

definition paths_clean :: "database \<Rightarrow> bool" where
  "paths_clean d \<longleftrightarrow> (\<forall>g r p. map_of (catalog_items d) g = Some r \<longrightarrow> i_strm_path r = Some p \<longrightarrow> path_clean p = p)"

definition node_ok :: "(entry \<Rightarrow> string) \<Rightarrow> database \<times> fsys \<Rightarrow> bool" where
  "node_ok hash df \<longleftrightarrow> catalog_ok hash (fst df) \<and> paths_clean (fst df) \<and> clean_files (snd df)"

text \<open>What the election may write: rows kept, rows of a state with the recorded path, rows cleared.\<close>

lemma write_election_rows:
  assumes w: "write_election rf tf now desired offered d = (Inr st, d')"
    and kd: "keyed desired" and ki: "keyed (catalog_items d)"
    and old: "\<And>g r. map_of (catalog_items d) g = Some r \<Longrightarrow> Q r"
    and new: "\<And>g s. Q (row_of_state now s (strm_of (map_of (catalog_items d) g)))"
    and clr: "\<And>r. Q r \<Longrightarrow> Q (cleared r)"
  shows "keyed (catalog_items d') \<and> (\<forall>g r. map_of (catalog_items d') g = Some r \<longrightarrow> Q r)"
proof -
  let ?ex = "map (\<lambda>(g, r). (g, state_of_row r)) (catalog_items d)"
  obtain n items n2 k items2 where u: "upsert_desired now ?ex desired (0, catalog_items d) = (n, items)"
    and dr: "drop_undesired desired ?ex (0, 0, items) = (n2, k, items2)"
    and d': "catalog_items d' = tbl_delete_where inert items2"
    using write_election_unfold [OF w] by blast
  have kex: "keyed ?ex" using ki by (simp add: keyed_def comp_def case_prod_unfold)
  note fu = upsert_desired_spec [OF u kd ki]
  have fd: "keyed items2 \<and> map_of items2 g = (case map_of ?ex g of
       None \<Rightarrow> map_of items g
     | Some old \<Rightarrow> if map_of desired g \<noteq> None then map_of items g
                   else if st_local old then None
                   else if st_peer_id old \<noteq> [] then map_option cleared (map_of items g)
                   else map_of items g)" for g
    by (rule drop_undesired_spec [OF dr kex]) (use fu in blast)
  have i1: "Q r" if "map_of items g = Some r" for g r
    using fu [of g] old [of g] new [of _ g] that by (auto split: option.splits if_splits)
  have i2: "Q r" if r: "map_of items2 g = Some r" for g r
  proof -
    have "map_of items2 g = map_of items g \<or> map_of items2 g = map_option cleared (map_of items g) \<or> map_of items2 g = None"
      using fd [of g] by (auto split: option.splits if_splits)
    then show ?thesis using r i1 [of g] clr by (cases "map_of items g") auto
  qed
  have k2: "keyed items2" using fd by blast
  then show ?thesis unfolding d' using i2 by (auto split: option.splits if_splits)
qed

lemma election_keeps_node:
  assumes ok: "catalog_ok hash d" "paths_clean d" and el: "elect fault d offs = Inr (desired, offered)"
    and w: "write_election rf tf now desired offered d = (Inr st, d')"
  shows "catalog_ok hash d' \<and> paths_clean d'"
proof -
  have k: "keyed (local_catalog d)" "keyed (peer_catalog d)" "keyed (hidden_items d)" "keyed (catalog_items d)"
    using ok by (auto simp: catalog_ok_def intro: index_ok_keyed)
  have ids: "\<And>g r. map_of (local_catalog d) g = Some r \<Longrightarrow> e_global_id (l_entry r) = g"
    using ok by (auto simp: catalog_ok_def intro: index_ok_ids)
  have kd: "keyed desired" using elect_ok [OF el k(1,2) ids] by blast
  let ?Q = "\<lambda>r. i_primary_peer_id r \<noteq> Some [] \<and> (\<forall>p. i_strm_path r = Some p \<longrightarrow> path_clean p = p)"
  have "keyed (catalog_items d') \<and> (\<forall>g r. map_of (catalog_items d') g = Some r \<longrightarrow> ?Q r)"
  proof (rule write_election_rows [OF w kd k(4)])
    show "\<And>g r. map_of (catalog_items d) g = Some r \<Longrightarrow> ?Q r" using ok unfolding catalog_ok_def paths_clean_def by blast
    show "?Q (row_of_state now s (strm_of (map_of (catalog_items d) g)))" for g s
      using ok(2) by (auto simp: row_of_state_def null_if_empty_def strm_of_def paths_clean_def split: option.splits)
    show "\<And>r. ?Q r \<Longrightarrow> ?Q (cleared r)" by (simp add: cleared_def)
  qed
  moreover obtain h where h: "h = hidden_items d'" "keyed h" and d': "d' = d\<lparr>catalog_items := catalog_items d', hidden_items := h\<rparr>"
    using write_election_unfold [OF w] prune_hidden_keyed [OF k(3)] by metis
  have eq: "local_catalog d' = local_catalog d" "settings_tbl d' = settings_tbl d" "peer_catalog d' = peer_catalog d"
    by (subst d', simp)+
  ultimately show ?thesis
    using ok(1) index_ok_cong [OF eq(1,2)] h eq(3) by (simp add: catalog_ok_def paths_clean_def)
qed

lemma sync_keeps_node:
  assumes run: "sync env refreshLocal all d = Some (res, d')" and ok: "catalog_ok (se_hash env) d" "paths_clean d"
    and room: "\<And>entries. se_listing env = Inr entries \<Longrightarrow> room d entries"
  shows "catalog_ok (se_hash env) d' \<and> paths_clean d'"
proof -
  obtain r1 d1 where 1: "sync_local env refreshLocal d = (r1, d1)" by (metis surj_pair)
  have keep: "paths_clean e" if "catalog_items e = catalog_items d" for e using ok(2) that by (simp add: paths_clean_def)
  show ?thesis
  proof (cases r1)
    case (Inl e)
    have "d1 = d"
      using 1 Inl by (auto simp: sync_local_def Let_def dest: refresh_locked_error ensure_indexed_error split: if_splits prod.splits sum.splits)
    then show ?thesis using run 1 Inl ok by (simp add: sync_def)
  next
    case (Inr x)
    have l1: "catalog_ok (se_hash env) d1" "catalog_items d1 = catalog_items d"
      using sync_local_catalog_ok [OF 1 [unfolded Inr] ok(1) room] by blast+
    obtain lst refreshed where x: "x = (lst, refreshed)" by (cases x)
    obtain sts d2 where 2: "pull_peers (se_pull env) pull_page_size (se_fuel env) (online_ids all) d1 = Some (sts, d2)"
      using run 1 Inr x by (auto simp: sync_def Let_def split: option.splits)
    obtain r3 d3 where 3: "prune_removed_peers (se_prune_fault env) (map p_id all) d2 = (r3, d3)" by (metis surj_pair)
    have m: "mirrors_only d1 d3" using mirrors_only_trans [OF pull_peers_only [OF 2] prune_only [OF 3]] .
    have l3: "catalog_ok (se_hash env) d3" by (rule mirrors_only_catalog_ok [OF m l1(1)])
    have i3: "catalog_items d3 = catalog_items d"
      using m l1(2) unfolding mirrors_only_def by (cases d1; cases d3) simp
    show ?thesis
    proof (cases r3)
      case (Inl e)
      then have "d' = d3" using run 1 Inr x 2 3 by (simp add: sync_def Let_def)
      then show ?thesis using l3 keep [OF i3] by simp
    next
      case r3: (Inr u)
      show ?thesis
      proof (cases "elect (se_elect_fault env) d3 (offering_ids (se_now env) all)")
        case (Inl e)
        then have "d' = d3" using run 1 Inr x 2 3 r3 by (simp add: sync_def Let_def)
        then show ?thesis using l3 keep [OF i3] by simp
      next
        case el: (Inr ch)
        obtain desired offered where ch: "ch = (desired, offered)" by (cases ch)
        obtain r5 d5 where 5: "write_election (se_write_rfault env) (se_write_tfault env) (unix (se_now env)) desired offered d3 = (r5, d5)"
          by (metis surj_pair)
        have d5: "d' = d5" using run 1 Inr x 2 3 r3 el ch 5 by (cases r5) (simp_all add: sync_def Let_def)
        show ?thesis
        proof (cases r5)
          case (Inl e)
          then show ?thesis using 5 d5 l3 keep [OF i3] by (auto dest: write_election_error)
        next
          case (Inr est)
          then show ?thesis using election_keeps_node [OF l3 keep [OF i3] el [unfolded ch]] 5 d5 by simp
        qed
      qed
    qed
  qed
qed

text \<open>What a reconcile may write: the recorded paths, each none or a path it made.\<close>

lemma updated_fields:
  "\<exists>q. updated g us x = x\<lparr>i_strm_path := q\<rparr> \<and> (q = i_strm_path x \<or> q = None \<or> (\<exists>u \<in> set us. snd u \<noteq> [] \<and> q = Some (snd u)))"
proof (induction us arbitrary: x)
  case (Cons u us)
  have c: "updated g (u # us) x = updated g us (updated g [u] x)" by (simp add: updated_def)
  define q where "q = i_strm_path (updated g [u] x)"
  have q: "updated g [u] x = x\<lparr>i_strm_path := q\<rparr>" "q = i_strm_path x \<or> q = None \<or> snd u \<noteq> [] \<and> q = Some (snd u)"
    by (simp_all add: q_def updated_def)
  obtain q' where q': "updated g us (x\<lparr>i_strm_path := q\<rparr>) = x\<lparr>i_strm_path := q'\<rparr>"
    "q' = q \<or> q' = None \<or> (\<exists>u \<in> set us. snd u \<noteq> [] \<and> q' = Some (snd u))"
    using Cons [of "x\<lparr>i_strm_path := q\<rparr>"] by auto
  show ?case by (rule exI [of _ q']) (use c q q' in auto)
next
  case Nil
  show ?case by (rule exI [of _ "i_strm_path x"]) (simp add: updated_def)
qed

lemma row_updates:
  assumes "\<forall>u \<in> set (pg_updates z). path_clean (snd u) = snd u \<or> snd u = []"
  shows "\<forall>u \<in> set (pg_updates (reconcile_row F out base r z)). path_clean (snd u) = snd u \<or> snd u = []"
proof -
  have s: "pg_updates (settle_row F out r (path_for out r) y) = pg_updates y
      \<or> pg_updates (settle_row F out r (path_for out r) y) = pg_updates y @ [(r_global_id r, path_for out r)]" for y
    by (auto simp: settle_row_def split: option.splits prod.splits sum.splits)
  have u: "pg_updates (unwanted_row F out r z) = pg_updates z \<or> pg_updates (unwanted_row F out r z) = pg_updates z @ [(r_global_id r, [])]"
    by (auto simp: unwanted_row_def split: option.splits prod.splits sum.splits)
  have k: "pg_updates (count_write b y) = pg_updates y" "pg_updates (claim_path p r y) = pg_updates y" for b p y
    by (simp_all add: count_write_def claim_path_def keep_old_def split: option.split)
  have w: "pg_updates (wanted_row F out base r z) = pg_updates z
      \<or> pg_updates (wanted_row F out base r z) = pg_updates z @ [(r_global_id r, path_for out r)]"
  proof (cases "map_of (pg_claimed z) (path_for out r)")
    case (Some owner)
    then show ?thesis by (simp add: wanted_row_eq keep_old_def split: option.split)
  next
    case None
    obtain res fs' where wr: "write_if_changed F (path_for out r) (url_for base (r_peer_id r) (r_item_id r)) (pg_fs z) = (res, fs')"
      by (metis surj_pair)
    show ?thesis
    proof (cases res)
      case (Inl e)
      then show ?thesis using None wr by (simp add: wanted_row_eq k)
    next
      case (Inr wrote)
      then show ?thesis
        using None wr s [of "count_write wrote ((claim_path (path_for out r) r z)\<lparr>pg_fs := fs'\<rparr>)"] by (simp add: wanted_row_eq k)
    qed
  qed
  have "pg_updates (reconcile_row F out base r z) = pg_updates z
      \<or> pg_updates (reconcile_row F out base r z) = pg_updates z @ [(r_global_id r, [])]
      \<or> pg_updates (reconcile_row F out base r z) = pg_updates z @ [(r_global_id r, path_for out r)]"
    using u w by (cases "want_strm r") (simp_all add: reconcile_row_def, blast+)
  then show ?thesis using assms by (elim disjE) simp_all
qed

lemma rows_updates:
  "\<forall>u \<in> set (pg_updates z). path_clean (snd u) = snd u \<or> snd u = [] \<Longrightarrow>
   \<forall>u \<in> set (pg_updates (fold (reconcile_row F out base) rows z)). path_clean (snd u) = snd u \<or> snd u = []"
proof (induction rows arbitrary: z)
  case (Cons r rows)
  show ?case unfolding fold_simps by (rule Cons.IH [OF row_updates [OF Cons.prems]])
qed simp

definition only_paths :: "database \<Rightarrow> database \<Rightarrow> bool" where
  "only_paths d d' \<longleftrightarrow> d' = d\<lparr>catalog_items := catalog_items d'\<rparr>
     \<and> (\<forall>g. case map_of (catalog_items d) g of
              None \<Rightarrow> map_of (catalog_items d') g = None
            | Some x \<Rightarrow> \<exists>q. map_of (catalog_items d') g = Some (x\<lparr>i_strm_path := q\<rparr>)
                \<and> (q = i_strm_path x \<or> q = None \<or> (\<exists>p. q = Some p \<and> path_clean p = p)))
     \<and> (keyed (catalog_items d) \<longrightarrow> keyed (catalog_items d'))"

lemma only_paths_refl [simp]: "only_paths d d"
proof -
  have "case m of None \<Rightarrow> m = None | Some x \<Rightarrow> \<exists>q. m = Some (x\<lparr>i_strm_path := q\<rparr>)
      \<and> (q = i_strm_path x \<or> q = None \<or> (\<exists>p. q = Some p \<and> path_clean p = p))" for m :: "item_row option"
    by (cases m) (auto intro: exI [of _ "i_strm_path (the m)"])
  then show ?thesis by (simp add: only_paths_def)
qed

lemma save_only_paths:
  assumes "save_paths fault us d = (r, d')" and "\<forall>u \<in> set us. path_clean (snd u) = snd u \<or> snd u = []"
  shows "only_paths d d'"
proof (cases "us = [] \<or> isl r")
  case True
  then have "d' = d"
  proof
    assume "isl r"
    then obtain e where "r = Inl e" by (auto simp: isl_def)
    then show ?thesis using assms(1) with_tx_error by (auto simp: save_paths_def split: if_splits)
  qed (use assms(1) in \<open>simp add: save_paths_def\<close>)
  then show ?thesis by simp
next
  case False
  then have d': "d' = d\<lparr>catalog_items := fold save_path us (catalog_items d)\<rparr>"
    using assms(1) by (cases r) (auto simp: save_paths_def dest!: with_tx_ok)
  have get: "map_of (map (\<lambda>(k, x). (k, f k x)) t) g = map_option (f g) (map_of t g)" for f and t :: "(string \<times> item_row) list" and g
    by (induction t) auto
  have "\<exists>q. map_of (catalog_items d') g = Some (x\<lparr>i_strm_path := q\<rparr>)
      \<and> (q = i_strm_path x \<or> q = None \<or> (\<exists>p. q = Some p \<and> path_clean p = p))" if x: "map_of (catalog_items d) g = Some x" for g x
  proof -
    obtain q where q: "updated g us x = x\<lparr>i_strm_path := q\<rparr>"
        "q = i_strm_path x \<or> q = None \<or> (\<exists>u \<in> set us. snd u \<noteq> [] \<and> q = Some (snd u))"
      using updated_fields by blast
    have q2: "q = i_strm_path x \<or> q = None \<or> (\<exists>p. q = Some p \<and> path_clean p = p)"
    proof (cases "q = i_strm_path x \<or> q = None")
      case F: False
      then obtain u where u: "u \<in> set us" "snd u \<noteq> []" "q = Some (snd u)" using q(2) by blast
      then show ?thesis using u assms(2) by auto
    qed blast
    then show ?thesis using x q(1) by (intro exI [of _ q]) (simp add: d' save_fold get)
  qed
  moreover have "keyed (catalog_items d) \<longrightarrow> keyed (catalog_items d')"
    by (simp add: d' save_fold keyed_def comp_def case_prod_unfold)
  ultimately show ?thesis by (auto simp: only_paths_def d' save_fold get split: option.split)
qed

lemma reconcile_keeps:
  assumes run: "reconcile F out base (d, fs) = (err, st, d', fs')"
    and ok: "out \<noteq> []" "temp_names_ok F" "clean_files fs" "keyed (catalog_items d)" "paths_clean d"
  shows "clean_files fs' \<and> only_paths d d'"
proof -
  obtain good fs0 where m: "make_roots F (root_dirs out) fs = (good, fs0)" by (cases "make_roots F (root_dirs out) fs")
  have "fs_files (snd (make_roots F roots f)) = fs_files f" for roots f
    by (rule make_roots_files)
  from this [of "root_dirs out" fs] have c0: "clean_files fs0" using m ok(3) by (simp add: clean_files_def)
  show ?thesis
  proof (cases "good \<and> ff_query F = None")
    case False
    then have "fs' = fs0 \<and> d' = d" using run m by (cases good; cases "ff_query F") (simp_all add: reconcile_def)
    then show ?thesis using c0 by simp
  next
    case True
    define z where "z = fold (reconcile_row F out base) (scan_rows d) (start_progress fs0)"
    have oc: "\<And>r. r \<in> set (scan_rows d) \<Longrightarrow> old_clean r"
      using ok(5) scan_rows_ids(2) [OF ok(4)] by (auto simp: old_clean_def paths_clean_def scan_row_def)
    have cz: "clean_files (pg_fs z)"
      unfolding z_def by (rule rows_harmless(1) [OF oc ok(1,2)]) (use c0 in simp_all)
    have uz: "\<forall>u \<in> set (pg_updates z). path_clean (snd u) = snd u \<or> snd u = []"
      unfolding z_def by (rule rows_updates) simp
    obtain res d1 where s: "save_paths (ff_save F) (pg_updates z) d = (res, d1)" by (cases "save_paths (ff_save F) (pg_updates z) d")
    obtain sw fl fs1 where w: "sweep F out (pg_keep z) (pg_fs z) = (sw, fl, fs1)" by (metis surj_pair)
    have m': "make_roots F (root_dirs out) fs = (True, fs0)" and qn: "ff_query F = None" using m True by simp_all
    have "reconcile F out base (d, fs) = (case res of Inl e \<Rightarrow> (Some e, pg_stats z, d1, pg_fs z)
        | Inr u \<Rightarrow> (None, (pg_stats z)\<lparr>st_swept := st_swept (pg_stats z) + sw, st_failed := st_failed (pg_stats z) + fl\<rparr>, d1, fs1))"
      unfolding reconcile_def Let_def prod.case m' bool.case qn option.case start_progress_def [symmetric] z_def [symmetric] s w
      by (rule refl)
    then have "(fs' = pg_fs z \<or> fs' = fs1) \<and> d' = d1" using run by (cases res) auto
    then show ?thesis using cz sweep_spec(4) [OF ok(1) cz w] save_only_paths [OF s uz] by auto
  qed
qed

lemma only_paths_node:
  assumes "only_paths d d'" and "catalog_ok hash d" and "paths_clean d"
  shows "catalog_ok hash d' \<and> paths_clean d'"
proof -
  have e: "d' = d\<lparr>catalog_items := catalog_items d'\<rparr>" using assms(1) by (simp add: only_paths_def)
  have eq: "local_catalog d' = local_catalog d" "settings_tbl d' = settings_tbl d" "peer_catalog d' = peer_catalog d" "hidden_items d' = hidden_items d"
    by (subst e, simp)+
  have row: "\<exists>x q. map_of (catalog_items d) g = Some x \<and> r = x\<lparr>i_strm_path := q\<rparr>
      \<and> (q = i_strm_path x \<or> q = None \<or> (\<exists>p. q = Some p \<and> path_clean p = p))" if r: "map_of (catalog_items d') g = Some r" for g r
  proof -
    have c: "case map_of (catalog_items d) g of None \<Rightarrow> map_of (catalog_items d') g = None
        | Some x \<Rightarrow> \<exists>q. map_of (catalog_items d') g = Some (x\<lparr>i_strm_path := q\<rparr>)
            \<and> (q = i_strm_path x \<or> q = None \<or> (\<exists>p. q = Some p \<and> path_clean p = p))"
      using assms(1) unfolding only_paths_def by blast
    show ?thesis
    proof (cases "map_of (catalog_items d) g")
      case None
      then show ?thesis using c r by simp
    next
      case (Some x)
      with c r show ?thesis by auto
    qed
  qed
  have named: "i_primary_peer_id r \<noteq> Some []" if mm: "map_of (catalog_items d') g = Some r" for g r
  proof -
    obtain x q where "map_of (catalog_items d) g = Some x" "r = x\<lparr>i_strm_path := q\<rparr>" using row [OF mm] by blast
    then show ?thesis using assms(2) by (simp add: catalog_ok_def)
  qed
  have "keyed (catalog_items d')" using assms(1,2) by (simp add: only_paths_def catalog_ok_def)
  then have "catalog_ok hash d'"
    using assms(2) index_ok_cong [OF eq(1,2)] named by (simp add: catalog_ok_def eq)
  moreover have "paths_clean d'"
    unfolding paths_clean_def
  proof (intro allI impI)
    fix g r p assume r: "map_of (catalog_items d') g = Some r" "i_strm_path r = Some p"
    obtain x q where x: "map_of (catalog_items d) g = Some x" "r = x\<lparr>i_strm_path := q\<rparr>"
      "q = i_strm_path x \<or> q = None \<or> (\<exists>p. q = Some p \<and> path_clean p = p)" using row [OF r(1)] by blast
    show "path_clean p = p" using x r(2) assms(3) unfolding paths_clean_def by (elim disjE) auto
  qed
  ultimately show ?thesis by blast
qed

text \<open>A run keeps the node's state well formed, whatever fails and wherever it stops.\<close>

lemma run_cases:
  assumes "run_local env req (d, fs) = Some (res, d', fs')"
  obtains (sync_failed) e where "sync (rn_sync env) (rq_refresh_local req) (rn_peers env) d = Some (Inl e, d')" "fs' = fs" "rs_error res = Some e"
  | (reconciled) st d1 where "sync (rn_sync env) (rq_refresh_local req) (rn_peers env) d = Some (Inr st, d1)"
      "reconcile (rn_faults env) (rn_output_dir env) (rn_base_url env) (d1, fs) = (rs_error res, rs_files res, d', fs')"
  using assms unfolding run_local_def Let_def
  by (auto split: option.splits sum.splits prod.splits)

lemma run_keeps:
  assumes "run_local env req (d, fs) = Some (res, d', fs')" and "node_ok (se_hash (rn_sync env)) (d, fs)"
    and "\<And>entries. se_listing (rn_sync env) = Inr entries \<Longrightarrow> room d entries"
    and "rn_output_dir env \<noteq> []" and "temp_names_ok (rn_faults env)"
  shows "node_ok (se_hash (rn_sync env)) (d', fs')"
  using assms(1)
proof (cases rule: run_cases)
  case (sync_failed e)
  then show ?thesis using sync_keeps_node [OF sync_failed(1) _ _ assms(3)] assms(2) by (simp add: node_ok_def)
next
  case (reconciled st d1)
  have 1: "catalog_ok (se_hash (rn_sync env)) d1" "paths_clean d1"
    using sync_keeps_node [OF reconciled(1) _ _ assms(3)] assms(2) by (simp_all add: node_ok_def)
  then have "clean_files fs' \<and> only_paths d1 d'"
    using reconcile_keeps [OF reconciled(2) assms(4,5)] assms(2) by (simp add: node_ok_def catalog_ok_def)
  then show ?thesis using only_paths_node [OF _ 1] by (simp add: node_ok_def)
qed

subsection \<open>From the election to the disk\<close>

text \<open>The redirect file of an elected item, as a row of its own.\<close>

definition elected_row :: "string \<Rightarrow> item_state \<Rightarrow> strm_row" where
  "elected_row g s =
     \<lparr>r_global_id = g, r_name = st_name s, r_media_type = st_media_type s, r_peer_id = st_peer_id s, r_item_id = st_peer_item_id s,
      r_local = st_local s, r_hidden = st_hidden s, r_hidden_folder = st_hidden_folder s, r_old_path = None,
      r_series_global_id = st_series_global_id s, r_series_name = st_series_name s, r_season = st_season_number s,
      r_episode = st_episode_number s\<rparr>"

lemma scan_row_state: "scan_row (g, x) = (elected_row g (state_of_row x))\<lparr>r_old_path := i_strm_path x\<rparr>"
  by (simp add: scan_row_def elected_row_def state_of_row_def)

definition wanted_at :: "string \<Rightarrow> string \<Rightarrow> database \<Rightarrow> string list \<Rightarrow> string \<Rightarrow> string \<Rightarrow> bool" where
  "wanted_at out base d offs p c \<longleftrightarrow>
     (\<exists>g s. elected d offs g = Some s \<and> want_strm (elected_row g s)
        \<and> p = path_for out (elected_row g s) \<and> c = url_for base (st_peer_id s) (st_peer_item_id s))"

lemma unwanted_leftover:
  assumes "synced_row d d' offs g" "elected d' offs g = None" "map_of (catalog_items d') g = Some x"
    and "\<And>r. map_of (catalog_items d) g = Some r \<Longrightarrow> i_primary_peer_id r \<noteq> Some []"
  shows "i_primary_peer_id x = None"
  using assms by (auto simp: synced_row_def cleared_def split: option.splits if_splits)

lemma synced_files:
  assumes rows: "\<And>g. synced_row d d' offs g" and k: "keyed (catalog_items d')"
    and named: "\<And>g r. map_of (catalog_items d) g = Some r \<Longrightarrow> i_primary_peer_id r \<noteq> Some []"
  shows "(p, c) \<in> set (wanted_files out base (scan_rows d')) \<longleftrightarrow> wanted_at out base d' offs p c"
proof
  assume "(p, c) \<in> set (wanted_files out base (scan_rows d'))"
  then obtain r where r: "r \<in> set (scan_rows d')" "want_strm r" "p = path_for out r" "c = url_for base (r_peer_id r) (r_item_id r)"
    by (auto simp: wanted_files_def)
  obtain g x where x: "map_of (catalog_items d') g = Some x" "r = scan_row (g, x)" using scan_rows_ids(2) [OF k] r(1) by blast
  have "elected d' offs g \<noteq> None"
  proof
    assume "elected d' offs g = None"
    from unwanted_leftover [OF rows this x(1) named] have "i_primary_peer_id x = None" .
    with r(2) x(2) show False by (simp add: want_strm_def scan_row_def or_empty_def)
  qed
  then obtain s where s: "elected d' offs g = Some s" by blast
  then have "state_of_row x = s" using rows [of g] x(1) by (auto simp: synced_row_def)
  then show "wanted_at out base d' offs p c"
    using s r(2-4) by (auto simp: wanted_at_def x(2) scan_row_state elected_row_def [THEN arg_cong, where f = r_peer_id]
        elected_row_def [THEN arg_cong, where f = r_item_id] intro!: exI [of _ g])
next
  assume "wanted_at out base d' offs p c"
  then obtain g s where s: "elected d' offs g = Some s" "want_strm (elected_row g s)"
      "p = path_for out (elected_row g s)" "c = url_for base (st_peer_id s) (st_peer_item_id s)"
    by (auto simp: wanted_at_def)
  then obtain x where x: "map_of (catalog_items d') g = Some x" "state_of_row x = s"
    using rows [of g] by (auto simp: synced_row_def)
  have m: "scan_row (g, x) \<in> set (scan_rows d')" using scan_rows_ids(2) [OF k] x(1) by blast
  have e: "scan_row (g, x) = (elected_row g s)\<lparr>r_old_path := i_strm_path x\<rparr>" by (simp add: scan_row_state x(2))
  have "r_peer_id (scan_row (g, x)) = st_peer_id s" "r_item_id (scan_row (g, x)) = st_peer_item_id s"
    unfolding e by (simp_all add: elected_row_def)
  moreover have "want_strm (scan_row (g, x))" "path_for out (scan_row (g, x)) = p" unfolding e using s by simp_all
  ultimately show "(p, c) \<in> set (wanted_files out base (scan_rows d'))"
    using m s(4) by (auto simp: wanted_files_def intro!: image_eqI [of _ _ "scan_row (g, x)"])
qed

text \<open>What \<open>Reconcile\<close> changes in the database does not change the election.\<close>

lemma elected_items: "elected (d\<lparr>catalog_items := items\<rparr>) offs g = elected d offs g"
  by (rule elected_cong) simp_all

definition no_path_clash :: "string \<Rightarrow> database \<Rightarrow> database \<Rightarrow> string list \<Rightarrow> bool" where
  "no_path_clash out d d' offs \<longleftrightarrow>
     (\<forall>g x g' s. map_of (catalog_items d) g = Some x \<longrightarrow> elected d' offs g' = Some s \<longrightarrow> want_strm (elected_row g' s)
        \<longrightarrow> i_strm_path x = Some (path_for out (elected_row g' s)) \<longrightarrow> g = g')"

lemma synced_paths:
  assumes "synced_row d d' offs g" and "map_of (catalog_items d') g = Some x" and "i_strm_path x = Some p"
  shows "\<exists>y. map_of (catalog_items d) g = Some y \<and> i_strm_path y = Some p"
  using assms by (auto simp: synced_row_def strm_of_def cleared_def split: option.splits if_splits)

lemma run_files:
  assumes run: "run_local env req (d, fs) = Some (res, d', fs')" and ok: "rs_error res = None" "st_failed (rs_files res) = 0"
    and node: "node_ok (se_hash (rn_sync env)) (d, fs)"
    and room: "\<And>entries. se_listing (rn_sync env) = Inr entries \<Longrightarrow> room d entries"
    and env: "rn_output_dir env \<noteq> []" "temp_names_ok (rn_faults env)" "[] \<notin> p_id ` set (rn_peers env)"
    and clash: "no_path_clash (rn_output_dir env) d d' (offering_ids (se_now (rn_sync env)) (rn_peers env))"
    and p: "root \<in> set (root_dirs (rn_output_dir env))" "below root p" "sweepable p"
  shows "file_at fs' p = Some c \<longleftrightarrow>
     wanted_at (rn_output_dir env) (rn_base_url env) d' (offering_ids (se_now (rn_sync env)) (rn_peers env)) p c"
  using run
proof (cases rule: run_cases)
  case (sync_failed e)
  then show ?thesis using ok by simp
next
  case (reconciled st d1)
  let ?out = "rn_output_dir env" and ?offs = "offering_ids (se_now (rn_sync env)) (rn_peers env)"
  have node': "catalog_ok (se_hash (rn_sync env)) d" "paths_clean d" "clean_files fs" using node by (simp_all add: node_ok_def)
  have rows: "synced_row d d1 ?offs g" for g by (rule sync_rows [OF reconciled(1) node'(1) room env(3)])
  have n1: "catalog_ok (se_hash (rn_sync env)) d1" "paths_clean d1"
    using sync_keeps_node [OF reconciled(1) node'(1,2) room] by simp_all
  have k1: "keyed (catalog_items d1)" using n1(1) by (simp add: catalog_ok_def)
  have named: "map_of (catalog_items d) g = Some r \<Longrightarrow> i_primary_peer_id r \<noteq> Some []" for g r
    using node'(1) by (simp add: catalog_ok_def)
  have rec: "reconcile (rn_faults env) ?out (rn_base_url env) (d1, fs) = (None, rs_files res, d', fs')"
    using reconciled(2) ok(1) by simp
  have "only_paths d1 d'" using reconcile_keeps [OF rec env(1,2) node'(3) k1 n1(2)] by simp
  then have "d' = d1\<lparr>catalog_items := catalog_items d'\<rparr>" by (simp add: only_paths_def)
  then have el: "elected d' ?offs g = elected d1 ?offs g" for g using elected_items [of "catalog_items d'" d1] by metis
  have "no_clash ?out (scan_rows d1)"
    unfolding no_clash_def
  proof (intro ballI impI)
    fix r r' assume a: "r \<in> set (scan_rows d1)" "r' \<in> set (scan_rows d1)" "want_strm r'" "r_old_path r = Some (path_for ?out r')"
    obtain g x where x: "map_of (catalog_items d1) g = Some x" "r = scan_row (g, x)" using scan_rows_ids(2) [OF k1] a(1) by blast
    obtain g' x' where x': "map_of (catalog_items d1) g' = Some x'" "r' = scan_row (g', x')" using scan_rows_ids(2) [OF k1] a(2) by blast
    have "elected d1 ?offs g' \<noteq> None"
    proof
      assume "elected d1 ?offs g' = None"
      from unwanted_leftover [OF rows this x'(1) named] have "i_primary_peer_id x' = None" .
      with a(3) x'(2) show False by (simp add: want_strm_def scan_row_def or_empty_def)
    qed
    then obtain s where s: "elected d1 ?offs g' = Some s" by blast
    then have st: "state_of_row x' = s" using rows [of g'] x'(1) by (auto simp: synced_row_def)
    have w: "want_strm (elected_row g' s)" "path_for ?out r' = path_for ?out (elected_row g' s)"
      using a(3) by (simp_all add: x'(2) scan_row_state st)
    obtain y where y: "map_of (catalog_items d) g = Some y" "i_strm_path y = Some (path_for ?out r')"
      using synced_paths [OF rows x(1)] a(4) x(2) by (auto simp: scan_row_def)
    have "g = g'" using clash y s w el unfolding no_path_clash_def by metis
    then show "r = r'" using x x' by simp
  qed
  moreover have "\<forall>r \<in> set (scan_rows d1). old_clean r"
    using n1(2) scan_rows_ids(2) [OF k1] by (auto simp: old_clean_def paths_clean_def scan_row_def)
  ultimately have sok: "strm_state_ok ?out d1 fs" using env(1) k1 node'(3) by (simp add: strm_state_ok_def)
  note R = reconcile_ok [OF sok env(2) rec ok(2)]
  have "file_at fs' p = map_of (wanted_files ?out (rn_base_url env) (scan_rows d1)) p" using R p by blast
  moreover have "distinct (map fst (wanted_files ?out (rn_base_url env) (scan_rows d1)))" using R by blast
  ultimately have "file_at fs' p = Some c \<longleftrightarrow> (p, c) \<in> set (wanted_files ?out (rn_base_url env) (scan_rows d1))" by simp
  also have "\<dots> \<longleftrightarrow> wanted_at ?out (rn_base_url env) d1 ?offs p c" by (rule synced_files [OF rows k1 named])
  finally show ?thesis by (simp add: wanted_at_def el)
qed

end
