(* ===== verification/SyncRunTheorems.thy ===== *)
theory SyncRunTheorems
  imports SyncRunProps CatalogTheorems
begin

section \<open>The properties of sync runs and their queue\<close>

text \<open>
  The composition of a sync with the writing of redirect files, the requests for runs, and the reports
  of runs here and at peers; each property with its witness.
\<close>

subsection \<open>A whole run\<close>

text \<open>C2: After a run without failures, the redirect files under \<open>movies\<close> and \<open>series\<close> are exactly those of
  the election: there is a file at a path, with a content, exactly when the election's rule chooses, from the
  final tables, a peer's copy of some item that is playable and not hidden, whose path and content these are.
  (As long as no item had recorded the path another one gets.)\<close>

theorem run_puts_election_on_disk:
  assumes "run_local env req (d, fs) = Some (res, d', fs')" and "rs_error res = None" and "st_failed (rs_files res) = 0"
    and "node_ok (se_hash (rn_sync env)) (d, fs)"
    and "\<And>entries. se_listing (rn_sync env) = Inr entries \<Longrightarrow> room d entries"
    and "rn_output_dir env \<noteq> []" and "temp_names_ok (rn_faults env)" and "[] \<notin> p_id ` set (rn_peers env)"
    and "no_path_clash (rn_output_dir env) d d' (offering_ids (se_now (rn_sync env)) (rn_peers env))"
    and "root \<in> set (root_dirs (rn_output_dir env))" and "below root p" and "sweepable p"
  shows "file_at fs' p = Some c \<longleftrightarrow>
     (\<exists>g s. elected d' (offering_ids (se_now (rn_sync env)) (rn_peers env)) g = Some s \<and> want_strm (elected_row g s)
        \<and> p = path_for (rn_output_dir env) (elected_row g s)
        \<and> c = url_for (rn_base_url env) (st_peer_id s) (st_peer_item_id s))"
  using run_files [OF assms] unfolding wanted_at_def .

definition ex_peer_p :: peer where
  "ex_peer_p = \<lparr>p_id = ''p'', p_url = ''http://p'', p_state = Online, p_name = ''p'', p_version = [], p_ip = [], p_pin = [],
     p_last_seen = None, p_rtt = 0, p_missed = 0, p_offering = True\<rparr>"

definition ex_run_env :: run_env where
  "ex_run_env = \<lparr>rn_sync = ex_sync_env, rn_peers = [ex_peer_p], rn_peers_then = [ex_peer_p], rn_faults = no_faults,
     rn_started = 3, rn_finished = 8, rn_text = (\<lambda>_. ''failed''), rn_output_dir = ''/out'', rn_base_url = ''http://me''\<rparr>"

definition ex_disk :: fsys where
  "ex_disk = \<lparr>fs_files = [(''/out/movies/stray.strm'', ''x'')], fs_dirs = [''/out'', ''/out/movies'']\<rparr>"

definition ex_file :: string where "ex_file = ''/out/movies/p/b [id-]/b [id-].strm''"

lemma ex_run:
  "case run_local ex_run_env manual_refresh (ex_new, ex_disk) of None \<Rightarrow> False
   | Some (res, d', fs') \<Rightarrow> rs_error res = None \<and> st_failed (rs_files res) = 0 \<and> rs_notified res = [''p'']
       \<and> fs_files fs' = [(ex_file, ''http://me/api/v1/proxy/stream/p/ib'')]"
  by code_simp

lemma ex_node_ok: "node_ok (se_hash (rn_sync ex_run_env)) (ex_new, ex_disk)"
proof -
  have "path_clean ''/out/movies/stray.strm'' = ''/out/movies/stray.strm''" by code_simp
  then show ?thesis
    using ex_new_ok by (simp add: node_ok_def catalog_ok_def paths_clean_def clean_files_def keyed_def ex_disk_def ex_run_env_def
        ex_sync_env_def ex_new_def empty_db_def)
qed

lemma ex_run_room: "se_listing (rn_sync ex_run_env) = Inr entries \<Longrightarrow> room ex_new entries"
proof -
  assume "se_listing (rn_sync ex_run_env) = Inr entries"
  then have "entries = [ex_entry ''a'' ''x'']" by (simp add: ex_run_env_def ex_sync_env_def)
  moreover have "room ex_new [ex_entry ''a'' ''x'']" by code_simp
  ultimately show "room ex_new entries" by simp
qed

lemma ex_run_result:
  obtains res d' fs' where "run_local ex_run_env manual_refresh (ex_new, ex_disk) = Some (res, d', fs')"
    and "rs_error res = None" "st_failed (rs_files res) = 0" "fs_files fs' = [(ex_file, ''http://me/api/v1/proxy/stream/p/ib'')]"
  using ex_run by (auto split: option.splits prod.splits)

theorem run_puts_election_on_disk_witness:
  "\<exists>res d' fs' g s. run_local ex_run_env manual_refresh (ex_new, ex_disk) = Some (res, d', fs')
     \<and> elected d' [''p''] g = Some s \<and> path_for ''/out'' (elected_row g s) = ex_file \<and> file_at fs' ex_file \<noteq> None"
proof -
  obtain res d' fs' where R: "run_local ex_run_env manual_refresh (ex_new, ex_disk) = Some (res, d', fs')"
    "rs_error res = None" "st_failed (rs_files res) = 0" "fs_files fs' = [(ex_file, ''http://me/api/v1/proxy/stream/p/ib'')]"
    by (rule ex_run_result)
  have offs: "offering_ids (se_now (rn_sync ex_run_env)) (rn_peers ex_run_env) = [''p'']" by code_simp
  have env: "rn_output_dir ex_run_env \<noteq> []" "[] \<notin> p_id ` set (rn_peers ex_run_env)"
    by (simp_all add: ex_run_env_def ex_peer_p_def)
  have "temp_names_ok (rn_faults ex_run_env)" using no_faults_ok by (simp add: ex_run_env_def)
  moreover have "no_path_clash (rn_output_dir ex_run_env) ex_new d' (offering_ids (se_now (rn_sync ex_run_env)) (rn_peers ex_run_env))"
    by (simp add: no_path_clash_def ex_new_def empty_db_def)
  moreover have "''/out/movies'' \<in> set (root_dirs (rn_output_dir ex_run_env))" "below ''/out/movies'' ex_file" "sweepable ex_file"
    by code_simp+
  moreover have f: "file_at fs' ex_file = Some ''http://me/api/v1/proxy/stream/p/ib''" by (simp add: R(4))
  ultimately obtain g s where "elected d' [''p''] g = Some s" "ex_file = path_for (rn_output_dir ex_run_env) (elected_row g s)"
    using run_puts_election_on_disk [OF R(1-3) ex_node_ok ex_run_room env(1) _ env(2)] offs by metis
  moreover have "rn_output_dir ex_run_env = ''/out''" by (simp add: ex_run_env_def)
  moreover have "file_at fs' ex_file \<noteq> None" using f by simp
  ultimately show ?thesis using R(1) by metis
qed

text \<open>C12: Whatever fails during a run and wherever it stops, the node's state stays well formed: the index, the
  tables' keys, the recorded paths, the files. So runs can follow each other for ever.\<close>

theorem run_keeps_node_well_formed:
  assumes "run_local env req (d, fs) = Some (res, d', fs')" and "node_ok (se_hash (rn_sync env)) (d, fs)"
    and "\<And>entries. se_listing (rn_sync env) = Inr entries \<Longrightarrow> room d entries"
    and "rn_output_dir env \<noteq> []" and "temp_names_ok (rn_faults env)"
  shows "node_ok (se_hash (rn_sync env)) (d', fs')"
  by (rule run_keeps [OF assms])

theorem run_keeps_node_well_formed_witness:
  "\<exists>res d' fs'. run_local ex_run_env manual_refresh (ex_new, ex_disk) = Some (res, d', fs') \<and> node_ok e_name (d', fs')"
proof -
  obtain res d' fs' where R: "run_local ex_run_env manual_refresh (ex_new, ex_disk) = Some (res, d', fs')"
    by (rule ex_run_result)
  have "rn_output_dir ex_run_env \<noteq> []" "temp_names_ok (rn_faults ex_run_env)"
    using no_faults_ok by (simp_all add: ex_run_env_def)
  from run_keeps_node_well_formed [OF R ex_node_ok ex_run_room this] R show ?thesis
    by (simp add: ex_run_env_def ex_sync_env_def)
qed

subsection \<open>The queue and the loop\<close>

text \<open>C3: No request for a run is lost, in any interleaving of the loop with those who ask: while one
  is outstanding, the loop is or will be woken, and the next run that starts does everything that any of the
  requests asked since the last one was started asks for, refreshing the library if one of them wants that.\<close>

theorem requests_are_served:
  assumes "loop_reach s" and "q \<in> set (lp_asked s)"
  shows "(q_wake (lp_queue s) \<or> 0 < lp_sending s)
    \<and> (lp_waiting s \<and> q_wake (lp_queue s) \<longrightarrow> (\<exists>r s'. loop_step s (Started r) s'))
    \<and> (\<forall>r s'. loop_step s (Started r) s' \<longrightarrow> lp_asked s' = []
         \<and> (rq_refresh_local q \<longrightarrow> rq_refresh_local r) \<and> parts (rq_reason q) \<subseteq> parts (rq_reason r))"
proof (intro conjI impI allI)
  have ne: "lp_asked s \<noteq> []" using assms(2) by auto
  note I = loop_reach_ok [OF assms(1), unfolded loop_ok_def]
  show "q_wake (lp_queue s) \<or> 0 < lp_sending s" using I [THEN conjunct2] ne by simp
  show "\<exists>r s'. loop_step s (Started r) s'" if "lp_waiting s \<and> q_wake (lp_queue s)"
  proof -
    obtain p where "q_pending (lp_queue s) = Some p" using I ne by (auto split: option.splits)
    then have "wait_turn Token (lp_queue s) = (Some p, (lp_queue s)\<lparr>q_wake := False, q_pending := None\<rparr>)"
      by (simp add: take_request_def)
    with that show ?thesis using woken by blast
  qed
  fix r s' assume st: "loop_step s (Started r) s'"
  show "lp_asked s' = []" using st by (auto elim: started_cases)
  show "rq_refresh_local q \<Longrightarrow> rq_refresh_local r" "parts (rq_reason q) \<subseteq> parts (rq_reason r)"
    using started_covers [OF assms(1) st assms(2)] by (auto simp: covers_def)
qed

definition ex_asked :: loop_state where
  "ex_asked = \<lparr>lp_queue = push_wake (push_pending manual_refresh (push_pending peer_notify new_queue)), lp_sending = 1,
     lp_waiting = True, lp_asked = [peer_notify, manual_refresh]\<rparr>"

lemma ex_asked_reach: "loop_reach ex_asked"
proof -
  let ?s1 = "loop_start\<lparr>lp_waiting := True\<rparr>"
  let ?s2 = "?s1\<lparr>lp_queue := push_pending peer_notify new_queue, lp_sending := 1, lp_asked := [peer_notify]\<rparr>"
  let ?s3 = "?s2\<lparr>lp_queue := push_pending manual_refresh (lp_queue ?s2), lp_sending := 2, lp_asked := [peer_notify, manual_refresh]\<rparr>"
  have 1: "loop_step loop_start Finished ?s1" by (rule finished) (simp add: loop_start_def)
  have 2: "loop_step ?s1 (Asked peer_notify) ?s2"
    using asked [of ?s1 peer_notify] by (simp add: loop_start_def)
  have 3: "loop_step ?s2 (Asked manual_refresh) ?s3"
    using asked [of ?s2 manual_refresh] by (simp add: numeral_2_eq_2)
  have 4: "loop_step ?s3 Sent ex_asked"
    using sent [of ?s3 1] by (simp add: numeral_2_eq_2 ex_asked_def loop_start_def)
  show ?thesis by (rule step [OF step [OF step [OF step [OF start 1] 2] 3] 4])
qed

theorem requests_are_served_witness:
  "\<exists>r s'. loop_step ex_asked (Started r) s' \<and> rq_refresh_local r \<and> ''manual'' \<in> parts (rq_reason r) \<and> ''peer-notify'' \<in> parts (rq_reason r)"
proof -
  have m: "manual_refresh \<in> set (lp_asked ex_asked)" "peer_notify \<in> set (lp_asked ex_asked)" by (simp_all add: ex_asked_def)
  have p: "rq_refresh_local manual_refresh" "parts (rq_reason manual_refresh) = {''manual''}" "parts (rq_reason peer_notify) = {''peer-notify''}"
    by (simp_all add: manual_refresh_def peer_notify_def parts_def)
  have "lp_waiting ex_asked \<and> q_wake (lp_queue ex_asked)" by (simp add: ex_asked_def push_wake_def)
  then obtain r s' where st: "loop_step ex_asked (Started r) s'"
    using requests_are_served [OF ex_asked_reach m(1)] by blast
  have "rq_refresh_local r" "''manual'' \<in> parts (rq_reason r)"
    using requests_are_served [OF ex_asked_reach m(1)] st p by blast+
  moreover have "''peer-notify'' \<in> parts (rq_reason r)"
    using requests_are_served [OF ex_asked_reach m(2)] st p by blast
  ultimately show ?thesis using st by blast
qed

subsection \<open>What is reported\<close>

text \<open>The statuses of a run: it is running until it ends, then a success at 100 percent if it had no error, or an
  error with its text; and peers are notified exactly when the refresh of the local library changed something,
  even if the rest of the run fails.\<close>

lemma run_reports_its_outcome:
  assumes "run_local env req (d, fs) = Some (res, d', fs')"
  shows "rs_statuses res \<noteq> []
    \<and> (\<forall>st \<in> set (butlast (rs_statuses res)). sy_state st = ''running'')
    \<and> tracker_get (tracked res t) ''local'' = Some (last (rs_statuses res))
    \<and> (case rs_error res of
         None \<Rightarrow> sy_state (last (rs_statuses res)) = ''success'' \<and> sy_percent (last (rs_statuses res)) = 100
       | Some e \<Rightarrow> sy_state (last (rs_statuses res)) = ''error''
            \<and> (\<exists>what. sy_error (last (rs_statuses res)) = what @ '': '' @ rn_text env e))
    \<and> (\<forall>st \<in> set (rs_statuses res). sy_started st = rn_started env)
    \<and> (rs_notified res = (if 0 < local_changes env req d then online_ids (rn_peers_then env) else []))"
proof -
  note defs = run_local_def running_status_def failed_status_def success_status_def no_status_def status_names
    tracked_def tracker_set_def tracker_get_def notify_peers_def online_ids_def
  obtain so where so: "sync (rn_sync env) (rq_refresh_local req) (rn_peers env) d = Some so" using assms
    by (auto simp: run_local_def Let_def split: option.splits)
  obtain r1 d1 where r1: "so = (r1, d1)" by (cases so)
  show ?thesis
  proof (cases r1)
    case (Inl e)
    then show ?thesis using assms so r1 by (auto simp: defs)
  next
    case (Inr st)
    obtain err files d2 fs2 where rc: "reconcile (rn_faults env) (rn_output_dir env) (rn_base_url env) (d1, fs) = (err, files, d2, fs2)"
      by (metis surj_pair)
    show ?thesis using assms so r1 Inr rc by (cases err) (auto simp: defs)
  qed
qed

lemma wait_started: "st \<in> set (wait_for_local_run started now ws) \<Longrightarrow> sy_started st = started"
  by (induction started now ws rule: wait_for_local_run.induct) (auto simp: unreachable_status_def no_status_def split: if_splits)

lemma wait_last:
  "wait_for_local_run started now ws \<noteq> [] \<and> sy_state (last (wait_for_local_run started now ws)) \<in> {''success'', ''error'', ''unreachable''}"
  by (induction started now ws rule: wait_for_local_run.induct) (auto simp: unreachable_status_def no_status_def status_names)

lemma poll_started: "st \<in> set (fst (poll_remote_status started now ps)) \<Longrightarrow> sy_started st = started"
  by (induction started now ps rule: poll_remote_status.induct)
    (auto simp: unreachable_status_def no_status_def Let_def split: if_splits prod.splits)

lemma poll_last:
  "fst (poll_remote_status started now ps) \<noteq> []
   \<and> sy_state (last (fst (poll_remote_status started now ps))) \<in> {''success'', ''error'', ''unreachable''}
   \<and> snd (poll_remote_status started now ps) = (sy_state (last (fst (poll_remote_status started now ps))) = ''success'')"
  by (induction started now ps rule: poll_remote_status.induct)
    (auto simp: unreachable_status_def no_status_def status_names Let_def split: prod.splits)

text \<open>A sync asked for at a peer always ends with a report that says how: success, error or unreachable, every
  report carrying the time it was asked for. A plain one always queues a pull; a forced one queues it exactly when the
  peer accepted the refresh and reported its success.\<close>

lemma remote_sync_reports:
  "trigger_remote started now force answer polls waits = (sts, pulled) \<Longrightarrow>
     length sts \<ge> 2 \<and> sy_state (last sts) \<in> {''success'', ''error'', ''unreachable''}
     \<and> (\<forall>st \<in> set sts. sy_started st = started)
     \<and> pulled = (\<not> force \<or> answer = Inr 202 \<and> sy_state (last sts) = ''success'')"
proof -
  assume t: "trigger_remote started now force answer polls waits = (sts, pulled)"
  note defs = trigger_remote_def no_status_def Let_def
  have u: "sy_state (unreachable_status started now m) = ''unreachable''" "sy_started (unreachable_status started now m) = started" for m
    by (simp_all add: unreachable_status_def no_status_def status_names)
  show ?thesis
  proof (cases force)
    case False
    then show ?thesis
      using t wait_last [of started now waits] wait_started [of _ started now waits]
      by (auto simp: defs Suc_le_eq length_greater_0_conv)
  next
    case force: True
    show ?thesis
    proof (cases "answer = Inr 202")
      case True
      then show ?thesis
        using t force poll_last [of started now polls] poll_started [of _ started now polls]
        by (auto simp: defs Suc_le_eq length_greater_0_conv split: prod.splits)
    next
      case False
      then obtain m where "sts = [no_status\<lparr>sy_state := state_running, sy_started := started\<rparr>, unreachable_status started now m]" "\<not> pulled"
        using t force by (cases answer) (auto simp: trigger_remote_def Let_def split: if_splits)
      then show ?thesis using force False u by (auto simp: no_status_def)
    qed
  qed
qed

end
