(* ===== verification/Int64.thy ===== *)
theory Int64
  imports GoStrings
begin

section \<open>Arithmetic on Go's int64 (durations and byte counts)\<close>

text \<open>
  \<open>int\<close> and \<open>int64\<close> have 64 bits and wrap around; values are integers, and the operations the code
  lets overflow are written with \<open>wrap64\<close>. \<open>Duration.Seconds\<close> is a \<open>float64\<close>; the code only ever
  truncates it to an integer, and \<open>duration_seconds\<close> is that integer, both roundings included.
\<close>

subsection \<open>Wrap-around\<close>

definition wrap64 :: "int \<Rightarrow> int" where
  "wrap64 n = (n + 2 ^ 63) mod 2 ^ 64 - 2 ^ 63"

lemma wrap64_range [simp]: "in_int64 (wrap64 n)"
  by (simp add: wrap64_def in_int64_def)

lemma wrap64_id: "in_int64 n \<Longrightarrow> wrap64 n = n"
  by (simp add: wrap64_def in_int64_def)

lemma wrap64_cong: "a mod 2 ^ 64 = b mod 2 ^ 64 \<Longrightarrow> wrap64 a = wrap64 b"
  unfolding wrap64_def by (metis mod_add_left_eq)

lemma wrap64_mod: "wrap64 n mod 2 ^ 64 = n mod 2 ^ 64"
  unfolding wrap64_def by (simp add: mod_diff_left_eq)

lemma wrap64_idem [simp]: "wrap64 (wrap64 n) = wrap64 n"
  by (rule wrap64_cong) (rule wrap64_mod)

lemma wrap64_add_left [simp]: "wrap64 (wrap64 a + b) = wrap64 (a + b)"
  by (rule wrap64_cong) (metis mod_add_left_eq wrap64_mod)

lemma wrap64_add_right [simp]: "wrap64 (a + wrap64 b) = wrap64 (a + b)"
  by (metis add.commute wrap64_add_left)

lemma wrap64_add_both: "wrap64 (wrap64 a + wrap64 b) = wrap64 (a + b)"
  by simp

subsection \<open>Seconds of a duration\<close>

text \<open>The quotient \<open>a / b\<close> rounded to an integer, halves to even.\<close>

definition round_div :: "int \<Rightarrow> int \<Rightarrow> int" where
  "round_div a b =
     (let q = a div b; r = a mod b
      in if 2 * r < b \<or> (2 * r = b \<and> even q) then q else q + 1)"

text \<open>
  For \<open>0 < nsec < 10 ^ 9\<close>, \<open>float64(nsec) / 1e9\<close> is \<open>m / 2 ^ k\<close> with the 53 bits of \<open>m\<close>; the sum with
  \<open>float64(sec)\<close> is rounded to 53 bits again. (\<open>sec\<close> has at most 34 bits, and \<open>float64(sec)\<close> is exact.)
\<close>

definition frac_scale :: "int \<Rightarrow> nat" where
  "frac_scale nsec = (case find (\<lambda>k. 2 ^ 52 * 10 ^ 9 \<le> nsec * 2 ^ k) [52..<83] of None \<Rightarrow> 82 | Some k \<Rightarrow> k)"

definition round53 :: "int \<Rightarrow> int" where
  "round53 n = (case find (\<lambda>e. n < 2 ^ (53 + e)) [0..<80] of None \<Rightarrow> n | Some e \<Rightarrow> round_div n (2 ^ e) * 2 ^ e)"

definition whole_seconds :: "int \<Rightarrow> int" where
  "whole_seconds d =
     (let sec = d div 10 ^ 9; nsec = d mod 10 ^ 9
      in if nsec = 0 then sec
         else let k = frac_scale nsec; m = round_div (nsec * 2 ^ k) (10 ^ 9)
              in round53 (sec * 2 ^ k + m) div 2 ^ k)"

text \<open>\<open>int(d.Seconds())\<close>\<close>

definition duration_seconds :: "int \<Rightarrow> int" where
  "duration_seconds d = sgn d * whole_seconds \<bar>d\<bar>"

lemma whole_seconds_exact: "whole_seconds (n * 10 ^ 9) = n"
  by (simp add: whole_seconds_def)

lemma duration_seconds_exact: "duration_seconds (n * 10 ^ 9) = n"
proof -
  have "whole_seconds \<bar>n * 10 ^ 9\<bar> = \<bar>n\<bar>" using whole_seconds_exact [of "\<bar>n\<bar>"] by (simp add: abs_mult)
  moreover have "sgn (n * 10 ^ 9) = sgn n" by (simp add: sgn_mult)
  ultimately show ?thesis unfolding duration_seconds_def by (simp add: sgn_mult_abs)
qed

end
