(* ===== verification/Access.thy ===== *)
theory Access
  imports Peers Int64
begin

section \<open>Who may do what (peerauth/auth.go, peerauth/tls.go, the two ports of app.go)\<close>

text \<open>
  The keys that complete a handshake, the caller a key stands for, the routes of the peer port with the
  kind of caller each requires, the rate limit of forced refreshes, the routes of the dashboard port, and how
  this node dials its peers. A request on the peer port is followed from its certificate to the handler it
  reaches. Paths are given by their segments, as \<open>http.ServeMux\<close> matches them.
\<close>

subsection \<open>Callers\<close>

record caller =
  ca_pin :: string
  ca_client_id :: string
  ca_peer_id :: string
  ca_pairing :: bool

definition caller_id :: "caller \<Rightarrow> string" where
  "caller_id c = (if ca_peer_id c \<noteq> [] then ca_peer_id c else ca_client_id c)"

text \<open>\<open>resolveCaller\<close>: a client that makes contact is touched.\<close>

definition resolve_key ::
  "go_error option \<Rightarrow> int \<Rightarrow> registry \<Rightarrow> string \<Rightarrow> auth_store \<times> database \<Rightarrow> (caller \<times> bool) \<times> auth_store \<times> database" where
  "resolve_key fault now r pin sd =
     (let (clientID, sd) = (case client_by_pin (fst sd) pin of
                              None \<Rightarrow> ([], sd)
                            | Some cl \<Rightarrow> (c_id cl, touch fault now pin sd));
          peerID = (case peer_by_pin r pin of None \<Rightarrow> [] | Some p \<Rightarrow> p_id p);
          pairing = (if clientID = [] \<and> peerID = [] then is_pending now (fst sd) pin else False)
      in ((\<lparr>ca_pin = pin, ca_client_id = clientID, ca_peer_id = peerID, ca_pairing = pairing\<rparr>,
           clientID \<noteq> [] \<or> peerID \<noteq> [] \<or> pairing), sd))"

text \<open>Whose key the handshake of the peer port accepts.\<close>

definition known_key :: "go_error option \<Rightarrow> int \<Rightarrow> registry \<Rightarrow> auth_store \<times> database \<Rightarrow> string \<Rightarrow> bool" where
  "known_key fault now r sd pin = snd (fst (resolve_key fault now r pin sd))"

text \<open>\<open>Authenticate\<close>, from the pin of the request's certificate, if it has one.\<close>

definition authenticate ::
  "(string \<Rightarrow> 'st \<Rightarrow> (caller \<times> bool) \<times> 'st) \<Rightarrow> string option \<Rightarrow> 'st \<Rightarrow> (nat + caller) \<times> 'st" where
  "authenticate resolve cert st =
     (case cert of
        None \<Rightarrow> (Inl 401, st)
      | Some pin \<Rightarrow> (case resolve pin st of ((c, ok), st) \<Rightarrow> (if \<not> ok then Inl 403 else Inr c, st)))"

subsection \<open>The rate limit\<close>

record limiter =
  lm_every :: int
  lm_last :: "(string, int) tbl"

definition new_limiter :: "int \<Rightarrow> limiter" where
  "new_limiter every = \<lparr>lm_every = every, lm_last = []\<rparr>"

definition allow :: "int \<Rightarrow> string \<Rightarrow> limiter \<Rightarrow> bool \<times> limiter" where
  "allow now key l =
     (if (case map_of (lm_last l) key of None \<Rightarrow> False | Some t \<Rightarrow> now - t < lm_every l)
      then (False, l)
      else (True, l\<lparr>lm_last := tbl_upsert key now (lm_last l)\<rparr>))"

definition force_refresh_every :: int where "force_refresh_every = 10 * 60 * second"

text \<open>\<open>rateLimited\<close>: one request per caller and interval; a refused one is answered 429.\<close>

definition rate_limited :: "int \<Rightarrow> caller \<Rightarrow> limiter \<Rightarrow> bool \<times> limiter" where
  [simp]: "rate_limited now c l = allow now (caller_id c) l"

subsection \<open>Routes\<close>

datatype segment = Lit string | Wild | Rest

text \<open>Matching the segments of a path, with what the wildcards stand for; a wildcard is a segment that is not empty,
  and \<open>Rest\<close>, the end of a pattern with a final slash, is all that follows.\<close>

fun match_segments :: "segment list \<Rightarrow> string list \<Rightarrow> string list option" where
  "match_segments [] [] = Some []"
| "match_segments (Rest # ps) xs = Some []"
| "match_segments (Lit w # ps) (x # xs) = (if w = x then match_segments ps xs else None)"
| "match_segments (Wild # ps) (x # xs) = (if x = [] then None else map_option ((#) x) (match_segments ps xs))"
| "match_segments _ _ = None"

definition method_ok :: "string \<Rightarrow> string \<Rightarrow> bool" where
  "method_ok m req \<longleftrightarrow> m = [] \<or> m = req \<or> (m = ''GET'' \<and> req = ''HEAD'')"

text \<open>The handler of a request, with the wildcards; or 405 when only the method is wrong, or 404.\<close>

definition route :: "(string \<times> segment list \<times> 'e) list \<Rightarrow> string \<Rightarrow> string list \<Rightarrow> nat + ('e \<times> string list)" where
  "route routes meth path =
     (case find (\<lambda>(m, p, _). match_segments p path \<noteq> None \<and> method_ok m meth) routes of
        Some (_, p, e) \<Rightarrow> Inr (e, the (match_segments p path))
      | None \<Rightarrow> if list_ex (\<lambda>(_, p, _). match_segments p path \<noteq> None) routes then Inl 405 else Inl 404)"

definition api :: "string list \<Rightarrow> segment list" where
  "api ws = map Lit (''api'' # ''v1'' # ws)"

datatype endpoint = Health | FullCatalog | CatalogChanges | StreamLocal | TriggerSync | SyncStatus | Notify | PairKey

definition peer_routes :: "(string \<times> segment list \<times> endpoint) list" where
  "peer_routes =
     [(''GET'', [Lit ''health''], Health),
      (''GET'', api [''catalog''], FullCatalog),
      (''GET'', api [''catalog'', ''changes''], CatalogChanges),
      (''GET'', api [''proxy'', ''stream''] @ [Wild, Wild], StreamLocal),
      (''POST'', api [''sync'', ''trigger''] @ [Wild], TriggerSync),
      (''GET'', api [''sync'', ''status''], SyncStatus),
      (''POST'', api [''catalog'', ''notify''], Notify),
      (''POST'', api [''pair''], PairKey)]"

text \<open>\<open>RequireClient\<close>, \<open>RequireClientOrPeer\<close>, \<open>RequirePeer\<close>, \<open>RequirePairing\<close>, as the routes use them.\<close>

fun endpoint_allows :: "endpoint \<Rightarrow> caller \<Rightarrow> bool" where
  "endpoint_allows Health c \<longleftrightarrow> ca_client_id c \<noteq> [] \<or> ca_peer_id c \<noteq> []"
| "endpoint_allows Notify c \<longleftrightarrow> ca_peer_id c \<noteq> []"
| "endpoint_allows PairKey c \<longleftrightarrow> ca_pairing c"
| "endpoint_allows _ c \<longleftrightarrow> ca_client_id c \<noteq> []"

definition local_only :: "endpoint \<Rightarrow> string list \<Rightarrow> bool" where
  "local_only e params \<longleftrightarrow> (e = StreamLocal \<or> e = TriggerSync \<longrightarrow> hd params = ''local'')"

subsection \<open>The peer port\<close>

datatype port_answer = Refused nat | Reached endpoint caller "string list"

record port_state =
  po_auth :: "auth_store \<times> database"
  po_registry :: registry
  po_limiter :: limiter

definition peer_port ::
  "go_error option \<Rightarrow> int \<Rightarrow> string option \<Rightarrow> string \<Rightarrow> string list \<Rightarrow> port_state \<Rightarrow> port_answer \<times> port_state" where
  "peer_port fault now cert meth path st =
     (case authenticate (resolve_key fault now (po_registry st)) cert (po_auth st) of
        (Inl code, auth) \<Rightarrow> (Refused code, st\<lparr>po_auth := auth\<rparr>)
      | (Inr c, auth) \<Rightarrow>
          let st = st\<lparr>po_auth := auth\<rparr>
          in (case route peer_routes meth path of
                Inl code \<Rightarrow> (Refused code, st)
              | Inr (e, params) \<Rightarrow>
                  if \<not> endpoint_allows e c then (Refused 403, st)
                  else if \<not> local_only e params then (Refused 404, st)
                  else if e = TriggerSync then
                    (case rate_limited now c (po_limiter st) of
                       (False, l) \<Rightarrow> (Refused 429, st\<lparr>po_limiter := l\<rparr>)
                     | (True, l) \<Rightarrow> (Reached e c params, st\<lparr>po_limiter := l\<rparr>))
                  else (Reached e c params, st)))"

subsection \<open>The dashboard port\<close>

datatype dashboard_endpoint =
    DHealth | DCatalog | DChanges | DNotify | DStream | DPeers | DAddPeer | DRedeem | DRemovePeer | DFolders | DPeerPort
  | DCreateInvite | DNoInvites | DInvites | DCancelInvite | DClients | DRevoke | DItems | DEpisodes | DItemInfo | DHide
  | DStats | DTraffic | DResetTraffic | DMetrics | DSettings | DPutSettings | DStatus | DTrigger | DWebUI

text \<open>The routes by what the configuration turns on: legacy peers, and peers paired by invite. They stand with the
  most specific first, as \<open>http.ServeMux\<close> prefers them.\<close>

definition dashboard_routes :: "bool \<Rightarrow> bool \<Rightarrow> (string \<times> segment list \<times> dashboard_endpoint) list" where
  "dashboard_routes httpPeers mtlsPeers =
     [([], [Lit ''health''], DHealth)]
     @ (if httpPeers then
          [([], api [''catalog''], DCatalog), (''GET'', api [''catalog'', ''changes''], DChanges),
           (''POST'', api [''catalog'', ''notify''], DNotify)] else [])
     @ [(''GET'', api [''proxy'', ''stream''] @ [Wild, Wild], DStream),
        (''GET'', api [''peers''], DPeers), (''POST'', api [''peers''], DAddPeer), (''POST'', api [''peers'', ''redeem''], DRedeem),
        (''DELETE'', api [''peers''] @ [Wild], DRemovePeer),
        (''GET'', api [''peers''] @ [Wild, Lit ''excluded-folders''], DFolders),
        (''PUT'', api [''peers''] @ [Wild, Lit ''excluded-folders''], DFolders),
        (''GET'', api [''peerport''], DPeerPort),
        (''POST'', api [''invites''], if mtlsPeers then DCreateInvite else DNoInvites),
        (''GET'', api [''invites''], DInvites), (''DELETE'', api [''invites''] @ [Wild], DCancelInvite),
        (''GET'', api [''clients''], DClients), (''DELETE'', api [''clients''] @ [Wild], DRevoke),
        (''GET'', api [''items''], DItems), (''GET'', api [''items'', ''series'', ''episodes''], DEpisodes),
        (''GET'', api [''items'', ''info''], DItemInfo), (''PUT'', api [''items'', ''hidden''], DHide),
        (''GET'', api [''stats''], DStats), (''GET'', api [''traffic''], DTraffic), (''DELETE'', api [''traffic''], DResetTraffic),
        (''GET'', [Lit ''metrics''], DMetrics), (''GET'', api [''settings''], DSettings), (''PUT'', api [''settings''], DPutSettings),
        (''GET'', api [''sync'', ''status''], DStatus), (''POST'', api [''sync'', ''trigger''] @ [Wild], DTrigger),
        ([], [Rest], DWebUI)]"

subsection \<open>Handshakes\<close>

text \<open>The server's check of the certificates presented; \<open>parse\<close> is \<open>x509.ParseCertificate\<close>.\<close>

definition pin_of_raw :: "('c \<Rightarrow> certificate option) \<Rightarrow> 'c list \<Rightarrow> go_error + string" where
  "pin_of_raw parse raw =
     (case raw of
        [] \<Rightarrow> Inl (ErrMsg ''no certificate presented'')
      | r # _ \<Rightarrow> (case parse r of None \<Rightarrow> Inl (ErrMsg ''parsing presented certificate'') | Some cert \<Rightarrow> Inr (pin_of cert)))"

definition verify_client :: "('c \<Rightarrow> certificate option) \<Rightarrow> (string \<Rightarrow> bool) \<Rightarrow> 'c list \<Rightarrow> go_error + unit" where
  "verify_client parse known raw =
     (case pin_of_raw parse raw of
        Inl e \<Rightarrow> Inl e
      | Inr pin \<Rightarrow> if \<not> known pin then Inl (ErrMsg ''unknown client key'') else Inr ())"

text \<open>How an address is dialed, and the client's check of a pinned server's certificates.\<close>

datatype dial = DialVerified | DialPinned string | DialRefused

definition dial_tls :: "bool \<Rightarrow> (string \<Rightarrow> string option) \<Rightarrow> string \<Rightarrow> dial" where
  "dial_tls has_identity pinFor addr =
     (case pinFor addr of
        None \<Rightarrow> DialVerified
      | Some pin \<Rightarrow> if \<not> has_identity then DialRefused else DialPinned pin)"

definition verify_server :: "string \<Rightarrow> certificate list \<Rightarrow> go_error + unit" where
  "verify_server pin certs =
     (if certs = [] \<or> pin_of (hd certs) \<noteq> pin then Inl ErrPinMismatch else Inr ())"

definition use_proxy :: "(string \<Rightarrow> string option) \<Rightarrow> url \<Rightarrow> bool" where
  "use_proxy pinFor u \<longleftrightarrow> \<not> (u_scheme u = ''https'' \<and> pinFor (canonical_addr u) \<noteq> None)"

subsection \<open>What a node says of itself\<close>

record health =
  he_node_id :: string
  he_version :: string
  he_uptime_seconds :: int

definition health_handler :: "string \<Rightarrow> string \<Rightarrow> int \<Rightarrow> int \<Rightarrow> health response" where
  "health_handler nodeID version startedAt now =
     Json 200 \<lparr>he_node_id = nodeID, he_version = version, he_uptime_seconds = duration_seconds (now - startedAt)\<rparr>"

record peer_port_dto =
  pp_http_peers :: bool
  pp_mtls_peers :: bool
  pp_public_url :: string
  pp_pin :: string
  pp_invites_enabled :: bool

definition peer_port_info :: "bool \<Rightarrow> bool \<Rightarrow> string \<Rightarrow> identity \<Rightarrow> peer_port_dto response" where
  "peer_port_info httpPeers mtlsPeers publicURL self =
     Json 200 \<lparr>pp_http_peers = httpPeers, pp_mtls_peers = mtlsPeers, pp_public_url = publicURL, pp_pin = idn_pin self,
       pp_invites_enabled = (mtlsPeers \<and> publicURL \<noteq> [])\<rparr>"

text \<open>What a peer's \<open>Probe\<close> reads of it.\<close>

definition health_answer :: "health response \<Rightarrow> go_error + (nat \<times> string \<times> string)" where
  "health_answer resp =
     (case resp of
        Json status h \<Rightarrow> Inr (status, he_node_id h, he_version h)
      | HttpError status _ \<Rightarrow> Inr (status, [], [])
      | Status status \<Rightarrow> Inr (status, [], []))"

lemma probe_reads_health: "probe_peer (health_answer (health_handler nodeID version startedAt now)) = Inr (nodeID, version)"
  by (simp add: probe_peer_def health_answer_def health_handler_def)

lemma invites_enabled_iff:
  assumes "peer_port_info httpPeers mtlsPeers publicURL self = Json 200 info"
    and "create_invite_handler publicURL nodeID (idn_pin self) key sf f now ttl sd = (resp, sd')"
  shows "mtlsPeers \<Longrightarrow> pp_invites_enabled info \<longleftrightarrow> status_of resp \<noteq> 409"
proof -
  have "status_of resp = (if publicURL = [] then 409 else case fst (create_invite key sf f now ttl sd) of Inl _ \<Rightarrow> 500 | Inr _ \<Rightarrow> 201)"
    using assms(2) by (auto simp: create_invite_handler_def split: if_splits prod.splits sum.splits)
  then show "mtlsPeers \<Longrightarrow> pp_invites_enabled info \<longleftrightarrow> status_of resp \<noteq> 409"
    using assms(1) by (auto simp: peer_port_info_def split: sum.splits)
qed

end
