(* ===== verification/AccessTheorems.thy ===== *)
theory AccessTheorems
  imports Access PairingTheorems
begin

section \<open>The properties of the peer port\<close>

text \<open>
  Which requests reach a handler, what pairing and revoking do to the requests of a key, and the spacing
  of forced refreshes; each property with its witness.
\<close>

subsection \<open>What a request needs\<close>

lemma touch_pins: "client_by_pin (fst (touch fault now pin sd)) p = None \<longleftrightarrow> client_by_pin (fst sd) p = None"
  by (auto simp: touch_def client_by_pin_def Let_def split: prod.splits option.splits)

lemma touch_invites: "as_invites (fst (touch fault now pin sd)) = as_invites (fst sd)"
  by (auto simp: touch_def Let_def split: prod.splits option.splits)

definition client_key :: "port_state \<Rightarrow> string \<Rightarrow> bool" where
  "client_key st pin \<longleftrightarrow> (\<exists>cl. client_by_pin (fst (po_auth st)) pin = Some cl \<and> c_id cl \<noteq> [])"

definition peer_key :: "port_state \<Rightarrow> string \<Rightarrow> bool" where
  "peer_key st pin \<longleftrightarrow> (\<exists>p. peer_by_pin (po_registry st) pin = Some p \<and> p_id p \<noteq> [])"

lemma resolve_char:
  assumes "resolve_key fault now (po_registry st) pin (po_auth st) = ((c, ok), auth)"
  shows "ca_pin c = pin \<and> (ca_client_id c \<noteq> [] \<longleftrightarrow> client_key st pin) \<and> (ca_peer_id c \<noteq> [] \<longleftrightarrow> peer_key st pin)
    \<and> (ca_pairing c \<longleftrightarrow> \<not> client_key st pin \<and> \<not> peer_key st pin \<and> is_pending now (fst (po_auth st)) pin)
    \<and> ok = (client_key st pin \<or> peer_key st pin \<or> is_pending now (fst (po_auth st)) pin)"
proof -
  have t: "is_pending now (fst (touch fault now pin (po_auth st))) pin = is_pending now (fst (po_auth st)) pin"
    by (simp add: is_pending_def touch_invites)
  show ?thesis
    using assms t
    by (cases "client_by_pin (fst (po_auth st)) pin"; cases "peer_by_pin (po_registry st) pin")
       (auto simp: resolve_key_def client_key_def peer_key_def Let_def split: if_splits)
qed

lemma port_reached:
  assumes "peer_port fault now cert meth path st = (Reached e c params, st')"
  obtains pin auth where "cert = Some pin" "resolve_key fault now (po_registry st) pin (po_auth st) = ((c, True), auth)"
    "route peer_routes meth path = Inr (e, params)" "endpoint_allows e c" "local_only e params"
    "e = TriggerSync \<longrightarrow> fst (allow now (caller_id c) (po_limiter st))"
  using assms
  by (auto simp: peer_port_def authenticate_def Let_def split: option.splits sum.splits prod.splits bool.splits if_splits)

text \<open>C17: A request on the peer port reaches a handler only with a client certificate whose key may use
  it: the library, its changes, streams, the sync status and forced refreshes need the key of a client;
  notifications that of a peer; pairing that of a pending invite that is neither; health that of a client or a
  peer. Streams and refreshes are of this node's own library only. Any other request with a key
  nobody knows is refused with 403, one without a certificate with 401.\<close>

theorem peer_port_admits:
  "case peer_port fault now cert meth path st of
     (Reached e c params, st') \<Rightarrow> \<exists>pin. cert = Some pin \<and> ca_pin c = pin
        \<and> (case e of Health \<Rightarrow> client_key st pin \<or> peer_key st pin
                   | Notify \<Rightarrow> peer_key st pin
                   | PairKey \<Rightarrow> is_pending now (fst (po_auth st)) pin \<and> \<not> client_key st pin \<and> \<not> peer_key st pin
                   | _ \<Rightarrow> client_key st pin)
        \<and> ((e = StreamLocal \<or> e = TriggerSync) \<longrightarrow> hd params = ''local'')
   | (Refused code, st') \<Rightarrow> (cert = None \<longrightarrow> code = 401)
        \<and> (\<forall>pin. cert = Some pin \<longrightarrow> \<not> client_key st pin \<longrightarrow> \<not> peer_key st pin \<longrightarrow> \<not> is_pending now (fst (po_auth st)) pin \<longrightarrow> code = 403)"
proof -
  obtain ans st' where p: "peer_port fault now cert meth path st = (ans, st')" by (metis surj_pair)
  show ?thesis
  proof (cases ans)
    case (Refused code)
    have "code = 401" if "cert = None" using p that Refused by (simp add: peer_port_def authenticate_def)
    moreover have "code = 403" if k: "cert = Some pin" "\<not> client_key st pin" "\<not> peer_key st pin" "\<not> is_pending now (fst (po_auth st)) pin" for pin
    proof -
      obtain c ok auth where r: "resolve_key fault now (po_registry st) pin (po_auth st) = ((c, ok), auth)" by (metis surj_pair)
      have "\<not> ok" using resolve_char [OF r] k by simp
      then show ?thesis using p k(1) r Refused by (simp add: peer_port_def authenticate_def)
    qed
    ultimately show ?thesis by (simp add: p Refused)
  next
    case (Reached e c params)
    obtain pin auth where R: "cert = Some pin" "resolve_key fault now (po_registry st) pin (po_auth st) = ((c, True), auth)"
      "endpoint_allows e c" "local_only e params"
      using port_reached [OF p [unfolded Reached]] by metis
    note C = resolve_char [OF R(2)]
    have l: "(e = StreamLocal \<or> e = TriggerSync) \<longrightarrow> hd params = ''local''" using R(4) by (simp add: local_only_def)
    have a: "case e of Health \<Rightarrow> client_key st pin \<or> peer_key st pin
                   | Notify \<Rightarrow> peer_key st pin
                   | PairKey \<Rightarrow> is_pending now (fst (po_auth st)) pin \<and> \<not> client_key st pin \<and> \<not> peer_key st pin
                   | _ \<Rightarrow> client_key st pin"
      using R(3) C by (cases e) auto
    show ?thesis unfolding p Reached prod.case port_answer.case using R(1) C a l by blast
  qed
qed

definition ex_port :: port_state where
  "ex_port = \<lparr>po_auth = (ex_store, ex_clients), po_registry = ex_registry, po_limiter = new_limiter force_refresh_every\<rparr>"

theorem peer_port_admits_witness:
  "fst (peer_port None 1 (Some ''nobody'') ''GET'' [''api'', ''v1'', ''catalog''] ex_port) = Refused 403
   \<and> fst (peer_port None 1 None ''GET'' [''health''] ex_port) = Refused 401"
proof -
  obtain a1 s1 where 1: "peer_port None 1 (Some ''nobody'') ''GET'' [''api'', ''v1'', ''catalog''] ex_port = (a1, s1)" by (metis surj_pair)
  obtain a2 s2 where 2: "peer_port None 1 None ''GET'' [''health''] ex_port = (a2, s2)" by (metis surj_pair)
  have k: "client_by_pin (fst (po_auth ex_port)) ''nobody'' = None" "peer_by_pin (po_registry ex_port) ''nobody'' = None"
    "is_pending 1 (fst (po_auth ex_port)) ''nobody'' = False" by code_simp+
  then have k': "\<not> client_key ex_port ''nobody''" "\<not> peer_key ex_port ''nobody''" "\<not> is_pending 1 (fst (po_auth ex_port)) ''nobody''"
    by (simp_all add: client_key_def peer_key_def)
  have "a1 = Refused 403"
    using peer_port_admits [where fault = None and now = 1 and cert = "Some ''nobody''" and meth = "''GET''"
        and path = "[''api'', ''v1'', ''catalog'']" and st = ex_port, unfolded 1 prod.case] k'
    by (cases a1) (auto split: endpoint.splits)
  moreover have "a2 = Refused 401"
    using peer_port_admits [where fault = None and now = 1 and cert = None and meth = "''GET''" and path = "[''health'']" and st = ex_port,
        unfolded 2 prod.case] by (cases a2) auto
  ultimately show ?thesis by (simp add: 1 2)
qed

subsection \<open>Revoking and pairing\<close>

lemma unknown_key_refused:
  assumes "\<not> client_key st pin" "\<not> peer_key st pin" "\<not> is_pending now (fst (po_auth st)) pin"
    and "client_by_pin (fst (po_auth st)) pin = None"
  shows "peer_port fault now (Some pin) meth path st = (Refused 403, st)"
proof -
  obtain c ok auth where r: "resolve_key fault now (po_registry st) pin (po_auth st) = ((c, ok), auth)" by (metis surj_pair)
  have "\<not> ok" using resolve_char [OF r] assms by simp
  moreover have "auth = po_auth st" using r assms(4) by (auto simp: resolve_key_def Let_def)
  ultimately show ?thesis using r by (simp add: peer_port_def authenticate_def)
qed

lemma mem_pins: "client_by_pin s p = None \<longleftrightarrow> p \<notin> (\<lambda>(cid, pin, name, t). pin) ` mem_clients s"
proof -
  have "(\<lambda>(cid, pin, name, t). pin) ` mem_clients s = fst ` set (as_clients s)"
    by (force simp: mem_clients_def)
  then show ?thesis by (simp add: client_by_pin_def map_of_eq_None_iff)
qed

text \<open>C21: A revocation takes effect at once and for good: from then on every request with the client's key is
  refused with 403 whatever it asks for, also on connections that were open before, and also after a
  restart of the node, as long as the key is not a peer's or an invite's.\<close>

theorem revoked_key_is_refused:
  assumes "store_ok (s, d)" and "client_by_pin s pin = Some cl" and "revoke None (c_id cl) (s, d) = (Inr (), s', d')"
    and "map_of (as_invites s) pin = None" and "peer_by_pin r pin = None"
    and "auth = (s', d') \<or> (\<exists>s''. new_store None d' = Inr s'' \<and> auth = (s'', d'))"
  shows "peer_port fault now (Some pin) meth path \<lparr>po_auth = auth, po_registry = r, po_limiter = l\<rparr>
     = (Refused 403, \<lparr>po_auth = auth, po_registry = r, po_limiter = l\<rparr>)"
proof -
  have p: "pin_of_id s (c_id cl) = pin" by (rule pin_of_id_eq [OF assms(1)]) (use assms(2) in \<open>simp add: client_by_pin_def\<close>)
  have s': "s' = s\<lparr>as_clients := tbl_delete pin (as_clients s)\<rparr>"
    using assms(3) by (auto simp: revoke_def Let_def p split: if_splits)
  have ok': "store_ok (s', d')" using revoke_ok [OF assms(1), of None "c_id cl"] assms(3) by simp
  have c': "client_by_pin s' pin = None" by (simp add: s' client_by_pin_def)
  have i': "map_of (invites_tbl d') pin = None" using ok' assms(4) by (simp add: store_ok_def s')
  have "client_by_pin (fst auth) pin = None \<and> \<not> is_pending now (fst auth) pin"
    using assms(6)
  proof
    assume "auth = (s', d')"
    then show ?thesis using c' assms(4) by (simp add: s' is_pending_def)
  next
    assume "\<exists>s''. new_store None d' = Inr s'' \<and> auth = (s'', d')"
    then obtain s'' where ns: "new_store None d' = Inr s''" "auth = (s'', d')" by blast
    have "keyed (clients_tbl d')" "keyed (invites_tbl d')" using ok' by (simp_all add: store_ok_def)
    from new_store_ok [OF ns(1) this store_ok_pins_unique [OF ok']] have ok'': "store_ok (s'', d')" .
    have "mem_clients s'' = mem_clients s'" using ok' ok'' by (simp add: store_ok_def)
    then have "client_by_pin s'' pin = None" using c' by (simp add: mem_pins)
    moreover have "map_of (as_invites s'') pin = None" using ok'' i' by (simp add: store_ok_def)
    ultimately show ?thesis by (simp add: ns(2) is_pending_def)
  qed
  then show ?thesis
    by (intro unknown_key_refused) (use assms(5) in \<open>simp_all add: client_key_def peer_key_def\<close>)
qed

theorem revoked_key_is_refused_witness:
  "fst (peer_port None 99 (Some ''pin1'') ''GET'' [''api'', ''v1'', ''catalog''] ex_port) \<noteq> Refused 403
   \<and> fst (peer_port None 99 (Some ''pin1'') ''GET'' [''api'', ''v1'', ''catalog'']
       (ex_port\<lparr>po_auth := snd (revoke None ''nas'' (ex_store, ex_clients))\<rparr>)) = Refused 403"
proof (rule conjI)
  show "fst (peer_port None 99 (Some ''pin1'') ''GET'' [''api'', ''v1'', ''catalog''] ex_port) \<noteq> Refused 403" by code_simp
  obtain cl where cl: "client_by_pin ex_store ''pin1'' = Some cl" "c_id cl = ''nas''"
  proof -
    have "map_option c_id (client_by_pin ex_store ''pin1'') = Some ''nas''" by code_simp
    then show ?thesis using that by auto
  qed
  obtain r s' d' where r: "revoke None ''nas'' (ex_store, ex_clients) = (r, s', d')" by (metis surj_pair)
  have "fst (revoke None ''nas'' (ex_store, ex_clients)) = Inr ()" by code_simp
  then have rv: "revoke None (c_id cl) (ex_store, ex_clients) = (Inr (), s', d')" by (simp add: r cl(2))
  have k: "map_of (as_invites ex_store) ''pin1'' = None" "peer_by_pin ex_registry ''pin1'' = None" by code_simp+
  have "auth = (s', d') \<Longrightarrow> peer_port None 99 (Some ''pin1'') ''GET'' [''api'', ''v1'', ''catalog'']
      \<lparr>po_auth = auth, po_registry = ex_registry, po_limiter = new_limiter force_refresh_every\<rparr>
    = (Refused 403, \<lparr>po_auth = auth, po_registry = ex_registry, po_limiter = new_limiter force_refresh_every\<rparr>)" for auth
    using revoked_key_is_refused [OF ex_store_ok cl(1) rv k] by blast
  then show "fst (peer_port None 99 (Some ''pin1'') ''GET'' [''api'', ''v1'', ''catalog'']
       (ex_port\<lparr>po_auth := snd (revoke None ''nas'' (ex_store, ex_clients))\<rparr>)) = Refused 403"
    by (simp add: ex_port_def r)
qed

text \<open>Whether a key of the rate limit had a forced refresh too short a while ago.\<close>

definition too_soon :: "int \<Rightarrow> string \<Rightarrow> limiter \<Rightarrow> bool" where
  "too_soon now key l \<longleftrightarrow> (\<exists>t. map_of (lm_last l) key = Some t \<and> now < t + lm_every l)"

lemma too_soon_allow: "fst (allow now key l) \<longleftrightarrow> \<not> too_soon now key l"
  by (auto simp: too_soon_def allow_def split: option.split)

text \<open>C22: Pairing gives access and uses up the invite: once the pairing handler has answered 200, every route a
  client may use is open to the new key, as the client the pairing stored: the request reaches the handler, except that a forced refresh is
  refused with 429 exactly when the caller had one within the interval before. The invite's
  temporary key is refused with 403 on every request, unless it is a client's or a peer's itself.\<close>

theorem pairing_opens_the_port:
  assumes "store_ok (s, d)"
    and "pair_handler assign nodeID version fault now tmp (Some (pin, name)) (s, d) = (Json 200 resp, s', d')"
    and "assign name pin \<noteq> []" and "\<forall>cl. client_by_pin s pin = Some cl \<longrightarrow> c_id cl \<noteq> []"
    and "route peer_routes meth path = Inr (e, params)" and "e \<notin> {Notify, PairKey}" and "local_only e params"
  shows "(\<exists>c. map_option c_id (client_by_pin s' pin) = Some (ca_client_id c) \<and> ca_client_id c \<noteq> []
      \<and> fst (peer_port f t (Some pin) meth path \<lparr>po_auth = (s', d'), po_registry = r, po_limiter = l\<rparr>)
        = (if e = TriggerSync \<and> too_soon t (caller_id c) l then Refused 429 else Reached e c params))
    \<and> (client_by_pin s tmp = None \<longrightarrow> peer_by_pin r tmp = None \<longrightarrow>
      fst (peer_port f t (Some tmp) meth' path' \<lparr>po_auth = (s', d'), po_registry = r, po_limiter = l\<rparr>) = Refused 403)"
proof (intro conjI impI)
  have v: "valid_pin pin" "pin \<noteq> tmp" using assms(2) by (auto simp: pair_handler_def split: if_splits)
  obtain res s1 d1 where rd: "redeem fault now tmp pin name (assign name pin) (s, d) = (res, s1, d1)" by (metis surj_pair)
  note R = redeem_char [OF assms(1), where fault = fault and now = now and tmp = tmp and pin = pin and name = name
      and cid = "assign name pin", unfolded rd prod.case]
  obtain cl where cl: "res = Inr cl" "s1 = s'" "d1 = d'"
    using assms(2) v rd by (cases res) (auto simp: pair_handler_def split: if_splits)
  note R' = R [unfolded cl sum.case]
  have c: "client_by_pin s' pin = Some cl" and ci: "c_id cl = (case client_by_pin s pin of None \<Rightarrow> assign name pin | Some x \<Rightarrow> c_id x)"
    and np: "\<not> is_pending t s' tmp" and other: "p \<noteq> pin \<Longrightarrow> client_by_pin s' p = client_by_pin s p" for t p
    using R' by blast+
  have ne: "c_id cl \<noteq> []" using ci assms(3,4) by (auto split: option.splits)
  let ?st = "\<lparr>po_auth = (s', d'), po_registry = r, po_limiter = l\<rparr>"
  obtain ca ok auth where rk: "resolve_key f t r pin (s', d') = ((ca, ok), auth)" by (metis surj_pair)
  have rk': "resolve_key f t (po_registry ?st) pin (po_auth ?st) = ((ca, ok), auth)" using rk by simp
  have ck: "client_key ?st pin" using c ne by (simp add: client_key_def)
  have ca: "ca_client_id ca \<noteq> []" "ok" using resolve_char [OF rk'] ck by auto
  have id: "ca_client_id ca = c_id cl" using rk c by (auto simp: resolve_key_def Let_def)
  have "endpoint_allows e ca" using ca(1) assms(6) by (cases e) auto
  then have "fst (peer_port f t (Some pin) meth path ?st) = (if e = TriggerSync \<and> too_soon t (caller_id ca) l then Refused 429 else Reached e ca params)"
    using rk ca assms(5,7) too_soon_allow [of t "caller_id ca" l] by (cases "allow t (caller_id ca) l") (auto simp: peer_port_def authenticate_def Let_def)
  then show "\<exists>c. map_option c_id (client_by_pin s' pin) = Some (ca_client_id c) \<and> ca_client_id c \<noteq> []
      \<and> fst (peer_port f t (Some pin) meth path ?st) = (if e = TriggerSync \<and> too_soon t (caller_id c) l then Refused 429 else Reached e c params)"
    using ca(1) id c by (intro exI [of _ ca]) simp
  assume t: "client_by_pin s tmp = None" "peer_by_pin r tmp = None"
  have "client_by_pin s' tmp = None" using t(1) other [of tmp] v(2) by metis
  then show "fst (peer_port f t (Some tmp) meth' path' ?st) = Refused 403"
    using unknown_key_refused [of ?st tmp t f meth' path'] np t(2) by (simp add: client_key_def peer_key_def)
qed

theorem pairing_opens_the_port_witness:
  "\<exists>s' d' c. pair_handler (\<lambda>name pin. name) ''me'' ''1'' None (20 * second) ''tmp'' (Some (ex_pin, ''tv'')) (ex_store, ex_clients)
       = (Json 200 \<lparr>pp_node_id = ''me'', pp_version = ''1''\<rparr>, s', d')
     \<and> fst (peer_port None 1 (Some ex_pin) ''POST'' [''api'', ''v1'', ''sync'', ''trigger'', ''local''] (ex_port\<lparr>po_auth := (s', d')\<rparr>))
         = Reached TriggerSync c [''local'']
     \<and> fst (peer_port None 1 (Some ''tmp'') ''POST'' [''api'', ''v1'', ''pair''] (ex_port\<lparr>po_auth := (s', d')\<rparr>)) = Refused 403"
proof -
  let ?h = "pair_handler (\<lambda>name pin. name) ''me'' ''1'' None (20 * second) ''tmp'' (Some (ex_pin, ''tv'')) (ex_store, ex_clients)"
  have "fst ?h = Json 200 \<lparr>pp_node_id = ''me'', pp_version = ''1''\<rparr>" by code_simp
  then obtain s' d' where h: "?h = (Json 200 \<lparr>pp_node_id = ''me'', pp_version = ''1''\<rparr>, s', d')"
    by (cases ?h) simp
  have k: "\<forall>cl. client_by_pin ex_store ex_pin = Some cl \<longrightarrow> c_id cl \<noteq> []" "client_by_pin ex_store ''tmp'' = None" "peer_by_pin ex_registry ''tmp'' = None"
    "''tv'' \<noteq> []"
  proof -
    have "client_by_pin ex_store ex_pin = None" by code_simp
    then show "\<forall>cl. client_by_pin ex_store ex_pin = Some cl \<longrightarrow> c_id cl \<noteq> []" by simp
    show "client_by_pin ex_store ''tmp'' = None" "peer_by_pin ex_registry ''tmp'' = None" by code_simp+
  qed simp
  have rt: "route peer_routes ''POST'' [''api'', ''v1'', ''sync'', ''trigger'', ''local''] = Inr (TriggerSync, [''local''])" by code_simp
  have "TriggerSync \<notin> {Notify, PairKey}" "local_only TriggerSync [''local'']" by (simp_all add: local_only_def)
  from pairing_opens_the_port [OF ex_store_ok h k(4,1) rt this, of None 1 ex_registry "new_limiter force_refresh_every" "''POST''" "[''api'', ''v1'', ''pair'']"]
  show ?thesis using h k(2,3) by (auto simp: ex_port_def new_limiter_def too_soon_def)
qed

subsection \<open>The rate limit\<close>

text \<open>The log of a limiter, newest entry first.\<close>

fun limit_log :: "(int \<times> string) list \<Rightarrow> limiter \<Rightarrow> (int \<times> string \<times> bool) list \<Rightarrow> (int \<times> string \<times> bool) list" where
  "limit_log [] l log = log"
| "limit_log ((t, k) # evs) l log = (case allow t k l of (ok, l) \<Rightarrow> limit_log evs l ((t, k, ok) # log))"

text \<open>An entry is right when it was let through exactly if none of its key was within the interval before.\<close>

fun spaced :: "int \<Rightarrow> (int \<times> string \<times> bool) list \<Rightarrow> bool" where
  "spaced every [] \<longleftrightarrow> True"
| "spaced every ((t, k, ok) # log) \<longleftrightarrow>
     (ok \<longleftrightarrow> (\<forall>(t', k', ok') \<in> set log. k' = k \<longrightarrow> ok' \<longrightarrow> every \<le> t - t')) \<and> spaced every log"

definition limiter_ok :: "limiter \<Rightarrow> (int \<times> string \<times> bool) list \<Rightarrow> bool" where
  "limiter_ok l log \<longleftrightarrow> (\<forall>k. case map_of (lm_last l) k of
      None \<Rightarrow> \<forall>(t', k', ok') \<in> set log. k' = k \<longrightarrow> \<not> ok'
    | Some t \<Rightarrow> (t, k, True) \<in> set log \<and> (\<forall>(t', k', ok') \<in> set log. k' = k \<longrightarrow> ok' \<longrightarrow> t' \<le> t))"

lemma allow_step:
  assumes l: "limiter_ok l log" and late: "\<forall>(t', k', ok') \<in> set log. t' \<le> t" and a: "allow t k l = (ok, l')"
  shows "limiter_ok l' ((t, k, ok) # log)
    \<and> (ok \<longleftrightarrow> (\<forall>(t', k', ok') \<in> set log. k' = k \<longrightarrow> ok' \<longrightarrow> lm_every l \<le> t - t')) \<and> lm_every l' = lm_every l"
proof -
  have own: "case map_of (lm_last l) j of
      None \<Rightarrow> \<forall>(t', k', ok') \<in> set log. k' = j \<longrightarrow> \<not> ok'
    | Some t \<Rightarrow> (t, j, True) \<in> set log \<and> (\<forall>(t', k', ok') \<in> set log. k' = j \<longrightarrow> ok' \<longrightarrow> t' \<le> t)" for j
    using l unfolding limiter_ok_def by blast
  have right: "ok \<longleftrightarrow> (\<forall>(t', k', ok') \<in> set log. k' = k \<longrightarrow> ok' \<longrightarrow> lm_every l \<le> t - t')"
  proof (cases "map_of (lm_last l) k")
    case None
    then have "ok" using a by (simp add: allow_def)
    with own [of k] None show ?thesis by auto
  next
    case (Some t0)
    then have e: "ok \<longleftrightarrow> lm_every l \<le> t - t0" using a by (auto simp: allow_def split: if_splits)
    from own [of k] Some have "(t0, k, True) \<in> set log" "\<forall>(t', k', ok') \<in> set log. k' = k \<longrightarrow> ok' \<longrightarrow> t' \<le> t0" by simp_all
    with e show ?thesis by fastforce
  qed
  have "limiter_ok l' ((t, k, ok) # log)"
  proof (cases ok)
    case True
    then have l': "l' = l\<lparr>lm_last := tbl_upsert k t (lm_last l)\<rparr>" using a by (auto simp: allow_def split: if_splits)
    show ?thesis
      unfolding limiter_ok_def
    proof
      fix j
      show "case map_of (lm_last l') j of
          None \<Rightarrow> \<forall>(t', k', ok') \<in> set ((t, k, ok) # log). k' = j \<longrightarrow> \<not> ok'
        | Some t0 \<Rightarrow> (t0, j, True) \<in> set ((t, k, ok) # log) \<and> (\<forall>(t', k', ok') \<in> set ((t, k, ok) # log). k' = j \<longrightarrow> ok' \<longrightarrow> t' \<le> t0)"
      proof (cases "j = k")
        case True
        then show ?thesis using late \<open>ok\<close> by (auto simp: l')
      next
        case False
        then show ?thesis using own [of j] by (cases "map_of (lm_last l) j") (auto simp: l')
      qed
    qed
  next
    case False
    then have l': "l' = l" using a by (auto simp: allow_def split: if_splits)
    show ?thesis
      unfolding limiter_ok_def l'
    proof
      fix j
      show "case map_of (lm_last l) j of
          None \<Rightarrow> \<forall>(t', k', ok') \<in> set ((t, k, ok) # log). k' = j \<longrightarrow> \<not> ok'
        | Some t0 \<Rightarrow> (t0, j, True) \<in> set ((t, k, ok) # log) \<and> (\<forall>(t', k', ok') \<in> set ((t, k, ok) # log). k' = j \<longrightarrow> ok' \<longrightarrow> t' \<le> t0)"
        using own [of j] False by (cases "map_of (lm_last l) j") auto
    qed
  qed
  moreover have "lm_every l' = lm_every l" using a by (auto simp: allow_def split: if_splits)
  ultimately show ?thesis using right by blast
qed

lemma limit_log_spaced:
  assumes "limiter_ok l log" "spaced (lm_every l) log" "sorted (map fst evs)"
    and "\<forall>(t', k', ok') \<in> set log. \<forall>t \<in> fst ` set evs. t' \<le> t"
  shows "spaced (lm_every l) (limit_log evs l log)"
  using assms
proof (induction evs arbitrary: l log)
  case (Cons ev evs)
  obtain t k where ev: "ev = (t, k)" by (cases ev)
  obtain ok l' where a: "allow t k l = (ok, l')" by (metis surj_pair)
  have late: "\<forall>(t', k', ok') \<in> set log. t' \<le> t" using Cons.prems(4) by (auto simp: ev)
  note S = allow_step [OF Cons.prems(1) late a]
  have "spaced (lm_every l') (limit_log evs l' ((t, k, ok) # log))"
  proof (rule Cons.IH)
    show "limiter_ok l' ((t, k, ok) # log)" "spaced (lm_every l') ((t, k, ok) # log)" using S Cons.prems(2) by (blast, simp)
    show "sorted (map fst evs)" using Cons.prems(3) by simp
    show "\<forall>(t', k', ok') \<in> set ((t, k, ok) # log). \<forall>u \<in> fst ` set evs. t' \<le> u"
      using Cons.prems(3,4) by (fastforce simp: ev)
  qed
  then show ?case using S by (simp add: ev a)
qed simp

text \<open>The limiter lets a caller through exactly when none of its requests was let through during the interval
  before: forced refreshes of one caller are at least the interval apart, a refused one does not prolong the wait,
  and callers do not slow each other down. (Under a clock that does not go back.)\<close>

lemma refreshes_are_spaced:
  assumes "sorted (map fst evs)" and "limit_log evs (new_limiter every) [] = later @ (t, k, ok) # earlier"
  shows "ok \<longleftrightarrow> (\<forall>(t', k', ok') \<in> set earlier. k' = k \<longrightarrow> ok' \<longrightarrow> every \<le> t - t')"
proof -
  have "spaced every (limit_log evs (new_limiter every) [])"
    using limit_log_spaced [of "new_limiter every" "[]" evs] assms(1) by (simp add: limiter_ok_def new_limiter_def)
  then have "spaced every (later @ (t, k, ok) # earlier)" by (simp only: assms(2))
  moreover have "spaced every (xs @ ys) \<Longrightarrow> spaced every ys" for xs ys by (induction xs) auto
  ultimately have "spaced every ((t, k, ok) # earlier)" by blast
  then show ?thesis by simp
qed

end
