(* ===== verification/Listings.thy ===== *)
theory Listings
  imports Hidden Folders Peers "HOL-Library.Multiset"
begin

section \<open>The dashboard's listings (catalog/status.go, catalog/stats.go, catalog/info.go)\<close>

text \<open>
  The items as the dashboard lists them: filtered by owner and by a search text, in pages; series as
  summaries of their episodes; the episodes of a series; counts per owner; and one item with every copy
  any source offers. A query that fails is a fault; \<open>ORDER BY\<close> is a stable sort of the table.
\<close>

subsection \<open>Items\<close>

record item_dto =
  it_global_id :: string
  it_name :: string
  it_media_type :: string
  it_local :: bool
  it_primary_peer_id :: string
  it_strm_path :: string
  it_path :: string
  it_series_global_id :: string
  it_series_name :: string
  it_season_number :: int
  it_episode_number :: int
  it_hidden :: bool
  it_hide_pending :: bool
  it_hidden_folder :: bool
  it_stream_peer_id :: string
  it_stream_item_id :: string

definition stream_ids :: "item_row \<Rightarrow> string \<times> string" where
  "stream_ids r =
     (if i_media_type r \<noteq> ''series'' then
        (if i_local r then (''local'', or_empty (i_local_item_id r))
         else case (i_primary_peer_id r, i_primary_item_id r) of
                (Some p, Some i) \<Rightarrow> (p, i)
              | _ \<Rightarrow> ([], []))
      else ([], []))"

definition scan_item :: "(string, int) tbl \<Rightarrow> string \<times> item_row \<Rightarrow> item_dto" where
  "scan_item hid gr =
     (let (g, r) = gr; wanted = hidden_wanted_expr hid g r
      in \<lparr>it_global_id = g, it_name = i_name r, it_media_type = i_media_type r, it_local = i_local r,
          it_primary_peer_id = or_empty (i_primary_peer_id r), it_strm_path = or_empty (i_strm_path r), it_path = i_path r,
          it_series_global_id = i_series_global_id r, it_series_name = i_series_name r,
          it_season_number = i_season_number r, it_episode_number = i_episode_number r,
          it_hidden = wanted, it_hide_pending = (wanted \<noteq> i_hidden r), it_hidden_folder = i_hidden_folder r,
          it_stream_peer_id = fst (stream_ids r), it_stream_item_id = snd (stream_ids r)\<rparr>)"

subsection \<open>Searching\<close>

fun like_escape :: "string \<Rightarrow> string" where
  "like_escape [] = []"
| "like_escape (c # cs) =
     (if c = CHR 0x5C \<or> c = CHR ''%'' \<or> c = CHR ''_'' then CHR 0x5C # c # like_escape cs else c # like_escape cs)"

definition search_pattern :: "string \<Rightarrow> string option" where
  "search_pattern q =
     (let q = trim_space q in if q = [] then None else Some (''%'' @ like_escape q @ ''%''))"

text \<open>SQLite's \<open>LIKE .. ESCAPE '\'\<close>, which ignores the case of ASCII letters.\<close>

function sql_like :: "string \<Rightarrow> string \<Rightarrow> bool" where
  "sql_like [] s \<longleftrightarrow> s = []"
| "sql_like (c # p) s \<longleftrightarrow>
     (if c = CHR ''%'' then sql_like p s \<or> (case s of [] \<Rightarrow> False | x # s' \<Rightarrow> sql_like (c # p) s')
      else if c = CHR 0x5C then
        (case p of [] \<Rightarrow> False | e # p' \<Rightarrow> (case s of [] \<Rightarrow> False | x # s' \<Rightarrow> lower_char x = lower_char e \<and> sql_like p' s'))
      else (case s of
              [] \<Rightarrow> False
            | x # s' \<Rightarrow> (c = CHR ''_'' \<or> lower_char x = lower_char c) \<and> sql_like p s'))"
  by pat_completeness auto
termination
  by (relation "measure (\<lambda>(p, s). length p + length s)") auto

subsection \<open>Paging and owners\<close>

definition default_items_limit :: int where "default_items_limit = 50"
definition max_items_limit :: int where "max_items_limit = 200"

text \<open>The parameters as the query has them; a missing one is empty.\<close>

definition parse_page_params :: "string \<Rightarrow> string \<Rightarrow> go_error + (int \<times> int)" where
  "parse_page_params limit offset =
     (let lim = (if limit = [] then Some default_items_limit
                 else case parse_int64 limit of
                        None \<Rightarrow> None
                      | Some n \<Rightarrow> if n \<le> 0 then None else Some (min n max_items_limit))
      in case lim of
           None \<Rightarrow> Inl (ErrBadRequest ''invalid limit'')
         | Some l \<Rightarrow>
             if offset = [] then Inr (l, 0)
             else (case parse_int64 offset of
                     None \<Rightarrow> Inl (ErrBadRequest ''invalid offset'')
                   | Some n \<Rightarrow> if n < 0 then Inl (ErrBadRequest ''invalid offset'') else Inr (l, n)))"

text \<open>The order of the rows of a query: SQLite sorts them by the key of \<open>ORDER BY\<close> and leaves open in which order it gives rows of equal keys, which may
  differ from one query to the next. \<open>arrange\<close> stands for what it does, and this is what it promises.\<close>

definition ordered_by :: "('a \<Rightarrow> 'k :: linorder) \<Rightarrow> ('a list \<Rightarrow> 'a list) \<Rightarrow> bool" where
  "ordered_by key arrange \<longleftrightarrow> (\<forall>rows. mset (arrange rows) = mset rows \<and> sorted (map key (arrange rows)))"

definition page_of :: "int \<Rightarrow> int \<Rightarrow> 'a list \<Rightarrow> 'a list" where
  "page_of limit offset xs = take (nat limit) (drop (nat offset) xs)"

text \<open>The condition made of the \<open>owners\<close> parameter, if there is one; a comparison with NULL is not true.\<close>

definition owner_keys :: "string \<Rightarrow> string list" where
  "owner_keys owners = filter (\<lambda>o'. o' \<noteq> []) (map trim_space (split_on CHR '','' owners))"

definition owner_filter :: "string option \<Rightarrow> item_row \<Rightarrow> bool" where
  "owner_filter owners r =
     (case owners of
        None \<Rightarrow> True
      | Some s \<Rightarrow>
          let keys = owner_keys s;
              includeLocal = ''local'' \<in> set keys;
              peerIDs = filter (\<lambda>k. k \<noteq> ''local'') keys
          in (includeLocal \<and> i_local r)
             \<or> (peerIDs \<noteq> [] \<and> \<not> i_local r \<and> (case i_primary_peer_id r of None \<Rightarrow> False | Some p \<Rightarrow> p \<in> set peerIDs)))"

record list_query =
  lq_type :: string
  lq_limit :: string
  lq_offset :: string
  lq_owners :: "string option"
  lq_q :: string

record 'i items_page =
  pg_items :: "'i list"
  pg_total :: nat
  pg_limit :: int
  pg_offset :: int

subsection \<open>Movies\<close>

definition name_matches :: "string option \<Rightarrow> string \<Rightarrow> bool" where
  "name_matches pattern name = (case pattern of None \<Rightarrow> True | Some p \<Rightarrow> sql_like p name)"

definition listed_movies :: "list_query \<Rightarrow> database \<Rightarrow> (string \<times> item_row) list" where
  "listed_movies q d =
     filter (\<lambda>(g, r). i_media_type r = ''movie'' \<and> owner_filter (lq_owners q) r \<and> name_matches (search_pattern (lq_q q)) (i_name r))
       (catalog_items d)"

type_synonym arrangement = "(string \<times> item_row) list \<Rightarrow> (string \<times> item_row) list"

definition serve_paged_movies :: "arrangement \<Rightarrow> go_error option \<Rightarrow> list_query \<Rightarrow> database \<Rightarrow> item_dto items_page response" where
  "serve_paged_movies arrange fault q d =
     (case parse_page_params (lq_limit q) (lq_offset q) of
        Inl e \<Rightarrow> HttpError 400 ''bad request''
      | Inr (limit, offset) \<Rightarrow>
          (case fault of
             Some e \<Rightarrow> HttpError 500 ''query''
           | None \<Rightarrow>
               Json 200 \<lparr>pg_items = map (scan_item (hidden_items d))
                                      (page_of limit offset (arrange (listed_movies q d))),
                         pg_total = length (listed_movies q d), pg_limit = limit, pg_offset = offset\<rparr>))"

subsection \<open>Series\<close>

record series_dto =
  sd_key :: string
  sd_name :: string
  sd_local_count :: nat
  sd_total_count :: nat
  sd_hidden :: bool
  sd_hide_pending :: bool
  sd_folder_hidden_count :: nat
  sd_hidden_folder :: bool
  sd_orphan :: bool

definition is_episode :: "item_row \<Rightarrow> bool" where
  "is_episode r \<longleftrightarrow> i_media_type r = ''episode''"

definition skey :: "string \<times> item_row \<Rightarrow> string" where
  "skey gr = series_key_expr (fst gr) (snd gr)"

text \<open>The series a search picks: those with a matching episode or series name.\<close>

definition series_matches :: "string option \<Rightarrow> (string, item_row) tbl \<Rightarrow> string \<Rightarrow> bool" where
  "series_matches pattern items k =
     (case pattern of
        None \<Rightarrow> True
      | Some p \<Rightarrow> list_ex (\<lambda>gr. is_episode (snd gr) \<and> (sql_like p (i_series_name (snd gr)) \<or> sql_like p (i_name (snd gr))) \<and> skey gr = k) items)"

definition listed_episodes :: "list_query \<Rightarrow> database \<Rightarrow> (string \<times> item_row) list" where
  "listed_episodes q d =
     filter (\<lambda>gr. is_episode (snd gr) \<and> owner_filter (lq_owners q) (snd gr)
                  \<and> series_matches (search_pattern (lq_q q)) (catalog_items d) (skey gr)) (catalog_items d)"

definition series_group :: "(string \<times> item_row) list \<Rightarrow> string \<Rightarrow> (string \<times> item_row) list" where
  "series_group rows k = filter (\<lambda>gr. skey gr = k) rows"

text \<open>\<open>COALESCE(NULLIF(MAX(series_name), ''), MIN(name))\<close>\<close>

definition series_name_expr :: "(string \<times> item_row) list \<Rightarrow> string" where
  "series_name_expr rows =
     (let m = foldr max (map (i_series_name \<circ> snd) rows) []
      in if m \<noteq> [] then m
         else (case map (i_name \<circ> snd) rows of [] \<Rightarrow> [] | n # ns \<Rightarrow> foldr min ns n))"

definition series_summary :: "(string, int) tbl \<Rightarrow> string \<Rightarrow> (string \<times> item_row) list \<Rightarrow> series_dto" where
  "series_summary hid k rows =
     (let folder = length (filter (i_hidden_folder \<circ> snd) rows);
          applied = list_ex (i_hidden \<circ> snd) rows;
          wanted = k \<in> fst ` set hid
      in \<lparr>sd_key = k, sd_name = series_name_expr rows, sd_local_count = length (filter (i_local \<circ> snd) rows),
          sd_total_count = length rows, sd_hidden = wanted, sd_hide_pending = (wanted \<noteq> applied),
          sd_folder_hidden_count = folder, sd_hidden_folder = (0 < folder \<and> folder = length rows),
          sd_orphan = list_ex (\<lambda>gr. i_series_global_id (snd gr) = [] \<and> i_series_name (snd gr) = []) rows\<rparr>)"

definition series_keys :: "(string \<times> item_row) list \<Rightarrow> string list" where
  "series_keys rows =
     sort_key (\<lambda>k. (series_name_expr (series_group rows k), k)) (remdups (map skey rows))"

definition serve_paged_series :: "go_error option \<Rightarrow> list_query \<Rightarrow> database \<Rightarrow> series_dto items_page response" where
  "serve_paged_series fault q d =
     (case parse_page_params (lq_limit q) (lq_offset q) of
        Inl e \<Rightarrow> HttpError 400 ''bad request''
      | Inr (limit, offset) \<Rightarrow>
          (case fault of
             Some e \<Rightarrow> HttpError 500 ''query''
           | None \<Rightarrow>
               let rows = listed_episodes q d; keys = series_keys rows
               in Json 200 \<lparr>pg_items = map (\<lambda>k. series_summary (hidden_items d) k (series_group rows k)) (page_of limit offset keys),
                            pg_total = length keys, pg_limit = limit, pg_offset = offset\<rparr>))"

text \<open>Here the rows come in the order of season and number.\<close>

definition series_episodes_handler :: "arrangement \<Rightarrow> go_error option \<Rightarrow> string \<Rightarrow> database \<Rightarrow> item_dto list response" where
  "series_episodes_handler arrange fault key d =
     (if key = [] then HttpError 400 ''missing key''
      else case fault of
        Some e \<Rightarrow> HttpError 500 ''query''
      | None \<Rightarrow> Json 200 (map (scan_item (hidden_items d))
                  (arrange (filter (\<lambda>gr. is_episode (snd gr) \<and> skey gr = key) (catalog_items d)))))"

subsection \<open>The listing endpoint\<close>

definition serve_all_items :: "arrangement \<Rightarrow> go_error option \<Rightarrow> database \<Rightarrow> item_dto list response" where
  "serve_all_items arrange fault d =
     (case fault of
        Some e \<Rightarrow> HttpError 500 ''query''
      | None \<Rightarrow> Json 200 (map (scan_item (hidden_items d)) (arrange (catalog_items d))))"

datatype listing = AllItems "item_dto list response" | Movies "item_dto items_page response"
  | Series "series_dto items_page response" | InvalidType

definition items_handler :: "arrangement \<Rightarrow> go_error option \<Rightarrow> list_query \<Rightarrow> database \<Rightarrow> listing" where
  "items_handler arrange fault q d =
     (if lq_type q = ''movie'' then Movies (serve_paged_movies arrange fault q d)
      else if lq_type q = ''series'' then Series (serve_paged_series fault q d)
      else if lq_type q = [] then AllItems (serve_all_items arrange fault d)
      else InvalidType)"

subsection \<open>Counts per owner\<close>

record owner_counts =
  oc_owner :: string
  oc_movies :: nat
  oc_series :: nat
  oc_episodes :: nat

definition owner_of :: "item_row \<Rightarrow> string" where
  "owner_of r = (if i_local r then ''local'' else case i_primary_peer_id r of None \<Rightarrow> ''unknown'' | Some p \<Rightarrow> p)"

text \<open>The rows of the grouped query: owner, media type, count and distinct series.\<close>

definition owner_groups :: "(string, item_row) tbl \<Rightarrow> (string \<times> string \<times> nat \<times> nat) list" where
  "owner_groups items =
     map (\<lambda>(w, m). let rows = filter (\<lambda>(g, r). owner_of r = w \<and> i_media_type r = m) items
                   in (w, m, length rows, length (remdups (map skey rows))))
       (sort (remdups (map (\<lambda>(g, r). (owner_of r, i_media_type r)) items)))"

fun count_owners :: "(string \<times> string \<times> nat \<times> nat) list \<Rightarrow> (string, owner_counts) tbl \<Rightarrow> (string, owner_counts) tbl" where
  "count_owners [] acc = acc"
| "count_owners ((w, m, n, s) # rest) acc =
     (let oc = (case map_of acc w of
                  None \<Rightarrow> \<lparr>oc_owner = w, oc_movies = 0, oc_series = 0, oc_episodes = 0\<rparr>
                | Some oc \<Rightarrow> oc);
          oc = (if m = ''movie'' then oc\<lparr>oc_movies := n\<rparr>
                else if m = ''episode'' then oc\<lparr>oc_episodes := n, oc_series := s\<rparr>
                else oc)
      in count_owners rest (tbl_upsert w oc acc))"

definition stats :: "database \<Rightarrow> owner_counts list" where
  "stats d = map snd (count_owners (owner_groups (catalog_items d)) [])"

definition stats_handler :: "go_error option \<Rightarrow> database \<Rightarrow> owner_counts list response" where
  "stats_handler fault d = (case fault of Some e \<Rightarrow> HttpError 500 ''query'' | None \<Rightarrow> Json 200 (stats d))"

subsection \<open>One item\<close>

record offer_dto =
  of_source :: string
  of_item_id :: string
  of_path :: string
  of_elected :: bool
  of_hidden :: bool
  of_excluded_folder :: bool
  of_peer_state :: string
  of_offering :: bool

record item_info =
  nf_item :: item_dto
  nf_year :: int
  nf_tmdb_id :: string
  nf_tvdb_id :: string
  nf_imdb_id :: string
  nf_offers :: "offer_dto list"

definition local_offer :: "item_dto \<Rightarrow> local_row \<Rightarrow> offer_dto" where
  "local_offer item r =
     \<lparr>of_source = ''local'', of_item_id = e_item_id (l_entry r), of_path = e_path (l_entry r), of_elected = it_local item,
      of_hidden = l_hidden r, of_excluded_folder = False, of_peer_state = [], of_offering = True\<rparr>"

definition peer_offer ::
  "int \<Rightarrow> peer list \<Rightarrow> (string \<Rightarrow> string list) \<Rightarrow> item_dto \<Rightarrow> string \<Rightarrow> entry \<Rightarrow> offer_dto" where
  "peer_offer now peers excluded item p e =
     (let known = map_of (rev (map (\<lambda>x. (p_id x, x)) peers)) p
      in \<lparr>of_source = p, of_item_id = e_item_id e, of_path = e_path e,
          of_elected = (\<not> it_local item \<and> it_primary_peer_id item = p), of_hidden = False,
          of_excluded_folder = under_any_folder (e_path e) (excluded p),
          of_peer_state = (case known of None \<Rightarrow> [] | Some x \<Rightarrow> state_name (p_state x)),
          of_offering = (case known of None \<Rightarrow> False | Some x \<Rightarrow> offering now x)\<rparr>)"

text \<open>The loop over the mirrored copies: the offers so far, and the entry the details come from.\<close>

fun add_offers ::
  "int \<Rightarrow> peer list \<Rightarrow> (string \<Rightarrow> string list) \<Rightarrow> item_dto \<Rightarrow> (string \<times> entry) list
     \<Rightarrow> offer_dto list \<times> entry option \<Rightarrow> offer_dto list \<times> entry option" where
  "add_offers now peers excluded item [] acc = acc"
| "add_offers now peers excluded item ((p, e) # rest) (offers, details) =
     (let o' = peer_offer now peers excluded item p e
      in add_offers now peers excluded item rest
           (offers @ [o'], if of_elected o' \<or> details = None then Some e else details))"

definition item_info_handler ::
  "go_error option \<Rightarrow> int \<Rightarrow> peer list \<Rightarrow> string \<Rightarrow> database \<Rightarrow> item_info response" where
  "item_info_handler fault now peers gid d =
     (if gid = [] then HttpError 400 ''missing global_id''
      else case fault of
        Some e \<Rightarrow> HttpError 500 ''query''
      | None \<Rightarrow>
          (case map_of (catalog_items d) gid of
             None \<Rightarrow> HttpError 404 ''no such item''
           | Some row \<Rightarrow>
               let item = scan_item (hidden_items d) (gid, row);
                   own = (case map_of (local_catalog d) gid of
                            None \<Rightarrow> None
                          | Some r \<Rightarrow> if l_deleted r then None else Some r);
                   excluded = excluded_folders (peer_excluded_folders d);
                   copies = sort_key fst (map (\<lambda>((p, g), r). (p, m_entry r)) (filter (\<lambda>((p, g), r). g = gid) (peer_catalog d)));
                   (offers, details) = add_offers now peers excluded item copies
                      (case own of None \<Rightarrow> ([], None) | Some r \<Rightarrow> ([local_offer item r], Some (l_entry r)));
                   offers = filter of_elected offers @ filter (\<lambda>x. \<not> of_elected x) offers
               in Json 200 (case details of
                    None \<Rightarrow> \<lparr>nf_item = item, nf_year = 0, nf_tmdb_id = [], nf_tvdb_id = [], nf_imdb_id = [], nf_offers = offers\<rparr>
                  | Some e \<Rightarrow> \<lparr>nf_item = item, nf_year = e_year e, nf_tmdb_id = e_tmdb_id e, nf_tvdb_id = e_tvdb_id e,
                               nf_imdb_id = e_imdb_id e, nf_offers = offers\<rparr>)))"

end
