(* ===== verification/ListingTheorems.thy ===== *)
theory ListingTheorems
  imports Listings
begin

section \<open>The properties of the dashboard's listings\<close>

text \<open>
  What a search finds, that the pages of a listing are the listing, that series summaries add up to their
  episodes, and the counts per owner; each property with its witness.
\<close>

subsection \<open>Searching\<close>

lemma like_percent: "sql_like (CHR ''%'' # p) s \<longleftrightarrow> (\<exists>u v. s = u @ v \<and> sql_like p v)"
proof (induction s)
  case (Cons x s)
  have "sql_like (CHR ''%'' # p) (x # s) \<longleftrightarrow> sql_like p (x # s) \<or> sql_like (CHR ''%'' # p) s" by simp
  also have "\<dots> \<longleftrightarrow> (\<exists>u v. x # s = u @ v \<and> sql_like p v)"
    unfolding Cons by (auto simp: Cons_eq_append_conv)
  finally show ?case .
qed simp

lemma peel_prefix:
  "(\<exists>u v. x # s = u @ v \<and> map f u = map f (c # q) \<and> P v) \<longleftrightarrow> f x = f c \<and> (\<exists>u v. s = u @ v \<and> map f u = map f q \<and> P v)"
proof
  assume "\<exists>u v. x # s = u @ v \<and> map f u = map f (c # q) \<and> P v"
  then obtain u v where u: "x # s = u @ v" "map f u = map f (c # q)" "P v" by blast
  then obtain y ys where "u = y # ys" by (cases u) auto
  with u show "f x = f c \<and> (\<exists>u v. s = u @ v \<and> map f u = map f q \<and> P v)" by auto
next
  assume "f x = f c \<and> (\<exists>u v. s = u @ v \<and> map f u = map f q \<and> P v)"
  then obtain u v where u: "f x = f c" "s = u @ v" "map f u = map f q" "P v" by blast
  show "\<exists>u v. x # s = u @ v \<and> map f u = map f (c # q) \<and> P v"
    by (rule exI [of _ "x # u"], rule exI [of _ v]) (simp add: u)
qed

lemma like_escaped:
  "sql_like (like_escape q @ p) s \<longleftrightarrow> (\<exists>u v. s = u @ v \<and> map lower_char u = map lower_char q \<and> sql_like p v)"
proof (induction q arbitrary: s)
  case (Cons c q)
  show ?case
  proof (cases s)
    case s: (Cons x s')
    have "sql_like (like_escape (c # q) @ p) (x # s') \<longleftrightarrow> lower_char x = lower_char c \<and> sql_like (like_escape q @ p) s'"
      by simp
    then show ?thesis unfolding s Cons.IH peel_prefix .
  qed simp
qed simp

lemma like_any: "sql_like ''%'' s"
  unfolding like_percent by (rule exI [of _ s], rule exI [of _ "[]"]) simp

text \<open>A search finds exactly the names that contain the text, the case of ASCII letters ignored: the
  characters that are special to SQL stand for themselves, and blanks around the text do not count.\<close>

lemma search_finds_substrings:
  assumes "search_pattern q = Some p"
  shows "sql_like p name \<longleftrightarrow> (\<exists>a b. map lower_char name = a @ map lower_char (trim_space q) @ b)"
proof -
  have p: "p = CHR ''%'' # like_escape (trim_space q) @ ''%''"
    using assms by (auto simp: search_pattern_def Let_def split: if_splits)
  have "sql_like p name \<longleftrightarrow> (\<exists>a u b. name = a @ u @ b \<and> map lower_char u = map lower_char (trim_space q))"
  proof -
    have "sql_like p name \<longleftrightarrow> (\<exists>a v. name = a @ v \<and> sql_like (like_escape (trim_space q) @ ''%'') v)"
      unfolding p by (rule like_percent)
    moreover have "sql_like (like_escape (trim_space q) @ ''%'') v \<longleftrightarrow> (\<exists>u b. v = u @ b \<and> map lower_char u = map lower_char (trim_space q))" for v
      by (simp only: like_escaped like_any simp_thms)
    ultimately show ?thesis by blast
  qed
  also have "\<dots> \<longleftrightarrow> (\<exists>a b. map lower_char name = a @ map lower_char (trim_space q) @ b)"
  proof
    assume "\<exists>a b. map lower_char name = a @ map lower_char (trim_space q) @ b"
    then obtain a b where "map lower_char name = a @ map lower_char (trim_space q) @ b" by blast
    then obtain a' w where w: "name = a' @ w" "map lower_char w = map lower_char (trim_space q) @ b"
      unfolding map_eq_append_conv [of _ _ a] by metis
    obtain u b' where "w = u @ b'" "map lower_char u = map lower_char (trim_space q)"
      using w(2) unfolding map_eq_append_conv [of _ _ "map lower_char (trim_space q)"] by metis
    with w(1) show "\<exists>a u b. name = a @ u @ b \<and> map lower_char u = map lower_char (trim_space q)" by blast
  qed (metis map_append)
  finally show ?thesis .
qed

subsection \<open>Pages\<close>


definition items_of :: "'i items_page response \<Rightarrow> 'i list" where
  "items_of resp = (case resp of Json _ p \<Rightarrow> pg_items p | _ \<Rightarrow> [])"

definition at_offset :: "int \<Rightarrow> list_query \<Rightarrow> list_query" where
  "at_offset n q = q\<lparr>lq_offset := fmt_int n\<rparr>"

lemma at_offset_simps [simp]:
  "lq_limit (at_offset n q) = lq_limit q"
  "listed_movies (at_offset n q) d = listed_movies q d" "listed_episodes (at_offset n q) d = listed_episodes q d"
  by (simp_all add: at_offset_def listed_movies_def listed_episodes_def)


















definition ex_listed :: "string \<Rightarrow> string \<Rightarrow> string \<Rightarrow> item_row" where
  "ex_listed kind name series = \<lparr>i_name = name, i_media_type = kind, i_local = (name = ''B''), i_local_item_id = Some ''i'',
     i_primary_peer_id = Some ''p'', i_primary_item_id = Some ''j'', i_strm_path = None, i_series_global_id = [], i_series_name = series,
     i_season_number = 1, i_episode_number = 1, i_hidden = False, i_path = ''/m'', i_hidden_folder = False, i_updated_at = 0\<rparr>"


definition ex_query :: list_query where
  "ex_query = \<lparr>lq_type = ''movie'', lq_limit = ''2'', lq_offset = [], lq_owners = None, lq_q = []\<rparr>"

lemma sort_key_ordered: "ordered_by key (sort_key key)" "ordered_by key (\<lambda>rows. sort_key key (rev rows))"
  by (simp_all add: ordered_by_def)


text \<open>Two movies of one name, a page each: SQLite may give them in one order for the first page and in the other for the second, and then one
  of them is on both pages and the other on none.\<close>

definition ex_twins :: database where
  "ex_twins = empty_db\<lparr>catalog_items := [(''m1'', ex_listed ''movie'' ''A'' []), (''m2'', ex_listed ''movie'' ''A'' [])]\<rparr>"

lemma movies_of_one_name_repeat:
  "\<exists>arrange. (\<forall>k :: nat. ordered_by (i_name \<circ> snd) (arrange k))
     \<and> map (\<lambda>k. map it_global_id (items_of (serve_paged_movies (arrange k) None (at_offset (int k) (ex_query\<lparr>lq_limit := ''1''\<rparr>)) ex_twins))) [0, 1]
         = [[''m1''], [''m1'']]"
proof (intro exI conjI)
  let ?arrange = "\<lambda>k :: nat. if k = 0 then sort_key (i_name \<circ> snd) else (\<lambda>rows. sort_key (i_name \<circ> snd) (rev rows))"
  show "\<forall>k. ordered_by (i_name \<circ> snd) (?arrange k)" by (simp add: sort_key_ordered)
  show "map (\<lambda>k. map it_global_id (items_of (serve_paged_movies (?arrange k) None (at_offset (int k) (ex_query\<lparr>lq_limit := ''1''\<rparr>)) ex_twins))) [0, 1]
      = [[''m1''], [''m1'']]"
    by code_simp
qed

subsection \<open>Series\<close>

lemma sum_groups:
  "distinct ks \<Longrightarrow> (\<And>x. x \<in> set xs \<Longrightarrow> f x \<in> set ks) \<Longrightarrow> sum_list (map (\<lambda>k. length (filter (\<lambda>x. f x = k) xs)) ks) = length xs"
proof (induction ks arbitrary: xs)
  case (Cons k ks)
  have d: "distinct ks" "k \<notin> set ks" using Cons.prems(1) by simp_all
  have "sum_list (map (\<lambda>j. length (filter (\<lambda>x. f x = j) xs)) ks)
      = sum_list (map (\<lambda>j. length (filter (\<lambda>x. f x = j) (filter (\<lambda>x. f x \<noteq> k) xs))) ks)"
  proof (rule arg_cong [where f = sum_list], rule map_cong [OF refl])
    fix j assume "j \<in> set ks"
    then have "j \<noteq> k" using d(2) by blast
    then show "length (filter (\<lambda>x. f x = j) xs) = length (filter (\<lambda>x. f x = j) (filter (\<lambda>x. f x \<noteq> k) xs))"
      by (auto intro!: arg_cong [where f = length] filter_cong)
  qed
  also have "\<dots> = length (filter (\<lambda>x. f x \<noteq> k) xs)"
    by (rule Cons.IH [OF d(1)]) (use Cons.prems(2) in auto)
  finally show ?case using sum_length_filter_compl [of "\<lambda>x. f x = k" xs] by simp
next
  case Nil
  then show ?case by (cases xs) auto
qed

definition episodes_of :: "string \<Rightarrow> database \<Rightarrow> (string \<times> item_row) list" where
  "episodes_of k d = filter (\<lambda>gr. is_episode (snd gr) \<and> skey gr = k) (catalog_items d)"

lemma listed_group:
  "k \<in> set (map skey (listed_episodes q d)) \<Longrightarrow>
     series_group (listed_episodes q d) k = filter (\<lambda>gr. owner_filter (lq_owners q) (snd gr)) (episodes_of k d)"
  by (auto simp: series_group_def listed_episodes_def episodes_of_def intro!: filter_cong)

text \<open>The series listing adds up: no series is listed twice; one is listed exactly when an owner filter and search let
  one of its episodes through; its counts are those of all its episodes the owners let through, whichever of
  them the search found, local and folder-hidden ones at most as many as all; and the counts of all series sum to
  the number of episodes listed.\<close>

lemma series_counts_add_up:
  "distinct (series_keys (listed_episodes q d))
   \<and> set (series_keys (listed_episodes q d)) = skey ` set (listed_episodes q d)
   \<and> sum_list (map (\<lambda>k. sd_total_count (series_summary (hidden_items d) k (series_group (listed_episodes q d) k)))
        (series_keys (listed_episodes q d))) = length (listed_episodes q d)
   \<and> (\<forall>k \<in> set (series_keys (listed_episodes q d)).
        let s = series_summary (hidden_items d) k (series_group (listed_episodes q d) k);
            es = filter (\<lambda>gr. owner_filter (lq_owners q) (snd gr)) (episodes_of k d)
        in sd_total_count s = length es \<and> 0 < sd_total_count s
           \<and> sd_local_count s = length (filter (i_local \<circ> snd) es) \<and> sd_local_count s \<le> sd_total_count s
           \<and> sd_folder_hidden_count s \<le> sd_total_count s
           \<and> (sd_hidden_folder s \<longleftrightarrow> (\<forall>gr \<in> set es. i_hidden_folder (snd gr))))"
proof (intro conjI ballI)
  let ?rows = "listed_episodes q d"
  show "distinct (series_keys ?rows)" by (simp add: series_keys_def)
  show set_keys: "set (series_keys ?rows) = skey ` set ?rows" by (simp add: series_keys_def)
  show "sum_list (map (\<lambda>k. sd_total_count (series_summary (hidden_items d) k (series_group ?rows k))) (series_keys ?rows)) = length ?rows"
    using sum_groups [of "series_keys ?rows" ?rows skey] set_keys
    by (simp add: series_keys_def series_summary_def series_group_def Let_def)
  fix k assume k: "k \<in> set (series_keys ?rows)"
  let ?es = "filter (\<lambda>gr. owner_filter (lq_owners q) (snd gr)) (episodes_of k d)"
  have g: "series_group ?rows k = ?es" using k set_keys by (intro listed_group) simp
  have ne: "?es \<noteq> []"
  proof -
    obtain x where "x \<in> set ?rows" "skey x = k" using k set_keys by auto
    then have "x \<in> set (series_group ?rows k)" by (simp add: series_group_def)
    then show ?thesis using g by (metis empty_iff list.set(1))
  qed
  have all: "length (filter P xs) = length xs \<longleftrightarrow> (\<forall>x \<in> set xs. P x)" for P and xs :: "(string \<times> item_row) list"
    by (metis filter_True length_filter_less less_irrefl_nat)
  have some: "length (filter P xs) \<le> length xs" for P and xs :: "(string \<times> item_row) list" by (rule length_filter_le)
  have counts: "let s = series_summary (hidden_items d) k es
        in sd_total_count s = length es \<and> 0 < sd_total_count s
           \<and> sd_local_count s = length (filter (i_local \<circ> snd) es) \<and> sd_local_count s \<le> sd_total_count s
           \<and> sd_folder_hidden_count s \<le> sd_total_count s
           \<and> (sd_hidden_folder s \<longleftrightarrow> (\<forall>gr \<in> set es. i_hidden_folder (snd gr)))" if "es \<noteq> []" for es
    using that some [of "i_local \<circ> snd" es] some [of "i_hidden_folder \<circ> snd" es] all [of "i_hidden_folder \<circ> snd" es]
    by (auto simp: series_summary_def Let_def)
  show "let s = series_summary (hidden_items d) k (series_group ?rows k); es = ?es
        in sd_total_count s = length es \<and> 0 < sd_total_count s
           \<and> sd_local_count s = length (filter (i_local \<circ> snd) es) \<and> sd_local_count s \<le> sd_total_count s
           \<and> sd_folder_hidden_count s \<le> sd_total_count s
           \<and> (sd_hidden_folder s \<longleftrightarrow> (\<forall>gr \<in> set es. i_hidden_folder (snd gr)))"
    using counts [OF ne] unfolding g Let_def .
qed

subsection \<open>Counts per owner\<close>

abbreviation gkey :: "string \<times> string \<times> nat \<times> nat \<Rightarrow> string \<times> string" where
  "gkey g \<equiv> (fst g, fst (snd g))"

definition kind_count :: "string \<Rightarrow> string \<Rightarrow> (string \<times> string \<times> nat \<times> nat) list \<Rightarrow> nat \<times> nat" where
  "kind_count w m gs = (case map_of (map (\<lambda>g. (gkey g, snd (snd g))) gs) (w, m) of None \<Rightarrow> (0, 0) | Some x \<Rightarrow> x)"

definition count_row :: "owner_counts \<Rightarrow> string \<times> string \<times> nat \<times> nat \<Rightarrow> owner_counts" where
  "count_row oc g =
     (if fst (snd g) = ''movie'' then oc\<lparr>oc_movies := fst (snd (snd g))\<rparr>
      else if fst (snd g) = ''episode'' then oc\<lparr>oc_episodes := fst (snd (snd g)), oc_series := snd (snd (snd g))\<rparr>
      else oc)"

lemma count_row_fields:
  "oc_owner (count_row oc g) = oc_owner oc"
  "oc_movies (count_row oc g) = (if fst (snd g) = ''movie'' then fst (snd (snd g)) else oc_movies oc)"
  "oc_episodes (count_row oc g) = (if fst (snd g) = ''episode'' then fst (snd (snd g)) else oc_episodes oc)"
  "oc_series (count_row oc g) = (if fst (snd g) = ''episode'' then snd (snd (snd g)) else oc_series oc)"
  by (simp_all add: count_row_def)

definition counts_from :: "string \<Rightarrow> owner_counts option \<Rightarrow> owner_counts" where
  "counts_from w acc = (case acc of None \<Rightarrow> \<lparr>oc_owner = w, oc_movies = 0, oc_series = 0, oc_episodes = 0\<rparr> | Some oc \<Rightarrow> oc)"

lemma counts_from_Some [simp]: "counts_from w (Some oc) = oc"
  by (simp add: counts_from_def)

lemma count_owners_step:
  "count_owners (g # gs) acc = count_owners gs (tbl_upsert (fst g) (count_row (counts_from (fst g) (map_of acc (fst g))) g) acc)"
  by (cases g) (simp add: count_row_def counts_from_def Let_def)

lemma count_owners_keyed: "keyed acc \<Longrightarrow> keyed (count_owners gs acc)"
proof (induction gs arbitrary: acc)
  case (Cons g gs)
  show ?case unfolding count_owners_step by (rule Cons.IH) (simp add: Cons.prems)
qed simp

lemma count_owners_lookup:
  "map_of (count_owners gs acc) w =
     (if w \<in> fst ` set gs then Some (foldl count_row (counts_from w (map_of acc w)) (filter (\<lambda>g. fst g = w) gs)) else map_of acc w)"
proof (induction gs arbitrary: acc)
  case (Cons g gs)
  show ?case
  proof (cases "w \<in> fst ` set gs")
    case False
    then have "filter (\<lambda>g. fst g = w) gs = []" by (force simp: filter_empty_conv)
    with False show ?thesis unfolding count_owners_step Cons.IH by auto
  qed (auto simp: count_owners_step Cons.IH)
qed simp

lemma foldl_count_row:
  "distinct (map (\<lambda>g. fst (snd g)) gs) \<Longrightarrow>
     oc_owner (foldl count_row oc gs) = oc_owner oc
   \<and> oc_movies (foldl count_row oc gs) = (case map_of (map snd gs) ''movie'' of None \<Rightarrow> oc_movies oc | Some x \<Rightarrow> fst x)
   \<and> oc_episodes (foldl count_row oc gs) = (case map_of (map snd gs) ''episode'' of None \<Rightarrow> oc_episodes oc | Some x \<Rightarrow> fst x)
   \<and> oc_series (foldl count_row oc gs) = (case map_of (map snd gs) ''episode'' of None \<Rightarrow> oc_series oc | Some x \<Rightarrow> snd x)"
proof (induction gs arbitrary: oc)
  case (Cons g gs)
  have d: "distinct (map (\<lambda>g. fst (snd g)) gs)" and n: "map_of (map snd gs) (fst (snd g)) = None"
    using Cons.prems by (simp_all add: map_of_eq_None_iff image_image)
  show ?case
    unfolding foldl.simps using Cons.IH [OF d, of "count_row oc g"] n
    by (cases "fst (snd g) = ''movie''"; cases "fst (snd g) = ''episode''") (simp_all add: count_row_fields cong: option.case_cong split: option.split)
qed simp

lemma lookup_kind:
  "map_of (map snd (filter (\<lambda>g. fst g = w) gs)) m = map_of (map (\<lambda>g. (gkey g, snd (snd g))) gs) (w, m)"
  by (induction gs) auto

lemma count_owners_spec:
  assumes "distinct (map gkey gs)"
  shows "map_of (count_owners gs []) w =
    (if w \<in> fst ` set gs
     then Some \<lparr>oc_owner = w, oc_movies = fst (kind_count w ''movie'' gs), oc_series = snd (kind_count w ''episode'' gs),
                oc_episodes = fst (kind_count w ''episode'' gs)\<rparr>
     else None)"
proof -
  have "distinct (map (\<lambda>g. fst (snd g)) (filter (\<lambda>g. fst g = w) gs))"
    using assms by (induction gs) (simp, force simp: image_iff)
  note F = foldl_count_row [OF this, of "counts_from w None", unfolded lookup_kind]
  have "foldl count_row (counts_from w None) (filter (\<lambda>g. fst g = w) gs) =
    \<lparr>oc_owner = w, oc_movies = fst (kind_count w ''movie'' gs), oc_series = snd (kind_count w ''episode'' gs),
      oc_episodes = fst (kind_count w ''episode'' gs)\<rparr>"
    by (rule owner_counts.equality) (use F in \<open>simp_all add: counts_from_def kind_count_def split: option.splits\<close>)
  then show ?thesis by (simp add: count_owners_lookup)
qed

lemma owner_groups_keys:
  "map gkey (owner_groups items) = sort (remdups (map (\<lambda>(g, r). (owner_of r, i_media_type r)) items))"
proof -
  have "map gkey (map (\<lambda>(w, m). let rows = f w m in (w, m, length rows, length (remdups (map skey rows)))) ps) = ps"
    for f :: "string \<Rightarrow> string \<Rightarrow> (string \<times> item_row) list" and ps :: "(string \<times> string) list"
    by (induction ps) (auto simp: Let_def)
  then show ?thesis by (simp only: owner_groups_def)
qed

definition owned :: "string \<Rightarrow> string \<Rightarrow> (string, item_row) tbl \<Rightarrow> (string \<times> item_row) list" where
  "owned w m items = filter (\<lambda>(g, r). owner_of r = w \<and> i_media_type r = m) items"

lemma owner_groups_count:
  "kind_count w m (owner_groups items) = (length (owned w m items), length (remdups (map skey (owned w m items))))"
proof -
  let ?ps = "sort (remdups (map (\<lambda>(g, r). (owner_of r, i_media_type r)) items))"
  have e: "map (\<lambda>g. (gkey g, snd (snd g))) (owner_groups items)
      = map (\<lambda>p. (p, (length (owned (fst p) (snd p) items), length (remdups (map skey (owned (fst p) (snd p) items)))))) ?ps"
    by (simp add: owner_groups_def owned_def Let_def case_prod_unfold comp_def)
  have "map_of (map (\<lambda>p. (p, h p)) ps) p = (if p \<in> set ps then Some (h p) else None)" for h :: "string \<times> string \<Rightarrow> nat \<times> nat" and ps p
    by (induction ps) auto
  then have k: "kind_count w m (owner_groups items) = (if (w, m) \<in> set ?ps
      then (length (owned w m items), length (remdups (map skey (owned w m items)))) else (0, 0))"
    unfolding kind_count_def e by simp
  have "owned w m items = [] \<longleftrightarrow> (w, m) \<notin> set ?ps" by (force simp: owned_def filter_empty_conv)
  then show ?thesis unfolding k by auto
qed

text \<open>The counts per owner are right: each owner of an item is listed exactly once, with the number of its movies
  and of its episodes, and the number of different series these episodes belong to.\<close>

lemma stats_count_owners:
  "distinct (map oc_owner (stats d)) \<and> oc_owner ` set (stats d) = owner_of ` snd ` set (catalog_items d)
   \<and> (\<forall>oc \<in> set (stats d). oc_movies oc = length (owned (oc_owner oc) ''movie'' (catalog_items d))
        \<and> oc_episodes oc = length (owned (oc_owner oc) ''episode'' (catalog_items d))
        \<and> oc_series oc = card (skey ` set (owned (oc_owner oc) ''episode'' (catalog_items d))))"
proof -
  let ?gs = "owner_groups (catalog_items d)" and ?t = "count_owners (owner_groups (catalog_items d)) []"
  have dg: "distinct (map gkey ?gs)" by (simp add: owner_groups_keys)
  note S = count_owners_spec [OF dg]
  have k: "keyed ?t" by (rule count_owners_keyed [OF keyed_Nil])
  have entry: "oc = \<lparr>oc_owner = w, oc_movies = fst (kind_count w ''movie'' ?gs), oc_series = snd (kind_count w ''episode'' ?gs),
                oc_episodes = fst (kind_count w ''episode'' ?gs)\<rparr>" if "(w, oc) \<in> set ?t" for w oc
  proof -
    have "map_of ?t w = Some oc" using that keyed_map_of_eq [OF k] by blast
    then show ?thesis unfolding S by (simp split: if_splits)
  qed
  have names: "map oc_owner (stats d) = map fst ?t"
    unfolding stats_def map_map by (rule map_cong [OF refl]) (use entry in force)
  have "distinct (map oc_owner (stats d))" unfolding names using k by (simp add: keyed_def)
  moreover have "oc_owner ` set (stats d) = owner_of ` snd ` set (catalog_items d)"
  proof -
    have "oc_owner ` set (stats d) = fst ` set ?t" using names by (metis set_map)
    also have "\<dots> = fst ` set ?gs"
    proof (intro set_eqI)
      fix w
      have "w \<in> fst ` set ?t \<longleftrightarrow> map_of ?t w \<noteq> None" by (simp add: map_of_eq_None_iff)
      then show "w \<in> fst ` set ?t \<longleftrightarrow> w \<in> fst ` set ?gs" unfolding S by (simp split: if_splits)
    qed
    also have "\<dots> = fst ` set (map gkey ?gs)" by (simp add: image_image)
    also have "\<dots> = owner_of ` snd ` set (catalog_items d)"
      unfolding owner_groups_keys by (simp add: image_image case_prod_unfold)
    finally show ?thesis .
  qed
  moreover have "oc_movies oc = length (owned (oc_owner oc) ''movie'' (catalog_items d))
        \<and> oc_episodes oc = length (owned (oc_owner oc) ''episode'' (catalog_items d))
        \<and> oc_series oc = card (skey ` set (owned (oc_owner oc) ''episode'' (catalog_items d)))" if oc: "oc \<in> set (stats d)" for oc
  proof -
    obtain w where w: "(w, oc) \<in> set ?t" using oc unfolding stats_def by force
    show ?thesis unfolding entry [OF w] owner_groups_count by (simp add: length_remdups_card_conv)
  qed
  ultimately show ?thesis by blast
qed

end
