(* ===== verification/Config.thy ===== *)
theory Config
  imports Int64 Pairing
begin

section \<open>Configuration and settings (config.go, logging.go, settings.go, settings/http.go)\<close>

text \<open>
  The configuration from the environment, in the order \<open>Load\<close> checks it; and the one setting the
  dashboard can change, the sync interval, in the \<open>settings\<close> table. The environment is a function with
  the empty string for a variable that is not set; the URL parser is an argument, as in Pairing.
  Messages are kept without the values \<open>%q\<close> quotes.
\<close>

subsection \<open>Parsing\<close>

text \<open>\<open>strings.ToUpper\<close>, exact where the code compares the result with an ASCII word: ASCII letters, and
  the two non-ASCII letters whose upper case is ASCII (U+0131, the i without dot, and U+017F, the long s).\<close>

definition upper_char :: "char \<Rightarrow> char" where
  "upper_char c = (if CHR ''a'' \<le> c \<and> c \<le> CHR ''z'' then char_of (of_char c - 32 :: nat) else c)"

fun to_upper :: "string \<Rightarrow> string" where
  "to_upper [] = []"
| "to_upper (a # s) =
     (case s of
        b # s' \<Rightarrow>
          (if a = CHR 0xC4 \<and> b = CHR 0xB1 then CHR ''I'' # to_upper s'
           else if a = CHR 0xC5 \<and> b = CHR 0xBF then CHR ''S'' # to_upper s'
           else upper_char a # to_upper s)
      | [] \<Rightarrow> [upper_char a])"

definition level_debug :: int where "level_debug = -4"
definition level_info :: int where "level_info = 0"
definition level_warn :: int where "level_warn = 4"
definition level_error :: int where "level_error = 8"
definition default_level :: int where "default_level = level_debug"

definition parse_level :: "string \<Rightarrow> go_error + int" where
  "parse_level s =
     (let u = to_upper (trim_space s)
      in if u = [] then Inr default_level
         else if u = ''DEBUG'' then Inr level_debug
         else if u = ''INFO'' then Inr level_info
         else if u = ''WARN'' \<or> u = ''WARNING'' then Inr level_warn
         else if u = ''ERROR'' then Inr level_error
         else Inl (ErrMsg ''LOG_LEVEL: unknown level''))"

text \<open>\<open>strconv.ParseBool\<close>\<close>

definition parse_bool :: "string \<Rightarrow> bool option" where
  "parse_bool s =
     (if s \<in> {''1'', ''t'', ''T'', ''TRUE'', ''true'', ''True''} then Some True
      else if s \<in> {''0'', ''f'', ''F'', ''FALSE'', ''false'', ''False''} then Some False
      else None)"

definition env_or :: "(string \<Rightarrow> string) \<Rightarrow> string \<Rightarrow> string \<Rightarrow> string" where
  "env_or env k def = (if env k \<noteq> [] then env k else def)"

definition env_bool_or :: "(string \<Rightarrow> string) \<Rightarrow> string \<Rightarrow> bool \<Rightarrow> go_error + bool" where
  "env_bool_or env k def =
     (if env k = [] then Inr def
      else case parse_bool (env k) of None \<Rightarrow> Inl (ErrMsg (k @ '': invalid boolean'')) | Some b \<Rightarrow> Inr b)"

definition env_int_or :: "(string \<Rightarrow> string) \<Rightarrow> string \<Rightarrow> int \<Rightarrow> go_error + int" where
  "env_int_or env k def =
     (if env k = [] then Inr def
      else case parse_int64 (env k) of None \<Rightarrow> Inl (ErrMsg (k @ '': invalid integer'')) | Some n \<Rightarrow> Inr n)"

fun peer_entries :: "string list \<Rightarrow> go_error + (string \<times> string) list" where
  "peer_entries [] = Inr []"
| "peer_entries (e # es) =
     (let e = trim_space e
      in if e = [] then peer_entries es
         else let (i, url, ok) = cut_at CHR ''='' e
              in if \<not> ok \<or> i = [] \<or> url = [] then Inl (ErrMsg ''PEERS: invalid entry, expected id=url'')
                 else (case peer_entries es of Inl err \<Rightarrow> Inl err | Inr ps \<Rightarrow> Inr ((i, url) # ps)))"

definition parse_peers :: "string \<Rightarrow> go_error + (string \<times> string) list" where
  "parse_peers raw =
     (let raw = trim_space raw in if raw = [] then Inr [] else peer_entries (split_on CHR '','' raw))"

subsection \<open>Load\<close>

definition default_stream_buffer_kb :: int where "default_stream_buffer_kb = 256"
definition default_jellyfin_timeout_sec :: int where "default_jellyfin_timeout_sec = 240"
definition default_peer_fetch_timeout_sec :: int where "default_peer_fetch_timeout_sec = 60"

record config =
  cf_node_id :: string
  cf_listen_addr :: string
  cf_peer_listen_addr :: string
  cf_http_peers :: bool
  cf_mtls_peers :: bool
  cf_public_url :: string
  cf_db_path :: string
  cf_jellyfin_url :: string
  cf_jellyfin_key :: string
  cf_output_dir :: string
  cf_base_url :: string
  cf_peers :: "(string \<times> string) list"
  cf_stream_buffer_kb :: int
  cf_jellyfin_timeout :: int
  cf_peer_fetch_timeout :: int
  cf_log_level :: int

text \<open>An integer that has to be positive: the three steps that read one.\<close>

definition positive_int :: "(string \<Rightarrow> string) \<Rightarrow> string \<Rightarrow> int \<Rightarrow> go_error + int" where
  "positive_int env k def =
     (case env_int_or env k def of
        Inl e \<Rightarrow> Inl e
      | Inr n \<Rightarrow> if n \<le> 0 then Inl (ErrMsg (k @ '' must be positive, got '' @ fmt_int n)) else Inr n)"

definition missing :: "(string \<Rightarrow> string) \<Rightarrow> string option" where
  "missing env = find (\<lambda>k. env k = []) [''NODE_ID'', ''JELLYFIN_URL'', ''JELLYFIN_API_KEY'', ''OUTPUT_DIR'', ''BASE_URL'']"

definition public_url :: "(string \<Rightarrow> url option) \<Rightarrow> string \<Rightarrow> go_error + string" where
  "public_url parse raw =
     (if raw = [] then Inr []
      else case canonical_url parse raw of Inl e \<Rightarrow> Inl (ErrMsg ''PUBLIC_URL'') | Inr u \<Rightarrow> Inr u)"

definition load_config :: "(string \<Rightarrow> url option) \<Rightarrow> (string \<Rightarrow> string) \<Rightarrow> go_error + config" where
  "load_config parse env =
     (case parse_peers (env ''PEERS'') of
        Inl e \<Rightarrow> Inl e
      | Inr ps \<Rightarrow>
     (case positive_int env ''STREAM_BUFFER_KB'' default_stream_buffer_kb of
        Inl e \<Rightarrow> Inl e
      | Inr bufferKB \<Rightarrow>
     (case positive_int env ''JELLYFIN_TIMEOUT_SEC'' default_jellyfin_timeout_sec of
        Inl e \<Rightarrow> Inl e
      | Inr jellyfinSec \<Rightarrow>
     (case positive_int env ''PEER_FETCH_TIMEOUT_SEC'' default_peer_fetch_timeout_sec of
        Inl e \<Rightarrow> Inl e
      | Inr fetchSec \<Rightarrow>
     (case env_bool_or env ''HTTP_PEERS'' True of
        Inl e \<Rightarrow> Inl e
      | Inr httpPeers \<Rightarrow>
     (case env_bool_or env ''MTLS_PEERS'' False of
        Inl e \<Rightarrow> Inl e
      | Inr mtlsPeers \<Rightarrow>
     (case parse_level (env ''LOG_LEVEL'') of
        Inl e \<Rightarrow> Inl e
      | Inr level \<Rightarrow>
     (case missing env of
        Some k \<Rightarrow> Inl (ErrMsg (k @ '' is required''))
      | None \<Rightarrow>
     (case public_url parse (env ''PUBLIC_URL'') of
        Inl e \<Rightarrow> Inl e
      | Inr publicURL \<Rightarrow>
          Inr \<lparr>cf_node_id = env ''NODE_ID'', cf_listen_addr = '':8080'', cf_peer_listen_addr = '':8443'',
               cf_http_peers = httpPeers, cf_mtls_peers = mtlsPeers, cf_public_url = publicURL,
               cf_db_path = env_or env ''DB_PATH'' ''./data/jellysync.db'',
               cf_jellyfin_url = env ''JELLYFIN_URL'', cf_jellyfin_key = env ''JELLYFIN_API_KEY'',
               cf_output_dir = env ''OUTPUT_DIR'', cf_base_url = env ''BASE_URL'', cf_peers = ps,
               cf_stream_buffer_kb = bufferKB, cf_jellyfin_timeout = wrap64 (jellyfinSec * second),
               cf_peer_fetch_timeout = wrap64 (fetchSec * second), cf_log_level = level\<rparr>)))))))))"

subsection \<open>The sync interval\<close>

definition sync_interval_key :: string where "sync_interval_key = ''sync_interval_seconds''"
definition default_sync_interval :: int where "default_sync_interval = 2 * 3600 * second"

definition get_sync_interval :: "go_error option \<Rightarrow> database \<Rightarrow> go_error + int" where
  "get_sync_interval fault d =
     (case fault of
        Some e \<Rightarrow> Inl (ErrDb ''reading sync interval'')
      | None \<Rightarrow>
          (case map_of (settings_tbl d) sync_interval_key of
             None \<Rightarrow> Inr default_sync_interval
           | Some v \<Rightarrow> (case parse_int64 v of
                          None \<Rightarrow> Inl (ErrMsg ''parsing sync interval'')
                        | Some n \<Rightarrow> Inr (wrap64 (n * second)))))"

definition set_sync_interval :: "go_error option \<Rightarrow> database \<Rightarrow> int \<Rightarrow> (go_error + unit) \<times> database" where
  "set_sync_interval fault d n =
     (if n \<le> 0 then (Inl (ErrMsg ''sync interval must be positive''), d)
      else case fault of
        Some e \<Rightarrow> (Inl (ErrDb ''saving sync interval''), d)
      | None \<Rightarrow> (Inr (), d\<lparr>settings_tbl := tbl_upsert sync_interval_key (fmt_int (duration_seconds n)) (settings_tbl d)\<rparr>))"

text \<open>The bodies hold the number of seconds; a body that does not decode is \<open>None\<close>.\<close>

definition get_settings_handler :: "go_error option \<Rightarrow> database \<Rightarrow> int response" where
  "get_settings_handler fault d =
     (case get_sync_interval fault d of
        Inl e \<Rightarrow> HttpError 500 ''reading sync interval''
      | Inr n \<Rightarrow> Json 200 (duration_seconds n))"

definition put_settings_handler :: "go_error option \<Rightarrow> int option \<Rightarrow> database \<Rightarrow> int response \<times> database" where
  "put_settings_handler fault body d =
     (case body of
        None \<Rightarrow> (HttpError 400 ''invalid body'', d)
      | Some seconds \<Rightarrow>
          if seconds \<le> 0 then (HttpError 400 ''sync_interval_seconds must be positive'', d)
          else (case set_sync_interval fault d (wrap64 (seconds * second)) of
                  (Inl e, d) \<Rightarrow> (HttpError 500 ''saving sync interval'', d)
                | (Inr _, d) \<Rightarrow> (Status 204, d)))"

text \<open>The interval the loop of \<open>runSyncAndReconcileLoop\<close> waits for: the default when it cannot be read.\<close>

definition loop_interval :: "go_error option \<Rightarrow> database \<Rightarrow> int" where
  "loop_interval fault d = (case get_sync_interval fault d of Inl e \<Rightarrow> default_sync_interval | Inr n \<Rightarrow> n)"

end
