(* ===== verification/ConfigTheorems.thy ===== *)
theory ConfigTheorems
  imports Config
begin

section \<open>The properties of configuration and settings\<close>

text \<open>
  The peers of \<open>PEERS\<close> are read back as they were written; a configuration that loads is well formed; and
  the sync interval that is set is the one the loop waits for, within the range of a duration.
\<close>

subsection \<open>Peers\<close>

text \<open>The characters of ids and URLs: ASCII, neither a blank nor a control character.\<close>

definition visible :: "char \<Rightarrow> bool" where
  "visible c \<longleftrightarrow> 33 \<le> (of_char c :: nat) \<and> (of_char c :: nat) \<le> 126"

lemma space_seqs_invisible:
  "\<forall>p \<in> set (space_seqs @ map rev space_seqs). p \<noteq> [] \<and> \<not> visible (hd p)"
  by code_simp

lemma no_space_prefix:
  assumes "s = [] \<or> visible (hd s)" and "set ps \<subseteq> set (space_seqs @ map rev space_seqs)"
  shows "drop_spaces ps s = s"
proof -
  have "\<not> has_prefix p s" if "p \<in> set ps" for p
  proof
    assume pre: "has_prefix p s"
    have "p \<noteq> []" "\<not> visible (hd p)" using space_seqs_invisible assms(2) that by blast+
    moreover from pre \<open>p \<noteq> []\<close> have "s \<noteq> []" "hd s = hd p"
      by (cases p; cases s; simp add: has_prefix_def)+
    ultimately show False using assms(1) by simp
  qed
  then have "starting ps s = None" by (auto simp: starting_def find_None_iff)
  then show ?thesis by (subst drop_spaces.simps) simp
qed

lemma trim_visible: "(\<And>c. c \<in> set s \<Longrightarrow> visible c) \<Longrightarrow> trim_space s = s"
proof -
  assume v: "\<And>c. c \<in> set s \<Longrightarrow> visible c"
  have "drop_spaces space_seqs s = s"
    by (rule no_space_prefix) (use v hd_in_set in \<open>auto\<close>)
  moreover have "drop_spaces (map rev space_seqs) (rev s) = rev s"
    by (rule no_space_prefix) (use v last_in_set in \<open>auto simp: hd_rev\<close>)
  ultimately show ?thesis by (simp add: trim_space_def)
qed

definition peer_entry :: "string \<times> string \<Rightarrow> string" where
  "peer_entry p = fst p @ ''='' @ snd p"

definition peer_ok :: "string \<times> string \<Rightarrow> bool" where
  "peer_ok p \<longleftrightarrow> fst p \<noteq> [] \<and> snd p \<noteq> [] \<and> CHR ''='' \<notin> set (fst p) \<and> CHR '','' \<notin> set (fst p) \<union> set (snd p)
     \<and> (\<forall>c \<in> set (fst p) \<union> set (snd p). visible c)"

lemma visible_signs [simp]: "visible CHR ''=''" "visible CHR '',''"
  by (simp_all add: visible_def)

lemma peer_entry_visible: "peer_ok p \<Longrightarrow> c \<in> set (peer_entry p) \<Longrightarrow> visible c"
  by (auto simp: peer_ok_def peer_entry_def)

lemma cut_entry: "peer_ok p \<Longrightarrow> cut_at CHR ''='' (peer_entry p) = (fst p, snd p, True)"
proof -
  assume p: "peer_ok p"
  then have "takeWhile (\<lambda>c. c \<noteq> CHR ''='') (fst p @ CHR ''='' # snd p) = fst p"
    "dropWhile (\<lambda>c. c \<noteq> CHR ''='') (fst p @ CHR ''='' # snd p) = CHR ''='' # snd p"
    by (auto simp: peer_ok_def takeWhile_tail dropWhile_append3 intro!: takeWhile_append2 [THEN trans] dropWhile_append2 [THEN trans])
  then show ?thesis by (simp add: cut_at_def peer_entry_def)
qed

lemma peer_entries_ok: "\<forall>p \<in> set ps. peer_ok p \<Longrightarrow> peer_entries (map peer_entry ps) = Inr ps"
proof (induction ps)
  case (Cons p ps)
  have ok: "peer_ok p" using Cons.prems by simp
  have t: "trim_space (peer_entry p) = peer_entry p" by (rule trim_visible) (rule peer_entry_visible [OF ok])
  have "peer_entry p \<noteq> []" by (simp add: peer_entry_def)
  moreover have "fst p \<noteq> []" "snd p \<noteq> []" using ok by (simp_all add: peer_ok_def)
  ultimately show ?case using Cons by (simp add: t cut_entry [OF ok] Let_def)
qed simp

lemma set_join_with: "set (join_with sep ws) \<subseteq> set sep \<union> \<Union> (set ` set ws)"
  by (induction sep ws rule: join_with.induct) auto

text \<open>A list of peers written as \<open>PEERS\<close> documents it, \<open>id=url\<close> entries separated by commas, is read back
  as it is, in order and with repetitions.\<close>

lemma parse_peers_roundtrip:
  assumes "\<forall>p \<in> set ps. peer_ok p"
  shows "parse_peers (join_with '','' (map peer_entry ps)) = Inr ps"
proof (cases "ps = []")
  case False
  let ?raw = "join_with '','' (map peer_entry ps)"
  have "visible c" if "c \<in> set ?raw" for c
  proof -
    from that set_join_with [of "'',''" "map peer_entry ps"]
    have "c = CHR '','' \<or> (\<exists>p \<in> set ps. c \<in> set (peer_entry p))" by auto
    then show ?thesis using assms peer_entry_visible visible_signs(2) by blast
  qed
  then have t: "trim_space ?raw = ?raw" by (rule trim_visible)
  have "CHR '','' \<notin> set (peer_entry p)" if "p \<in> set ps" for p
    using assms that by (auto simp: peer_ok_def peer_entry_def)
  then have sp: "split_on CHR '','' ?raw = map peer_entry ps" using False by (intro split_join) auto
  have "peer_entries (split_on CHR '','' ?raw) = Inr ps" unfolding sp by (rule peer_entries_ok [OF assms])
  moreover have "?raw \<noteq> []"
  proof
    assume "?raw = []"
    with sp have "map peer_entry ps = [[]]" by simp
    then show False by (auto simp: peer_entry_def)
  qed
  ultimately show ?thesis by (simp add: parse_peers_def t)
next
  case True
  have "trim_space [] = []" by (rule trim_visible) simp
  with True show ?thesis by (simp add: parse_peers_def)
qed

subsection \<open>A configuration that loads\<close>

lemma peer_entries_sound:
  "peer_entries es = Inr ps \<Longrightarrow> p \<in> set ps \<Longrightarrow> fst p \<noteq> [] \<and> snd p \<noteq> [] \<and> CHR ''='' \<notin> set (fst p)"
proof (induction es arbitrary: ps)
  case (Cons e es)
  show ?case
  proof (cases "trim_space e = []")
    case True
    with Cons show ?thesis by simp
  next
    case False
    obtain i u ok where c: "cut_at CHR ''='' (trim_space e) = (i, u, ok)" by (metis prod_cases3)
    have sep: "CHR ''='' \<notin> set i" if "ok"
      using c that by (auto simp: cut_at_def dest: set_takeWhileD split: list.splits)
    have "ok" "i \<noteq> []" "u \<noteq> []" using Cons.prems(1) False c by (simp_all add: Let_def split: if_splits)
    moreover from this obtain qs where "peer_entries es = Inr qs" "ps = (i, u) # qs"
      using Cons.prems(1) False c by (auto simp: Let_def split: sum.splits)
    ultimately show ?thesis using Cons.IH Cons.prems(2) sep by auto
  qed
qed simp

definition config_ok :: "config \<Rightarrow> bool" where
  "config_ok c \<longleftrightarrow>
     cf_node_id c \<noteq> [] \<and> cf_jellyfin_url c \<noteq> [] \<and> cf_jellyfin_key c \<noteq> [] \<and> cf_output_dir c \<noteq> [] \<and> cf_base_url c \<noteq> []
     \<and> cf_db_path c \<noteq> [] \<and> cf_listen_addr c \<noteq> cf_peer_listen_addr c
     \<and> 0 < cf_stream_buffer_kb c
     \<and> (\<forall>p \<in> set (cf_peers c). fst p \<noteq> [] \<and> snd p \<noteq> [] \<and> CHR ''='' \<notin> set (fst p))
     \<and> (cf_public_url c = [] \<or> has_prefix ''https://'' (cf_public_url c))
     \<and> cf_log_level c \<in> {level_debug, level_info, level_warn, level_error}"

lemma parse_level_range: "parse_level s = Inr l \<Longrightarrow> l \<in> {level_debug, level_info, level_warn, level_error}"
  by (auto simp: parse_level_def default_level_def Let_def split: if_splits)

lemma positive_int_pos: "positive_int env k def = Inr n \<Longrightarrow> 0 < n"
  by (auto simp: positive_int_def split: sum.splits if_splits)

lemma public_url_prefix: "public_url parse raw = Inr u \<Longrightarrow> u = [] \<or> has_prefix ''https://'' u"
  by (auto simp: public_url_def canonical_url_def has_prefix_def Let_def split: if_splits sum.splits option.splits)

lemma load_config_steps:
  assumes "load_config parse env = Inr c"
  obtains ps kb js fs h m l u where
    "parse_peers (env ''PEERS'') = Inr ps" "positive_int env ''STREAM_BUFFER_KB'' default_stream_buffer_kb = Inr kb"
    "positive_int env ''JELLYFIN_TIMEOUT_SEC'' default_jellyfin_timeout_sec = Inr js"
    "positive_int env ''PEER_FETCH_TIMEOUT_SEC'' default_peer_fetch_timeout_sec = Inr fs"
    "env_bool_or env ''HTTP_PEERS'' True = Inr h" "env_bool_or env ''MTLS_PEERS'' False = Inr m"
    "parse_level (env ''LOG_LEVEL'') = Inr l" "missing env = None" "public_url parse (env ''PUBLIC_URL'') = Inr u"
    "c = \<lparr>cf_node_id = env ''NODE_ID'', cf_listen_addr = '':8080'', cf_peer_listen_addr = '':8443'',
       cf_http_peers = h, cf_mtls_peers = m, cf_public_url = u, cf_db_path = env_or env ''DB_PATH'' ''./data/jellysync.db'',
       cf_jellyfin_url = env ''JELLYFIN_URL'', cf_jellyfin_key = env ''JELLYFIN_API_KEY'',
       cf_output_dir = env ''OUTPUT_DIR'', cf_base_url = env ''BASE_URL'', cf_peers = ps, cf_stream_buffer_kb = kb,
       cf_jellyfin_timeout = wrap64 (js * second), cf_peer_fetch_timeout = wrap64 (fs * second), cf_log_level = l\<rparr>"
  using assms unfolding load_config_def
  by (simp split: sum.splits option.splits)

lemma load_config_ok:
  assumes "load_config parse env = Inr c"
  shows "config_ok c"
proof -
  from assms obtain ps kb js fs h m l u where
    ps: "parse_peers (env ''PEERS'') = Inr ps" and kb: "positive_int env ''STREAM_BUFFER_KB'' default_stream_buffer_kb = Inr kb"
    and js: "positive_int env ''JELLYFIN_TIMEOUT_SEC'' default_jellyfin_timeout_sec = Inr js"
    and fs: "positive_int env ''PEER_FETCH_TIMEOUT_SEC'' default_peer_fetch_timeout_sec = Inr fs"
    and l: "parse_level (env ''LOG_LEVEL'') = Inr l" and miss: "missing env = None"
    and u: "public_url parse (env ''PUBLIC_URL'') = Inr u"
    and c: "c = \<lparr>cf_node_id = env ''NODE_ID'', cf_listen_addr = '':8080'', cf_peer_listen_addr = '':8443'',
       cf_http_peers = h, cf_mtls_peers = m, cf_public_url = u, cf_db_path = env_or env ''DB_PATH'' ''./data/jellysync.db'',
       cf_jellyfin_url = env ''JELLYFIN_URL'', cf_jellyfin_key = env ''JELLYFIN_API_KEY'',
       cf_output_dir = env ''OUTPUT_DIR'', cf_base_url = env ''BASE_URL'', cf_peers = ps, cf_stream_buffer_kb = kb,
       cf_jellyfin_timeout = wrap64 (js * second), cf_peer_fetch_timeout = wrap64 (fs * second), cf_log_level = l\<rparr>"
    by (rule load_config_steps)
  have "fst p \<noteq> [] \<and> snd p \<noteq> [] \<and> CHR ''='' \<notin> set (fst p)" if "p \<in> set ps" for p
    using ps that peer_entries_sound by (auto simp: parse_peers_def Let_def split: if_splits)
  moreover have required: "\<forall>k \<in> set [''NODE_ID'', ''JELLYFIN_URL'', ''JELLYFIN_API_KEY'', ''OUTPUT_DIR'', ''BASE_URL'']. env k \<noteq> []"
    using miss unfolding missing_def find_None_iff by blast
  then have "env ''NODE_ID'' \<noteq> []" "env ''JELLYFIN_URL'' \<noteq> []" "env ''JELLYFIN_API_KEY'' \<noteq> []" "env ''OUTPUT_DIR'' \<noteq> []"
    "env ''BASE_URL'' \<noteq> []" by simp_all
  ultimately show ?thesis
    using positive_int_pos [OF kb] parse_level_range [OF l] public_url_prefix [OF u]
    by (simp add: config_ok_def c env_or_def)
qed

text \<open>C28: A configuration that loads is well formed: everything required is there, the buffer has a positive size,
  every peer has an id without an equals sign and a URL, a public URL is the canonical form of the one given, and the log level is one
  of the four; each timeout is the number of seconds given, a positive one, as a duration, unless that many
  seconds do not fit 64 bits of nanoseconds.\<close>

theorem load_config_well_formed:
  assumes "load_config parse env = Inr c"
  shows "config_ok c
    \<and> (if env ''PUBLIC_URL'' = [] then cf_public_url c = [] else canonical_url parse (env ''PUBLIC_URL'') = Inr (cf_public_url c))
    \<and> (\<exists>n. positive_int env ''JELLYFIN_TIMEOUT_SEC'' default_jellyfin_timeout_sec = Inr n \<and> 0 < n
          \<and> (n \<le> 9223372036 \<longrightarrow> cf_jellyfin_timeout c = n * second))
    \<and> (\<exists>n. positive_int env ''PEER_FETCH_TIMEOUT_SEC'' default_peer_fetch_timeout_sec = Inr n \<and> 0 < n
          \<and> (n \<le> 9223372036 \<longrightarrow> cf_peer_fetch_timeout c = n * second))"
proof -
  from assms obtain ps kb js fs h m l u where
    ps: "parse_peers (env ''PEERS'') = Inr ps" and kb: "positive_int env ''STREAM_BUFFER_KB'' default_stream_buffer_kb = Inr kb"
    and js: "positive_int env ''JELLYFIN_TIMEOUT_SEC'' default_jellyfin_timeout_sec = Inr js"
    and fs: "positive_int env ''PEER_FETCH_TIMEOUT_SEC'' default_peer_fetch_timeout_sec = Inr fs"
    and l: "parse_level (env ''LOG_LEVEL'') = Inr l" and miss: "missing env = None"
    and u: "public_url parse (env ''PUBLIC_URL'') = Inr u"
    and c: "c = \<lparr>cf_node_id = env ''NODE_ID'', cf_listen_addr = '':8080'', cf_peer_listen_addr = '':8443'',
       cf_http_peers = h, cf_mtls_peers = m, cf_public_url = u, cf_db_path = env_or env ''DB_PATH'' ''./data/jellysync.db'',
       cf_jellyfin_url = env ''JELLYFIN_URL'', cf_jellyfin_key = env ''JELLYFIN_API_KEY'',
       cf_output_dir = env ''OUTPUT_DIR'', cf_base_url = env ''BASE_URL'', cf_peers = ps, cf_stream_buffer_kb = kb,
       cf_jellyfin_timeout = wrap64 (js * second), cf_peer_fetch_timeout = wrap64 (fs * second), cf_log_level = l\<rparr>"
    by (rule load_config_steps)
  have "wrap64 (n * second) = n * second" if "0 < n" "n \<le> 9223372036" for n
    by (rule wrap64_id) (use that in \<open>simp add: in_int64_def second_def\<close>)
  moreover have "if env ''PUBLIC_URL'' = [] then u = [] else canonical_url parse (env ''PUBLIC_URL'') = Inr u"
    using u by (auto simp: public_url_def split: if_splits sum.splits)
  ultimately show ?thesis using js fs positive_int_pos [OF js] positive_int_pos [OF fs] load_config_ok [OF assms] by (auto simp: c)
qed

definition ex_environment :: "string \<Rightarrow> string" where
  "ex_environment k = (case map_of [(''NODE_ID'', ''me''), (''JELLYFIN_URL'', ''http://jf''), (''JELLYFIN_API_KEY'', ''key''),
     (''OUTPUT_DIR'', ''/out''), (''BASE_URL'', ''http://js''), (''PEERS'', ''nas=http://nas''), (''LOG_LEVEL'', '' info '')] k of
       None \<Rightarrow> [] | Some v \<Rightarrow> v)"

theorem load_config_well_formed_witness:
  "\<exists>c. load_config (\<lambda>_. None) ex_environment = Inr c \<and> config_ok c \<and> cf_peers c = [(''nas'', ''http://nas'')] \<and> cf_jellyfin_timeout c = 240 * second"
proof -
  have "case load_config (\<lambda>_. None) ex_environment of Inl e \<Rightarrow> False | Inr c \<Rightarrow> cf_peers c = [(''nas'', ''http://nas'')]" by code_simp
  then obtain c where c: "load_config (\<lambda>_. None) ex_environment = Inr c" "cf_peers c = [(''nas'', ''http://nas'')]"
    by (auto split: sum.splits)
  have n: "positive_int ex_environment ''JELLYFIN_TIMEOUT_SEC'' default_jellyfin_timeout_sec = Inr 240" by code_simp
  from load_config_well_formed [OF c(1)] n have "config_ok c" "cf_jellyfin_timeout c = 240 * second" by auto
  with c show ?thesis by blast
qed

subsection \<open>The sync interval\<close>

text \<open>The sync interval that is set is the one shown and the one the loop waits for: a number of seconds up to
  9223372036, the longest duration, is accepted and read back unchanged, after a restart too, and nothing else in
  the database changes, the state of the change feed in the same table included.\<close>

lemma sync_interval_roundtrip:
  assumes "0 < n" and "n \<le> 9223372036"
  shows "\<exists>d'. put_settings_handler None (Some n) d = (Status 204, d')
    \<and> get_settings_handler None d' = Json 200 n \<and> loop_interval None d' = n * second
    \<and> (\<forall>k. k \<noteq> sync_interval_key \<longrightarrow> map_of (settings_tbl d') k = map_of (settings_tbl d) k)
    \<and> d'\<lparr>settings_tbl := settings_tbl d\<rparr> = d"
proof -
  have w: "wrap64 (n * second) = n * second"
    by (rule wrap64_id) (use assms in \<open>simp add: in_int64_def second_def\<close>)
  have s: "duration_seconds (n * second) = n" unfolding second_def by (rule duration_seconds_exact)
  have r: "in_int64 n" using assms by (simp add: in_int64_def)
  let ?d = "d\<lparr>settings_tbl := tbl_upsert sync_interval_key (fmt_int n) (settings_tbl d)\<rparr>"
  have "0 < n * second" using assms(1) by (simp add: second_def)
  then have p: "put_settings_handler None (Some n) d = (Status 204, ?d)"
    using assms(1) by (simp add: put_settings_handler_def set_sync_interval_def w s)
  have g: "get_sync_interval None ?d = Inr (n * second)" by (simp add: get_sync_interval_def r w)
  show ?thesis
    by (rule exI [of _ ?d]) (simp add: p g get_settings_handler_def loop_interval_def s)
qed

text \<open>Beyond that range the check for a positive interval is made on a product that has wrapped around: one second
  more is refused, as if it were not positive, and 18446744074 seconds are accepted as 0 seconds, so that the loop
  runs sync after sync without a pause.\<close>

lemma sync_interval_overflows:
  "fst (put_settings_handler None (Some 9223372037) d) = HttpError 500 ''saving sync interval''
   \<and> fst (put_settings_handler None (Some 18446744074) d) = Status 204
   \<and> loop_interval None (snd (put_settings_handler None (Some 18446744074) d)) = 0"
proof -
  have w: "wrap64 (9223372037 * second) = -9223372036709551616" "wrap64 (18446744074 * second) = 290448384" by code_simp+
  have s: "duration_seconds 290448384 = 0" by code_simp
  have z: "parse_int64 (fmt_int 0) = Some 0" "wrap64 0 = 0" by code_simp+
  show ?thesis
    by (simp add: put_settings_handler_def set_sync_interval_def w s loop_interval_def get_sync_interval_def z)
qed

end
