(* ===== verification/Metrics.thy ===== *)
theory Metrics
  imports Int64 Peers
begin

section \<open>Traffic and stream metrics (metrics.go, metrics/http.go, streams.go)\<close>

text \<open>
  The collector of transferred bytes per peer, with its table; the views the dashboard shows; the counters of stream
  requests. Byte counts are \<open>int64\<close> and wrap around. A rate is a \<open>float64\<close>: it is of an arbitrary type
  with an addition, and \<open>rate\<close> stands for the division of a window's bytes by \<open>sampleInterval\<close>. The map of the
  counters is a table, its order one iteration order. Each operation is one step: the counters are atomic, and
  \<open>flushMu\<close> keeps \<open>flush\<close> and \<open>Reset\<close> apart.
\<close>

subsection \<open>The collector\<close>

datatype direction = DirIn | DirOut

fun dir_name :: "direction \<Rightarrow> string" where
  "dir_name DirIn = ''in''"
| "dir_name DirOut = ''out''"

definition history_len :: nat where "history_len = 120"

record 'r sample =
  sm_t :: int
  sm_in :: 'r
  sm_out :: 'r

record 'r counters =
  cn_total_in :: int
  cn_total_out :: int
  cn_window_in :: int
  cn_window_out :: int
  cn_current_in :: 'r
  cn_current_out :: 'r
  cn_history :: "'r sample list"

definition no_counters :: "'r :: zero counters" where
  "no_counters = \<lparr>cn_total_in = 0, cn_total_out = 0, cn_window_in = 0, cn_window_out = 0,
     cn_current_in = 0, cn_current_out = 0, cn_history = []\<rparr>"

type_synonym 'r collector = "(string, 'r counters) tbl"

definition peer_counters :: "'r :: zero collector \<Rightarrow> string \<Rightarrow> 'r counters" where
  "peer_counters c p = (case map_of c p of None \<Rightarrow> no_counters | Some cn \<Rightarrow> cn)"

fun load_traffic :: "((string \<times> string) \<times> int) list \<Rightarrow> 'r :: zero collector \<Rightarrow> 'r collector" where
  "load_traffic [] c = c"
| "load_traffic (((p, dir), n) # rows) c =
     (let cn = peer_counters c p
      in load_traffic rows (tbl_upsert p (if dir = dir_name DirIn then cn\<lparr>cn_total_in := n\<rparr> else cn\<lparr>cn_total_out := n\<rparr>) c))"

definition new_collector :: "go_error option \<Rightarrow> database \<Rightarrow> go_error + 'r :: zero collector" where
  "new_collector fault d =
     (case fault of Some e \<Rightarrow> Inl (ErrDb ''loading peer traffic'') | None \<Rightarrow> Inr (load_traffic (peer_traffic d) []))"

definition record_bytes :: "string \<Rightarrow> direction \<Rightarrow> int \<Rightarrow> 'r :: zero collector \<Rightarrow> 'r collector" where
  "record_bytes p dir n c =
     (if p = [] \<or> n \<le> 0 then c
      else let cn = peer_counters c p
           in tbl_upsert p
                (case dir of
                   DirIn \<Rightarrow> cn\<lparr>cn_total_in := wrap64 (cn_total_in cn + n), cn_window_in := wrap64 (cn_window_in cn + n)\<rparr>
                 | DirOut \<Rightarrow> cn\<lparr>cn_total_out := wrap64 (cn_total_out cn + n), cn_window_out := wrap64 (cn_window_out cn + n)\<rparr>) c)"

text \<open>\<open>sample\<close>: the windows become the current rates and one more point of the history, which keeps its end.\<close>

definition sample_counters :: "(int \<Rightarrow> 'r) \<Rightarrow> int \<Rightarrow> 'r counters \<Rightarrow> 'r counters" where
  "sample_counters rate now cn =
     (let inBps = rate (cn_window_in cn); outBps = rate (cn_window_out cn);
          history = cn_history cn @ [\<lparr>sm_t = now, sm_in = inBps, sm_out = outBps\<rparr>]
      in cn\<lparr>cn_window_in := 0, cn_window_out := 0, cn_current_in := inBps, cn_current_out := outBps,
            cn_history := (if history_len < length history then drop (length history - history_len) history else history)\<rparr>)"

definition sample_all :: "(int \<Rightarrow> 'r) \<Rightarrow> int \<Rightarrow> 'r collector \<Rightarrow> 'r collector" where
  "sample_all rate now c = map (\<lambda>(p, cn). (p, sample_counters rate now cn)) c"

text \<open>\<open>flush\<close>: a peer whose first statement fails is skipped; a failure of the second one is ignored.\<close>

definition flush_peer :: "(string \<Rightarrow> direction \<Rightarrow> bool) \<Rightarrow> string \<times> 'r counters \<Rightarrow> database \<Rightarrow> database" where
  "flush_peer fails pc d =
     (let (p, cn) = pc
      in if fails p DirIn then d
         else let d = d\<lparr>peer_traffic := tbl_upsert (p, dir_name DirIn) (cn_total_in cn) (peer_traffic d)\<rparr>
              in if fails p DirOut then d
                 else d\<lparr>peer_traffic := tbl_upsert (p, dir_name DirOut) (cn_total_out cn) (peer_traffic d)\<rparr>)"

definition flush :: "(string \<Rightarrow> direction \<Rightarrow> bool) \<Rightarrow> 'r collector \<Rightarrow> database \<Rightarrow> database" where
  "flush fails c d = fold (flush_peer fails) c d"

definition reset_traffic :: "go_error option \<Rightarrow> 'r collector \<times> database \<Rightarrow> (go_error + unit) \<times> 'r collector \<times> database" where
  "reset_traffic fault cd =
     (case fault of
        Some e \<Rightarrow> (Inl (ErrDb ''clearing peer traffic''), cd)
      | None \<Rightarrow> (Inr (), [], (snd cd)\<lparr>peer_traffic := []\<rparr>))"

definition reset_handler :: "go_error option \<Rightarrow> 'r collector \<times> database \<Rightarrow> unit response \<times> 'r collector \<times> database" where
  "reset_handler fault cd =
     (case reset_traffic fault cd of
        (Inl e, cd) \<Rightarrow> (HttpError 500 ''clearing peer traffic'', cd)
      | (Inr _, cd) \<Rightarrow> (Status 204, cd))"

text \<open>What the collector is told over time; \<open>Run\<close> is the ticks of sampling and flushing.\<close>

datatype traffic_event = Record string direction int | SampleTick int | FlushTick "string \<Rightarrow> direction \<Rightarrow> bool" | ResetAll "go_error option"

fun traffic_step :: "(int \<Rightarrow> 'r) \<Rightarrow> traffic_event \<Rightarrow> 'r :: zero collector \<times> database \<Rightarrow> 'r collector \<times> database" where
  "traffic_step rate (Record p dir n) (c, d) = (record_bytes p dir n c, d)"
| "traffic_step rate (SampleTick now) (c, d) = (sample_all rate now c, d)"
| "traffic_step rate (FlushTick fails) (c, d) = (c, flush fails c d)"
| "traffic_step rate (ResetAll fault) (c, d) = snd (reset_traffic fault (c, d))"

subsection \<open>What is shown\<close>

record 'r traffic =
  tr_total_in :: int
  tr_total_out :: int
  tr_current_in :: 'r
  tr_current_out :: 'r
  tr_history :: "'r sample list"

definition zero_traffic :: "'r :: zero traffic" where
  "zero_traffic = \<lparr>tr_total_in = 0, tr_total_out = 0, tr_current_in = 0, tr_current_out = 0, tr_history = []\<rparr>"

definition snapshot :: "'r collector \<Rightarrow> (string, 'r traffic) tbl" where
  "snapshot c =
     map (\<lambda>(p, cn). (p, \<lparr>tr_total_in = cn_total_in cn, tr_total_out = cn_total_out cn, tr_current_in = cn_current_in cn,
                          tr_current_out = cn_current_out cn, tr_history = cn_history cn\<rparr>)) c"

fun merge_samples :: "'r :: {zero, plus} sample list \<Rightarrow> (int, 'r sample) tbl \<Rightarrow> (int, 'r sample) tbl" where
  "merge_samples [] byT = byT"
| "merge_samples (s # ss) byT =
     (let m = (case map_of byT (sm_t s) of None \<Rightarrow> \<lparr>sm_t = 0, sm_in = 0, sm_out = 0\<rparr> | Some m \<Rightarrow> m);
          m = \<lparr>sm_t = sm_t s, sm_in = sm_in m + sm_in s, sm_out = sm_out m + sm_out s\<rparr>
      in merge_samples ss (tbl_upsert (sm_t s) m byT))"

definition merge_traffic :: "'r :: {zero, plus} traffic \<Rightarrow> 'r traffic \<Rightarrow> 'r traffic" where
  "merge_traffic a b =
     \<lparr>tr_total_in = wrap64 (tr_total_in a + tr_total_in b), tr_total_out = wrap64 (tr_total_out a + tr_total_out b),
      tr_current_in = tr_current_in a + tr_current_in b, tr_current_out = tr_current_out a + tr_current_out b,
      tr_history = sort_key sm_t (map snd (merge_samples (tr_history a @ tr_history b) []))\<rparr>"

text \<open>Entries under a peer's name are folded into the entry of its id.\<close>

fun resolve_names :: "peer list \<Rightarrow> (string, 'r :: {zero, plus} traffic) tbl \<Rightarrow> (string, 'r traffic) tbl" where
  "resolve_names [] snap = snap"
| "resolve_names (p # ps) snap =
     (if p_name p = [] \<or> p_name p = p_id p then resolve_names ps snap
      else case map_of snap (p_name p) of
        None \<Rightarrow> resolve_names ps snap
      | Some legacy \<Rightarrow>
          let own = (case map_of snap (p_id p) of None \<Rightarrow> zero_traffic | Some t \<Rightarrow> t)
          in resolve_names ps (tbl_delete (p_name p) (tbl_upsert (p_id p) (merge_traffic own legacy) snap)))"

definition resolved_snapshot :: "'r :: {zero, plus} collector \<Rightarrow> registry \<Rightarrow> (string, 'r traffic) tbl" where
  "resolved_snapshot c r = resolve_names (list_peers r) (snapshot c)"

definition traffic_handler :: "'r :: {zero, plus} collector \<Rightarrow> registry \<Rightarrow> (string, 'r traffic) tbl response" where
  "traffic_handler c r = Json 200 (resolved_snapshot c r)"

subsection \<open>Streams\<close>

datatype outcome = OutcomeOK | OutcomeClientClosed | OutcomeUpstreamErr | OutcomeTimeout | OutcomeUnreachable | OutcomeInterrupted

fun outcome_name :: "outcome \<Rightarrow> string" where
  "outcome_name OutcomeOK = ''ok''"
| "outcome_name OutcomeClientClosed = ''client_closed''"
| "outcome_name OutcomeUpstreamErr = ''upstream_error''"
| "outcome_name OutcomeTimeout = ''timeout''"
| "outcome_name OutcomeUnreachable = ''unreachable''"
| "outcome_name OutcomeInterrupted = ''interrupted''"

text \<open>Durations are nanoseconds; comparing them with a bound is comparing their \<open>float64\<close> seconds, since these
  are rounded monotonically and each bound is itself a rounded number of nanoseconds.\<close>

record stream_timings =
  ti_conn_wait :: int
  ti_connect :: int
  ti_ttfb :: int
  ti_first_body :: int
  ti_startup :: int

definition latency_buckets :: "int list" where
  "latency_buckets = map (\<lambda>us. us * 1000)
     [5000, 10000, 25000, 50000, 100000, 250000, 500000, 1000000, 2500000, 5000000, 10000000, 30000000]"

text \<open>A histogram without the sum of its durations, a \<open>float64\<close> that is only shown.\<close>

record histogram =
  hs_counts :: "nat list"
  hs_count :: nat

definition no_histogram :: histogram where
  "no_histogram = \<lparr>hs_counts = [], hs_count = 0\<rparr>"

fun count_bucket :: "int \<Rightarrow> int list \<Rightarrow> nat list \<Rightarrow> nat list" where
  "count_bucket d (le # les) (n # ns) = (if d \<le> le then Suc n # ns else n # count_bucket d les ns)"
| "count_bucket d _ ns = ns"

definition observe :: "int \<Rightarrow> histogram \<Rightarrow> histogram" where
  "observe d h =
     (let counts = (if hs_counts h = [] then replicate (length latency_buckets) 0 else hs_counts h)
      in h\<lparr>hs_counts := count_bucket d latency_buckets counts, hs_count := Suc (hs_count h)\<rparr>)"

record stream_stats =
  ss_active :: int
  ss_outcomes :: "(outcome, nat) tbl"
  ss_conn_wait :: histogram
  ss_connect :: histogram
  ss_ttfb :: histogram
  ss_first_body :: histogram
  ss_startup :: histogram
  ss_max_read_wait :: histogram

definition no_stream_stats :: stream_stats where
  "no_stream_stats = \<lparr>ss_active = 0, ss_outcomes = [], ss_conn_wait = no_histogram, ss_connect = no_histogram, ss_ttfb = no_histogram,
     ss_first_body = no_histogram, ss_startup = no_histogram, ss_max_read_wait = no_histogram\<rparr>"

type_synonym streams = "(string \<times> direction, stream_stats) tbl"

definition stream_get :: "streams \<Rightarrow> string \<times> direction \<Rightarrow> stream_stats" where
  "stream_get s k = (case map_of s k of None \<Rightarrow> no_stream_stats | Some st \<Rightarrow> st)"

definition stream_started :: "string \<times> direction \<Rightarrow> streams \<Rightarrow> streams" where
  "stream_started k s = (let st = stream_get s k in tbl_upsert k (st\<lparr>ss_active := ss_active st + 1\<rparr>) s)"

definition outcome_count :: "stream_stats \<Rightarrow> outcome \<Rightarrow> nat" where
  "outcome_count st x = (case map_of (ss_outcomes st) x of None \<Rightarrow> 0 | Some n \<Rightarrow> n)"

definition stream_ended :: "string \<times> direction \<Rightarrow> outcome \<Rightarrow> streams \<Rightarrow> streams" where
  "stream_ended k x s =
     (let st = stream_get s k
      in tbl_upsert k (st\<lparr>ss_active := ss_active st - 1, ss_outcomes := tbl_upsert x (Suc (outcome_count st x)) (ss_outcomes st)\<rparr>) s)"

definition observe_if :: "int \<Rightarrow> histogram \<Rightarrow> histogram" where
  "observe_if d h = (if 0 < d then observe d h else h)"

definition observe_startup :: "string \<times> direction \<Rightarrow> stream_timings \<Rightarrow> streams \<Rightarrow> streams" where
  "observe_startup k t s =
     (let st = stream_get s k
      in tbl_upsert k (st\<lparr>ss_conn_wait := observe_if (ti_conn_wait t) (ss_conn_wait st), ss_connect := observe_if (ti_connect t) (ss_connect st),
           ss_ttfb := observe_if (ti_ttfb t) (ss_ttfb st), ss_first_body := observe_if (ti_first_body t) (ss_first_body st),
           ss_startup := observe_if (ti_startup t) (ss_startup st)\<rparr>) s)"

definition observe_max_read_wait :: "string \<times> direction \<Rightarrow> int \<Rightarrow> streams \<Rightarrow> streams" where
  "observe_max_read_wait k d s =
     (if d \<le> 0 then s
      else let st = stream_get s k in tbl_upsert k (st\<lparr>ss_max_read_wait := observe d (ss_max_read_wait st)\<rparr>) s)"

end
