(* ===== verification/MetricsTheorems.thy ===== *)
theory MetricsTheorems
  imports Metrics
begin

section \<open>The properties of the metrics\<close>

text \<open>
  Traffic is counted exactly, over any sequence of records, samples, flushes and resets, and survives a restart;
  the dashboard's view loses none of it; the histograms and counters of streams are what they say.
\<close>

subsection \<open>Totals\<close>

definition total_of :: "'r :: zero collector \<Rightarrow> string \<Rightarrow> direction \<Rightarrow> int" where
  "total_of c p dir = (case dir of DirIn \<Rightarrow> cn_total_in (peer_counters c p) | DirOut \<Rightarrow> cn_total_out (peer_counters c p))"

text \<open>What was recorded per peer and direction since the start or the last reset that succeeded.\<close>

fun recorded :: "traffic_event list \<Rightarrow> (string \<Rightarrow> direction \<Rightarrow> int) \<Rightarrow> string \<Rightarrow> direction \<Rightarrow> int" where
  "recorded [] base = base"
| "recorded (Record p dir n # es) base =
     recorded es (\<lambda>q e. base q e + (if q = p \<and> e = dir \<and> p \<noteq> [] \<and> 0 < n then n else 0))"
| "recorded (ResetAll None # es) base = recorded es (\<lambda>_ _. 0)"
| "recorded (_ # es) base = recorded es base"

definition stored :: "database \<Rightarrow> string \<Rightarrow> direction \<Rightarrow> int" where
  "stored d p dir = (case map_of (peer_traffic d) (p, dir_name dir) of None \<Rightarrow> 0 | Some n \<Rightarrow> n)"

definition traffic_ok :: "'r collector \<times> database \<Rightarrow> bool" where
  "traffic_ok cd \<longleftrightarrow> keyed (fst cd) \<and> keyed (peer_traffic (snd cd))
     \<and> (\<forall>k \<in> fst ` set (peer_traffic (snd cd)). fst k \<in> fst ` set (fst cd) \<and> snd k \<in> range dir_name)
     \<and> (\<forall>cn \<in> snd ` set (fst cd). length (cn_history cn) \<le> history_len)"

lemma range_dir_name: "range dir_name = {''in'', ''out''}"
proof (rule subset_antisym)
  have "dir_name e \<in> {''in'', ''out''}" for e by (cases e) simp_all
  then show "range dir_name \<subseteq> {''in'', ''out''}" by blast
  have "{''in'', ''out''} = {dir_name DirIn, dir_name DirOut}" by simp
  then show "{''in'', ''out''} \<subseteq> range dir_name" by blast
qed

lemma all_rows: "keyed t \<Longrightarrow> (\<forall>r \<in> snd ` set t. P r) \<longleftrightarrow> (\<forall>k r. map_of t k = Some r \<longrightarrow> P r)"
  by (auto simp: keyed_map_of_eq)

lemma dir_name_inj [simp]: "dir_name a = dir_name b \<longleftrightarrow> a = b"
  by (cases a; cases b) simp_all

lemma total_record:
  "total_of (record_bytes p dir n c) q e =
     (if q = p \<and> e = dir \<and> p \<noteq> [] \<and> 0 < n then wrap64 (total_of c q e + n) else total_of c q e)"
  by (cases dir; cases e) (auto simp: total_of_def record_bytes_def peer_counters_def Let_def split: option.split)

lemma map_of_sample: "map_of (sample_all rate now c) p = map_option (sample_counters rate now) (map_of c p)"
  by (induction c) (auto simp: sample_all_def)

lemma total_sample [simp]: "total_of (sample_all rate now c) p e = total_of c p e"
  by (cases e; cases "map_of c p")
    (simp_all add: total_of_def peer_counters_def map_of_sample sample_counters_def Let_def)

lemma total_step:
  assumes "\<And>p e. total_of c p e = wrap64 (base p e)"
  shows "total_of (fst (fold (traffic_step rate) es (c, d))) p e = wrap64 (recorded es base p e)"
  using assms
proof (induction es arbitrary: c d base)
  case (Cons ev es)
  show ?case
  proof (cases ev)
    case (Record q dir n)
    have "total_of (record_bytes q dir n c) p e = wrap64 (base p e + (if p = q \<and> e = dir \<and> q \<noteq> [] \<and> 0 < n then n else 0))" for p e
      by (simp add: total_record Cons.prems)
    from Cons.IH [OF this] show ?thesis by (simp add: Record)
  next
    case (SampleTick now)
    then show ?thesis using Cons.IH [of "sample_all rate now c" base d] Cons.prems by simp
  next
    case (FlushTick fails)
    then show ?thesis using Cons.IH [of c base "flush fails c d"] Cons.prems by simp
  next
    case (ResetAll fault)
    show ?thesis
    proof (cases fault)
      case None
      have "total_of ([] :: 'a collector) p e = wrap64 0" for p e
        by (cases e) (simp_all add: total_of_def peer_counters_def no_counters_def wrap64_id in_int64_def)
      from Cons.IH [where base = "\<lambda>_ _. 0", OF this] show ?thesis by (simp add: ResetAll None reset_traffic_def)
    next
      case (Some x)
      then show ?thesis using Cons.IH [of c base d] Cons.prems by (simp add: ResetAll reset_traffic_def)
    qed
  qed
qed simp

subsection \<open>Loading and flushing\<close>

lemma load_traffic_keyed: "keyed c \<Longrightarrow> keyed (load_traffic rows c)"
  by (induction rows c rule: load_traffic.induct) (simp_all add: Let_def)

lemma load_traffic_history:
  "(\<And>p. cn_history (peer_counters c p) = []) \<Longrightarrow> cn_history (peer_counters (load_traffic rows c) q) = []"
proof (induction rows c rule: load_traffic.induct)
  case (2 p dir n rows c)
  let ?cn = "if dir = dir_name DirIn then (peer_counters c p)\<lparr>cn_total_in := n\<rparr> else (peer_counters c p)\<lparr>cn_total_out := n\<rparr>"
  have "cn_history (peer_counters (tbl_upsert p ?cn c) q) = []" for q
    using 2(2) [of q] 2(2) [of p] by (cases "q = p") (simp_all add: peer_counters_def)
  from 2(1) [OF refl this] show ?case by (simp add: Let_def)
qed simp

lemma load_traffic_total:
  assumes "keyed rows" and "\<forall>k \<in> fst ` set rows. snd k \<in> range dir_name"
  shows "total_of (load_traffic rows c) p e = (case map_of rows (p, dir_name e) of None \<Rightarrow> total_of c p e | Some n \<Rightarrow> n)"
  using assms
proof (induction rows arbitrary: c)
  case (Cons row rows)
  obtain q dir n where row: "row = ((q, dir), n)" by (metis prod.exhaust)
  obtain dr where dr: "dir = dir_name dr" using Cons.prems(2) row by auto
  have k: "keyed rows" and out: "map_of rows (q, dir) = None"
    using Cons.prems(1) row by (auto simp: keyed_def map_of_eq_None_iff)
  note IH = Cons.IH [OF k]
  show ?case
    using IH out Cons.prems(2) unfolding row dr
    by (cases dr; cases e) (auto simp: total_of_def peer_counters_def Let_def split: option.split)
qed simp

lemma load_traffic_dom: "fst ` set (load_traffic rows c) = fst ` set c \<union> (fst \<circ> fst) ` set rows"
  by (induction rows c rule: load_traffic.induct) (auto simp: Let_def tbl_upsert_def dom_update)

lemma new_collector_total:
  assumes "keyed (peer_traffic d)" and "\<forall>k \<in> fst ` set (peer_traffic d). snd k \<in> range dir_name" and "new_collector None d = Inr c"
  shows "total_of c p e = stored d p e"
proof -
  have "total_of ([] :: 'a collector) p e = 0"
    by (cases e) (simp_all add: total_of_def peer_counters_def no_counters_def)
  then show ?thesis
    using load_traffic_total [OF assms(1,2), of "[] :: 'a collector" p e] assms(3) by (auto simp: new_collector_def stored_def split: option.split)
qed

lemma flush_peer_lookup:
  "map_of (peer_traffic (flush_peer (\<lambda>_ _. False) (p, cn) d)) (q, s) =
     (if q = p \<and> s = dir_name DirIn then Some (cn_total_in cn)
      else if q = p \<and> s = dir_name DirOut then Some (cn_total_out cn) else map_of (peer_traffic d) (q, s))"
  by (simp add: flush_peer_def Let_def)

lemma flush_lookup:
  "keyed c \<Longrightarrow> map_of (peer_traffic (flush (\<lambda>_ _. False) c d)) (q, dir_name e) =
     (if q \<in> fst ` set c then Some (total_of c q e) else map_of (peer_traffic d) (q, dir_name e))"
proof (induction c arbitrary: d)
  case (Cons pc c)
  obtain p cn where pc: "pc = (p, cn)" by (cases pc)
  have k: "keyed c" and p: "p \<notin> fst ` set c" using Cons.prems by (auto simp: pc keyed_def)
  have st: "flush (\<lambda>_ _. False) (pc # c) d = flush (\<lambda>_ _. False) c (flush_peer (\<lambda>_ _. False) (p, cn) d)"
    by (simp add: flush_def pc)
  have t: "total_of (pc # c) q e = (if q = p then (case e of DirIn \<Rightarrow> cn_total_in cn | DirOut \<Rightarrow> cn_total_out cn) else total_of c q e)"
    by (cases e) (simp_all add: total_of_def peer_counters_def pc)
  show ?case unfolding st Cons.IH [OF k] t flush_peer_lookup using p by (cases e) (auto simp: pc)
qed (simp add: flush_def)

lemma flush_peer_keys:
  "fst ` set (peer_traffic (flush_peer fails (p, cn) d)) \<subseteq> fst ` set (peer_traffic d) \<union> {p} \<times> range dir_name"
  by (auto simp: flush_peer_def Let_def tbl_upsert_def dom_update range_dir_name)

lemma flush_keys:
  "fst ` set (peer_traffic (flush fails c d)) \<subseteq> fst ` set (peer_traffic d) \<union> (fst ` set c) \<times> range dir_name"
proof (induction c arbitrary: d)
  case (Cons pc c)
  obtain p cn where pc: "pc = (p, cn)" by (cases pc)
  have "flush fails (pc # c) d = flush fails c (flush_peer fails (p, cn) d)" by (simp add: flush_def pc)
  then show ?case using Cons.IH [of "flush_peer fails (p, cn) d"] flush_peer_keys [of fails p cn d] by (auto simp: pc)
qed (simp add: flush_def)

lemma flush_keyed: "keyed (peer_traffic d) \<Longrightarrow> keyed (peer_traffic (flush fails c d))"
proof (induction c arbitrary: d)
  case (Cons pc c)
  obtain p cn where pc: "pc = (p, cn)" by (cases pc)
  have "keyed (peer_traffic (flush_peer fails (p, cn) d))" using Cons.prems by (simp add: flush_peer_def Let_def)
  then show ?case using Cons.IH by (simp add: flush_def pc)
qed (simp add: flush_def)

subsection \<open>Traffic survives\<close>

lemma history_rows:
  assumes "keyed c"
  shows "(\<forall>cn \<in> snd ` set c. length (cn_history cn) \<le> history_len) \<longleftrightarrow> (\<forall>p. length (cn_history (peer_counters c p)) \<le> history_len)"
  unfolding all_rows [OF assms] by (auto simp: peer_counters_def no_counters_def split: option.split)

lemma traffic_ok_new:
  assumes "keyed (peer_traffic d)" and "\<forall>k \<in> fst ` set (peer_traffic d). snd k \<in> range dir_name" and "new_collector None d = Inr c"
  shows "traffic_ok (c, d)"
proof -
  have c: "c = load_traffic (peer_traffic d) []" using assms(3) by (simp add: new_collector_def)
  have k: "keyed c" unfolding c by (rule load_traffic_keyed) simp
  have "cn_history (peer_counters c p) = []" for p
    unfolding c by (rule load_traffic_history) (simp add: peer_counters_def no_counters_def)
  then have "\<forall>cn \<in> snd ` set c. length (cn_history cn) \<le> history_len" unfolding history_rows [OF k] by simp
  moreover have "fst k \<in> fst ` set c" if "k \<in> fst ` set (peer_traffic d)" for k
    using that unfolding c load_traffic_dom image_comp [symmetric] by blast
  ultimately show ?thesis using assms(1,2) k by (simp add: traffic_ok_def)
qed

lemma record_ok: "traffic_ok (c, d) \<Longrightarrow> traffic_ok (record_bytes p dir n c, d)"
proof -
  assume ok: "traffic_ok (c, d)"
  then have kc: "keyed c" by (simp add: traffic_ok_def)
  have k: "keyed (record_bytes p dir n c)" using kc by (simp add: record_bytes_def Let_def)
  have "cn_history (peer_counters (record_bytes p dir n c) q) = cn_history (peer_counters c q)" for q
    by (cases dir) (simp_all add: peer_counters_def record_bytes_def Let_def)
  then have "\<forall>cn \<in> snd ` set (record_bytes p dir n c). length (cn_history cn) \<le> history_len"
    using ok history_rows [OF kc] unfolding history_rows [OF k] by (simp add: traffic_ok_def)
  moreover have "fst ` set c \<subseteq> fst ` set (record_bytes p dir n c)"
    by (auto simp: record_bytes_def Let_def tbl_upsert_def dom_update)
  ultimately show ?thesis using ok k unfolding traffic_ok_def fst_conv snd_conv by blast
qed

lemma sample_ok: "traffic_ok (c, d) \<Longrightarrow> traffic_ok (sample_all rate now c, d)"
  by (auto simp: traffic_ok_def sample_all_def keyed_def sample_counters_def Let_def case_prod_unfold image_image comp_def)

lemma flush_ok: "traffic_ok (c, d) \<Longrightarrow> traffic_ok (c, flush fails c d)"
proof -
  assume ok: "traffic_ok (c, d)"
  have "fst k \<in> fst ` set c \<and> snd k \<in> range dir_name" if k: "k \<in> fst ` set (peer_traffic (flush fails c d))" for k
  proof -
    have "k \<in> fst ` set (peer_traffic d) \<or> k \<in> fst ` set c \<times> range dir_name" using subsetD [OF flush_keys k] by (rule UnE) blast+
    then show ?thesis
    proof
      assume "k \<in> fst ` set (peer_traffic d)"
      with ok show ?thesis unfolding traffic_ok_def fst_conv snd_conv by blast
    qed (cases k, simp)
  qed
  then show ?thesis using ok flush_keyed [of d fails c] unfolding traffic_ok_def fst_conv snd_conv by blast
qed

lemma traffic_ok_step: "traffic_ok (c, d) \<Longrightarrow> traffic_ok (traffic_step rate ev (c, d))"
proof (induction ev)
  case (FlushTick fails)
  then show ?case by (simp add: flush_ok)
next
  case (ResetAll fault)
  then show ?case by (cases fault) (simp_all add: reset_traffic_def traffic_ok_def)
qed (simp_all add: record_ok sample_ok)

lemma traffic_ok_run: "traffic_ok cd \<Longrightarrow> traffic_ok (fold (traffic_step rate) es cd)"
proof (induction es arbitrary: cd)
  case (Cons ev es)
  then show ?case using traffic_ok_step [of "fst cd" "snd cd"] by simp
qed simp

text \<open>C25: Traffic is counted and survives a restart: after any sequence of transfers, samples, flushes (failing
  or not) and resets, the total of each peer and direction is what it was at the start, plus all bytes recorded since,
  or those since the last successful reset, wrapping around at 64 bits; a restart after a flush without failures
  finds the same totals; and no history is longer than the chart.\<close>

theorem traffic_survives_restart:
  assumes "keyed (peer_traffic d0)" and "\<forall>k \<in> fst ` set (peer_traffic d0). snd k \<in> range dir_name"
    and "\<forall>n \<in> snd ` set (peer_traffic d0). in_int64 n"
    and "new_collector None d0 = Inr c0" and "fold (traffic_step rate) es (c0, d0) = (c, d)"
  shows "(\<forall>p dir. total_of c p dir = wrap64 (recorded es (stored d0) p dir))
    \<and> (\<exists>c'. new_collector None (flush (\<lambda>_ _. False) c d) = Inr (c' :: 'r :: zero collector) \<and> (\<forall>p dir. total_of c' p dir = total_of c p dir))
    \<and> (\<forall>p cn. map_of c p = Some cn \<longrightarrow> length (cn_history cn) \<le> history_len)"
proof (intro conjI allI impI)
  note T0 = new_collector_total [OF assms(1,2,4)]
  have "in_int64 (stored d0 p e)" for p e
    using assms(3) map_of_in_set [of "peer_traffic d0" "(p, dir_name e)"]
    by (force simp: stored_def in_int64_def split: option.split)
  then have "total_of c0 p e = wrap64 (stored d0 p e)" for p e by (simp add: T0 wrap64_id)
  from total_step [OF this, of rate es d0] show "total_of c p dir = wrap64 (recorded es (stored d0) p dir)" for p dir
    by (simp add: assms(5))
  have ok: "traffic_ok (c, d)" using traffic_ok_run [OF traffic_ok_new [OF assms(1,2,4)], of rate es] by (simp add: assms(5))
  let ?d = "flush (\<lambda>_ _. False) c d"
  have k: "keyed (peer_traffic ?d)" using ok flush_keyed by (auto simp: traffic_ok_def)
  have dirs: "\<forall>k \<in> fst ` set (peer_traffic ?d). snd k \<in> range dir_name"
    using flush_ok [OF ok, of "\<lambda>_ _. False"] unfolding traffic_ok_def fst_conv snd_conv by blast
  obtain c' :: "'r collector" where c': "new_collector None ?d = Inr c'" by (simp add: new_collector_def)
  have "total_of c' p e = total_of c p e" for p e
  proof -
    have kc: "keyed c" using ok by (simp add: traffic_ok_def)
    have "stored ?d p e = total_of c p e"
    proof (cases "p \<in> fst ` set c")
      case True
      then show ?thesis by (simp add: stored_def flush_lookup [OF kc])
    next
      case False
      then have "map_of (peer_traffic d) (p, dir_name e) = None" "map_of c p = None"
        using ok by (force simp: traffic_ok_def map_of_eq_None_iff)+
      then show ?thesis using False
        by (cases e) (simp_all add: stored_def flush_lookup [OF kc] total_of_def peer_counters_def no_counters_def del: dir_name.simps)
    qed
    then show ?thesis using new_collector_total [OF k dirs c'] by simp
  qed
  with c' show "\<exists>c'. new_collector None ?d = Inr (c' :: 'r collector) \<and> (\<forall>p dir. total_of c' p dir = total_of c p dir)" by blast
  fix p cn assume "map_of c p = Some cn"
  moreover have "\<forall>cn \<in> snd ` set c. length (cn_history cn) \<le> history_len" using ok by (simp add: traffic_ok_def)
  ultimately show "length (cn_history cn) \<le> history_len" using map_of_in_set [of c p cn] by force
qed

definition ex_traffic :: database where
  "ex_traffic = empty_db\<lparr>peer_traffic := [((''tv'', ''in''), 5)]\<rparr>"

definition ex_events :: "traffic_event list" where
  "ex_events = [Record ''tv'' DirIn 7, Record ''nas'' DirOut 3, FlushTick (\<lambda>p _. p = ''tv''), SampleTick 9, Record [] DirIn 1, ResetAll (Some ErrNotFound), Record ''tv'' DirIn 1]"

theorem traffic_survives_restart_witness:
  "\<exists>c d. fold (traffic_step id) ex_events (load_traffic (peer_traffic ex_traffic) [], ex_traffic) = (c, d)
     \<and> total_of c ''tv'' DirIn = 13 \<and> total_of c ''nas'' DirOut = 3"
proof -
  obtain c d where r: "fold (traffic_step id) ex_events (load_traffic (peer_traffic ex_traffic) [], ex_traffic) = (c, d)" by (metis surj_pair)
  have "keyed (peer_traffic ex_traffic)" "\<forall>k \<in> fst ` set (peer_traffic ex_traffic). snd k \<in> range dir_name"
    "\<forall>n \<in> snd ` set (peer_traffic ex_traffic). in_int64 n"
    by (simp_all add: ex_traffic_def keyed_def range_dir_name in_int64_def)
  note T = traffic_survives_restart [OF this _ r, THEN conjunct1, rule_format]
  have s: "stored ex_traffic ''tv'' DirIn = 5" "stored ex_traffic ''nas'' DirOut = 0" by (simp_all add: stored_def ex_traffic_def)
  have "wrap64 (recorded ex_events (stored ex_traffic) ''tv'' DirIn) = 13" "wrap64 (recorded ex_events (stored ex_traffic) ''nas'' DirOut) = 3"
    by (simp_all add: ex_events_def s wrap64_def)
  with T r show ?thesis by (auto simp: new_collector_def)
qed

subsection \<open>What is shown\<close>

definition shown :: "('r traffic \<Rightarrow> int) \<Rightarrow> (string, 'r traffic) tbl \<Rightarrow> int" where
  "shown f snap = sum_list (map (f \<circ> snd) snap)"

lemma shown_upsert:
  "keyed snap \<Longrightarrow> shown f (tbl_upsert k t snap) = shown f snap - (case map_of snap k of None \<Rightarrow> 0 | Some u \<Rightarrow> f u) + f t"
proof (induction snap)
  case (Cons ku snap)
  have k: "keyed snap" using Cons.prems by (cases ku) (simp add: keyed_def)
  show ?case
  proof (cases "fst ku = k")
    case True
    then show ?thesis by (cases ku) (simp add: shown_def tbl_upsert_def)
  next
    case False
    then show ?thesis using Cons.IH [OF k] by (cases ku) (simp add: shown_def tbl_upsert_def)
  qed
qed (simp add: shown_def tbl_upsert_def)

lemma shown_delete:
  "keyed snap \<Longrightarrow> shown f (tbl_delete k snap) = shown f snap - (case map_of snap k of None \<Rightarrow> 0 | Some u \<Rightarrow> f u)"
proof (induction snap)
  case (Cons ku snap)
  have k: "keyed snap" and n: "fst ku \<notin> fst ` set snap" using Cons.prems by (cases ku; simp add: keyed_def)+
  show ?case
  proof (cases "fst ku = k")
    case True
    then have "AList.delete k snap = snap" "map_of snap k = None" using n by (auto simp: delete_idem map_of_eq_None_iff)
    with True show ?thesis by (cases ku) (simp add: shown_def tbl_delete_def)
  next
    case False
    then show ?thesis using Cons.IH [OF k] by (cases ku) (simp add: shown_def tbl_delete_def)
  qed
qed (simp add: shown_def tbl_delete_def)

lemma resolve_names_shown:
  assumes "\<And>a b :: 'r :: {zero, plus} traffic. f (merge_traffic a b) = wrap64 (f a + f b)" and "f (zero_traffic :: 'r traffic) = 0"
  shows "keyed snap \<Longrightarrow> keyed (resolve_names ps snap) \<and> wrap64 (shown f (resolve_names ps snap)) = wrap64 (shown f snap)"
proof (induction ps arbitrary: snap)
  case (Cons p ps)
  show ?case
  proof (cases "p_name p = [] \<or> p_name p = p_id p \<or> map_of snap (p_name p) = None")
    case True
    then show ?thesis using Cons by (auto split: option.splits)
  next
    case False
    then obtain legacy where l: "map_of snap (p_name p) = Some legacy" by blast
    let ?own = "case map_of snap (p_id p) of None \<Rightarrow> zero_traffic | Some t \<Rightarrow> t"
    let ?mid = "tbl_upsert (p_id p) (merge_traffic ?own legacy) snap"
    have k: "keyed ?mid" using Cons.prems by simp
    have f: "f ?own = (case map_of snap (p_id p) of None \<Rightarrow> 0 | Some u \<Rightarrow> f u)" by (simp add: assms(2) split: option.split)
    have "shown f (tbl_delete (p_name p) ?mid) = shown f snap - f ?own + wrap64 (f ?own + f legacy) - f legacy"
      using False by (simp add: shown_delete [OF k] shown_upsert [OF Cons.prems] l f assms(1))
    then have "wrap64 (shown f (tbl_delete (p_name p) ?mid)) = wrap64 (wrap64 (f ?own + f legacy) + (shown f snap - f ?own - f legacy))"
      by (simp only: add_diff_eq diff_add_eq add.commute)
    also have "\<dots> = wrap64 (shown f snap)" by simp
    finally have s: "wrap64 (shown f (tbl_delete (p_name p) ?mid)) = wrap64 (shown f snap)" .
    have "resolve_names (p # ps) snap = resolve_names ps (tbl_delete (p_name p) ?mid)"
      using False l by (simp add: Let_def)
    with Cons.IH [of "tbl_delete (p_name p) ?mid"] k s show ?thesis by simp
  qed
qed simp

text \<open>The dashboard's view of the traffic neither loses nor invents any: folding the entries kept under peers' names into
  those of their ids leaves the sum of all totals, incoming and outgoing, unchanged (at 64 bits), and there is
  one entry per key.\<close>

lemma traffic_view_conserves:
  assumes "keyed c"
  shows "keyed (resolved_snapshot c r)
    \<and> wrap64 (shown tr_total_in (resolved_snapshot c r)) = wrap64 (sum_list (map (cn_total_in \<circ> snd) c))
    \<and> wrap64 (shown tr_total_out (resolved_snapshot c r)) = wrap64 (sum_list (map (cn_total_out \<circ> snd) c))"
proof -
  have k: "keyed (snapshot c)" using assms by (simp add: keyed_def snapshot_def case_prod_unfold comp_def)
  have "shown tr_total_in (snapshot c) = sum_list (map (cn_total_in \<circ> snd) c)"
    "shown tr_total_out (snapshot c) = sum_list (map (cn_total_out \<circ> snd) c)"
    by (simp_all add: shown_def snapshot_def case_prod_unfold comp_def)
  moreover have "keyed (resolve_names ps (snapshot c)) \<and> wrap64 (shown tr_total_in (resolve_names ps (snapshot c))) = wrap64 (shown tr_total_in (snapshot c))" for ps
    by (rule resolve_names_shown [OF _ _ k]) (simp_all add: merge_traffic_def zero_traffic_def)
  moreover have "keyed (resolve_names ps (snapshot c)) \<and> wrap64 (shown tr_total_out (resolve_names ps (snapshot c))) = wrap64 (shown tr_total_out (snapshot c))" for ps
    by (rule resolve_names_shown [OF _ _ k]) (simp_all add: merge_traffic_def zero_traffic_def)
  ultimately show ?thesis unfolding resolved_snapshot_def by metis
qed

definition ex_named :: "string \<Rightarrow> string \<Rightarrow> peer" where
  "ex_named i name = \<lparr>p_id = i, p_url = ''http://h'', p_state = Online, p_name = name, p_version = ''1'', p_ip = [], p_pin = [],
     p_last_seen = None, p_rtt = 0, p_missed = 0, p_offering = True\<rparr>"

definition ex_two_peers :: registry where
  "ex_two_peers = \<lparr>rg_peers = [(''nas'', ex_named ''nas'' ''nas''), (''nas-2'', ex_named ''nas-2'' ''nas'')], rg_http_off = False,
     rg_mtls_off = False, rg_running = [], rg_has_callback = False\<rparr>"

definition ex_counted :: "int collector" where
  "ex_counted = record_bytes ''nas'' DirIn 100 []"

text \<open>But a peer that has the id another peer calls itself by loses its traffic to it: with two nodes named \<open>nas\<close>, the
  bytes of the first one, whose id is \<open>nas\<close>, are shown under the second one, \<open>nas-2\<close>.\<close>

lemma same_name_takes_traffic:
  "map (\<lambda>(p, t). (p, tr_total_in t)) (resolved_snapshot ex_counted ex_two_peers) = [(''nas-2'', 100)]"
  by code_simp

subsection \<open>Streams\<close>

lemma sum_count_bucket:
  "sorted les \<Longrightarrow> length ns = length les \<Longrightarrow> j < length les \<Longrightarrow>
     sum_list (take (Suc j) (count_bucket d les ns)) = sum_list (take (Suc j) ns) + (if d \<le> les ! j then 1 else 0)"
proof (induction d les ns arbitrary: j rule: count_bucket.induct)
  case (1 d le les n ns)
  show ?case
  proof (cases "d \<le> le")
    case True
    have "le \<le> (le # les) ! j" using 1(2,4) by (cases j) auto
    then show ?thesis using True by simp
  next
    case False
    then show ?thesis using 1 by (cases j) auto
  qed
qed simp_all

lemma length_count_bucket [simp]: "length (count_bucket d les ns) = length ns"
  by (induction d les ns rule: count_bucket.induct) simp_all

lemma observed_shape: "ds \<noteq> [] \<Longrightarrow> length (hs_counts (fold observe ds h)) = length latency_buckets"
  if "hs_counts h = [] \<or> length (hs_counts h) = length latency_buckets"
  using that
proof (induction ds arbitrary: h)
  case (Cons d ds)
  have "length (hs_counts (observe d h)) = length latency_buckets" using Cons.prems(2) by (auto simp: observe_def Let_def)
  then show ?case using Cons.IH [of "observe d h"] by (cases ds) simp_all
qed simp

lemma sorted_buckets: "sorted latency_buckets"
  by (simp add: latency_buckets_def)

lemma cumulative_observe:
  assumes "hs_counts h = [] \<or> length (hs_counts h) = length latency_buckets" and "j < length latency_buckets"
  shows "sum_list (take (Suc j) (hs_counts (observe d h))) = sum_list (take (Suc j) (hs_counts h)) + (if d \<le> latency_buckets ! j then 1 else 0)"
  using assms sum_count_bucket [OF sorted_buckets _ assms(2)] by (auto simp: observe_def Let_def sum_list_replicate simp del: take_Suc_conv_app_nth)

lemma cumulative_fold:
  assumes "j < length latency_buckets"
  shows "hs_counts h = [] \<or> length (hs_counts h) = length latency_buckets \<Longrightarrow>
    sum_list (take (Suc j) (hs_counts (fold observe ds h))) = sum_list (take (Suc j) (hs_counts h)) + length (filter (\<lambda>d. d \<le> latency_buckets ! j) ds)"
proof (induction ds arbitrary: h)
  case (Cons d ds)
  have "length (hs_counts (observe d h)) = length latency_buckets" using Cons.prems by (auto simp: observe_def Let_def)
  then show ?case using Cons.IH [of "observe d h"] cumulative_observe [OF Cons.prems assms, of d] by simp
qed simp

lemma count_fold: "hs_count (fold observe ds h) = hs_count h + length ds"
  by (induction ds arbitrary: h) (simp_all add: observe_def Let_def)

datatype stream_event =
    Started "string \<times> direction"
  | Ended "string \<times> direction" outcome
  | StartedUp "string \<times> direction" stream_timings
  | Waited "string \<times> direction" int

fun stream_step :: "stream_event \<Rightarrow> streams \<Rightarrow> streams" where
  "stream_step (Started k) s = stream_started k s"
| "stream_step (Ended k x) s = stream_ended k x s"
| "stream_step (StartedUp k t) s = observe_startup k t s"
| "stream_step (Waited k d) s = observe_max_read_wait k d s"

text \<open>The durations a phase was observed with, for a key.\<close>

definition phase_of :: "(stream_timings \<Rightarrow> int) \<Rightarrow> string \<times> direction \<Rightarrow> stream_event list \<Rightarrow> int list" where
  "phase_of f k es = filter (\<lambda>d. 0 < d) (concat (map (\<lambda>e. case e of StartedUp j t \<Rightarrow> if j = k then [f t] else [] | _ \<Rightarrow> []) es))"

definition waits_of :: "string \<times> direction \<Rightarrow> stream_event list \<Rightarrow> int list" where
  "waits_of k es = filter (\<lambda>d. 0 < d) (concat (map (\<lambda>e. case e of Waited j d \<Rightarrow> if j = k then [d] else [] | _ \<Rightarrow> []) es))"

lemma get_upsert_stream: "stream_get (tbl_upsert j st s) k = (if k = j then st else stream_get s k)"
  by (simp add: stream_get_def)

lemmas stream_defs = stream_started_def stream_ended_def observe_startup_def observe_max_read_wait_def Let_def
  get_upsert_stream observe_if_def

lemma stream_fold_counts:
  "ss_active (stream_get (fold stream_step es s) k)
     = ss_active (stream_get s k) + int (count_list es (Started k)) - int (length (filter (\<lambda>e. \<exists>x. e = Ended k x) es))"
  by (induction es arbitrary: s rule: list.induct; simp)
    (rename_tac e es s, case_tac e; force simp: stream_defs)

lemma stream_fold_outcomes:
  "outcome_count (stream_get (fold stream_step es s) k) x = outcome_count (stream_get s k) x + count_list es (Ended k x)"
proof (induction es arbitrary: s)
  case (Cons e es)
  have "outcome_count (stream_get (stream_step e s) k) x = outcome_count (stream_get s k) x + (if e = Ended k x then 1 else 0)"
    by (cases e) (auto simp: stream_defs outcome_count_def)
  then show ?case using Cons.IH by simp
qed simp

text \<open>Each histogram is the fold of its observations: one step lemma per field.\<close>

lemma stream_fold_field:
  assumes "\<And>e s. H (stream_get (stream_step e s) k) = fold observe (D e) (H (stream_get s k))"
  shows "H (stream_get (fold stream_step es s) k) = fold observe (concat (map D es)) (H (stream_get s k))"
  by (induction es arbitrary: s) (simp_all add: assms)

definition phase_step :: "(stream_timings \<Rightarrow> int) \<Rightarrow> string \<times> direction \<Rightarrow> stream_event \<Rightarrow> int list" where
  "phase_step f k e = (case e of StartedUp j t \<Rightarrow> if j = k \<and> 0 < f t then [f t] else [] | _ \<Rightarrow> [])"

definition wait_step :: "string \<times> direction \<Rightarrow> stream_event \<Rightarrow> int list" where
  "wait_step k e = (case e of Waited j d \<Rightarrow> if j = k \<and> 0 < d then [d] else [] | _ \<Rightarrow> [])"

lemma phase_of_steps: "phase_of f k es = concat (map (phase_step f k) es)"
  by (induction es) (auto simp: phase_of_def phase_step_def split: stream_event.split)

lemma waits_of_steps: "waits_of k es = concat (map (wait_step k) es)"
  by (induction es) (auto simp: waits_of_def wait_step_def split: stream_event.split)

lemma stream_fold_histograms:
  "ss_conn_wait (stream_get (fold stream_step es s) k) = fold observe (phase_of ti_conn_wait k es) (ss_conn_wait (stream_get s k))"
  "ss_connect (stream_get (fold stream_step es s) k) = fold observe (phase_of ti_connect k es) (ss_connect (stream_get s k))"
  "ss_ttfb (stream_get (fold stream_step es s) k) = fold observe (phase_of ti_ttfb k es) (ss_ttfb (stream_get s k))"
  "ss_first_body (stream_get (fold stream_step es s) k) = fold observe (phase_of ti_first_body k es) (ss_first_body (stream_get s k))"
  "ss_startup (stream_get (fold stream_step es s) k) = fold observe (phase_of ti_startup k es) (ss_startup (stream_get s k))"
  "ss_max_read_wait (stream_get (fold stream_step es s) k) = fold observe (waits_of k es) (ss_max_read_wait (stream_get s k))"
  unfolding phase_of_steps waits_of_steps
  by (rule stream_fold_field, rename_tac e s', case_tac e; simp add: stream_defs phase_step_def wait_step_def)+

definition histogram_of :: "int list \<Rightarrow> histogram \<Rightarrow> bool" where
  "histogram_of ds h \<longleftrightarrow> hs_count h = length ds
     \<and> (ds \<noteq> [] \<longrightarrow> (\<forall>j < length latency_buckets.
           sum_list (take (Suc j) (hs_counts h)) = length (filter (\<lambda>d. d \<le> latency_buckets ! j) ds)))"

lemma histogram_of_fold: "histogram_of ds (fold observe ds no_histogram)"
  using cumulative_fold [of _ no_histogram ds] by (simp add: histogram_of_def count_fold no_histogram_def)

text \<open>C27: The stream metrics are exact. After any sequence of events, in any interleaving of streams: the active streams of a
  peer and direction are those started and not ended, each outcome is counted as often as a stream ended with
  it, and the cumulative buckets of each latency histogram count the observed durations up to their bound, a phase
  that did not happen not being observed.\<close>

theorem stream_metrics_exact:
  "let st = stream_get (fold stream_step es []) k
   in ss_active st = int (count_list es (Started k)) - int (length (filter (\<lambda>e. \<exists>x. e = Ended k x) es))
      \<and> (\<forall>x. outcome_count st x = count_list es (Ended k x))
      \<and> histogram_of (phase_of ti_conn_wait k es) (ss_conn_wait st)
      \<and> histogram_of (phase_of ti_connect k es) (ss_connect st)
      \<and> histogram_of (phase_of ti_ttfb k es) (ss_ttfb st)
      \<and> histogram_of (phase_of ti_first_body k es) (ss_first_body st)
      \<and> histogram_of (phase_of ti_startup k es) (ss_startup st)
      \<and> histogram_of (waits_of k es) (ss_max_read_wait st)"
proof -
  have z: "stream_get [] k = no_stream_stats" by (simp add: stream_get_def)
  show ?thesis
    unfolding Let_def stream_fold_histograms stream_fold_counts stream_fold_outcomes z
    by (simp add: no_stream_stats_def outcome_count_def histogram_of_fold)
qed

end
