(* ===== verification/OpenMetrics.thy ===== *)
theory OpenMetrics
  imports Metrics Listings
begin

section \<open>The metrics page (metrics/http.go, metrics/streams.go)\<close>

text \<open>
  \<open>OpenMetricsHandler\<close>: the families of metrics with their lines, in their order, and the text made of them.
  \<open>float64\<close> values are of an arbitrary type: \<open>secs\<close> is \<open>Duration.Seconds\<close>, \<open>sums\<close> the sum of a histogram's durations
  (which the model of histograms leaves out); \<open>quote\<close> is the verb \<open>%q\<close> and \<open>fmt_float\<close> the verb \<open>%f\<close>.
\<close>

datatype 'r metric_value = Count int | Float 'r

record 'r metric_line =
  ml_name :: string
  ml_labels :: "(string \<times> string) list"
  ml_value :: "'r metric_value"

record 'r family =
  fm_name :: string
  fm_type :: string
  fm_help :: string
  fm_lines :: "'r metric_line list"

definition line_of :: "string \<Rightarrow> (string \<times> string) list \<Rightarrow> 'r metric_value \<Rightarrow> 'r metric_line" where
  "line_of name labels v = \<lparr>ml_name = name, ml_labels = labels, ml_value = v\<rparr>"

subsection \<open>Library and peers\<close>

definition library_family :: "owner_counts list \<Rightarrow> 'r family" where
  "library_family owners =
     \<lparr>fm_name = ''jellysync_library_items'', fm_type = ''gauge'', fm_help = ''Catalog item count by owner and media type.'',
      fm_lines = concat (map (\<lambda>oc. map (\<lambda>(m, n). line_of ''jellysync_library_items'' [(''owner'', oc_owner oc), (''media_type'', m)] (Count (int n)))
        [(''movie'', oc_movies oc), (''series'', oc_series oc), (''episode'', oc_episodes oc)]) owners)\<rparr>"

definition up_family :: "peer list \<Rightarrow> 'r family" where
  "up_family ps =
     \<lparr>fm_name = ''jellysync_peer_up'', fm_type = ''gauge'', fm_help = ''1 if the peer's last heartbeat was healthy, else 0.'',
      fm_lines = map (\<lambda>p. line_of ''jellysync_peer_up'' [(''peer_id'', p_id p)] (Count (if p_state p = Online then 1 else 0))) ps\<rparr>"

definition rtt_family :: "(int \<Rightarrow> 'r) \<Rightarrow> peer list \<Rightarrow> 'r family" where
  "rtt_family secs ps =
     \<lparr>fm_name = ''jellysync_peer_rtt_seconds'', fm_type = ''gauge'', fm_help = ''Duration of the peer's last successful /health heartbeat.'',
      fm_lines = map (\<lambda>p. line_of ''jellysync_peer_rtt_seconds'' [(''peer_id'', p_id p)] (Float (secs (p_rtt p)))) (filter (\<lambda>p. 0 < p_rtt p) ps)\<rparr>"

subsection \<open>Streams\<close>

definition stream_keys :: "streams \<Rightarrow> (string \<times> direction) list" where
  "stream_keys s = sort_key (\<lambda>k. (fst k, dir_name (snd k))) (map fst s)"

definition stream_labels :: "string \<times> direction \<Rightarrow> (string \<times> string) list" where
  "stream_labels k = [(''peer_id'', fst k), (''direction'', dir_name (snd k))]"

definition active_family :: "streams \<Rightarrow> 'r family" where
  "active_family s =
     \<lparr>fm_name = ''jellysync_streams_active'', fm_type = ''gauge'',
      fm_help = ''Stream requests currently being relayed, per peer and direction.'',
      fm_lines = map (\<lambda>k. line_of ''jellysync_streams_active'' (stream_labels k) (Count (ss_active (stream_get s k)))) (stream_keys s)\<rparr>"

definition sorted_outcomes :: "stream_stats \<Rightarrow> (outcome \<times> nat) list" where
  "sorted_outcomes st = sort_key (\<lambda>x. outcome_name (fst x)) (ss_outcomes st)"

definition requests_family :: "streams \<Rightarrow> 'r family" where
  "requests_family s =
     \<lparr>fm_name = ''jellysync_stream_requests'', fm_type = ''counter'',
      fm_help = ''Finished stream requests per peer, direction and outcome.'',
      fm_lines = concat (map (\<lambda>k. map (\<lambda>(x, n). line_of ''jellysync_stream_requests_total'' (stream_labels k @ [(''outcome'', outcome_name x)]) (Count (int n)))
        (sorted_outcomes (stream_get s k))) (stream_keys s))\<rparr>"

text \<open>The bounds as \<open>FormatFloat\<close> writes them, and the running sum over the buckets.\<close>

definition bucket_texts :: "string list" where
  "bucket_texts = [''0.005'', ''0.01'', ''0.025'', ''0.05'', ''0.1'', ''0.25'', ''0.5'', ''1'', ''2.5'', ''5'', ''10'', ''30'']"

fun running_sums :: "nat \<Rightarrow> nat list \<Rightarrow> nat list" where
  "running_sums cum [] = []"
| "running_sums cum (n # ns) = (cum + n) # running_sums (cum + n) ns"

definition histogram_lines :: "string \<Rightarrow> (string \<times> string) list \<Rightarrow> 'r \<Rightarrow> histogram \<Rightarrow> 'r metric_line list" where
  "histogram_lines name labels ssum h =
     (if hs_count h = 0 then []
      else map (\<lambda>(le, cum). line_of (name @ ''_bucket'') (labels @ [(''le'', le)]) (Count (int cum))) (zip bucket_texts (running_sums 0 (hs_counts h)))
        @ [line_of (name @ ''_bucket'') (labels @ [(''le'', ''+Inf'')]) (Count (int (hs_count h))),
           line_of (name @ ''_count'') labels (Count (int (hs_count h))),
           line_of (name @ ''_sum'') labels (Float ssum)])"

definition histogram_family ::
  "(string \<Rightarrow> string \<times> direction \<Rightarrow> 'r) \<Rightarrow> streams \<Rightarrow> string \<times> string \<times> (stream_stats \<Rightarrow> histogram) \<Rightarrow> 'r family" where
  "histogram_family sums s nh =
     (case nh of (name, help, get) \<Rightarrow>
        \<lparr>fm_name = name, fm_type = ''histogram'', fm_help = help,
         fm_lines = concat (map (\<lambda>k. histogram_lines name (stream_labels k) (sums name k) (get (stream_get s k))) (stream_keys s))\<rparr>)"

definition stream_histograms :: "(string \<times> string \<times> (stream_stats \<Rightarrow> histogram)) list" where
  "stream_histograms =
     [(''jellysync_stream_conn_wait_seconds'', ''Time from asking for an upstream connection to getting one: pool wait, dial and TLS handshake (the only phase that shows a paired peer's handshake).'', ss_conn_wait),
      (''jellysync_stream_connect_seconds'', ''TCP connect time to the stream upstream, new connections only.'', ss_connect),
      (''jellysync_stream_ttfb_seconds'', ''Time from the upstream request being written to its first response byte.'', ss_ttfb),
      (''jellysync_stream_first_body_seconds'', ''Time from upstream response headers to the first body byte.'', ss_first_body),
      (''jellysync_stream_startup_seconds'', ''Time from a stream request arriving to its first body byte being ready to relay.'', ss_startup),
      (''jellysync_stream_max_read_wait_seconds'', ''Longest single upstream read of a finished stream request: its worst mid-transfer stall.'', ss_max_read_wait)]"

definition stream_families :: "(string \<Rightarrow> string \<times> direction \<Rightarrow> 'r) \<Rightarrow> streams \<Rightarrow> 'r family list" where
  "stream_families sums s = active_family s # requests_family s # map (histogram_family sums s) stream_histograms"

subsection \<open>Traffic\<close>

definition both_directions :: "string \<Rightarrow> string \<Rightarrow> 'r metric_value \<Rightarrow> 'r metric_value \<Rightarrow> 'r metric_line list" where
  "both_directions name i x y =
     [line_of name [(''peer_id'', i), (''direction'', ''in'')] x, line_of name [(''peer_id'', i), (''direction'', ''out'')] y]"

definition bytes_family :: "(string, 'r traffic) tbl \<Rightarrow> 'r family" where
  "bytes_family t =
     \<lparr>fm_name = ''jellysync_traffic_bytes'', fm_type = ''counter'', fm_help = ''Cumulative bytes transferred per peer and direction.'',
      fm_lines = concat (map (\<lambda>(i, tr). both_directions ''jellysync_traffic_bytes'' i (Count (tr_total_in tr)) (Count (tr_total_out tr))) (sort_key fst t))\<rparr>"

definition bitrate_family :: "(string, 'r traffic) tbl \<Rightarrow> 'r family" where
  "bitrate_family t =
     \<lparr>fm_name = ''jellysync_traffic_bitrate_bytes_per_second'', fm_type = ''gauge'', fm_help = ''Current transfer rate per peer and direction.'',
      fm_lines = concat (map (\<lambda>(i, tr). both_directions ''jellysync_traffic_bitrate_bytes_per_second'' i (Float (tr_current_in tr)) (Float (tr_current_out tr)))
        (sort_key fst t))\<rparr>"

definition families ::
  "(int \<Rightarrow> 'r) \<Rightarrow> (string \<Rightarrow> string \<times> direction \<Rightarrow> 'r) \<Rightarrow> database \<Rightarrow> 'r :: {zero, plus} collector \<Rightarrow> streams \<Rightarrow> registry \<Rightarrow> 'r family list" where
  "families secs sums d c s r =
     [library_family (stats d), up_family (list_peers r), rtt_family secs (list_peers r)] @ stream_families sums s
     @ [bytes_family (resolved_snapshot c r), bitrate_family (resolved_snapshot c r)]"

subsection \<open>The text\<close>

definition newline :: string where "newline = [CHR 0x0A]"

definition label_text :: "(string \<Rightarrow> string) \<Rightarrow> (string \<times> string) list \<Rightarrow> string" where
  "label_text quote ls = join_with '','' (map (\<lambda>(k, v). k @ ''='' @ quote v) ls)"

definition line_text :: "(string \<Rightarrow> string) \<Rightarrow> ('r \<Rightarrow> string) \<Rightarrow> 'r metric_line \<Rightarrow> string" where
  "line_text quote fmt_float l =
     ml_name l @ ''{'' @ label_text quote (ml_labels l) @ ''} '' @ (case ml_value l of Count n \<Rightarrow> fmt_int n | Float x \<Rightarrow> fmt_float x) @ newline"

definition family_text :: "(string \<Rightarrow> string) \<Rightarrow> ('r \<Rightarrow> string) \<Rightarrow> 'r family \<Rightarrow> string" where
  "family_text quote fmt_float f =
     ''# TYPE '' @ fm_name f @ '' '' @ fm_type f @ newline @ ''# HELP '' @ fm_name f @ '' '' @ fm_help f @ newline
     @ concat (map (line_text quote fmt_float) (fm_lines f))"

definition open_metrics_handler ::
  "(string \<Rightarrow> string) \<Rightarrow> ('r \<Rightarrow> string) \<Rightarrow> (int \<Rightarrow> 'r) \<Rightarrow> (string \<Rightarrow> string \<times> direction \<Rightarrow> 'r) \<Rightarrow> go_error option \<Rightarrow> database
     \<Rightarrow> 'r :: {zero, plus} collector \<Rightarrow> streams \<Rightarrow> registry \<Rightarrow> string response" where
  "open_metrics_handler quote fmt_float secs sums fault d c s r =
     (case fault of
        Some e \<Rightarrow> HttpError 500 ''query''
      | None \<Rightarrow> Json 200 (concat (map (family_text quote fmt_float) (families secs sums d c s r)) @ ''# EOF'' @ newline))"

end
