(* ===== verification/OpenMetricsTheorems.thy ===== *)
theory OpenMetricsTheorems
  imports OpenMetrics MetricsTheorems ListingTheorems PeersProps
begin

section \<open>The metrics page: what it promises\<close>

text \<open>
  No two families share a name, every line belongs to its family, and no series is listed twice; the buckets of a
  histogram are cumulative.
\<close>

subsection \<open>Distinct lists\<close>

lemma distinct_concat_by:
  assumes "distinct xs" "\<And>x. x \<in> set xs \<Longrightarrow> distinct (f x)" "\<And>x y. x \<in> set xs \<Longrightarrow> y \<in> set (f x) \<Longrightarrow> h y = x"
  shows "distinct (concat (map f xs))"
  using assms
proof (induction xs)
  case (Cons x xs)
  have "set (f x) \<inter> (\<Union>z \<in> set xs. set (f z)) = {}"
  proof (rule ccontr)
    assume "\<not> ?thesis"
    then obtain y z where "y \<in> set (f x)" "z \<in> set xs" "y \<in> set (f z)" by blast
    then have "h y = x" "h y = z" using Cons.prems(3) by auto
    then show False using Cons.prems(1) \<open>z \<in> set xs\<close> by simp
  qed
  with Cons show ?case by simp
qed simp

definition series_of :: "'r metric_line \<Rightarrow> string \<times> (string \<times> string) list" where
  "series_of l = (ml_name l, ml_labels l)"

lemma series_line_of [simp]: "series_of (line_of name labels v) = (name, labels)"
  by (simp add: series_of_def line_of_def)

definition label :: "nat \<Rightarrow> string \<times> (string \<times> string) list \<Rightarrow> string" where
  "label i s = snd (snd s ! i)"

text \<open>What the families look like to a reader: distinct series, under the names the family's type allows.\<close>

definition sample_names :: "string \<Rightarrow> string \<Rightarrow> string list" where
  "sample_names name ty =
     (if ty = ''histogram'' then [name @ ''_bucket'', name @ ''_count'', name @ ''_sum'']
      else if ty = ''counter'' then [name, name @ ''_total'']
      else [name])"

definition family_ok :: "'r family \<Rightarrow> bool" where
  "family_ok f \<longleftrightarrow> distinct (map series_of (fm_lines f)) \<and> ml_name ` set (fm_lines f) \<subseteq> set (sample_names (fm_name f) (fm_type f))"

lemma family_okI:
  assumes "distinct (map series_of (fm_lines f))" "\<And>l. l \<in> set (fm_lines f) \<Longrightarrow> ml_name l \<in> set (sample_names (fm_name f) (fm_type f))"
  shows "family_ok f"
  using assms by (auto simp: family_ok_def)

lemma name_line_of [simp]: "ml_name (line_of name labels v) = name"
  by (simp add: line_of_def)

lemma library_ok:
  assumes "distinct (map oc_owner owners)"
  shows "family_ok (library_family owners)"
proof (rule family_okI)
  have e: "map series_of (fm_lines (library_family owners)) = concat (map (\<lambda>w. map (\<lambda>m. (''jellysync_library_items'', [(''owner'', w), (''media_type'', m)]))
      [''movie'', ''series'', ''episode'']) (map oc_owner owners))"
    by (simp add: library_family_def map_concat comp_def)
  show "distinct (map series_of (fm_lines (library_family owners)))"
    unfolding e by (rule distinct_concat_by [where h = "label 0", OF assms]) (auto simp: label_def)
qed (auto simp: library_family_def sample_names_def)

lemma up_ok:
  assumes "distinct (map p_id ps)"
  shows "family_ok (up_family ps)"
  using assms by (intro family_okI) (auto simp: up_family_def sample_names_def distinct_map comp_def inj_on_def)

lemma rtt_ok:
  assumes "distinct (map p_id ps)"
  shows "family_ok (rtt_family secs ps)"
  using assms by (intro family_okI) (auto simp: rtt_family_def sample_names_def distinct_map comp_def inj_on_def)

subsection \<open>Streams\<close>

lemma stream_keys_distinct: "keyed s \<Longrightarrow> distinct (stream_keys s)"
  by (simp add: stream_keys_def keyed_def)

text \<open>The key a series is about.\<close>

definition key_of :: "string \<times> (string \<times> string) list \<Rightarrow> string \<times> direction" where
  "key_of s = (label 0 s, if label 1 s = ''in'' then DirIn else DirOut)"

lemma key_of_labels [simp]: "key_of (name, stream_labels k @ ls) = k" "key_of (name, stream_labels k) = k"
  by (cases k; cases "snd k"; simp add: key_of_def label_def stream_labels_def)+

lemma active_ok:
  assumes "keyed s"
  shows "family_ok (active_family s)"
proof (rule family_okI)
  have "inj_on (\<lambda>k. (''jellysync_streams_active'', stream_labels k)) A" for A
    by (rule inj_onI) (metis key_of_labels(2))
  then show "distinct (map series_of (fm_lines (active_family s)))"
    using stream_keys_distinct [OF assms] by (simp add: active_family_def distinct_map comp_def)
qed (auto simp: active_family_def sample_names_def)

definition streams_ok :: "streams \<Rightarrow> bool" where
  "streams_ok s \<longleftrightarrow> keyed s \<and> (\<forall>k. keyed (ss_outcomes (stream_get s k)))"

lemma outcome_name_inj [simp]: "outcome_name x = outcome_name y \<longleftrightarrow> x = y"
  by (cases x; cases y) simp_all

lemma requests_ok:
  assumes "streams_ok s"
  shows "family_ok (requests_family s)"
proof (rule family_okI)
  have st: "keyed (ss_outcomes (stream_get s k))" for k using assms unfolding streams_ok_def by blast
  let ?f = "\<lambda>k. map (\<lambda>(x, n). (''jellysync_stream_requests_total'', stream_labels k @ [(''outcome'', outcome_name x)])) (sorted_outcomes (stream_get s k))"
  have "distinct (map fst (sorted_outcomes (stream_get s k)))" for k
  proof -
    have "distinct (ss_outcomes (stream_get s k))" using st [of k] by (simp add: keyed_def distinct_map)
    then have "distinct (sorted_outcomes (stream_get s k))" by (simp add: sorted_outcomes_def)
    moreover have "inj_on fst (set (sorted_outcomes (stream_get s k)))"
      using st [of k] by (simp add: keyed_def distinct_map sorted_outcomes_def)
    ultimately show ?thesis by (simp add: distinct_map)
  qed
  then have d: "distinct (?f k)" for k
    by (auto simp: distinct_map case_prod_unfold inj_on_def)
  have e: "map series_of (fm_lines (requests_family s)) = concat (map ?f (stream_keys s))"
    by (simp add: requests_family_def map_concat comp_def case_prod_unfold)
  show "distinct (map series_of (fm_lines (requests_family s)))"
    unfolding e using assms
    by (intro distinct_concat_by [where h = key_of] stream_keys_distinct d) (auto simp: streams_ok_def)
qed (auto simp: requests_family_def sample_names_def)

text \<open>A histogram: every bound once, the infinite one among them.\<close>

lemma bucket_texts_distinct: "distinct (bucket_texts @ [''+Inf''])"
  by code_simp

lemma suffixes: "name @ ''_bucket'' \<noteq> name @ ''_count''" "name @ ''_bucket'' \<noteq> name @ ''_sum''" "name @ ''_count'' \<noteq> name @ ''_sum''"
  by simp_all

lemma histogram_lines_distinct: "distinct (map series_of (histogram_lines name labels ssum h))"
proof (cases "hs_count h = 0")
  case True
  then show ?thesis by (simp add: histogram_lines_def)
next
  case False
  let ?z = "zip bucket_texts (running_sums 0 (hs_counts h))"
  have z: "map fst ?z = take (length (running_sums 0 (hs_counts h))) bucket_texts" by (simp add: map_fst_zip_take min_def)
  have sub: "set (map fst ?z) \<subseteq> set bucket_texts" unfolding z by (auto dest: in_set_takeD)
  have "distinct (map fst ?z)" unfolding z using bucket_texts_distinct by (simp add: distinct_take)
  moreover have inf: "''+Inf'' \<notin> set (map fst ?z)" using bucket_texts_distinct sub by auto
  moreover have "map series_of (map (\<lambda>(le, cum). line_of (name @ ''_bucket'') (labels @ [(''le'', le)]) (Count (int cum))) ?z)
      = map (\<lambda>le. (name @ ''_bucket'', labels @ [(''le'', le)])) (map fst ?z)"
    by (simp add: case_prod_unfold comp_def)
  ultimately show ?thesis
    using False by (auto simp: histogram_lines_def distinct_map inj_on_def case_prod_unfold comp_def)
qed

text \<open>A series of a histogram is about its key, whatever line of it.\<close>

lemma histogram_lines_series:
  assumes "x \<in> set (histogram_lines name (stream_labels k) ssum h)"
  shows "ml_name x \<in> {name @ ''_bucket'', name @ ''_count'', name @ ''_sum''}" "key_of (series_of x) = k"
  using assms by (auto simp: histogram_lines_def split: if_splits)

lemma histogram_ok:
  assumes "keyed s"
  shows "family_ok (histogram_family sums s nh)"
proof (cases nh)
  case (fields name hlp get)
  let ?ls = "\<lambda>k. histogram_lines name (stream_labels k) (sums name k) (get (stream_get s k))"
  have lines: "fm_lines (histogram_family sums s nh) = concat (map ?ls (stream_keys s))"
    "fm_name (histogram_family sums s nh) = name" "fm_type (histogram_family sums s nh) = ''histogram''"
    by (simp_all add: fields histogram_family_def)
  show ?thesis
  proof (rule family_okI)
    have e: "map series_of (fm_lines (histogram_family sums s nh)) = concat (map (\<lambda>k. map series_of (?ls k)) (stream_keys s))"
      by (simp add: lines map_concat comp_def)
    show "distinct (map series_of (fm_lines (histogram_family sums s nh)))"
      unfolding e by (intro distinct_concat_by [where h = key_of] stream_keys_distinct assms histogram_lines_distinct)
        (auto dest: histogram_lines_series(2))
  next
    fix l assume "l \<in> set (fm_lines (histogram_family sums s nh))"
    then obtain k where "l \<in> set (?ls k)" unfolding lines by auto
    then show "ml_name l \<in> set (sample_names (fm_name (histogram_family sums s nh)) (fm_type (histogram_family sums s nh)))"
      unfolding lines sample_names_def by (auto dest: histogram_lines_series(1))
  qed
qed

subsection \<open>Traffic\<close>

lemma both_directions_ok:
  assumes "keyed t" and f: "fm_lines f = concat (map (\<lambda>(i, tr). both_directions name i (x tr) (y tr)) (sort_key fst t))"
    and n: "name = fm_name f" "fm_type f \<noteq> ''histogram''"
  shows "family_ok f"
proof (rule family_okI)
  have e: "map series_of (fm_lines f) = concat (map (\<lambda>i. map (\<lambda>w. (name, [(''peer_id'', i), (''direction'', w)])) [''in'', ''out'']) (map fst (sort_key fst t)))"
    by (simp add: f map_concat comp_def case_prod_unfold both_directions_def)
  have sk: "distinct (map fst (sort_key fst t))"
  proof -
    have "distinct (sort_key fst t)" "inj_on fst (set (sort_key fst t))" using assms(1) by (simp_all add: keyed_def distinct_map)
    then show ?thesis by (simp add: distinct_map)
  qed
  show "distinct (map series_of (fm_lines f))"
    unfolding e by (rule distinct_concat_by [where h = "label 0", OF sk]) (auto simp: label_def)
next
  fix l assume "l \<in> set (fm_lines f)"
  then have "ml_name l = name" by (auto simp: f both_directions_def)
  then show "ml_name l \<in> set (sample_names (fm_name f) (fm_type f))" using n by (simp add: sample_names_def)
qed

lemma resolve_names_keyed: "keyed snap \<Longrightarrow> keyed (resolve_names ps snap)"
  by (induction ps arbitrary: snap) (auto split: option.split simp: Let_def)

lemma resolved_keyed: "keyed c \<Longrightarrow> keyed (resolved_snapshot c r)"
  unfolding resolved_snapshot_def by (rule resolve_names_keyed) (simp add: keyed_def snapshot_def case_prod_unfold comp_def)

lemma bytes_ok: "keyed t \<Longrightarrow> family_ok (bytes_family t)"
  by (rule both_directions_ok [where name = "''jellysync_traffic_bytes''"]) (simp_all add: bytes_family_def)

lemma bitrate_ok: "keyed t \<Longrightarrow> family_ok (bitrate_family t)"
  by (rule both_directions_ok [where name = "''jellysync_traffic_bitrate_bytes_per_second''"]) (simp_all add: bitrate_family_def)

text \<open>The tables the collector keeps are keyed after any run.\<close>

lemma streams_ok_step: "streams_ok s \<Longrightarrow> streams_ok (stream_step e s)"
  by (cases e) (simp_all add: streams_ok_def stream_defs del: split_paired_All)

lemma streams_ok_run: "streams_ok s \<Longrightarrow> streams_ok (fold stream_step es s)"
  by (induction es arbitrary: s) (simp_all add: streams_ok_step)

lemma streams_ok_empty: "streams_ok []"
  by (simp add: streams_ok_def stream_get_def no_stream_stats_def)

lemma registry_ids:
  assumes "registry_ok (r, d)"
  shows "distinct (map p_id (list_peers r))"
proof -
  have k: "keyed (rg_peers r)" using assms by (simp add: registry_ok_def)
  have "p_id (snd x) = fst x" if "x \<in> set (rg_peers r)" for x
  proof -
    have "map_of (rg_peers r) (fst x) = Some (snd x)" using that keyed_map_of_eq [OF k] by simp
    then show ?thesis using registry_okD [OF assms, of "fst x"] by (auto simp: row_matches_def option_rel_Some1)
  qed
  then have "map p_id (list_peers r) = map fst (rg_peers r)" by (simp add: list_peers_def)
  then show ?thesis using k by (simp add: keyed_def)
qed

subsection \<open>The page\<close>

definition family_names :: "(string \<times> string) list" where
  "family_names = [(''jellysync_library_items'', ''gauge''), (''jellysync_peer_up'', ''gauge''), (''jellysync_peer_rtt_seconds'', ''gauge''),
     (''jellysync_streams_active'', ''gauge''), (''jellysync_stream_requests'', ''counter'')]
     @ map (\<lambda>n. (n, ''histogram'')) [''jellysync_stream_conn_wait_seconds'', ''jellysync_stream_connect_seconds'', ''jellysync_stream_ttfb_seconds'',
        ''jellysync_stream_first_body_seconds'', ''jellysync_stream_startup_seconds'', ''jellysync_stream_max_read_wait_seconds'']
     @ [(''jellysync_traffic_bytes'', ''counter''), (''jellysync_traffic_bitrate_bytes_per_second'', ''gauge'')]"

lemma families_names: "map (\<lambda>f. (fm_name f, fm_type f)) (families secs sums d c s r) = family_names"
  by (simp add: families_def family_names_def stream_families_def stream_histograms_def library_family_def up_family_def rtt_family_def
    active_family_def requests_family_def histogram_family_def bytes_family_def bitrate_family_def)

lemma family_names_distinct: "distinct (concat (map (\<lambda>(n, t). sample_names n t) family_names))"
  by (simp add: family_names_def sample_names_def stream_histograms_def)

lemma families_ok:
  assumes "keyed c" "registry_ok (r, d)" "streams_ok s"
  shows "\<forall>f \<in> set (families secs sums d c s r). family_ok f"
proof -
  have s: "keyed s" using assms(3) by (simp add: streams_ok_def)
  have o: "distinct (map oc_owner (stats d))" using stats_count_owners by blast
  note facts = library_ok [OF o] up_ok [OF registry_ids [OF assms(2)]] rtt_ok [OF registry_ids [OF assms(2)]] active_ok [OF s]
    requests_ok [OF assms(3)] histogram_ok [OF s] bytes_ok [OF resolved_keyed [OF assms(1)]] bitrate_ok [OF resolved_keyed [OF assms(1)]]
  show ?thesis unfolding families_def stream_families_def by (simp add: facts)
qed

lemma distinct_pages:
  assumes "distinct (concat (map g fs))" "\<And>f. f \<in> set fs \<Longrightarrow> distinct (map series_of (fm_lines f))"
    "\<And>f. f \<in> set fs \<Longrightarrow> ml_name ` set (fm_lines f) \<subseteq> set (g f)"
  shows "distinct (map series_of (concat (map fm_lines fs)))"
  using assms
proof (induction fs)
  case (Cons f fs)
  have "\<not> (x \<in> series_of ` set (fm_lines f) \<and> x \<in> series_of ` set (concat (map fm_lines fs)))" for x
  proof (rule notI, elim conjE)
    assume "x \<in> series_of ` set (fm_lines f)" and "x \<in> series_of ` set (concat (map fm_lines fs))"
    then obtain l m h where l: "l \<in> set (fm_lines f)" "x = series_of l" and m: "h \<in> set fs" "m \<in> set (fm_lines h)" "x = series_of m"
      by auto
    have "ml_name l = ml_name m" using l(2) m(3) by (simp add: series_of_def)
    moreover have "ml_name l \<in> set (g f)" using Cons.prems(3) [of f] l(1) by auto
    moreover have "ml_name m \<in> set (g h)" using Cons.prems(3) [of h] m(1,2) by auto
    moreover have "set (g f) \<inter> set (g h) = {}" using Cons.prems(1) m(1) by auto
    ultimately show False by auto
  qed
  then have "set (map series_of (fm_lines f)) \<inter> set (map series_of (concat (map fm_lines fs))) = {}" by auto
  moreover have "distinct (map series_of (concat (map fm_lines fs)))" "distinct (map series_of (fm_lines f))" using Cons by simp_all
  ultimately show ?case unfolding list.map(2) concat.simps map_append distinct_append by blast
qed simp

text \<open>The buckets, as the page shows them.\<close>

lemma running_sums_nth: "j < length ns \<Longrightarrow> running_sums cum ns ! j = cum + sum_list (take (Suc j) ns)"
  by (induction cum ns arbitrary: j rule: running_sums.induct) (auto simp: nth_Cons' take_Cons' gr0_conv_Suc)

lemma length_running_sums [simp]: "length (running_sums cum ns) = length ns"
  by (induction cum ns rule: running_sums.induct) simp_all

lemma length_buckets: "length bucket_texts = length latency_buckets"
  by (simp add: bucket_texts_def latency_buckets_def)

text \<open>The lines of the durations observed.\<close>

definition observed_lines :: "string \<Rightarrow> (string \<times> string) list \<Rightarrow> 'r \<Rightarrow> int list \<Rightarrow> 'r metric_line list" where
  "observed_lines name labels ssum ds =
     map (\<lambda>j. line_of (name @ ''_bucket'') (labels @ [(''le'', bucket_texts ! j)]) (Count (int (length (filter (\<lambda>d. d \<le> latency_buckets ! j) ds)))))
       [0..<length latency_buckets]
     @ [line_of (name @ ''_bucket'') (labels @ [(''le'', ''+Inf'')]) (Count (int (length ds))),
        line_of (name @ ''_count'') labels (Count (int (length ds))), line_of (name @ ''_sum'') labels (Float ssum)]"

lemma histogram_shown:
  assumes "ds \<noteq> []" and h: "h = fold observe ds no_histogram"
  shows "histogram_lines name labels ssum h = observed_lines name labels ssum ds"
proof -
  have shape: "length (hs_counts h) = length latency_buckets"
    unfolding h by (rule observed_shape [OF _ assms(1)]) (simp add: no_histogram_def)
  have hist: "histogram_of ds h" unfolding h by (rule histogram_of_fold)
  then have n: "hs_count h = length ds" by (simp add: histogram_of_def)
  have "running_sums 0 (hs_counts h) ! j = length (filter (\<lambda>d. d \<le> latency_buckets ! j) ds)" if "j < length latency_buckets" for j
    using hist assms(1) that by (simp add: histogram_of_def running_sums_nth shape)
  then have "zip bucket_texts (running_sums 0 (hs_counts h))
      = map (\<lambda>j. (bucket_texts ! j, length (filter (\<lambda>d. d \<le> latency_buckets ! j) ds))) [0..<length latency_buckets]"
    by (intro nth_equalityI) (simp_all add: shape length_buckets)
  then show ?thesis using assms(1) by (simp add: histogram_lines_def observed_lines_def n)
qed

text \<open>Which durations of the streams of a peer and direction each histogram of the page is of.\<close>

definition histogram_sources :: "(string \<times> (string \<times> direction \<Rightarrow> stream_event list \<Rightarrow> int list)) list" where
  "histogram_sources =
     [(''jellysync_stream_conn_wait_seconds'', phase_of ti_conn_wait), (''jellysync_stream_connect_seconds'', phase_of ti_connect),
      (''jellysync_stream_ttfb_seconds'', phase_of ti_ttfb), (''jellysync_stream_first_body_seconds'', phase_of ti_first_body),
      (''jellysync_stream_startup_seconds'', phase_of ti_startup), (''jellysync_stream_max_read_wait_seconds'', waits_of)]"

lemma histogram_family_lines:
  assumes "\<And>k. get (stream_get s k) = fold observe (seen k) no_histogram"
  shows "fm_lines (histogram_family sums s (name, descr, get))
    = concat (map (\<lambda>k. if seen k = [] then [] else observed_lines name (stream_labels k) (sums name k) (seen k)) (stream_keys s))"
proof -
  have "histogram_lines name (stream_labels k) (sums name k) (get (stream_get s k))
      = (if seen k = [] then [] else observed_lines name (stream_labels k) (sums name k) (seen k))" for k
    unfolding assms by (simp add: histogram_shown) (simp add: histogram_lines_def no_histogram_def)
  then show ?thesis by (simp add: histogram_family_def)
qed

lemma page_histograms:
  assumes "s = fold stream_step es []" and "(name, seen) \<in> set histogram_sources"
  shows "\<exists>f \<in> set (families secs sums d c s r). fm_name f = name
    \<and> fm_lines f = concat (map (\<lambda>k. if seen k es = [] then [] else observed_lines name (stream_labels k) (sums name k) (seen k es)) (stream_keys s))"
proof -
  have z: "stream_get [] k = no_stream_stats" for k by (simp add: stream_get_def)
  note S = stream_fold_histograms [of es "[]", unfolded z no_stream_stats_def stream_stats.simps]
  have "\<exists>descr get. (name, descr, get) \<in> set stream_histograms \<and> (\<forall>k. get (stream_get s k) = fold observe (seen k es) no_histogram)"
    using assms(2) S unfolding assms(1) histogram_sources_def stream_histograms_def
    by simp (elim disjE conjE; simp)
  then obtain descr get where h: "(name, descr, get) \<in> set stream_histograms" "\<And>k. get (stream_get s k) = fold observe (seen k es) no_histogram"
    by blast
  have "histogram_family sums s (name, descr, get) \<in> set (families secs sums d c s r)"
    using h(1) unfolding families_def stream_families_def by simp
  moreover have "fm_name (histogram_family sums s (name, descr, get)) = name" by (simp add: histogram_family_def)
  ultimately show ?thesis using histogram_family_lines [where seen = "\<lambda>k. seen k es", OF h(2)] by blast
qed

text \<open>C26: The metrics page is well formed after any sequence of stream events, whatever was recorded and whatever peers
  there are: it has the thirteen families with their names and types, in order, none twice (so none is interleaved with another), every
  line stands in the family its name belongs to, no series is listed twice on the whole page, and each of the six histogram families shows,
  for every peer and direction with streams, at every bound the number of the durations of its phase (or of the longest waits) up to that
  bound, all of them at the infinite one, and nothing while there is none. The sums beside the counts are an argument.\<close>

theorem metrics_page_well_formed:
  assumes "keyed c" "registry_ok (r, d)" "s = fold stream_step es []"
  shows "map (\<lambda>f. (fm_name f, fm_type f)) (families secs sums d c s r) = family_names \<and> distinct (map fst family_names)
    \<and> (\<forall>f \<in> set (families secs sums d c s r). ml_name ` set (fm_lines f) \<subseteq> set (sample_names (fm_name f) (fm_type f)))
    \<and> distinct (map series_of (concat (map fm_lines (families secs sums d c s r))))
    \<and> (\<forall>(name, seen) \<in> set histogram_sources. \<exists>f \<in> set (families secs sums d c s r). fm_name f = name
         \<and> fm_lines f = concat (map (\<lambda>k. if seen k es = [] then [] else observed_lines name (stream_labels k) (sums name k) (seen k es)) (stream_keys s)))"
proof (intro conjI)
  let ?fs = "families secs sums d c s r"
  have ok: "\<forall>f \<in> set ?fs. family_ok f"
    using families_ok [OF assms(1,2) streams_ok_run [OF streams_ok_empty, of es]] assms(3) by simp
  show "map (\<lambda>f. (fm_name f, fm_type f)) ?fs = family_names" by (rule families_names)
  show "distinct (map fst family_names)" by (simp add: family_names_def)
  have names: "map (\<lambda>f. sample_names (fm_name f) (fm_type f)) ?fs = map (\<lambda>(n, t). sample_names n t) family_names"
    unfolding families_names [of secs sums d c s r, symmetric] by (simp add: comp_def)
  show within: "\<forall>f \<in> set ?fs. ml_name ` set (fm_lines f) \<subseteq> set (sample_names (fm_name f) (fm_type f))"
    using ok by (simp add: family_ok_def)
  show "distinct (map series_of (concat (map fm_lines ?fs)))"
    by (rule distinct_pages [where g = "\<lambda>f. sample_names (fm_name f) (fm_type f)"])
      (use ok family_names_distinct names within in \<open>simp_all add: family_ok_def\<close>)
  show "\<forall>(name, seen) \<in> set histogram_sources. \<exists>f \<in> set ?fs. fm_name f = name
      \<and> fm_lines f = concat (map (\<lambda>k. if seen k es = [] then [] else observed_lines name (stream_labels k) (sums name k) (seen k es)) (stream_keys s))"
    using page_histograms [OF assms(3)] by blast
qed

definition ex_rows :: database where
  "ex_rows = empty_db\<lparr>peers_tbl := map (\<lambda>i. (i, \<lparr>pr_url = ''http://h'', pr_state = ''online'', pr_last_seen_at = None, pr_version = ''1'',
     pr_name = ''nas'', pr_pin = []\<rparr>)) [''nas'', ''nas-2'']\<rparr>"

definition ex_started :: "stream_event list" where
  "ex_started = [Started (''tv'', DirIn), StartedUp (''tv'', DirIn) \<lparr>ti_conn_wait = 0, ti_connect = 0, ti_ttfb = 0, ti_first_body = 0, ti_startup = 7000000\<rparr>]"

theorem metrics_page_well_formed_witness:
  "\<exists>f \<in> set (families (\<lambda>n. n) (\<lambda>_ _. 7 :: int) ex_rows ex_counted (fold stream_step ex_started []) ex_two_peers).
     fm_name f = ''jellysync_stream_startup_seconds''
     \<and> fm_lines f = observed_lines ''jellysync_stream_startup_seconds'' (stream_labels (''tv'', DirIn)) 7 [7000000]"
proof -
  have c: "keyed ex_counted" by (simp add: ex_counted_def record_bytes_def keyed_def tbl_upsert_def Let_def)
  have r: "registry_ok (ex_two_peers, ex_rows)"
    by (simp add: registry_ok_def ex_two_peers_def ex_rows_def keyed_def row_matches_def ex_named_def)
  have i: "(''jellysync_stream_startup_seconds'', phase_of ti_startup) \<in> set histogram_sources" by (simp add: histogram_sources_def)
  have k: "stream_keys (fold stream_step ex_started []) = [(''tv'', DirIn)]"
    by (simp add: stream_keys_def ex_started_def stream_started_def observe_startup_def tbl_upsert_def Let_def)
  have p: "phase_of ti_startup (''tv'', DirIn) ex_started = [7000000]" by (simp add: phase_of_def ex_started_def)
  have "\<exists>f \<in> set (families (\<lambda>n. n) (\<lambda>_ _. 7 :: int) ex_rows ex_counted (fold stream_step ex_started []) ex_two_peers).
      fm_name f = ''jellysync_stream_startup_seconds'' \<and> fm_lines f = concat (map (\<lambda>k. if phase_of ti_startup k ex_started = [] then []
        else observed_lines ''jellysync_stream_startup_seconds'' (stream_labels k) 7 (phase_of ti_startup k ex_started))
          (stream_keys (fold stream_step ex_started [])))"
    using metrics_page_well_formed [OF c r refl, where es = ex_started and secs = "\<lambda>n. n" and sums = "\<lambda>_ _. 7 :: int"] i by blast
  then show ?thesis unfolding k by (simp add: p)
qed

text \<open>But the samples of the counter of bytes do not end in \<open>_total\<close>, which OpenMetrics asks of a counter's samples;
  those of the other counter do.\<close>

lemma byte_counter_without_total:
  "fm_type (bytes_family t) = ''counter'' \<and> ml_name ` set (fm_lines (bytes_family t)) \<subseteq> {fm_name (bytes_family t)}"
  "ml_name ` set (fm_lines (requests_family s)) \<subseteq> {fm_name (requests_family s) @ ''_total''}"
  by (auto simp: bytes_family_def both_directions_def requests_family_def)

end
