(* ===== verification/Proxy.thy ===== *)
theory Proxy
  imports Access Metrics
begin

section \<open>The stream proxy (proxy.go, proxy/trace.go)\<close>

text \<open>
  One stream request from the route to the last byte: where it is forwarded, whom its traffic is attributed to, what the
  client gets and what the collector is told. The outcome of the upstream request is an argument: a failure, or
  a response with the bytes it sends, whether it breaks off then, and how many bytes the client takes before it
  goes away. The handler does not look at the method; what it writes in answer to a \<open>HEAD\<close> request, which the routes of \<open>GET\<close> take too, is
  taken in full by \<open>net/http\<close> and not sent. Redirects that \<open>client.Do\<close> follows are part of that one outcome. Times are nanoseconds; a time that was never set is \<open>None\<close>.
\<close>

subsection \<open>Timings\<close>

record timings =
  tm_start :: int
  tm_get_conn :: "int option"
  tm_got_conn :: "int option"
  tm_dns_start :: "int option"
  tm_dns_done :: "int option"
  tm_connect_start :: "int option"
  tm_connect_done :: "int option"
  tm_tls_start :: "int option"
  tm_tls_done :: "int option"
  tm_wrote_request :: "int option"
  tm_first_byte :: "int option"
  tm_headers :: "int option"
  tm_first_body :: "int option"
  tm_reused :: bool

definition new_timings :: "int \<Rightarrow> timings" where
  "new_timings now = \<lparr>tm_start = now, tm_get_conn = None, tm_got_conn = None, tm_dns_start = None, tm_dns_done = None,
     tm_connect_start = None, tm_connect_done = None, tm_tls_start = None, tm_tls_done = None, tm_wrote_request = None,
     tm_first_byte = None, tm_headers = None, tm_first_body = None, tm_reused = False\<rparr>"

datatype hook = GetConn | DNSStart | DNSDone | ConnectStart | ConnectDone | TLSHandshakeStart | TLSHandshakeDone
  | GotConn bool | WroteRequest | GotFirstResponseByte | GotHeaders | GotFirstBody

fun trace_hook :: "hook \<Rightarrow> int \<Rightarrow> timings \<Rightarrow> timings" where
  "trace_hook GetConn now t = t\<lparr>tm_get_conn := Some now\<rparr>"
| "trace_hook DNSStart now t = t\<lparr>tm_dns_start := Some now\<rparr>"
| "trace_hook DNSDone now t = t\<lparr>tm_dns_done := Some now\<rparr>"
| "trace_hook ConnectStart now t = t\<lparr>tm_connect_start := Some now\<rparr>"
| "trace_hook ConnectDone now t = t\<lparr>tm_connect_done := Some now\<rparr>"
| "trace_hook TLSHandshakeStart now t = t\<lparr>tm_tls_start := Some now\<rparr>"
| "trace_hook TLSHandshakeDone now t = t\<lparr>tm_tls_done := Some now\<rparr>"
| "trace_hook (GotConn reused) now t = t\<lparr>tm_got_conn := Some now, tm_reused := reused\<rparr>"
| "trace_hook WroteRequest now t = t\<lparr>tm_wrote_request := Some now\<rparr>"
| "trace_hook GotFirstResponseByte now t = t\<lparr>tm_first_byte := Some now\<rparr>"
| "trace_hook GotHeaders now t = t\<lparr>tm_headers := Some now\<rparr>"
| "trace_hook GotFirstBody now t = t\<lparr>tm_first_body := Some now\<rparr>"

definition between :: "int option \<Rightarrow> int option \<Rightarrow> int" where
  "between from to =
     (case (from, to) of
        (Some a, Some b) \<Rightarrow> if b < a then 0 else b - a
      | _ \<Rightarrow> 0)"

definition phases :: "timings \<Rightarrow> stream_timings" where
  "phases t = \<lparr>ti_conn_wait = between (tm_get_conn t) (tm_got_conn t), ti_connect = between (tm_connect_start t) (tm_connect_done t),
     ti_ttfb = between (tm_wrote_request t) (tm_first_byte t), ti_first_body = between (tm_headers t) (tm_first_body t),
     ti_startup = between (Some (tm_start t)) (tm_first_body t)\<rparr>"

text \<open>\<open>timedReader\<close>: the longest single read, and whether a byte has arrived.\<close>

record timed_reader =
  rd_max_wait :: int
  rd_first :: bool

definition timed_read :: "int \<Rightarrow> nat \<Rightarrow> timed_reader \<Rightarrow> timed_reader \<times> bool" where
  "timed_read wait n rd =
     (let rd = (if rd_max_wait rd < wait then rd\<lparr>rd_max_wait := wait\<rparr> else rd)
      in if 0 < n \<and> \<not> rd_first rd then (rd\<lparr>rd_first := True\<rparr>, True) else (rd, False))"

subsection \<open>Ids, sizes, bursts\<close>

definition stream_id :: "string \<Rightarrow> string \<Rightarrow> string" where
  "stream_id fresh header =
     (if header \<noteq> [] \<and> length header \<le> 32 \<and> trim_set ''0123456789abcdef'' header = [] then header else fresh)"

definition total_size :: "string \<Rightarrow> int \<Rightarrow> int" where
  "total_size contentRange contentLength =
     (if contentRange \<noteq> [] then
        (if CHR ''/'' \<in> set contentRange then
           (case parse_int64 (last (split_on CHR ''/'' contentRange)) of None \<Rightarrow> -1 | Some n \<Rightarrow> n)
         else -1)
      else contentLength)"

definition burst_window :: int where "burst_window = 30 * second"

record burst =
  bu_start :: int
  bu_n :: nat

definition hit :: "int \<Rightarrow> string \<Rightarrow> (string, burst) tbl \<Rightarrow> nat \<times> (string, burst) tbl" where
  "hit now key b =
     (let b = tbl_delete_where (\<lambda>_ v. now - bu_start v > burst_window) b;
          v = (case map_of b key of None \<Rightarrow> \<lparr>bu_start = now, bu_n = 0\<rparr> | Some v \<Rightarrow> v);
          v = v\<lparr>bu_n := Suc (bu_n v)\<rparr>
      in (bu_n v, tbl_upsert key v b))"

subsection \<open>Who asks\<close>

text \<open>\<open>net.SplitHostPort\<close>: the host, if there is a port and the brackets fit.\<close>

definition split_host :: "string \<Rightarrow> string option" where
  "split_host s =
     (if CHR '':'' \<notin> set s then None
      else
        let after = last (split_on CHR '':'' s);
            i = length s - length after - 1
        in if has_prefix ''['' s then
             (if CHR '']'' \<notin> set s then None
              else
                let e = length (takeWhile (\<lambda>c. c \<noteq> CHR '']'') s)
                in if e + 1 \<noteq> i then None
                   else if CHR ''['' \<in> set (drop 1 s) \<or> CHR '']'' \<in> set (drop (e + 1) s) then None
                   else Some (drop 1 (take e s)))
           else
             (let host = take i s
              in if CHR '':'' \<in> set host \<or> CHR ''['' \<in> set s \<or> CHR '']'' \<in> set s then None else Some host))"

definition caller_peer_id :: "registry \<Rightarrow> caller option \<Rightarrow> string \<Rightarrow> string \<Rightarrow> string" where
  "caller_peer_id r c nodeID remoteAddr =
     (case c of
        Some c \<Rightarrow> caller_id c
      | None \<Rightarrow>
          let remoteIP = (case split_host remoteAddr of None \<Rightarrow> remoteAddr | Some h \<Rightarrow> h);
              i = resolve_caller r nodeID remoteIP
          in if i \<noteq> [] then i else if nodeID \<noteq> [] then nodeID else ''unknown'')"

subsection \<open>The handler\<close>

record stream_request =
  sq_peer :: string
  sq_item :: string
  sq_node_header :: string     \<comment> \<open>X-Jellysync-Peer\<close>
  sq_stream_header :: string   \<comment> \<open>X-Jellysync-Stream-Id\<close>
  sq_range :: string
  sq_remote_addr :: string
  sq_caller :: "caller option"

text \<open>Requests to this node's own Jellyfin carry its key; the path is put behind the base URL as it is.\<close>

record jellyfin =
  jf_base_url :: string
  jf_api_key :: string
  jf_node_id :: string

definition new_jellyfin :: "string \<Rightarrow> string \<Rightarrow> string \<Rightarrow> jellyfin" where
  "new_jellyfin url key nodeID = \<lparr>jf_base_url = trim_right_set ''/'' url, jf_api_key = key, jf_node_id = nodeID\<rparr>"

definition auth_header :: "jellyfin \<Rightarrow> string" where
  "auth_header jf =
     ''MediaBrowser Client=\"jellysync\", Device=\"jellysync\", DeviceId=\"jellysync-'' @ jf_node_id jf
       @ ''\", Version=\"1.0.0\", Token=\"'' @ jf_api_key jf @ ''\"''"

definition request_url :: "jellyfin \<Rightarrow> string \<Rightarrow> string \<Rightarrow> string" where
  "request_url jf path query = jf_base_url jf @ path @ (if query = [] then [] else ''?'' @ query)"

definition download_url :: "jellyfin \<Rightarrow> string \<Rightarrow> string" where
  "download_url jf itemID = request_url jf (''/Items/'' @ itemID @ ''/Download'') []"

text \<open>The URL that is asked; \<open>OwnJellyfin\<close> also has the authorization header.\<close>

datatype upstream = OwnJellyfin string string | PeerNode string

record upstream_request =
  uq_target :: upstream
  uq_node_header :: string
  uq_stream_header :: string
  uq_range :: string

definition peer_stream_url :: "peer \<Rightarrow> string \<Rightarrow> string" where
  "peer_stream_url p item = p_url p @ ''/api/v1/proxy/stream/local/'' @ item"

text \<open>Where a request goes and whom its bytes belong to; or the status it is refused with.\<close>

definition stream_route :: "jellyfin \<Rightarrow> registry \<Rightarrow> stream_request \<Rightarrow> nat + (upstream \<times> string \<times> direction)" where
  "stream_route jf r q =
     (if sq_peer q = ''local'' then
        Inr (OwnJellyfin (download_url jf (sq_item q)) (auth_header jf), caller_peer_id r (sq_caller q) (sq_node_header q) (sq_remote_addr q), DirOut)
      else case get_peer r (sq_peer q) of
        Some p \<Rightarrow> if p_state p = Disabled then Inl 503
                  else Inr (PeerNode (peer_stream_url p (sq_item q)), sq_peer q, DirIn)
      | None \<Rightarrow> Inl 404)"

definition build_upstream :: "string \<Rightarrow> string \<Rightarrow> stream_request \<Rightarrow> upstream \<Rightarrow> upstream_request" where
  "build_upstream nodeID sid q u =
     \<lparr>uq_target = u, uq_node_header = (case u of OwnJellyfin _ _ \<Rightarrow> [] | PeerNode _ \<Rightarrow> nodeID),
      uq_stream_header = (case u of OwnJellyfin _ _ \<Rightarrow> [] | PeerNode _ \<Rightarrow> sid), uq_range = sq_range q\<rparr>"

record upstream_answer =
  ua_status :: nat
  ua_headers :: "(string, string) tbl"
  ua_sends :: string              \<comment> \<open>the bytes of the body that arrive\<close>
  ua_breaks :: bool               \<comment> \<open>reading then fails instead of ending\<close>
  ua_taken :: "nat option"        \<comment> \<open>how many bytes the client takes, if not all\<close>
  ua_timings :: timings           \<comment> \<open>at the first byte of the body\<close>
  ua_max_wait :: int

datatype upstream_result = Failed bool bool | Answered upstream_answer  \<comment> \<open>\<open>Failed\<close>: the client is gone; it timed out\<close>

definition error_snippet_size :: nat where "error_snippet_size = 512"

definition relayed_headers :: "(string, string) tbl \<Rightarrow> (string, string) tbl" where
  "relayed_headers hs =
     concat (map (\<lambda>h. case map_of hs h of None \<Rightarrow> [] | Some v \<Rightarrow> if v \<noteq> [] then [(h, v)] else [])
       [''Content-Type'', ''Content-Length'', ''Content-Range'', ''Accept-Ranges''])"

text \<open>The body that is copied: an error's first bytes are read for the log and put in front again.\<close>

definition relay_body :: "upstream_answer \<Rightarrow> string" where
  "relay_body a =
     (if ua_status a < 400 then ua_sends a
      else let snippet = take error_snippet_size (ua_sends a) in snippet @ drop (length snippet) (ua_sends a))"

text \<open>\<open>io.CopyBuffer\<close>: the bytes the client got, and whether an error ended it.\<close>

definition copy_body :: "upstream_answer \<Rightarrow> string \<times> bool" where
  "copy_body a =
     (case ua_taken a of
        None \<Rightarrow> (relay_body a, ua_breaks a)
      | Some k \<Rightarrow> if k < length (relay_body a) then (take k (relay_body a), True) else (relay_body a, ua_breaks a))"

record stream_result =
  sr_status :: "nat option"       \<comment> \<open>\<open>None\<close>: nothing was answered\<close>
  sr_headers :: "(string, string) tbl"
  sr_body :: string
  sr_upstream :: "upstream_request option"
  sr_streams :: streams
  sr_recorded :: "(string \<times> direction \<times> int) option"
  sr_outcome :: "outcome option"

definition refused :: "nat \<Rightarrow> streams \<Rightarrow> stream_result" where
  "refused code s = \<lparr>sr_status = Some code, sr_headers = [], sr_body = [], sr_upstream = None, sr_streams = s, sr_recorded = None, sr_outcome = None\<rparr>"

text \<open>\<open>builds\<close>: the upstream request can be built; \<open>gone\<close>: the client's context is cancelled when the copy ends.\<close>

definition proxy_handler ::
  "jellyfin \<Rightarrow> registry \<Rightarrow> string \<Rightarrow> string \<Rightarrow> bool \<Rightarrow> bool \<Rightarrow> (upstream_request \<Rightarrow> upstream_result) \<Rightarrow> stream_request \<Rightarrow> streams \<Rightarrow> stream_result" where
  "proxy_handler jf r nodeID fresh builds gone answer q s =
     (case stream_route jf r q of
        Inl code \<Rightarrow> refused code s
      | Inr (u, trafficPeer, dir) \<Rightarrow>
          if \<not> builds then refused 500 s
          else
            let up = build_upstream nodeID (stream_id fresh (sq_stream_header q)) q u;
                k = (trafficPeer, dir);
                s = stream_started k s
            in (case answer up of
                  Failed clientGone timedOut \<Rightarrow>
                    let outcome = (if clientGone then OutcomeClientClosed else if timedOut then OutcomeTimeout else OutcomeUnreachable)
                    in \<lparr>sr_status = (if clientGone then None else Some 502), sr_headers = [], sr_body = [], sr_upstream = Some up,
                        sr_streams = stream_ended k outcome s, sr_recorded = None, sr_outcome = Some outcome\<rparr>
                | Answered a \<Rightarrow>
                    let ok = (ua_status a < 400);
                        s = (if ok \<and> ua_sends a \<noteq> [] then observe_startup k (phases (ua_timings a)) s else s);
                        (body, err) = copy_body a;
                        s = (if ok then observe_max_read_wait k (ua_max_wait a) s else s);
                        outcome = (if \<not> ok then OutcomeUpstreamErr
                                   else if err then (if gone then OutcomeClientClosed else OutcomeInterrupted)
                                   else OutcomeOK)
                    in \<lparr>sr_status = Some (ua_status a), sr_headers = relayed_headers (ua_headers a), sr_body = body, sr_upstream = Some up,
                        sr_streams = stream_ended k outcome s, sr_recorded = Some (trafficPeer, dir, int (length body)),
                        sr_outcome = Some outcome\<rparr>))"

end
