(* ===== verification/ProxyTheorems.thy ===== *)
theory ProxyTheorems
  imports Proxy AccessTheorems MetricsTheorems
begin

section \<open>The properties of the stream proxy\<close>

text \<open>
  What a stream relays and how it is accounted; that a client of the peer port only ever reaches this node's own
  Jellyfin; and that the item of a request is not confined to the items.
\<close>

subsection \<open>Relaying\<close>

lemma relay_body_sends [simp]: "relay_body a = ua_sends a"
  by (simp add: relay_body_def Let_def min_def)

lemma copy_body_prefix:
  assumes "copy_body a = (body, err)"
  shows "\<exists>rest. ua_sends a = body @ rest \<and> (ua_taken a = None \<longrightarrow> rest = [])"
    and "\<not> err \<longleftrightarrow> body = ua_sends a \<and> \<not> ua_breaks a"
proof -
  show "\<exists>rest. ua_sends a = body @ rest \<and> (ua_taken a = None \<longrightarrow> rest = [])"
  proof (cases "ua_taken a")
    case None
    then show ?thesis using assms by (simp add: copy_body_def)
  next
    case (Some k)
    have "\<exists>rest. ua_sends a = take k (ua_sends a) @ rest" by (rule exI [of _ "drop k (ua_sends a)"]) simp
    then show ?thesis using assms Some by (auto simp: copy_body_def split: if_splits)
  qed
  show "\<not> err \<longleftrightarrow> body = ua_sends a \<and> \<not> ua_breaks a"
    using assms by (auto simp: copy_body_def split: option.splits if_splits dest: arg_cong [where f = length])
qed

lemma active_started: "ss_active (stream_get (stream_started k s) j) = ss_active (stream_get s j) + (if j = k then 1 else 0)"
  by (simp add: stream_defs)

lemma active_observed [simp]:
  "ss_active (stream_get (observe_startup k t s) j) = ss_active (stream_get s j)"
  "ss_active (stream_get (observe_max_read_wait k d s) j) = ss_active (stream_get s j)"
  "outcome_count (stream_get (observe_startup k t s) j) x = outcome_count (stream_get s j) x"
  "outcome_count (stream_get (observe_max_read_wait k d s) j) x = outcome_count (stream_get s j) x"
  "outcome_count (stream_get (stream_started k s) j) x = outcome_count (stream_get s j) x"
  by (simp_all add: stream_defs outcome_count_def)

lemma ended_counts:
  "ss_active (stream_get (stream_ended k y s) j) = ss_active (stream_get s j) - (if j = k then 1 else 0)"
  "outcome_count (stream_get (stream_ended k y s) j) x = outcome_count (stream_get s j) x + (if j = k \<and> x = y then 1 else 0)"
  by (simp_all add: stream_defs outcome_count_def)

text \<open>The accounting of a stream that was answered, whatever was observed of it in between.\<close>

lemma proxy_answered:
  fixes k y
  assumes "stream_route jf r q = Inr (u, p, dir)" builds "up = build_upstream nodeID (stream_id fresh (sq_stream_header q)) q u"
    and a: "answer up = Answered a" and c: "copy_body a = (body, err)"
    and res: "res = proxy_handler jf r nodeID fresh builds gone answer q s"
  obtains x where "sr_upstream res = Some up" "sr_outcome res = Some x" "sr_status res = Some (ua_status a)" "sr_body res = body"
    "sr_recorded res = Some (p, dir, int (length body))" "x = OutcomeOK \<longleftrightarrow> ua_status a < 400 \<and> body = ua_sends a \<and> \<not> ua_breaks a"
    "\<forall>k. ss_active (stream_get (sr_streams res) k) = ss_active (stream_get s k)"
    "\<forall>k y. outcome_count (stream_get (sr_streams res) k) y = outcome_count (stream_get s k) y + (if k = (p, dir) \<and> y = x then 1 else 0)"
proof -
  let ?ok = "ua_status a < 400"
  let ?x = "if \<not> ?ok then OutcomeUpstreamErr else if err then (if gone then OutcomeClientClosed else OutcomeInterrupted) else OutcomeOK"
  let ?s1 = "if ?ok \<and> ua_sends a \<noteq> [] then observe_startup (p, dir) (phases (ua_timings a)) (stream_started (p, dir) s) else stream_started (p, dir) s"
  let ?s2 = "if ?ok then observe_max_read_wait (p, dir) (ua_max_wait a) ?s1 else ?s1"
  have F: "res = \<lparr>sr_status = Some (ua_status a), sr_headers = relayed_headers (ua_headers a), sr_body = body, sr_upstream = Some up,
      sr_streams = stream_ended (p, dir) ?x ?s2, sr_recorded = Some (p, dir, int (length body)), sr_outcome = Some ?x\<rparr>"
    unfolding res using a by (simp add: proxy_handler_def assms(1-3) Let_def c)
  have x: "?x = OutcomeOK \<longleftrightarrow> ?ok \<and> body = ua_sends a \<and> \<not> ua_breaks a"
    using copy_body_prefix(2) [OF c] by auto
  have s: "ss_active (stream_get ?s2 k) = ss_active (stream_get s k) + (if k = (p, dir) then 1 else 0)"
    "outcome_count (stream_get ?s2 k) y = outcome_count (stream_get s k) y" for k y
    by (simp_all add: active_started)
  have acc: "\<forall>k. ss_active (stream_get (stream_ended (p, dir) ?x ?s2) k) = ss_active (stream_get s k)"
    "\<forall>k y. outcome_count (stream_get (stream_ended (p, dir) ?x ?s2) k) y
           = outcome_count (stream_get s k) y + (if k = (p, dir) \<and> y = ?x then 1 else 0)"
    by (simp_all only: ended_counts s) simp_all
  have G: "sr_upstream res = Some up" "sr_outcome res = Some ?x" "sr_status res = Some (ua_status a)" "sr_body res = body"
    "sr_recorded res = Some (p, dir, int (length body))" "sr_streams res = stream_ended (p, dir) ?x ?s2"
    by (simp_all only: F stream_result.simps)
  show ?thesis by (rule that [OF G(1-5) x acc [folded G(6)]])
qed

lemma proxy_failed:
  assumes "stream_route jf r q = Inr (u, p, dir)" builds "up = build_upstream nodeID (stream_id fresh (sq_stream_header q)) q u"
    and a: "answer up = Failed clientGone timedOut" and res: "res = proxy_handler jf r nodeID fresh builds gone answer q s"
  obtains x where "sr_upstream res = Some up" "sr_outcome res = Some x" "x \<noteq> OutcomeOK" "sr_body res = []" "sr_recorded res = None"
    "\<forall>k. ss_active (stream_get (sr_streams res) k) = ss_active (stream_get s k)"
    "\<forall>k y. outcome_count (stream_get (sr_streams res) k) y = outcome_count (stream_get s k) y + (if k = (p, dir) \<and> y = x then 1 else 0)"
proof -
  let ?x = "if clientGone then OutcomeClientClosed else if timedOut then OutcomeTimeout else OutcomeUnreachable"
  have F: "res = \<lparr>sr_status = (if clientGone then None else Some 502), sr_headers = [], sr_body = [], sr_upstream = Some up,
      sr_streams = stream_ended (p, dir) ?x (stream_started (p, dir) s), sr_recorded = None, sr_outcome = Some ?x\<rparr>"
    unfolding res using a by (simp add: proxy_handler_def assms(1-3) Let_def)
  show ?thesis by (rule that [of ?x]) (simp_all add: F active_started ended_counts)
qed

text \<open>C20: A stream relays what its source sends, and is accounted for: a request that is refused reaches nobody; any other one
  makes exactly one upstream request, with the range asked for; the client gets the status of the answer
  and a prefix of its body, all of it if it took it all, errors included; exactly the bytes written to it are recorded for
  the peer (also those that \<open>net/http\<close> swallows when the request is a \<open>HEAD\<close>, which the routes let through like a \<open>GET\<close>); the outcome is \<open>ok\<close> exactly when an answer below 400 was relayed to its end; and of each peer as
  many streams are active as before, one more being counted with this outcome.\<close>

theorem stream_relays_and_accounts:
  "let res = proxy_handler jf r nodeID fresh builds gone answer q s in
   case stream_route jf r q of
     Inl code \<Rightarrow> res = refused code s
   | Inr (u, p, dir) \<Rightarrow>
       if \<not> builds then res = refused 500 s
       else \<exists>up x. sr_upstream res = Some up \<and> uq_target up = u \<and> uq_range up = sq_range q \<and> sr_outcome res = Some x
         \<and> (\<forall>k. ss_active (stream_get (sr_streams res) k) = ss_active (stream_get s k))
         \<and> (\<forall>k y. outcome_count (stream_get (sr_streams res) k) y
               = outcome_count (stream_get s k) y + (if k = (p, dir) \<and> y = x then 1 else 0))
         \<and> (case answer up of
              Failed clientGone timedOut \<Rightarrow> x \<noteq> OutcomeOK \<and> sr_body res = [] \<and> sr_recorded res = None
            | Answered a \<Rightarrow> sr_status res = Some (ua_status a)
                \<and> (\<exists>rest. ua_sends a = sr_body res @ rest \<and> (ua_taken a = None \<longrightarrow> rest = []))
                \<and> sr_recorded res = Some (p, dir, int (length (sr_body res)))
                \<and> (x = OutcomeOK \<longleftrightarrow> ua_status a < 400 \<and> sr_body res = ua_sends a \<and> \<not> ua_breaks a))"
proof (cases "stream_route jf r q")
  case (Inl code)
  then show ?thesis by (simp add: proxy_handler_def)
next
  case (Inr upd)
  obtain u p dir where upd: "upd = (u, p, dir)" by (metis prod_cases3)
  have route: "stream_route jf r q = Inr (u, p, dir)" using Inr upd by simp
  let ?up = "build_upstream nodeID (stream_id fresh (sq_stream_header q)) q u" and ?res = "proxy_handler jf r nodeID fresh builds gone answer q s"
  have up: "uq_target ?up = u" "uq_range ?up = sq_range q" by (simp_all add: build_upstream_def)
  show ?thesis
  proof (cases "builds")
    case False
    then show ?thesis by (simp add: proxy_handler_def route)
  next
    case True
    show ?thesis
    proof (cases "answer ?up")
      case (Failed clientGone timedOut)
      obtain x where x: "sr_upstream ?res = Some ?up" "sr_outcome ?res = Some x" "x \<noteq> OutcomeOK" "sr_body ?res = []" "sr_recorded ?res = None"
        "\<forall>k. ss_active (stream_get (sr_streams ?res) k) = ss_active (stream_get s k)"
        "\<forall>k y. outcome_count (stream_get (sr_streams ?res) k) y = outcome_count (stream_get s k) y + (if k = (p, dir) \<and> y = x then 1 else 0)"
        by (rule proxy_failed [where answer = answer, OF route True refl Failed, OF refl])
      then show ?thesis using True up Failed unfolding Let_def route sum.case prod.case
        by (intro if_bool_eq_conj [THEN iffD2] conjI impI) (simp, rule exI [of _ ?up], rule exI [of _ x], simp only: upstream_result.case simp_thms)
    next
      case (Answered a)
      obtain body err where c: "copy_body a = (body, err)" by (cases "copy_body a")
      obtain x where x: "sr_upstream ?res = Some ?up" "sr_outcome ?res = Some x" "sr_status ?res = Some (ua_status a)" "sr_body ?res = body"
        "sr_recorded ?res = Some (p, dir, int (length body))" "x = OutcomeOK \<longleftrightarrow> ua_status a < 400 \<and> body = ua_sends a \<and> \<not> ua_breaks a"
        "\<forall>k. ss_active (stream_get (sr_streams ?res) k) = ss_active (stream_get s k)"
        "\<forall>k y. outcome_count (stream_get (sr_streams ?res) k) y = outcome_count (stream_get s k) y + (if k = (p, dir) \<and> y = x then 1 else 0)"
        by (rule proxy_answered [where answer = answer, OF route True refl Answered c, OF refl])
      then show ?thesis using True up Answered copy_body_prefix(1) [OF c] unfolding Let_def route sum.case prod.case
        by (intro if_bool_eq_conj [THEN iffD2] conjI impI) (simp, rule exI [of _ ?up], rule exI [of _ x], simp only: upstream_result.case simp_thms)
    qed
  qed
qed

definition ex_answer :: upstream_answer where
  "ex_answer = \<lparr>ua_status = 206, ua_headers = [(''Content-Length'', ''4'')], ua_sends = ''film'', ua_breaks = False, ua_taken = Some 2,
     ua_timings = new_timings 0, ua_max_wait = 5\<rparr>"

definition ex_jellyfin :: jellyfin where
  "ex_jellyfin = new_jellyfin ''http://jf/'' ''key'' ''me''"

definition ex_stream :: stream_request where
  "ex_stream = \<lparr>sq_peer = ''tv'', sq_item = ''7'', sq_node_header = [], sq_stream_header = [], sq_range = ''bytes=0-'',
     sq_remote_addr = ''10.0.0.1:5000'', sq_caller = None\<rparr>"

theorem stream_relays_and_accounts_witness:
  "let res = proxy_handler ex_jellyfin ex_registry ''me'' ''f0'' True True (\<lambda>_. Answered ex_answer) ex_stream []
   in sr_status res = Some 206 \<and> sr_recorded res = Some (''tv'', DirIn, 2)
      \<and> ss_active (stream_get (sr_streams res) (''tv'', DirIn)) = 0"
proof -
  let ?res = "proxy_handler ex_jellyfin ex_registry ''me'' ''f0'' True True (\<lambda>_. Answered ex_answer) ex_stream []"
  have route: "stream_route ex_jellyfin ex_registry ex_stream = Inr (PeerNode ''http://tv/api/v1/proxy/stream/local/7'', ''tv'', DirIn)"
    by code_simp
  note T = stream_relays_and_accounts [where jf = ex_jellyfin and r = ex_registry and nodeID = "''me''" and fresh = "''f0''"
      and builds = True and gone = True and answer = "\<lambda>_. Answered ex_answer" and q = ex_stream and s = "[]",
      unfolded route Let_def sum.case prod.case upstream_result.case not_True_eq_False if_False]
  have z: "ss_active (stream_get [] (''tv'', DirIn)) = 0" "ua_status ex_answer = 206"
    by (simp_all add: stream_get_def no_stream_stats_def ex_answer_def)
  have "sr_body ?res = ''fi''" by code_simp
  moreover from T have "sr_status ?res = Some 206" "sr_recorded ?res = Some (''tv'', DirIn, int (length (sr_body ?res)))"
    "ss_active (stream_get (sr_streams ?res) (''tv'', DirIn)) = 0"
    unfolding z by (elim exE conjE; (simp only: z)?)+
  ultimately show ?thesis by (simp add: Let_def)
qed

subsection \<open>A client is no relay's user\<close>

text \<open>C18: A stream asked for on the peer port is served from this node's own Jellyfin only, whatever the request says,
  and its bytes count for the caller the key stands for, not for what a header claims: a client never uses this
  node as a relay to the nodes it pulls from.\<close>

theorem peer_port_streams_own_library:
  assumes "peer_port fault now cert meth path st = (Reached StreamLocal c params, st')"
    and "sq_peer q = hd params" and "sq_caller q = Some c"
  shows "stream_route jf r q = Inr (OwnJellyfin (download_url jf (sq_item q)) (auth_header jf), caller_id c, DirOut)
    \<and> caller_id c \<noteq> [] \<and> (\<exists>pin. cert = Some pin \<and> client_key st pin)"
proof -
  obtain pin auth where R: "cert = Some pin" "resolve_key fault now (po_registry st) pin (po_auth st) = ((c, True), auth)"
    "endpoint_allows StreamLocal c" "local_only StreamLocal params"
    using port_reached [OF assms(1)] by metis
  have "ca_client_id c \<noteq> []" using R(3) by simp
  then have "caller_id c \<noteq> []" "client_key st pin" using resolve_char [OF R(2)] by (simp_all add: caller_id_def)
  moreover have "sq_peer q = ''local''" using R(4) assms(2) by (simp add: local_only_def)
  ultimately show ?thesis using R(1) assms(3) by (simp add: stream_route_def caller_peer_id_def)
qed

definition ex_escape :: stream_request where
  "ex_escape = \<lparr>sq_peer = ''local'', sq_item = ''../Users?'', sq_node_header = ''tv'', sq_stream_header = [], sq_range = [],
     sq_remote_addr = ''10.0.0.1:5000'',
     sq_caller = Some \<lparr>ca_pin = ''pin1'', ca_client_id = ''nas'', ca_peer_id = [], ca_pairing = False\<rparr>\<rparr>"

lemma ex_escape_reaches:
  "fst (peer_port None (10 * second) (Some ''pin1'') ''GET'' [''api'', ''v1'', ''proxy'', ''stream'', ''local'', ''../Users?''] ex_port)
     = Reached StreamLocal (the (sq_caller ex_escape)) [''local'', ''../Users?'']"
  by code_simp

theorem peer_port_streams_own_library_witness:
  "stream_route ex_jellyfin ex_registry ex_escape = Inr (OwnJellyfin ''http://jf/Items/../Users?/Download'' (auth_header ex_jellyfin), ''nas'', DirOut)"
proof -
  obtain st' where "peer_port None (10 * second) (Some ''pin1'') ''GET'' [''api'', ''v1'', ''proxy'', ''stream'', ''local'', ''../Users?''] ex_port
      = (Reached StreamLocal (the (sq_caller ex_escape)) [''local'', ''../Users?''], st')"
    using ex_escape_reaches by (metis fst_conv surj_pair)
  from peer_port_streams_own_library [OF this, of ex_escape ex_jellyfin ex_registry]
  have "stream_route ex_jellyfin ex_registry ex_escape
      = Inr (OwnJellyfin (download_url ex_jellyfin (sq_item ex_escape)) (auth_header ex_jellyfin), caller_id (the (sq_caller ex_escape)), DirOut)"
    by (simp add: ex_escape_def)
  moreover have "download_url ex_jellyfin (sq_item ex_escape) = ''http://jf/Items/../Users?/Download''" "caller_id (the (sq_caller ex_escape)) = ''nas''"
    by code_simp+
  ultimately show ?thesis by simp
qed

text \<open>What item is asked for is not looked at: the id, an unescaped segment of the path that may hold slashes, dots and question marks, is in the
  URL to Jellyfin as it came, with the node's API key beside it.\<close>

lemma stream_item_verbatim:
  assumes "sq_peer q = ''local''"
  shows "\<exists>who. stream_route jf r q = Inr (OwnJellyfin (jf_base_url jf @ ''/Items/'' @ sq_item q @ ''/Download'') (auth_header jf), who, DirOut)"
  using assms by (simp add: stream_route_def download_url_def request_url_def Let_def)

end
