(* ===== verification/IdentityTheorems.thy ===== *)
theory IdentityTheorems
  imports AccessTheorems ConfigTheorems
begin

section \<open>Identities and invites: what they promise\<close>

text \<open>
  A node keeps its key across restarts; an invite string, pasted with whatever space around it, is read
  back by the consumer as the provider wrote it; the key it carries gets the consumer through the
  handshake of the provider's peer port, and the provider through the consumer's.
\<close>

subsection \<open>The JSON of an invite\<close>

definition invite_ok :: "invite \<Rightarrow> bool" where
  "invite_ok iv \<longleftrightarrow> valid_utf8 (iv_url iv) \<and> valid_utf8 (iv_node_id iv) \<and> valid_utf8 (iv_pin iv)
     \<and> 0 < iv_expires_at iv \<and> in_int64 (iv_expires_at iv)"

lemma invite_field_names: "list_all valid_utf8 [''url'', ''node_id'', ''pin'', ''seed'', ''exp'']"
  by code_simp

lemma json_document_invite:
  assumes "invite_ok iv"
  shows "json_document (invite_json iv) = Some (JObject (invite_members iv))"
  unfolding invite_json_def
  by (rule json_document_object)
    (use assms invite_field_names in \<open>simp add: invite_members_def invite_ok_def valid_utf8_b64 member_simps\<close>)

text \<open>The members find their fields.\<close>

lemma field_table:
  "is_field ''url'' ''url''" "is_field ''node_id'' ''node_id''" "is_field ''pin'' ''pin''" "is_field ''seed'' ''seed''" "is_field ''exp'' ''exp''"
  "\<not> is_field ''url'' ''node_id''" "\<not> is_field ''url'' ''pin''" "\<not> is_field ''node_id'' ''pin''"
  "\<not> is_field ''url'' ''seed''" "\<not> is_field ''node_id'' ''seed''" "\<not> is_field ''pin'' ''seed''"
  "\<not> is_field ''url'' ''exp''" "\<not> is_field ''node_id'' ''exp''" "\<not> is_field ''pin'' ''exp''" "\<not> is_field ''seed'' ''exp''"
  by code_simp+

lemma unmarshal_invite_json:
  assumes "invite_ok iv"
  shows "unmarshal_invite (invite_json iv) = Some iv"
proof -
  have "in_int64 (iv_expires_at iv)" using assms by (simp add: invite_ok_def)
  then have "set_invite_fields (invite_members iv) no_invite = Some iv"
    by (simp add: invite_members_def text_member_def int_member_def omit_text_def field_table string_field_def bytes_field_def int64_field_def no_invite_def)
  then show ?thesis by (simp add: unmarshal_invite_def json_document_invite [OF assms])
qed

subsection \<open>Pasted invites\<close>

definition blank_chars :: "char list" where
  "blank_chars = [CHR 0x20, CHR 0x09, CHR 0x0A, CHR 0x0D]"

definition blanks :: "string \<Rightarrow> bool" where
  "blanks s \<longleftrightarrow> set s \<subseteq> set blank_chars"

lemma blank_seqs:
  "\<forall>b \<in> set blank_chars. [b] \<in> set space_seqs \<and> [b] \<in> set (map rev space_seqs)"
  "\<forall>q \<in> set (space_seqs @ map rev space_seqs). q \<noteq> [] \<and> (hd q \<in> set blank_chars \<longrightarrow> q = [hd q])"
  by code_simp+

lemma starting_blank:
  assumes "b \<in> set blank_chars" "ps = space_seqs \<or> ps = map rev space_seqs"
  shows "starting ps (b # s) = Some [b]"
proof (cases "starting ps (b # s)")
  case None
  moreover have "[b] \<in> set ps" using blank_seqs(1) assms by blast
  moreover have "has_prefix [b] (b # s)" by (simp add: has_prefix_def)
  ultimately show ?thesis unfolding starting_def find_None_iff by blast
next
  case (Some p)
  then have p: "p \<in> set ps" "has_prefix p (b # s)" using starting_Some by blast+
  then have q: "p \<in> set (space_seqs @ map rev space_seqs)" using assms(2) by auto
  then have "p \<noteq> []" using blank_seqs(2) by blast
  then have h: "hd p = b" using p(2) by (cases p) (auto simp: has_prefix_def)
  have "p = [hd p]" using blank_seqs(2) q h assms(1) by blast
  then show ?thesis using Some h by simp
qed

lemma drop_blanks:
  assumes "blanks ws" "ps = space_seqs \<or> ps = map rev space_seqs"
  shows "drop_spaces ps (ws @ s) = drop_spaces ps s"
  using assms(1)
proof (induction ws)
  case (Cons c ws)
  then have c: "c \<in> set blank_chars" "blanks ws" by (simp_all add: blanks_def)
  have "drop_spaces ps (c # ws @ s) = drop_spaces ps (ws @ s)"
    using starting_blank [OF c(1) assms(2), of "ws @ s"] by (subst drop_spaces.simps) simp
  with Cons.IH c(2) show ?case by simp
qed simp

lemma trim_around:
  assumes "blanks ws" "blanks ws'" "\<And>c. c \<in> set s \<Longrightarrow> visible c" "s \<noteq> []"
  shows "trim_space (ws @ s @ ws') = s"
proof -
  have "drop_spaces space_seqs (ws @ s @ ws') = drop_spaces space_seqs (s @ ws')" using assms(1) by (rule drop_blanks) simp
  also have "\<dots> = s @ ws'" by (rule no_space_prefix) (use assms(3,4) in \<open>cases s; auto\<close>)+
  finally have l: "drop_spaces space_seqs (ws @ s @ ws') = s @ ws'" .
  have "blanks (rev ws')" using assms(2) by (simp add: blanks_def)
  then have "drop_spaces (map rev space_seqs) (rev ws' @ rev s) = drop_spaces (map rev space_seqs) (rev s)" by (rule drop_blanks) simp
  also have "\<dots> = rev s" by (rule no_space_prefix) (use assms(3,4) last_in_set [of s] in \<open>auto simp: hd_rev\<close>)
  finally show ?thesis using l by (simp add: trim_space_def)
qed

lemma encode_invite_visible: "c \<in> set (encode_invite iv) \<Longrightarrow> visible c"
proof -
  have p: "\<forall>c \<in> set invite_prefix. visible c" by code_simp
  assume "c \<in> set (encode_invite iv)"
  then have "c \<in> set invite_prefix \<or> c \<in> set (b64_encode RawURLEncoding (invite_json iv))" by (simp add: encode_invite_def)
  then show ?thesis
  proof
    assume "c \<in> set (b64_encode RawURLEncoding (invite_json iv))"
    from b64_encode_visible [OF this] show ?thesis by (simp add: visible_def)
  qed (use p in blast)
qed

lemma parse_encoded:
  assumes "invite_ok iv" "valid_pin (iv_pin iv)" "length (iv_seed iv) = 32" "canonical_url parse (iv_url iv) = Inr u"
    and "blanks ws" "blanks ws'"
  shows "parse_invite parse (ws @ encode_invite iv @ ws') = Inr (iv\<lparr>iv_url := u\<rparr>)"
proof -
  have t: "trim_space (ws @ encode_invite iv @ ws') = encode_invite iv"
    by (rule trim_around [OF assms(5,6) encode_invite_visible]) (simp_all add: encode_invite_def invite_prefix_def)
  have p: "has_prefix invite_prefix (encode_invite iv)"
    "drop (length invite_prefix) (encode_invite iv) = b64_encode RawURLEncoding (invite_json iv)"
    by (simp_all add: encode_invite_def has_prefix_def)
  have "\<not> iv_expires_at iv \<le> 0" using assms(1) by (simp add: invite_ok_def)
  then show ?thesis using assms(2-4) by (simp add: parse_invite_def t p unmarshal_invite_json [OF assms(1)] seed_size_def)
qed

subsection \<open>Restarts\<close>

text \<open>C15: A node keeps its identity: once a start of the process has produced one, every later start, whatever fresh
  random bytes it draws and whatever else has changed in the database, leaves the database alone and either fails
  for one of its own faults or produces the same key and the same pin, with a certificate that peers which pinned
  the first one accept; and that pin is one that pairing accepts.\<close>

theorem identity_survives_restarts:
  assumes "load_or_create pub cent b d = (Inr i, d1)"
    and "map_of (settings_tbl d2) identity_key_setting = map_of (settings_tbl d1) identity_key_setting"
    and "load_or_create pub cent b' d2 = (res, d3)"
  shows "d3 = d2 \<and> valid_pin (idn_pin i) \<and> (case res of
      Inl e \<Rightarrow> isl (bo_rand b') \<or> bo_save_fault b' \<noteq> None \<or> bo_read_fault b' \<noteq> None
        \<or> bo_create_fault b' \<noteq> None \<or> bo_parse_fault b' \<noteq> None
    | Inr i' \<Rightarrow> idn_seed i' = idn_seed i \<and> idn_pin i' = idn_pin i \<and> verify_server (idn_pin i) [idn_cert i'] = Inr ())"
proof -
  obtain stored where st: "map_of (settings_tbl d1) identity_key_setting = Some stored"
    "b64_decode StdEncoding stored = Some (idn_seed i)" "pin_of_seed pub (idn_seed i) = Inr (idn_pin i)"
    using load_or_create_stored [OF assms(1)] by blast
  have st2: "map_of (settings_tbl d2) identity_key_setting = Some stored" using st(1) assms(2) by simp
  note again = load_or_create_again [OF assms(3) st2]
  have len: "length (idn_seed i) = seed_size" using st(3) by (auto simp: pin_of_seed_def split: if_splits)
  have "idn_pin i = pin_hash (marshal_pkix (pub (idn_seed i)))"
    using st(3) by (auto simp: pin_of_seed_def pin_of_key_def split: if_splits)
  then have v: "valid_pin (idn_pin i)" using valid_pin_hash by simp
  show ?thesis
  proof (cases res)
    case (Inl e)
    have "isl (bo_rand b') \<or> bo_save_fault b' \<noteq> None \<or> bo_read_fault b' \<noteq> None
        \<or> bo_create_fault b' \<noteq> None \<or> bo_parse_fault b' \<noteq> None"
    proof (rule ccontr)
      assume n: "\<not> ?thesis"
      then obtain seed where "bo_rand b' = Inr seed" by (cases "bo_rand b'") auto
      moreover have "map_of (tbl_insert_ignore identity_key_setting v (settings_tbl d2)) identity_key_setting = Some stored" for v
        using st2 by (simp add: tbl_insert_ignore_def)
      ultimately show False using assms(3) n st(2) len Inl by (auto simp: load_or_create_def from_seed_def Let_def)
    qed
    then show ?thesis using again(1) v Inl by simp
  next
    case (Inr i')
    have s: "idn_seed i' = idn_seed i" "pin_of_seed pub (idn_seed i') = Inr (idn_pin i')"
      using again(2) [OF Inr] st(2) by simp_all
    then have p: "idn_pin i' = idn_pin i" using st(3) by simp
    have "pin_of (idn_cert i') = idn_pin i'"
      using assms(3) unfolding Inr by (auto simp: load_or_create_def Let_def dest: from_seed_Inr(2) split: sum.splits if_splits option.splits)
    then show ?thesis using again(1) v s p Inr by (simp add: verify_server_def)
  qed
qed

definition ex_boot :: "char \<Rightarrow> boot" where
  "ex_boot c = \<lparr>bo_rand = Inr (replicate 32 c), bo_save_fault = None, bo_read_fault = None, bo_create_fault = None,
     bo_parse_fault = None, bo_now = 0\<rparr>"

theorem identity_survives_restarts_witness:
  "\<exists>i i' d1. load_or_create (\<lambda>s. s) (\<lambda>t. t) (ex_boot CHR ''a'') empty_db = (Inr i, d1)
     \<and> load_or_create (\<lambda>s. s) (\<lambda>t. t) (ex_boot CHR ''b'') d1 = (Inr i', d1)
     \<and> idn_seed i' = replicate 32 CHR ''a'' \<and> idn_pin i' = idn_pin i"
proof -
  let ?d = "empty_db\<lparr>settings_tbl := [(identity_key_setting, b64_encode StdEncoding (replicate 32 CHR ''a''))]\<rparr>"
  obtain i where i: "load_or_create (\<lambda>s. s) (\<lambda>t. t) (ex_boot CHR ''a'') empty_db = (Inr i, ?d)" "idn_seed i = replicate 32 CHR ''a''"
    by (simp add: load_or_create_def ex_boot_def empty_db_def tbl_insert_ignore_def from_seed_def seed_size_def Let_def)
  obtain i' d' where i': "load_or_create (\<lambda>s. s) (\<lambda>t. t) (ex_boot CHR ''b'') ?d = (Inr i', d')"
    by (simp add: load_or_create_def ex_boot_def empty_db_def tbl_insert_ignore_def from_seed_def seed_size_def Let_def)
  from identity_survives_restarts [OF i(1) refl i'] show ?thesis using i i' by auto
qed

subsection \<open>From one end to the other\<close>

text \<open>A created invite: the string handed out, and the pending entry for its temporary key.\<close>

lemma created_invite:
  assumes "create_invite_handler url nodeID selfPin (invite_key pub rand) sf f now ttl (s, d) = (Json 201 dto, s', d')"
  obtains seed where "rand = Inr seed" "length seed = 32" "id_pin dto = pin_of_key (pub seed)"
    "id_invite dto = encode_invite \<lparr>iv_url = url, iv_node_id = nodeID, iv_pin = selfPin, iv_seed = seed, iv_expires_at = unix (now + ttl)\<rparr>"
    "\<And>t. t < now + ttl \<Longrightarrow> is_pending t s' (id_pin dto)"
proof -
  obtain seed where r: "rand = Inr seed" and l: "length seed = 32" and k: "invite_key pub rand = Inr (seed, pin_of_key (pub seed))"
    using assms by (auto simp: create_invite_handler_def create_invite_def invite_key_def pin_of_seed_def seed_size_def
        split: if_splits sum.splits)
  obtain s1 d1 where sw: "sweep_expired sf now (s, d) = (s1, d1)" by fastforce
  let ?pin = "pin_of_key (pub seed)"
  have dto: "id_pin dto = ?pin" "s' = s1\<lparr>as_invites := tbl_upsert ?pin \<lparr>pi_pin = ?pin, pi_created_at = now, pi_expires_at = now + ttl\<rparr> (as_invites s1)\<rparr>"
    "id_invite dto = encode_invite \<lparr>iv_url = url, iv_node_id = nodeID, iv_pin = selfPin, iv_seed = seed, iv_expires_at = unix (now + ttl)\<rparr>"
    using assms by (auto simp: create_invite_handler_def create_invite_def k sw Let_def split: if_splits)
  have p: "is_pending t s' (id_pin dto)" if "t < now + ttl" for t using that by (simp add: is_pending_def dto)
  show ?thesis by (rule that [OF r l dto(1,3) p])
qed

lemma pending_key_known:
  assumes "is_pending t s pin"
  shows "known_key f t r (s, d) pin"
proof -
  let ?st = "\<lparr>po_auth = (s, d), po_registry = r, po_limiter = new_limiter 0\<rparr>"
  obtain c ok auth where k: "resolve_key f t (po_registry ?st) pin (po_auth ?st) = ((c, ok), auth)" by (metis surj_pair)
  then show ?thesis using resolve_char [OF k] assms by (simp add: known_key_def)
qed

text \<open>C14: An invite brings its two ends together: the string the provider's handler answers with, pasted with
  blanks around it, is read by the consumer's \<open>ParseInvite\<close>; the pairing call it leads to goes to the provider's
  address, accepts the provider's certificate, whenever the provider builds it from its key, and comes with a
  certificate that the provider's peer port accepts until the invite expires.\<close>

theorem invite_brings_together:
  assumes "create_invite_handler url nodeID (idn_pin self) (invite_key pub rand) sf f now ttl (s, d) = (Json 201 dto, s', d')"
    and "from_seed pub cent cf pf now0 key = Inr self"
    and "canonical_url parse url = Inr url" and "valid_utf8 url" and "valid_utf8 nodeID"
    and "0 < unix (now + ttl)" and "in_int64 (unix (now + ttl))" and "blanks ws" and "blanks ws'"
  shows "\<exists>iv call. parse_invite parse (ws @ id_invite dto @ ws') = Inr iv
    \<and> pair_request (from_seed pub cent' None None t0) iv pin node = Inr call
    \<and> pc_url call = url @ ''/api/v1/pair''
    \<and> verify_server (pc_server_pin call) [idn_cert self] = Inr ()
    \<and> (t < now + ttl \<longrightarrow> verify_client Some (known_key f' t r (s', d')) [idn_cert (pc_identity call)] = Inr ())"
proof -
  obtain seed where i: "rand = Inr seed" "length seed = 32" "id_pin dto = pin_of_key (pub seed)"
      "id_invite dto = encode_invite \<lparr>iv_url = url, iv_node_id = nodeID, iv_pin = idn_pin self, iv_seed = seed, iv_expires_at = unix (now + ttl)\<rparr>"
    and p: "\<And>t. t < now + ttl \<Longrightarrow> is_pending t s' (id_pin dto)" by (rule created_invite [OF assms(1)]) blast
  let ?iv = "\<lparr>iv_url = url, iv_node_id = nodeID, iv_pin = idn_pin self, iv_seed = seed, iv_expires_at = unix (now + ttl)\<rparr>"
  note self = from_seed_Inr [OF assms(2)]
  have "valid_utf8 (idn_pin self)"
    using self(2) valid_utf8_b64 by (metis pin_hash_def pin_of_def)
  then have "invite_ok ?iv" using assms(4-7) by (simp add: invite_ok_def)
  then have parse: "parse_invite parse (ws @ id_invite dto @ ws') = Inr ?iv"
    using parse_encoded [of ?iv parse url ws ws'] i assms(3,8,9) self(3) by simp
  obtain tmp where tmp: "from_seed pub cent' None None t0 seed = Inr tmp"
    using i(2) by (simp add: from_seed_def seed_size_def Let_def)
  have "pin_of (idn_cert tmp) = id_pin dto"
    using from_seed_Inr(1,2) [OF tmp] i(2,3) by (simp add: pin_of_seed_def seed_size_def)
  then have "t < now + ttl \<longrightarrow> verify_client Some (known_key f' t r (s', d')) [idn_cert tmp] = Inr ()"
    using pending_key_known [OF p] by (simp add: verify_client_def pin_of_raw_def)
  moreover have "verify_server (idn_pin self) [idn_cert self] = Inr ()" using self(2) by (simp add: verify_server_def)
  ultimately show ?thesis using parse tmp by (auto simp: pair_request_def)
qed

definition ex_url :: string where "ex_url = ''https://nas.example:8444''"

definition ex_parse :: "string \<Rightarrow> url option" where
  "ex_parse raw = (if raw = ex_url then Some \<lparr>u_scheme = ''https'', u_hostname = ''nas.example'', u_port = ''8444'',
     u_has_user = False, u_path = [], u_raw_query = [], u_fragment = []\<rparr> else None)"

definition ex_seed :: string where "ex_seed = replicate 32 CHR ''k''"

theorem invite_brings_together_witness:
  "\<exists>self dto s' d' iv call. from_seed (\<lambda>s. s) (\<lambda>t. t) None None 0 ex_seed = Inr self
    \<and> create_invite_handler ex_url ''nas'' (idn_pin self) (invite_key (\<lambda>s. s) (Inr ex_seed)) (\<lambda>_. False) None second second
        (\<lparr>as_clients = [], as_invites = []\<rparr>, empty_db) = (Json 201 dto, s', d')
    \<and> parse_invite ex_parse (id_invite dto @ [CHR 0x0A]) = Inr iv
    \<and> pair_request (from_seed (\<lambda>s. s) (\<lambda>t. t) None None 5) iv ''p'' ''tv'' = Inr call
    \<and> verify_server (pc_server_pin call) [idn_cert self] = Inr ()
    \<and> verify_client Some (known_key None 0 ex_registry (s', d')) [idn_cert (pc_identity call)] = Inr ()"
proof -
  have l: "length ex_seed = 32" by (simp add: ex_seed_def)
  then obtain self where self: "from_seed (\<lambda>s. s) (\<lambda>t. t) None None 0 ex_seed = Inr self"
    by (simp add: from_seed_def seed_size_def Let_def)
  let ?h = "create_invite_handler ex_url ''nas'' (idn_pin self) (invite_key (\<lambda>s. s) (Inr ex_seed)) (\<lambda>_. False) None second second
        (\<lparr>as_clients = [], as_invites = []\<rparr>, empty_db)"
  obtain dto s' d' where h: "?h = (Json 201 dto, s', d')"
    using l by (simp add: create_invite_handler_def ex_url_def invite_key_def pin_of_seed_def seed_size_def create_invite_def
        sweep_expired_def empty_db_def Let_def)
  have c: "canonical_url ex_parse ex_url = Inr ex_url" "valid_utf8 ex_url" "valid_utf8 ''nas''" "blanks []" "blanks [CHR 0x0A]"
    by code_simp+
  have u: "0 < unix (second + second)" "in_int64 (unix (second + second))" "(0 :: int) < second + second"
    by (simp_all add: unix_def second_def in_int64_def)
  from invite_brings_together [OF h self c(1-3) u(1,2) c(4,5), of "\<lambda>t. t" 5 "''p''" "''tv''" 0 None ex_registry]
  show ?thesis using self h u(3) by auto
qed

end
