(* ===== verification/DbOpen.thy ===== *)
theory DbOpen
  imports Schema
begin

section \<open>Opening the database (internal/db/db.go)\<close>

text \<open>
  \<open>Open\<close> on the catalogue of a SQLite file: which tables there are and which columns each has, in their
  order. The schema creates the tables that are missing; the four migrations then add the columns an older
  version's tables lack. Every statement may fail, and what the earlier ones did stays done. The one index
  of the schema, on revisions, is left out.
\<close>

type_synonym table_info = "(string, string list) tbl"

definition schema_tables :: table_info where
  "schema_tables =
     [(''peers'', [''id'', ''url'', ''state'', ''last_seen_at'', ''version'', ''name'', ''pin'']),
      (''catalog_items'', [''global_id'', ''name'', ''media_type'', ''local'', ''local_item_id'', ''primary_peer_id'',
         ''primary_item_id'', ''strm_path'', ''series_global_id'', ''series_name'', ''season_number'', ''episode_number'',
         ''hidden'', ''path'', ''hidden_folder'', ''updated_at'']),
      (''local_catalog'', [''global_id'', ''entry'', ''hash'', ''rev'', ''deleted'', ''hidden'', ''updated_at'']),
      (''peer_catalog'', [''peer_id'', ''global_id'', ''entry'', ''gen'']),
      (''peer_sync_state'', [''peer_id'', ''epoch'', ''rev'', ''gen'', ''resync'', ''synced_at'', ''resync_requested'']),
      (''hidden_items'', [''key'', ''created_at'']),
      (''peer_excluded_folders'', [''peer_id'', ''folder'']),
      (''peer_traffic'', [''peer_id'', ''direction'', ''bytes'']),
      (''settings'', [''key'', ''value'']),
      (''clients'', [''id'', ''pin'', ''name'', ''created_at'', ''last_seen_at'']),
      (''invites'', [''pin'', ''created_at'', ''expires_at''])]"

definition quotes :: string where "quotes = [CHR 0x27, CHR 0x27]"

definition local_catalog_columns :: "string list" where
  "local_catalog_columns = [''hidden INTEGER NOT NULL DEFAULT 0'']"

definition peer_columns :: "string list" where
  "peer_columns = [''version TEXT NOT NULL DEFAULT '' @ quotes, ''name TEXT NOT NULL DEFAULT '' @ quotes,
     ''pin TEXT NOT NULL DEFAULT '' @ quotes]"

definition peer_sync_state_columns :: "string list" where
  "peer_sync_state_columns = [''resync_requested INTEGER NOT NULL DEFAULT 0'']"

datatype db_statement = CreateTable string | TableInfo string | AddColumn string string

text \<open>The schema, statement by statement.\<close>

fun create_tables :: "(db_statement \<Rightarrow> bool) \<Rightarrow> table_info \<Rightarrow> table_info \<Rightarrow> bool \<times> table_info" where
  "create_tables fault [] s = (True, s)"
| "create_tables fault ((t, cols) # rest) s =
     (if fault (CreateTable t) then (False, s) else create_tables fault rest (tbl_insert_ignore t cols s))"

text \<open>\<open>addMissingColumns\<close> with its failures: as \<open>add_columns\<close> does, up to the first \<open>ALTER TABLE\<close> that fails.\<close>

fun alter_columns ::
  "(db_statement \<Rightarrow> bool) \<Rightarrow> string \<Rightarrow> string list \<Rightarrow> string list \<Rightarrow> string list \<Rightarrow> bool \<times> string list" where
  "alter_columns fault t existing cols [] = (True, cols)"
| "alter_columns fault t existing cols (col # rest) =
     (if column_name col \<in> set existing then alter_columns fault t existing cols rest
      else if fault (AddColumn t (column_name col)) then (False, cols)
      else alter_columns fault t existing (cols @ [column_name col]) rest)"

definition migrate_table :: "(db_statement \<Rightarrow> bool) \<Rightarrow> string \<Rightarrow> string list \<Rightarrow> table_info \<Rightarrow> bool \<times> table_info" where
  "migrate_table fault t wanted s =
     (if fault (TableInfo t) then (False, s)
      else case map_of s t of
             None \<Rightarrow> (wanted = [], s)
           | Some cols \<Rightarrow> (case alter_columns fault t cols cols wanted of (ok, cols') \<Rightarrow> (ok, tbl_upsert t cols' s)))"

fun migrate :: "(db_statement \<Rightarrow> bool) \<Rightarrow> (string \<times> string list) list \<Rightarrow> table_info \<Rightarrow> bool \<times> table_info" where
  "migrate fault [] s = (True, s)"
| "migrate fault ((t, wanted) # rest) s =
     (case migrate_table fault t wanted s of
        (False, s') \<Rightarrow> (False, s')
      | (True, s') \<Rightarrow> migrate fault rest s')"

definition migrations :: "(string \<times> string list) list" where
  "migrations =
     [(''catalog_items'', series_columns), (''peers'', peer_columns), (''local_catalog'', local_catalog_columns),
      (''peer_sync_state'', peer_sync_state_columns)]"

definition open_db ::
  "string \<Rightarrow> bool \<Rightarrow> bool \<Rightarrow> (db_statement \<Rightarrow> bool) \<Rightarrow> table_info \<Rightarrow> (go_error + unit) \<times> table_info" where
  "open_db path mkdir_fails open_fails fault s =
     (if path_dir path \<noteq> ''.'' \<and> mkdir_fails then (Inl (ErrMsg ''creating db dir''), s)
      else if open_fails then (Inl (ErrMsg ''opening db''), s)
      else case create_tables fault schema_tables s of
             (False, s) \<Rightarrow> (Inl (ErrDb ''applying schema''), s)
           | (True, s) \<Rightarrow>
               (case migrate fault migrations s of
                  (False, s) \<Rightarrow> (Inl (ErrDb ''migrating schema''), s)
                | (True, s) \<Rightarrow> (Inr (), s)))"

subsection \<open>What an upgrade keeps\<close>

text \<open>Every table is still there, with new columns at its end at most.\<close>

definition extends :: "table_info \<Rightarrow> table_info \<Rightarrow> bool" where
  "extends s s' \<longleftrightarrow> (\<forall>t cols. map_of s t = Some cols \<longrightarrow> (\<exists>new. map_of s' t = Some (cols @ new)))"

lemma extends_refl [simp, intro]: "extends s s"
  by (auto simp: extends_def)

lemma extends_trans: "extends s s' \<Longrightarrow> extends s' s'' \<Longrightarrow> extends s s''"
  unfolding extends_def by (metis append.assoc)

lemma create_tables_extends: "extends s (snd (create_tables fault ts s))"
proof (induction fault ts s rule: create_tables.induct)
  case (2 fault t cols rest s)
  have "extends s (tbl_insert_ignore t cols s)" by (auto simp: extends_def)
  with 2 show ?case by (auto intro: extends_trans)
qed simp

lemma alter_columns_prefix: "\<exists>new. snd (alter_columns fault t ex cols wanted) = cols @ new"
  by (induction wanted arbitrary: cols) (auto, metis append.assoc)

lemma alter_columns_ok: "alter_columns fault t ex cols wanted = (True, cols') \<Longrightarrow> cols' = add_columns ex cols wanted"
  by (induction wanted arbitrary: cols) (auto split: if_splits)

lemma alter_columns_no_fault: "alter_columns (\<lambda>_. False) t ex cols wanted = (True, add_columns ex cols wanted)"
  by (induction wanted arbitrary: cols) auto

lemma migrate_table_extends: "extends s (snd (migrate_table fault t wanted s))"
proof (cases "fault (TableInfo t) \<or> map_of s t = None")
  case True
  then show ?thesis by (auto simp: migrate_table_def)
next
  case False
  then obtain cols where c: "map_of s t = Some cols" by auto
  obtain ok cols' where a: "alter_columns fault t cols cols wanted = (ok, cols')" by fastforce
  then obtain new where "cols' = cols @ new" using alter_columns_prefix [of fault t cols cols wanted] by auto
  then show ?thesis using False c a by (auto simp: migrate_table_def extends_def)
qed

lemma migrate_extends: "extends s (snd (migrate fault ms s))"
proof (induction ms arbitrary: s)
  case (Cons m ms)
  obtain t wanted where m: "m = (t, wanted)" by fastforce
  obtain ok s' where s': "migrate_table fault t wanted s = (ok, s')" by fastforce
  then have "extends s s'" using migrate_table_extends [of s fault t wanted] by simp
  then show ?case using Cons [of s'] by (cases ok) (auto simp: m s' intro: extends_trans)
qed simp

subsection \<open>What an upgrade reaches\<close>

definition has_tables :: "table_info \<Rightarrow> table_info \<Rightarrow> bool" where
  "has_tables ts s \<longleftrightarrow> (\<forall>t \<in> fst ` set ts. map_of s t \<noteq> None)"

definition has_columns :: "(string \<times> string list) list \<Rightarrow> table_info \<Rightarrow> bool" where
  "has_columns ms s \<longleftrightarrow> (\<forall>(t, wanted) \<in> set ms. \<exists>cols. map_of s t = Some cols \<and> set (map column_name wanted) \<subseteq> set cols)"

definition migrated :: "table_info \<Rightarrow> bool" where
  "migrated s \<longleftrightarrow> has_tables schema_tables s \<and> has_columns migrations s"

text \<open>Up to date: every table of the schema is there, with every column the schema has for it.\<close>

definition up_to_date :: "table_info \<Rightarrow> bool" where
  "up_to_date s \<longleftrightarrow> (\<forall>(t, cols) \<in> set schema_tables. \<exists>have. map_of s t = Some have \<and> set cols \<subseteq> set have)"

text \<open>The columns that a table had not had in every version, as the comments of db.go tell their history: series, hiding, paths and
  folders of the items, version, name and pin of the peers, hiding in the local catalog, the request for a resync. In the file of an earlier
  version any tables are missing, and those there are lack at most these columns.\<close>

definition later_columns :: "(string \<times> string list) list" where
  "later_columns =
     [(''peers'', [''version'', ''name'', ''pin'']),
      (''catalog_items'', [''series_global_id'', ''series_name'', ''season_number'', ''episode_number'', ''hidden'', ''path'', ''hidden_folder'']),
      (''local_catalog'', [''hidden'']),
      (''peer_sync_state'', [''resync_requested''])]"

definition later_of :: "string \<Rightarrow> string set" where
  "later_of t = (case map_of later_columns t of None \<Rightarrow> {} | Some cols \<Rightarrow> set cols)"

definition earlier_version :: "table_info \<Rightarrow> bool" where
  "earlier_version s \<longleftrightarrow> (\<forall>(t, cols) \<in> set schema_tables. \<forall>have. map_of s t = Some have \<longrightarrow> set cols \<subseteq> set have \<union> later_of t)"

lemma extends_has_tables: "extends s s' \<Longrightarrow> has_tables ts s \<Longrightarrow> has_tables ts s'"
  unfolding extends_def has_tables_def by fastforce

lemma create_tables_ok: "create_tables fault ts s = (True, s') \<Longrightarrow> has_tables ts s'"
proof (induction fault ts s arbitrary: s' rule: create_tables.induct)
  case (1 fault s)
  then show ?case by (simp add: has_tables_def)
next
  case (2 fault t cols rest s)
  then have r: "create_tables fault rest (tbl_insert_ignore t cols s) = (True, s')" "has_tables rest s'"
    by (auto split: if_splits)
  have "extends (tbl_insert_ignore t cols s) s'"
    using create_tables_extends [of "tbl_insert_ignore t cols s" fault rest] r(1) by simp
  moreover have "has_tables [(t, cols)] (tbl_insert_ignore t cols s)" by (simp add: has_tables_def)
  ultimately have "has_tables [(t, cols)] s'" by (rule extends_has_tables)
  with r(2) show ?case by (simp add: has_tables_def)
qed

lemma create_tables_no_fault: "fst (create_tables (\<lambda>_. False) ts s)"
  by (induction ts arbitrary: s) auto

lemma create_tables_done: "has_tables ts s \<Longrightarrow> create_tables (\<lambda>_. False) ts s = (True, s)"
proof (induction ts)
  case (Cons tc ts)
  obtain t cols where tc: "tc = (t, cols)" by fastforce
  then obtain c where "map_of s t = Some c" using Cons.prems by (auto simp: has_tables_def)
  then have "tbl_insert_ignore t cols s = s" by (simp add: tbl_insert_ignore_def)
  then show ?case using Cons by (simp add: tc has_tables_def)
qed simp

lemma extends_columns:
  assumes "extends s s'" "map_of s t = Some cols" "C \<subseteq> set cols"
  shows "\<exists>cols'. map_of s' t = Some cols' \<and> C \<subseteq> set cols'"
proof -
  obtain new where "map_of s' t = Some (cols @ new)" using assms(1,2) unfolding extends_def by blast
  then show ?thesis using assms(3) by auto
qed

lemma migrate_table_ok:
  assumes "migrate_table fault t wanted s = (True, s')" "map_of s t \<noteq> None"
  shows "\<exists>cols. map_of s' t = Some cols \<and> set (map column_name wanted) \<subseteq> set cols"
proof -
  obtain cols where c: "map_of s t = Some cols" using assms(2) by auto
  obtain ok cols' where a: "alter_columns fault t cols cols wanted = (ok, cols')" by fastforce
  then have "ok" "s' = tbl_upsert t cols' s" using assms(1) c by (auto simp: migrate_table_def split: if_splits)
  then have "cols' = add_missing_columns cols wanted" using a alter_columns_ok by (simp add: add_missing_columns_def)
  then show ?thesis using \<open>s' = _\<close> add_missing_columns_covers by simp
qed

lemma migrate_columns:
  assumes "migrate fault ms s = (True, s')" "has_tables ms s"
  shows "has_columns ms s'"
  using assms
proof (induction ms arbitrary: s)
  case Nil
  then show ?case by (simp add: has_columns_def)
next
  case (Cons m ms)
  obtain t wanted where m: "m = (t, wanted)" by fastforce
  then obtain s1 where s1: "migrate_table fault t wanted s = (True, s1)" "migrate fault ms s1 = (True, s')"
    using Cons.prems(1) by (auto split: prod.splits bool.splits)
  have "map_of s t \<noteq> None" using Cons.prems(2) by (simp add: m has_tables_def)
  from migrate_table_ok [OF s1(1) this] obtain cols where c: "map_of s1 t = Some cols" "set (map column_name wanted) \<subseteq> set cols"
    by blast
  have e: "extends s s1" "extends s1 s'" using migrate_table_extends [of s fault t wanted] migrate_extends [of s1 fault ms] s1 by simp_all
  have "has_tables ms s1" by (rule extends_has_tables [OF e(1)]) (use Cons.prems(2) in \<open>simp add: has_tables_def\<close>)
  then have "has_columns ms s'" using Cons.IH [OF s1(2)] by blast
  moreover have "\<exists>cols. map_of s' t = Some cols \<and> set (map column_name wanted) \<subseteq> set cols"
    by (rule extends_columns [OF e(2) c])
  ultimately show ?case by (simp add: m has_columns_def)
qed

lemma migrate_no_fault: "has_tables ms s \<Longrightarrow> fst (migrate (\<lambda>_. False) ms s)"
proof (induction ms arbitrary: s)
  case (Cons m ms)
  obtain t wanted where m: "m = (t, wanted)" by fastforce
  obtain cols where c: "map_of s t = Some cols" using Cons.prems by (auto simp: m has_tables_def)
  then obtain s1 where s1: "migrate_table (\<lambda>_. False) t wanted s = (True, s1)"
    by (simp add: migrate_table_def alter_columns_no_fault)
  have "extends s s1" using migrate_table_extends [of s "\<lambda>_. False" t wanted] s1 by simp
  then have "has_tables ms s1" by (rule extends_has_tables) (use Cons.prems in \<open>simp add: has_tables_def\<close>)
  then show ?case using Cons.IH by (simp add: m s1)
qed simp

lemma migrate_done: "has_columns ms s \<Longrightarrow> migrate (\<lambda>_. False) ms s = (True, s)"
proof (induction ms)
  case (Cons m ms)
  obtain t wanted where m: "m = (t, wanted)" by fastforce
  obtain cols where c: "map_of s t = Some cols" "set (map column_name wanted) \<subseteq> set cols"
    using Cons.prems by (auto simp: m has_columns_def)
  have "add_columns cols cols wanted = cols" using c(2) by (auto simp: add_columns_eq filter_empty_conv)
  then have "migrate_table (\<lambda>_. False) t wanted s = (True, s)"
    using c(1) tbl_upsert_id [OF c(1)] by (simp add: migrate_table_def alter_columns_no_fault)
  then show ?case using Cons by (simp add: m has_columns_def)
qed simp

lemma migrated_tables: "fst ` set migrations \<subseteq> fst ` set schema_tables"
  by code_simp

lemma open_db_migrated:
  assumes "open_db path m p fault s = (Inr (), s')"
  shows "migrated s'"
proof -
  obtain s1 where s1: "create_tables fault schema_tables s = (True, s1)" "migrate fault migrations s1 = (True, s')"
    using assms by (auto simp: open_db_def split: if_splits prod.splits bool.splits)
  have t: "has_tables schema_tables s1" by (rule create_tables_ok [OF s1(1)])
  then have "has_tables migrations s1" using migrated_tables unfolding has_tables_def by blast
  then have "has_columns migrations s'" by (rule migrate_columns [OF s1(2)])
  moreover have "extends s1 s'" using migrate_extends [of s1 fault migrations] s1(2) by simp
  ultimately show ?thesis using t extends_has_tables by (auto simp: migrated_def)
qed

text \<open>A file of an earlier version stays one, whatever of the schema and the migrations is carried out.\<close>

lemma schema_keys: "(t, cols) \<in> set schema_tables \<Longrightarrow> map_of schema_tables t = Some cols"
proof -
  have "distinct (map fst schema_tables)" by code_simp
  then show "(t, cols) \<in> set schema_tables \<Longrightarrow> map_of schema_tables t = Some cols" by simp
qed

lemma earlier_insert:
  assumes "earlier_version s" "(t, cols) \<in> set schema_tables"
  shows "earlier_version (tbl_insert_ignore t cols s)"
  using assms(1) schema_keys [OF assms(2)] schema_keys unfolding earlier_version_def
  by (fastforce simp: tbl_insert_ignore_def split: if_splits option.splits)

lemma create_tables_earlier:
  "earlier_version s \<Longrightarrow> set ts \<subseteq> set schema_tables \<Longrightarrow> earlier_version (snd (create_tables fault ts s))"
  by (induction fault ts s rule: create_tables.induct) (auto intro: earlier_insert)

lemma migrate_table_tables:
  assumes "map_of (snd (migrate_table fault t wanted s)) t' = Some have"
  shows "\<exists>old. map_of s t' = Some old \<and> set old \<subseteq> set have"
proof (cases "fault (TableInfo t) \<or> map_of s t = None \<or> t' \<noteq> t")
  case True
  then have "map_of (snd (migrate_table fault t wanted s)) t' = map_of s t'"
    by (auto simp: migrate_table_def split: option.split prod.split)
  then show ?thesis using assms by (intro exI [of _ "have"]) simp
next
  case False
  then obtain old where o: "map_of s t' = Some old" "t' = t" by auto
  from migrate_table_extends [of s fault t wanted] o assms show ?thesis unfolding extends_def by fastforce
qed

lemma migrate_tables:
  "map_of (snd (migrate fault ms s)) t' = Some have \<Longrightarrow> \<exists>old. map_of s t' = Some old \<and> set old \<subseteq> set have"
proof (induction ms arbitrary: s)
  case (Cons m ms)
  obtain t wanted where m: "m = (t, wanted)" by fastforce
  obtain ok s1 where s1: "migrate_table fault t wanted s = (ok, s1)" by fastforce
  have "\<exists>mid. map_of s1 t' = Some mid \<and> set mid \<subseteq> set have"
    using Cons.prems Cons.IH [of s1] by (cases ok) (auto simp: m s1)
  then obtain mid where mid: "map_of s1 t' = Some mid" "set mid \<subseteq> set have" by blast
  then show ?case using migrate_table_tables [of fault t wanted s t' mid] s1 by auto
qed auto

lemma migrate_earlier: "earlier_version s \<Longrightarrow> earlier_version (snd (migrate fault ms s))"
  using migrate_tables unfolding earlier_version_def by (fastforce)

lemma open_db_earlier:
  assumes "earlier_version s"
  shows "earlier_version (snd (open_db path m p fault s))"
proof -
  obtain ok s1 where s1: "create_tables fault schema_tables s = (ok, s1)" by fastforce
  obtain ok' s2 where s2: "migrate fault migrations s1 = (ok', s2)" by fastforce
  have e1: "earlier_version s1" using create_tables_earlier [OF assms, of schema_tables fault] s1 by simp
  then have "earlier_version s2" using migrate_earlier [of s1 fault migrations] s2 by simp
  with e1 assms show ?thesis by (cases ok; cases ok') (simp_all add: open_db_def s1 s2)
qed

text \<open>The migrations bring every column that an earlier version may lack.\<close>

lemma later_migrated: "(t, cols) \<in> set schema_tables \<Longrightarrow> has_columns migrations s \<Longrightarrow> map_of s t = Some have \<Longrightarrow> later_of t \<subseteq> set have"
proof -
  assume h: "has_columns migrations s" "map_of s t = Some have"
  have all: "\<forall>(t, later) \<in> set later_columns. \<exists>(t', wanted) \<in> set migrations. t' = t \<and> set later \<subseteq> set (map column_name wanted)"
    by code_simp
  show "later_of t \<subseteq> set have"
  proof (cases "map_of later_columns t")
    case (Some later)
    then obtain wanted where "(t, wanted) \<in> set migrations" "set later \<subseteq> set (map column_name wanted)"
      using all map_of_SomeD by fastforce
    then show ?thesis using h Some unfolding has_columns_def later_of_def by fastforce
  qed (simp add: later_of_def)
qed

lemma migrated_up_to_date:
  assumes "earlier_version s" "migrated s"
  shows "up_to_date s"
proof -
  have "\<exists>have. map_of s t = Some have \<and> set cols \<subseteq> set have" if t: "(t, cols) \<in> set schema_tables" for t cols
  proof -
    have "t \<in> fst ` set schema_tables" using t by force
    then obtain got where g: "map_of s t = Some got" using assms(2) unfolding migrated_def has_tables_def by blast
    have "set cols \<subseteq> set got \<union> later_of t" using assms(1) t g unfolding earlier_version_def by blast
    moreover have "later_of t \<subseteq> set got" using later_migrated [OF t _ g] assms(2) by (simp add: migrated_def)
    ultimately show ?thesis using g by blast
  qed
  then show ?thesis unfolding up_to_date_def by blast
qed

lemma open_db_up_to_date:
  assumes "open_db path m p fault s = (Inr (), s')" "earlier_version s"
  shows "up_to_date s'"
  using migrated_up_to_date [OF _ open_db_migrated [OF assms(1)]] open_db_earlier [OF assms(2), of path m p fault] assms(1) by simp

lemma open_db_extends: "extends s (snd (open_db path m p fault s))"
proof -
  obtain ok s1 where s1: "create_tables fault schema_tables s = (ok, s1)" by fastforce
  obtain ok' s2 where s2: "migrate fault migrations s1 = (ok', s2)" by fastforce
  have "extends s s1" "extends s1 s2"
    using create_tables_extends [of s fault schema_tables] migrate_extends [of s1 fault migrations] s1 s2 by simp_all
  then have "extends s s2" by (rule extends_trans)
  with \<open>extends s s1\<close> show ?thesis by (cases ok; cases ok') (simp_all add: open_db_def s1 s2)
qed

lemma open_db_no_fault: "\<exists>s'. open_db path False False (\<lambda>_. False) s = (Inr (), s')"
proof -
  obtain s1 where s1: "create_tables (\<lambda>_. False) schema_tables s = (True, s1)"
    using create_tables_no_fault [of schema_tables s] by (cases "create_tables (\<lambda>_. False) schema_tables s") simp
  have "has_tables migrations s1" using create_tables_ok [OF s1] migrated_tables unfolding has_tables_def by blast
  then obtain s2 where "migrate (\<lambda>_. False) migrations s1 = (True, s2)"
    using migrate_no_fault [of migrations s1] by (cases "migrate (\<lambda>_. False) migrations s1") simp
  then show ?thesis using s1 by (simp add: open_db_def)
qed

text \<open>C31: An upgrade is safe: opening a database file of any earlier version, whichever statement fails, keeps every table
  and every column where it was; when it succeeds every table of the schema is there with every column the schema has for it, and
  opening the file again changes nothing; and after a failure the next opening that meets no fault completes what was
  begun. An earlier version is one whose tables, those that are there, lack at most the columns added to the schema since
  (\<open>later_columns\<close>).\<close>

theorem open_db_upgrades:
  assumes "earlier_version s" and "open_db path mkdir_fails open_fails fault s = (res, s')"
  shows "extends s s'
    \<and> (res = Inr () \<longrightarrow> up_to_date s' \<and> open_db path False False (\<lambda>_. False) s' = (Inr (), s'))
    \<and> (\<exists>s''. open_db path False False (\<lambda>_. False) s' = (Inr (), s'') \<and> up_to_date s'' \<and> extends s' s'')"
proof (intro conjI impI)
  show "extends s s'" using open_db_extends [of s path mkdir_fails open_fails fault] assms(2) by simp
  show "up_to_date s'" "open_db path False False (\<lambda>_. False) s' = (Inr (), s')" if r: "res = Inr ()"
  proof -
    show "up_to_date s'" using open_db_up_to_date assms r by blast
    have "migrated s'" using open_db_migrated assms(2) r by blast
    then show "open_db path False False (\<lambda>_. False) s' = (Inr (), s')"
      by (simp add: migrated_def open_db_def create_tables_done migrate_done)
  qed
  have e: "earlier_version s'" using open_db_earlier [OF assms(1), of path mkdir_fails open_fails fault] assms(2) by simp
  obtain s2 where o: "open_db path False False (\<lambda>_. False) s' = (Inr (), s2)" using open_db_no_fault by blast
  then have "up_to_date s2" "extends s' s2"
    using open_db_up_to_date [OF o e] open_db_extends [of s' path False False "\<lambda>_. False"] by simp_all
  with o show "\<exists>s''. open_db path False False (\<lambda>_. False) s' = (Inr (), s'') \<and> up_to_date s'' \<and> extends s' s''" by blast
qed

definition ex_old_db :: table_info where
  "ex_old_db = [(''peers'', [''id'', ''url'', ''state'', ''last_seen_at'']),
     (''catalog_items'', [''global_id'', ''name'', ''media_type'', ''local'', ''local_item_id'', ''primary_peer_id'', ''primary_item_id'',
        ''strm_path'', ''updated_at''])]"

theorem open_db_upgrades_witness:
  "\<exists>s' s''. open_db ''/data/jellysync.db'' False False (\<lambda>st. st = AddColumn ''peers'' ''name'') ex_old_db = (Inl (ErrDb ''migrating schema''), s')
     \<and> map_of s' ''peers'' = Some [''id'', ''url'', ''state'', ''last_seen_at'', ''version'']
     \<and> open_db ''/data/jellysync.db'' False False (\<lambda>_. False) s' = (Inr (), s'') \<and> up_to_date s''"
proof -
  let ?r = "open_db ''/data/jellysync.db'' False False (\<lambda>st. st = AddColumn ''peers'' ''name'') ex_old_db"
  have r: "fst ?r = Inl (ErrDb ''migrating schema'')" "map_of (snd ?r) ''peers'' = Some [''id'', ''url'', ''state'', ''last_seen_at'', ''version'']"
    by code_simp+
  then obtain s' where s': "?r = (Inl (ErrDb ''migrating schema''), s')" by (cases ?r) simp
  have "\<forall>(t, cols) \<in> set schema_tables. case map_of ex_old_db t of None \<Rightarrow> True
      | Some got \<Rightarrow> set cols \<subseteq> set got \<union> (case map_of later_columns t of None \<Rightarrow> {} | Some later \<Rightarrow> set later)"
    by code_simp
  then have "earlier_version ex_old_db" unfolding earlier_version_def later_of_def by fastforce
  from open_db_upgrades [OF this s'] r(2) s' show ?thesis by auto
qed

end
