(* ===== verification/EntryJson.thy ===== *)
theory EntryJson
  imports IndexProps JsonProps
begin

section \<open>Entries as JSON (catalog.go, index.go)\<close>

text \<open>
  The tables hold a catalog entry as the JSON text \<open>json.Marshal\<close> makes of it, and so do the pages of the feed.
  The model keeps the record instead; this theory says why that loses nothing: \<open>entry_json\<close> is the text, reading
  it back gives the entry, and \<open>contentHash\<close> is the truncated SHA-256 of it, so that two entries with the same
  hash are the same entry unless SHA-256 collides.
\<close>

definition entry_members :: "entry \<Rightarrow> (string \<times> json) list" where
  "entry_members e =
     text_member ''global_id'' (e_global_id e) @ text_member ''item_id'' (e_item_id e) @ text_member ''name'' (e_name e)
     @ int_member ''year'' (e_year e) @ text_member ''media_type'' (e_media_type e)
     @ omit_text ''tmdb_id'' (e_tmdb_id e) @ omit_text ''tvdb_id'' (e_tvdb_id e) @ omit_text ''imdb_id'' (e_imdb_id e)
     @ omit_text ''path'' (e_path e)
     @ omit_text ''series_global_id'' (e_series_global_id e) @ omit_text ''series_name'' (e_series_name e)
     @ omit_int ''season_number'' (e_season_number e) @ omit_int ''episode_number'' (e_episode_number e)"

definition entry_json :: "entry \<Rightarrow> string" where
  "entry_json e = encode_object (entry_members e)"

text \<open>\<open>json.Unmarshal\<close> into an \<open>Entry\<close>.\<close>

definition no_entry :: entry where
  "no_entry = \<lparr>e_global_id = [], e_item_id = [], e_name = [], e_year = 0, e_media_type = [], e_tmdb_id = [], e_tvdb_id = [],
     e_imdb_id = [], e_path = [], e_series_global_id = [], e_series_name = [], e_season_number = 0, e_episode_number = 0\<rparr>"

text \<open>One member; the field it belongs to is the one whose name it has, in whatever case.\<close>

definition set_entry_field :: "string \<Rightarrow> json \<Rightarrow> entry \<Rightarrow> entry option" where
  "set_entry_field k v e =
     (if is_field ''global_id'' k then map_option (\<lambda>x. e\<lparr>e_global_id := x\<rparr>) (string_field v (e_global_id e))
      else if is_field ''item_id'' k then map_option (\<lambda>x. e\<lparr>e_item_id := x\<rparr>) (string_field v (e_item_id e))
      else if is_field ''name'' k then map_option (\<lambda>x. e\<lparr>e_name := x\<rparr>) (string_field v (e_name e))
      else if is_field ''year'' k then map_option (\<lambda>x. e\<lparr>e_year := x\<rparr>) (int64_field v (e_year e))
      else if is_field ''media_type'' k then map_option (\<lambda>x. e\<lparr>e_media_type := x\<rparr>) (string_field v (e_media_type e))
      else if is_field ''tmdb_id'' k then map_option (\<lambda>x. e\<lparr>e_tmdb_id := x\<rparr>) (string_field v (e_tmdb_id e))
      else if is_field ''tvdb_id'' k then map_option (\<lambda>x. e\<lparr>e_tvdb_id := x\<rparr>) (string_field v (e_tvdb_id e))
      else if is_field ''imdb_id'' k then map_option (\<lambda>x. e\<lparr>e_imdb_id := x\<rparr>) (string_field v (e_imdb_id e))
      else if is_field ''path'' k then map_option (\<lambda>x. e\<lparr>e_path := x\<rparr>) (string_field v (e_path e))
      else if is_field ''series_global_id'' k then map_option (\<lambda>x. e\<lparr>e_series_global_id := x\<rparr>) (string_field v (e_series_global_id e))
      else if is_field ''series_name'' k then map_option (\<lambda>x. e\<lparr>e_series_name := x\<rparr>) (string_field v (e_series_name e))
      else if is_field ''season_number'' k then map_option (\<lambda>x. e\<lparr>e_season_number := x\<rparr>) (int64_field v (e_season_number e))
      else if is_field ''episode_number'' k then map_option (\<lambda>x. e\<lparr>e_episode_number := x\<rparr>) (int64_field v (e_episode_number e))
      else Some e)"

fun set_entry_fields :: "(string \<times> json) list \<Rightarrow> entry \<Rightarrow> entry option" where
  "set_entry_fields [] e = Some e"
| "set_entry_fields ((k, v) # ms) e =
     (case set_entry_field k v e of None \<Rightarrow> None | Some e \<Rightarrow> set_entry_fields ms e)"

definition unmarshal_entry :: "string \<Rightarrow> entry option" where
  "unmarshal_entry raw =
     (case json_document raw of
        Some (JObject ms) \<Rightarrow> set_entry_fields ms no_entry
      | Some JNull \<Rightarrow> Some no_entry
      | _ \<Rightarrow> None)"

definition content_hash :: "string \<Rightarrow> string" where
  "content_hash b = hex_encode (take 16 (sha256 b))"

subsection \<open>Reading back\<close>

text \<open>What a decoder of JSON can have produced: valid UTF-8 and 64-bit numbers.\<close>

definition entry_ok :: "entry \<Rightarrow> bool" where
  "entry_ok e \<longleftrightarrow> list_all valid_utf8 [e_global_id e, e_item_id e, e_name e, e_media_type e, e_tmdb_id e, e_tvdb_id e, e_imdb_id e,
       e_path e, e_series_global_id e, e_series_name e]
     \<and> list_all in_int64 [e_year e, e_season_number e, e_episode_number e]"

definition entry_fields :: "string list" where
  "entry_fields = [''global_id'', ''item_id'', ''name'', ''year'', ''media_type'', ''tmdb_id'', ''tvdb_id'', ''imdb_id'', ''path'',
     ''series_global_id'', ''series_name'', ''season_number'', ''episode_number'']"

lemma entry_field_names: "list_all valid_utf8 entry_fields"
  by code_simp

lemma plain_entry:
  assumes "entry_ok e"
  shows "list_all plain_member (entry_members e)"
  using assms entry_field_names by (simp add: entry_members_def entry_ok_def entry_fields_def member_simps)

text \<open>No name is another's in a different case.\<close>

lemma entry_fields_distinct:
  "list_all (\<lambda>a. list_all (\<lambda>b. is_field a b \<longleftrightarrow> a = b) entry_fields) entry_fields"
  by code_simp

lemma set_entry_field_simps:
  "set_entry_field ''global_id'' v e = map_option (\<lambda>x. e\<lparr>e_global_id := x\<rparr>) (string_field v (e_global_id e))"
  "set_entry_field ''item_id'' v e = map_option (\<lambda>x. e\<lparr>e_item_id := x\<rparr>) (string_field v (e_item_id e))"
  "set_entry_field ''name'' v e = map_option (\<lambda>x. e\<lparr>e_name := x\<rparr>) (string_field v (e_name e))"
  "set_entry_field ''year'' v e = map_option (\<lambda>x. e\<lparr>e_year := x\<rparr>) (int64_field v (e_year e))"
  "set_entry_field ''media_type'' v e = map_option (\<lambda>x. e\<lparr>e_media_type := x\<rparr>) (string_field v (e_media_type e))"
  "set_entry_field ''tmdb_id'' v e = map_option (\<lambda>x. e\<lparr>e_tmdb_id := x\<rparr>) (string_field v (e_tmdb_id e))"
  "set_entry_field ''tvdb_id'' v e = map_option (\<lambda>x. e\<lparr>e_tvdb_id := x\<rparr>) (string_field v (e_tvdb_id e))"
  "set_entry_field ''imdb_id'' v e = map_option (\<lambda>x. e\<lparr>e_imdb_id := x\<rparr>) (string_field v (e_imdb_id e))"
  "set_entry_field ''path'' v e = map_option (\<lambda>x. e\<lparr>e_path := x\<rparr>) (string_field v (e_path e))"
  "set_entry_field ''series_global_id'' v e = map_option (\<lambda>x. e\<lparr>e_series_global_id := x\<rparr>) (string_field v (e_series_global_id e))"
  "set_entry_field ''series_name'' v e = map_option (\<lambda>x. e\<lparr>e_series_name := x\<rparr>) (string_field v (e_series_name e))"
  "set_entry_field ''season_number'' v e = map_option (\<lambda>x. e\<lparr>e_season_number := x\<rparr>) (int64_field v (e_season_number e))"
  "set_entry_field ''episode_number'' v e = map_option (\<lambda>x. e\<lparr>e_episode_number := x\<rparr>) (int64_field v (e_episode_number e))"
  using entry_fields_distinct by (simp_all add: set_entry_field_def entry_fields_def)

text \<open>A member of the encoding sets its field to what it was written from; a field left out stays empty or zero.\<close>

lemma set_entry_fields_append:
  "set_entry_fields (ms @ ms') e = (case set_entry_fields ms e of None \<Rightarrow> None | Some e \<Rightarrow> set_entry_fields ms' e)"
  by (induction ms e rule: set_entry_fields.induct) (auto split: option.split)

lemma set_text_member:
  assumes "\<And>v. set_entry_field k v e = map_option f (string_field v cur)"
  shows "set_entry_fields (text_member k s) e = Some (f s)"
  by (simp add: text_member_def assms string_field_def)

lemma set_int_member:
  assumes "\<And>v. set_entry_field k v e = map_option f (int64_field v cur)" "in_int64 i"
  shows "set_entry_fields (int_member k i) e = Some (f i)"
  using assms(2) by (simp add: int_member_def assms(1) int64_field_def)

lemma set_omit_text:
  assumes "\<And>v. set_entry_field k v e = map_option f (string_field v cur)" "f [] = e"
  shows "set_entry_fields (omit_text k s) e = Some (f s)"
  using assms(2) set_text_member [OF assms(1)] by (simp add: omit_text_def)

lemma set_omit_int:
  assumes "\<And>v. set_entry_field k v e = map_option f (int64_field v cur)" "f 0 = e" "in_int64 i"
  shows "set_entry_fields (omit_int k i) e = Some (f i)"
  using assms(2) set_int_member [OF assms(1,3)] by (simp add: omit_int_def)

lemma unmarshal_entry_json:
  assumes "entry_ok e"
  shows "unmarshal_entry (entry_json e) = Some e"
proof -
  have i: "in_int64 (e_year e)" "in_int64 (e_season_number e)" "in_int64 (e_episode_number e)"
    using assms by (simp_all add: entry_ok_def)
  have "set_entry_fields (entry_members e) no_entry = Some e"
    unfolding entry_members_def set_entry_fields_append
    by (simp add: set_text_member [OF set_entry_field_simps(1)] set_text_member [OF set_entry_field_simps(2)]
        set_text_member [OF set_entry_field_simps(3)] set_int_member [OF set_entry_field_simps(4) i(1)]
        set_text_member [OF set_entry_field_simps(5)]
        set_omit_text [OF set_entry_field_simps(6)] set_omit_text [OF set_entry_field_simps(7)]
        set_omit_text [OF set_entry_field_simps(8)] set_omit_text [OF set_entry_field_simps(9)]
        set_omit_text [OF set_entry_field_simps(10)] set_omit_text [OF set_entry_field_simps(11)]
        set_omit_int [OF set_entry_field_simps(12) _ i(2)] set_omit_int [OF set_entry_field_simps(13) _ i(3)] no_entry_def)
  then show ?thesis using json_document_object [OF plain_entry [OF assms]] by (simp add: unmarshal_entry_def entry_json_def)
qed

lemma entry_json_inj: "entry_ok e \<Longrightarrow> entry_ok e' \<Longrightarrow> entry_json e = entry_json e' \<longleftrightarrow> e = e'"
  by (metis option.inject unmarshal_entry_json)

text \<open>Hexadecimal is injective, so equal content hashes are equal truncated hashes.\<close>

lemma hex_encode_inj:
  assumes "\<And>b. b \<in> set bs \<Longrightarrow> b < 256" "\<And>b. b \<in> set cs \<Longrightarrow> b < 256" "hex_encode bs = hex_encode cs"
  shows "bs = cs"
  using assms
proof (induction bs arbitrary: cs)
  case Nil
  then show ?case by (cases cs) (simp_all add: hex_encode_def)
next
  case (Cons b bs)
  obtain c cs' where c: "cs = c # cs'" using Cons.prems(3) by (cases cs) (simp_all add: hex_encode_def)
  have b: "b < 256" "c < 256" using Cons.prems(1) [of b] Cons.prems(2) [of c] c by simp_all
  have e: "hex_digit (b div 16) = hex_digit (c div 16)" "hex_digit (b mod 16) = hex_digit (c mod 16)" "hex_encode bs = hex_encode cs'"
    using Cons.prems(3) by (simp_all add: c hex_encode_def)
  have "b div 16 < 16" "c div 16 < 16" using b by simp_all
  then have "b div 16 = c div 16" using e(1) by (metis hex_val_digit option.inject)
  moreover have "b mod 16 = c mod 16" using e(2) by (metis hex_val_digit mod_less_divisor option.inject zero_less_numeral)
  ultimately have "b = c" by (metis div_mult_mod_eq)
  moreover have "bs = cs'" by (rule Cons.IH) (use Cons.prems(1,2) e(3) c in auto)
  ultimately show ?case by (simp add: c)
qed

lemma content_hash_iff: "content_hash a = content_hash b \<longleftrightarrow> take 16 (sha256 a) = take 16 (sha256 b)"
proof
  assume "content_hash a = content_hash b"
  then show "take 16 (sha256 a) = take 16 (sha256 b)"
    unfolding content_hash_def by (rule hex_encode_inj [rotated 2]) (auto dest: in_set_takeD sha256_bytes)
qed (simp add: content_hash_def)

text \<open>C40: The JSON of an entry loses nothing: the text the index and the mirrors store, and the feed sends, is read back as
  the same entry (for strings of valid UTF-8 and numbers of 64 bits, which is all a JSON decoder produces); and two
  entries have the same content hash only if they are the same, or their texts collide under the truncated SHA-256.\<close>

theorem entry_json_faithful:
  assumes "entry_ok e" and "entry_ok e'"
  shows "unmarshal_entry (entry_json e) = Some e
    \<and> (content_hash (entry_json e) = content_hash (entry_json e') \<longleftrightarrow>
        e = e' \<or> entry_json e \<noteq> entry_json e' \<and> take 16 (sha256 (entry_json e)) = take 16 (sha256 (entry_json e')))"
  using unmarshal_entry_json [OF assms(1)] entry_json_inj [OF assms] unfolding content_hash_iff by auto

definition ex_film :: entry where
  "ex_film = \<lparr>e_global_id = ''tmdb:11'', e_item_id = ''f1'', e_name = [dquote, CHR ''<'', CHR 0xC3, CHR 0xA9], e_year = -1, e_media_type = ''movie'',
     e_tmdb_id = ''11'', e_tvdb_id = [], e_imdb_id = [], e_path = [backslash], e_series_global_id = [], e_series_name = [],
     e_season_number = 0, e_episode_number = 7\<rparr>"

theorem entry_json_faithful_witness:
  "entry_json ex_film = map (\<lambda>c. if c = CHR 0x27 then dquote else c)
       (''{'' @ [CHR 0x27] @ ''global_id'' @ [CHR 0x27] @ '':'' @ [CHR 0x27] @ ''tmdb:11'' @ [CHR 0x27] @ '','' @
        [CHR 0x27] @ ''item_id'' @ [CHR 0x27] @ '':'' @ [CHR 0x27] @ ''f1'' @ [CHR 0x27] @ '','' @
        [CHR 0x27] @ ''name'' @ [CHR 0x27] @ '':'' @ [CHR 0x27, backslash, dquote, backslash] @ ''u003c'' @ [CHR 0xC3, CHR 0xA9, CHR 0x27] @ '','' @
        [CHR 0x27] @ ''year'' @ [CHR 0x27] @ '':-1,'' @
        [CHR 0x27] @ ''media_type'' @ [CHR 0x27] @ '':'' @ [CHR 0x27] @ ''movie'' @ [CHR 0x27] @ '','' @
        [CHR 0x27] @ ''tmdb_id'' @ [CHR 0x27] @ '':'' @ [CHR 0x27] @ ''11'' @ [CHR 0x27] @ '','' @
        [CHR 0x27] @ ''path'' @ [CHR 0x27] @ '':'' @ [CHR 0x27, backslash, backslash, CHR 0x27] @ '','' @
        [CHR 0x27] @ ''episode_number'' @ [CHR 0x27] @ '':7}'')
   \<and> unmarshal_entry (entry_json ex_film) = Some ex_film"
proof
  have "entry_ok ex_film" by code_simp
  from entry_json_faithful [OF this this] show "unmarshal_entry (entry_json ex_film) = Some ex_film" by blast
qed code_simp

end
