(* ===== verification/AppStart.thy ===== *)
theory AppStart
  imports Access Config Identity Index Metrics SyncRun
begin

section \<open>Starting a node (app.go)\<close>

text \<open>
  \<open>New\<close>: the parts of a node in the order they are loaded, each from what the ones before it left in
  the database. The parts that only hold references to the others (the HTTP handlers, the Jellyfin client, the
  index, whose state is all in the database) are left out of the result. \<open>None\<close> stands for a start that does
  not return.
\<close>

record 'r app =
  ap_identity :: identity
  ap_auth :: auth_store
  ap_registry :: registry
  ap_collector :: "'r collector"
  ap_tracker :: tracker
  ap_queue :: queue
  ap_limiter :: limiter

text \<open>What one start brings with it: the random bytes, the time, a fresh epoch, and which steps fail (of the seeding inserts, which one).\<close>

record start =
  sa_boot :: boot
  sa_clients_fault :: "go_error option"
  sa_seed_fault :: "nat option"
  sa_migrate_fault :: "go_error option"
  sa_peers_fault :: "go_error option"
  sa_traffic_fault :: "go_error option"
  sa_epoch_fault :: "go_error option"
  sa_web_fault :: "go_error option"
  sa_now :: int
  sa_epoch :: string

text \<open>\<open>SetOtherIDs\<close> only says where \<open>ClientID\<close> looks; \<open>OnOfferingChange\<close> sets the callback.\<close>

definition wire_registry :: "config \<Rightarrow> registry \<Rightarrow> registry" where
  "wire_registry cfg r = (set_transports (cf_http_peers cfg) (cf_mtls_peers cfg) r)\<lparr>rg_has_callback := True\<rparr>"

definition new_app ::
  "(string \<Rightarrow> string) \<Rightarrow> (int \<Rightarrow> int) \<Rightarrow> (string \<Rightarrow> string) \<Rightarrow> (string \<Rightarrow> bool) \<Rightarrow> config \<Rightarrow> start \<Rightarrow> database
     \<Rightarrow> ((string \<times> go_error + 'r :: zero app) \<times> database) option" where
  "new_app pub century ip_of is_uuid cfg sa d =
     (case load_or_create pub century (sa_boot sa) d of
        (Inl e, d) \<Rightarrow> Some (Inl (''loading node identity'', e), d)
      | (Inr self, d) \<Rightarrow>
     (case new_store (sa_clients_fault sa) d of
        Inl e \<Rightarrow> Some (Inl (''loading clients'', e), d)
      | Inr auth \<Rightarrow>
     (case new_registry ip_of is_uuid (sa_seed_fault sa) (sa_migrate_fault sa) (sa_peers_fault sa) (sa_now sa) (cf_peers cfg) d of
        None \<Rightarrow> None
      | Some (Inl e, d) \<Rightarrow> Some (Inl (''loading peers'', e), d)
      | Some (Inr r, d) \<Rightarrow>
     (case new_collector (sa_traffic_fault sa) d of
        Inl e \<Rightarrow> Some (Inl (''loading metrics'', e), d)
      | Inr c \<Rightarrow>
     (case new_index (sa_epoch_fault sa) (sa_epoch sa) d of
        (Inl e, d) \<Rightarrow> Some (Inl (''opening catalog index'', e), d)
      | (Inr _, d) \<Rightarrow>
     (case sa_web_fault sa of
        Some e \<Rightarrow> Some (Inl ([], e), d)
      | None \<Rightarrow> Some (Inr \<lparr>ap_identity = self, ap_auth = auth, ap_registry = wire_registry cfg r, ap_collector = c,
          ap_tracker = [], ap_queue = new_queue, ap_limiter = new_limiter force_refresh_every\<rparr>, d)))))))"

end
