(* ===== verification/AppTheorems.thy ===== *)
theory AppTheorems
  imports AppStart PeersProps PairingProps MetricsTheorems SyncProps
begin

section \<open>Starting a node: what it promises\<close>

text \<open>
  A start on a well formed database always returns, leaves it well formed whatever failed, and produces parts that
  satisfy the invariants their operations keep; the next start finds the same node.
\<close>

text \<open>What a start needs of the tables: one row per key, one client per key, and the two directions.\<close>

definition db_ready :: "database \<Rightarrow> bool" where
  "db_ready d \<longleftrightarrow> db_keyed d \<and> pins_unique (clients_tbl d) \<and> (\<forall>k \<in> fst ` set (peer_traffic d). snd k \<in> range dir_name)"

text \<open>Apart from the table of peers.\<close>

definition rest_ready :: "database \<Rightarrow> bool" where
  "rest_ready d \<longleftrightarrow> db_ready (d\<lparr>peers_tbl := []\<rparr>)"

lemma ready_split: "db_ready d \<longleftrightarrow> keyed (peers_tbl d) \<and> rest_ready d"
  by (auto simp: db_ready_def rest_ready_def db_keyed_def)

lemma rest_ready_peers [simp]: "rest_ready (d\<lparr>peers_tbl := t\<rparr>) \<longleftrightarrow> rest_ready d"
  by (simp add: rest_ready_def)

subsection \<open>The statements of a start\<close>

lemma ready_settings [simp]: "db_ready d \<Longrightarrow> db_ready (d\<lparr>settings_tbl := tbl_insert_ignore k v (settings_tbl d)\<rparr>)"
  by (simp add: db_ready_def db_keyed_def)

lemma load_or_create_db:
  "load_or_create pub century b d = (res, d') \<Longrightarrow> d' = d \<or> (\<exists>v. d' = d\<lparr>settings_tbl := tbl_insert_ignore identity_key_setting v (settings_tbl d)\<rparr>)"
  by (auto simp: load_or_create_def Let_def split: sum.splits if_splits option.splits)

lemma load_or_create_ready: "load_or_create pub century b d = (res, d') \<Longrightarrow> db_ready d \<Longrightarrow> db_ready d'"
  by (auto dest!: load_or_create_db)

text \<open>Renaming to a key that is not in use keeps the keys apart.\<close>

lemma inj_rekey: "new \<notin> A \<Longrightarrow> inj_on (\<lambda>k. if k = old then new else k) A"
  by (auto simp: inj_on_def)

lemma inj_rekey_fst: "\<forall>b. (new, b) \<notin> A \<Longrightarrow> inj_on (\<lambda>k. (if fst k = old then new else fst k, snd k)) A"
  by (auto simp: inj_on_def split: if_splits)

lemma keyed_map_keys:
  assumes "keyed t" "inj_on f (fst ` set t)" "map fst t' = map f (map fst t)"
  shows "keyed t'"
  using assms by (simp add: keyed_def distinct_map comp_inj_on)

lemma keyed_rekey:
  assumes "keyed t" "map_of t new = None"
  shows "keyed (rekey old new t)"
proof (rule keyed_map_keys [OF assms(1) inj_rekey])
  show "new \<notin> fst ` set t" using assms(2) by (simp only: map_of_eq_None_iff not_False_eq_True)
  show "map fst (rekey old new t) = map (\<lambda>k. if k = old then new else k) (map fst t)"
    by (simp add: rekey_def case_prod_unfold comp_def)
qed

lemma keyed_rekey_fst:
  assumes "keyed t" "\<And>b. map_of t (new, b) = None"
  shows "keyed (rekey_fst old new t)"
proof (rule keyed_map_keys [OF assms(1) inj_rekey_fst])
  show "\<forall>b. (new, b) \<notin> fst ` set t" using assms(2) by (simp only: map_of_eq_None_iff not_False_eq_True) simp
  show "map fst (rekey_fst old new t) = map (\<lambda>k. (if fst k = old then new else fst k, snd k)) (map fst t)"
    by (simp add: rekey_fst_def case_prod_unfold comp_def)
qed

lemma no_rows_of: "keyed t \<Longrightarrow> map_of (tbl_delete_where (\<lambda>k _. fst k = new) t) (new, b) = None"
  by (simp split: option.split)

lemma keyed_add_traffic: "keyed t \<Longrightarrow> keyed (add_traffic new rows t)"
  by (induction new rows t rule: add_traffic.induct) auto

lemma keys_upsert: "fst ` set (tbl_upsert k r t) = insert k (fst ` set t)"
  by (simp add: tbl_upsert_def dom_update)

lemma add_traffic_dirs:
  "snd ` fst ` set (add_traffic new rows t) \<subseteq> snd ` fst ` set t \<union> snd ` fst ` set rows"
proof (induction new rows t rule: add_traffic.induct)
  case (2 new p dir n rest t)
  then show ?case unfolding add_traffic.simps keys_upsert by auto
qed simp

lemma rename_rest:
  assumes "rest_ready d"
  shows "rest_ready (rename_peer_id old new d)"
proof -
  let ?d = "rename_peer_id old new d"
  have k: "keyed (catalog_items d)" "keyed (local_catalog d)" "keyed (peer_catalog d)" "keyed (peer_sync_state d)" "keyed (hidden_items d)"
    "keyed (peer_excluded_folders d)" "keyed (peer_traffic d)" "keyed (settings_tbl d)" "keyed (clients_tbl d)" "keyed (invites_tbl d)"
    and u: "pins_unique (clients_tbl d)" and dirs: "snd ` fst ` set (peer_traffic d) \<subseteq> range dir_name"
    using assms by (auto simp: rest_ready_def db_ready_def db_keyed_def)
  have same: "local_catalog ?d = local_catalog d" "hidden_items ?d = hidden_items d" "settings_tbl ?d = settings_tbl d"
    "clients_tbl ?d = clients_tbl d" "invites_tbl ?d = invites_tbl d"
    by (simp_all add: rename_peer_id_def Let_def)
  have c: "keyed (peer_catalog ?d)" "keyed (peer_excluded_folders ?d)"
    using keyed_rekey_fst [OF keyed_delete_where no_rows_of] k(3,6) by (simp_all add: rename_peer_id_def Let_def)
  have s: "keyed (peer_sync_state ?d)" using k(4) by (simp add: rename_peer_id_def Let_def keyed_rekey)
  have i: "keyed (catalog_items ?d)" using k(1) by (simp add: rename_peer_id_def Let_def)
  have t: "keyed (peer_traffic ?d)" using k(7) by (simp add: rename_peer_id_def Let_def keyed_add_traffic)
  have "snd ` fst ` set (peer_traffic ?d)
      \<subseteq> snd ` fst ` set (add_traffic new (filter (\<lambda>(k, _). fst k = old) (peer_traffic d)) (peer_traffic d))"
    by (auto simp: rename_peer_id_def Let_def set_tbl_delete_where)
  also have "\<dots> \<subseteq> snd ` fst ` set (peer_traffic d) \<union> snd ` fst ` set (filter (\<lambda>(k, _). fst k = old) (peer_traffic d))"
    by (rule add_traffic_dirs)
  also have "\<dots> \<subseteq> range dir_name" using dirs by force
  finally have dirs': "snd ` fst ` set (peer_traffic ?d) \<subseteq> range dir_name" .
  show ?thesis using c s i t k u dirs' unfolding rest_ready_def db_ready_def db_keyed_def image_subset_iff by (simp add: same)
qed

lemma rename_all_rest: "rest_ready d \<Longrightarrow> rest_ready (fold (\<lambda>(old, new). rename_peer_id old new) renames d)"
  by (induction renames arbitrary: d) (auto simp: rename_rest)

lemma rename_auth: "clients_tbl (rename_peer_id old new d) = clients_tbl d" "invites_tbl (rename_peer_id old new d) = invites_tbl d"
    "settings_tbl (rename_peer_id old new d) = settings_tbl d"
  by (simp_all add: rename_peer_id_def Let_def)

text \<open>What a start does to the tables that the clients and the settings are in: nothing.\<close>

definition same_auth :: "database \<Rightarrow> database \<Rightarrow> bool" where
  "same_auth d d' \<longleftrightarrow> clients_tbl d' = clients_tbl d \<and> invites_tbl d' = invites_tbl d \<and> settings_tbl d' = settings_tbl d"

lemma rename_all_auth: "same_auth d (fold (\<lambda>(old, new). rename_peer_id old new) renames d)"
  by (induction renames arbitrary: d) (auto simp: rename_auth same_auth_def)

lemma migrate_ready:
  assumes "db_ready d"
  obtains res d' where "migrate_uuid_ids is_uuid fault d = Some (res, d')" "db_ready d'" "same_auth d d'"
    "fault = None \<Longrightarrow> isl res \<Longrightarrow> False"
proof -
  have k: "keyed (peers_tbl d)" and rest: "rest_ready d" using assms by (simp_all add: ready_split)
  let ?all = "map (\<lambda>(i, r). (i, pr_name r)) (peers_tbl d)"
  from migrate_ok [OF k, of is_uuid] obtain d1 where m: "migrate_uuid_ids is_uuid None d = Some (Inr (), d1)" and k1: "keyed (peers_tbl d1)"
    by blast
  then obtain renames where p: "pick_renames is_uuid ?all (map fst ?all) [] = Some renames"
    by (auto simp: migrate_uuid_ids_def Let_def split: option.splits)
  have d1: "d1 = fold (\<lambda>(old, new). rename_peer_id old new) renames d"
    using m unfolding migrate_uuid_ids_def Let_def p by (auto simp: with_tx_def split: if_splits)
  have r1: "db_ready d1" unfolding ready_split using k1 rename_all_rest [OF rest] by (simp add: d1)
  have s1: "same_auth d d1" unfolding d1 by (rule rename_all_auth)
  show ?thesis
  proof (cases "fault = None \<or> renames = []")
    case True
    then have "migrate_uuid_ids is_uuid fault d = Some (Inr (), d1)"
      using m unfolding migrate_uuid_ids_def Let_def p by (auto simp: with_tx_def)
    then show ?thesis using that r1 s1 by simp
  next
    case False
    then obtain e where "fault = Some e" "renames \<noteq> []" by (cases fault) auto
    then have "migrate_uuid_ids is_uuid fault d = Some (Inl e, d)"
      unfolding migrate_uuid_ids_def Let_def p by (simp add: with_tx_def)
    then show ?thesis using that assms \<open>fault = Some e\<close> by (simp add: same_auth_def)
  qed
qed

lemma loaded_ok:
  assumes "keyed (peers_tbl d)" "rg_peers r = map (load_peer ip_of now) (peers_tbl d)"
  shows "registry_ok (r, d)"
proof -
  have "keyed (rg_peers r)" using assms by (simp add: keyed_def load_peer_map comp_def case_prod_unfold)
  moreover have "rel_option (row_matches i) (map_of (rg_peers r) i) (map_of (peers_tbl d) i)" for i
    unfolding assms(2) by (cases "map_of (peers_tbl d) i") (simp_all add: load_peer_get row_matches_def load_peer_def Let_def)
  ultimately show ?thesis using assms(1) by (simp add: registry_ok_def)
qed

lemma registry_ready:
  assumes "db_ready d"
  obtains res d' where "new_registry ip_of is_uuid sf mf lf now configured d = Some (res, d')" "db_ready d'" "same_auth d d'"
    "\<And>r. res = Inr r \<Longrightarrow> registry_ok (r, d') \<and> rg_peers r = map (load_peer ip_of now) (peers_tbl d')"
    "sf = None \<Longrightarrow> mf = None \<Longrightarrow> lf = None \<Longrightarrow> isl res \<Longrightarrow> False"
proof -
  let ?seeded = "case sf of None \<Rightarrow> configured | Some n \<Rightarrow> take n configured"
  let ?d = "d\<lparr>peers_tbl := seed_peers ?seeded (peers_tbl d)\<rparr>"
  have rd: "db_ready ?d" using assms by (simp add: ready_split seed_peers_keyed)
  show ?thesis
  proof (cases "length ?seeded < length configured")
    case True
    then have "new_registry ip_of is_uuid sf mf lf now configured d = Some (Inl (ErrDb ''seeding peer''), ?d)"
      by (simp add: new_registry_def)
    then show ?thesis by (rule that) (use rd True in \<open>auto simp: same_auth_def\<close>)
  next
  case False
  note all = False
  obtain res d' where m: "migrate_uuid_ids is_uuid mf ?d = Some (res, d')" "db_ready d'" "same_auth ?d d'"
    "mf = None \<Longrightarrow> isl res \<Longrightarrow> False" using rd by (rule migrate_ready) blast
  have s: "same_auth d d'" using m(3) by (simp add: same_auth_def)
  have k: "keyed (peers_tbl d')" using m(2) by (simp add: ready_split)
  show ?thesis
  proof (cases "\<exists>u. res = Inr u \<and> lf = None")
    case True
    then have "new_registry ip_of is_uuid sf mf lf now configured d = Some (Inr \<lparr>rg_peers = map (load_peer ip_of now) (peers_tbl d'),
        rg_http_off = False, rg_mtls_off = False, rg_running = [], rg_has_callback = False\<rparr>, d')"
      using m(1) all by (auto simp: new_registry_def Let_def)
    then show ?thesis by (rule that) (use m(2) s loaded_ok [OF k, of _ ip_of now] in auto)
  next
    case False
    then obtain e where "new_registry ip_of is_uuid sf mf lf now configured d = Some (Inl e, d')"
      using m(1) all by (cases res; cases lf) (auto simp: new_registry_def Let_def)
    then show ?thesis by (rule that) (use m(2,4) s False in \<open>cases res; auto\<close>)+
  qed
  qed
qed

subsection \<open>The catalog index\<close>

text \<open>A start leaves the index as well formed as it was: it adds to the settings, none of them of the feed, and what the
  renaming of peers moves stays keyed and served by peers with an id.\<close>

lemma catalog_setting:
  assumes "catalog_ok hash d" "k \<noteq> head_key" "k \<noteq> min_rev_key"
  shows "catalog_ok hash (d\<lparr>settings_tbl := tbl_insert_ignore k v (settings_tbl d)\<rparr>)"
  using assms by (simp add: catalog_ok_def index_ok_def feed_settings_def get_int_setting_def get_setting_def)

lemma catalog_peers [simp]: "catalog_ok hash (d\<lparr>peers_tbl := t\<rparr>) = catalog_ok hash d"
  by (simp add: catalog_ok_def index_ok_def feed_settings_def)

lemma catalog_rename:
  assumes "catalog_ok hash d" "new \<noteq> []"
  shows "catalog_ok hash (rename_peer_id old new d)"
proof -
  let ?d = "rename_peer_id old new d"
  have same: "local_catalog ?d = local_catalog d" "hidden_items ?d = hidden_items d" "settings_tbl ?d = settings_tbl d"
    by (simp_all add: rename_peer_id_def Let_def)
  have kd: "keyed (peer_catalog d)" "keyed (catalog_items d)" using assms(1) by (simp_all add: catalog_ok_def)
  then have k: "keyed (catalog_items ?d)" "keyed (peer_catalog ?d)"
    using keyed_rekey_fst [OF _ no_rows_of [OF kd(1)]] by (simp_all add: rename_peer_id_def Let_def)
  have "i_primary_peer_id r \<noteq> Some []" if r: "map_of (catalog_items ?d) g = Some r" for g r
  proof -
    from r obtain q where "map_of (catalog_items d) g = Some q" "r = (if i_primary_peer_id q = Some old then q\<lparr>i_primary_peer_id := Some new\<rparr> else q)"
      by (auto simp: rename_items)
    then show ?thesis using assms by (auto simp: catalog_ok_def)
  qed
  then show ?thesis using assms(1) k index_ok_cong [OF same(1,3)] by (simp add: catalog_ok_def same)
qed

definition same_library :: "database \<Rightarrow> database \<Rightarrow> bool" where
  "same_library d d' \<longleftrightarrow> local_catalog d' = local_catalog d \<and> hidden_items d' = hidden_items d"

lemma rename_library: "same_library d (rename_peer_id old new d)"
  by (simp add: same_library_def rename_peer_id_def Let_def)

lemma fold_rename_catalog:
  "\<forall>x \<in> set renames. snd x \<noteq> [] \<Longrightarrow>
   (catalog_ok hash d \<longrightarrow> catalog_ok hash (fold (\<lambda>(old, new). rename_peer_id old new) renames d))
   \<and> same_library d (fold (\<lambda>(old, new). rename_peer_id old new) renames d)"
proof (induction renames arbitrary: d)
  case (Cons x renames)
  obtain old new where x: "x = (old, new)" by (cases x)
  have "new \<noteq> []" using Cons.prems by (simp add: x)
  then show ?case using Cons.IH [of "rename_peer_id old new d"] Cons.prems catalog_rename [of hash d new old] rename_library [of d old new]
    by (auto simp: x same_library_def)
qed (simp add: same_library_def)

lemma migrate_catalog:
  assumes "migrate_uuid_ids is_uuid fault d = Some (res, d')"
  shows "(catalog_ok hash d \<longrightarrow> catalog_ok hash d') \<and> same_library d d'"
proof -
  let ?rows = "map (\<lambda>(i, r). (i, pr_name r)) (peers_tbl d)"
  obtain news where P: "pick_renames is_uuid ?rows (map fst ?rows) [] = Some (zip (map fst (filter (needs_name is_uuid) ?rows)) news)"
    "\<forall>i \<in> set news. safe_id i" using pick_renames_spec [of is_uuid ?rows "map fst ?rows" "[]"] by auto
  let ?renames = "zip (map fst (filter (needs_name is_uuid) ?rows)) news"
  have "d' = d \<or> d' = fold (\<lambda>(old, new). rename_peer_id old new) ?renames d"
    using assms unfolding migrate_uuid_ids_def Let_def P(1) option.case by (auto simp: with_tx_def split: if_splits option.splits)
  moreover have "\<forall>x \<in> set ?renames. snd x \<noteq> []" using P(2) by (auto simp: safe_id_def dest: set_zip_rightD)
  ultimately show ?thesis using fold_rename_catalog [of ?renames hash d] by (auto simp: same_library_def)
qed

lemma registry_catalog:
  assumes "new_registry ip_of is_uuid sf mf lf now configured d = Some (res, d')"
  shows "(catalog_ok hash d \<longrightarrow> catalog_ok hash d') \<and> same_library d d'"
proof -
  let ?seeded = "case sf of None \<Rightarrow> configured | Some n \<Rightarrow> take n configured"
  let ?d = "d\<lparr>peers_tbl := seed_peers ?seeded (peers_tbl d)\<rparr>"
  show ?thesis
  proof (cases "length ?seeded < length configured")
    case True
    then have "d' = ?d" using assms by (simp add: new_registry_def)
    then show ?thesis by (simp add: same_library_def)
  next
    case False
    then obtain r where "migrate_uuid_ids is_uuid mf ?d = Some (r, d')"
      using assms by (auto simp: new_registry_def Let_def split: option.splits sum.splits)
    from migrate_catalog [OF this, of hash] show ?thesis by (simp add: same_library_def)
  qed
qed

lemma start_keeps_catalog:
  assumes "new_app pub century ip_of is_uuid cfg sa d = Some (res, d')"
  shows "(catalog_ok hash d \<longrightarrow> catalog_ok hash d') \<and> same_library d d'"
proof -
  obtain i d1 where i: "load_or_create pub century (sa_boot sa) d = (i, d1)" by fastforce
  have c1: "(catalog_ok hash d \<longrightarrow> catalog_ok hash d1) \<and> same_library d d1"
    using load_or_create_db [OF i] catalog_setting [of hash d identity_key_setting]
    by (auto simp: same_library_def identity_key_setting_def head_key_def min_rev_key_def)
  have c3: "(catalog_ok hash x \<longrightarrow> catalog_ok hash y) \<and> same_library x y" if "new_index f u x = (v, y)" for f u x v y
    using that catalog_setting [of hash x epoch_key]
    by (auto simp: new_index_def same_library_def epoch_key_def head_key_def min_rev_key_def split: option.splits)
  show ?thesis
  proof (cases "d' = d1")
    case False
    then obtain r d2 where r: "new_registry ip_of is_uuid (sa_seed_fault sa) (sa_migrate_fault sa) (sa_peers_fault sa) (sa_now sa) (cf_peers cfg) d1 = Some (r, d2)"
      "d' = d2 \<or> (\<exists>v. new_index (sa_epoch_fault sa) (sa_epoch sa) d2 = (v, d'))"
      using assms i by (auto simp: new_app_def split: sum.splits option.splits prod.splits)
    from registry_catalog [OF r(1), of hash] c1 r(2) c3 show ?thesis unfolding same_library_def by metis
  qed (use c1 in simp)
qed

subsection \<open>A whole start\<close>

text \<open>What the parts of a started node are to the database: they mirror it, the traffic is what it says, the node's key is the
  one stored in it, and it has an epoch.\<close>

definition app_ok :: "(string \<Rightarrow> string) \<Rightarrow> 'r :: zero app \<Rightarrow> database \<Rightarrow> bool" where
  "app_ok pub a d \<longleftrightarrow> store_ok (ap_auth a, d) \<and> new_store None d = Inr (ap_auth a)
     \<and> registry_ok (ap_registry a, d)
     \<and> traffic_ok (ap_collector a, d) \<and> (\<forall>p e. total_of (ap_collector a) p e = stored d p e)
     \<and> (\<exists>v. map_of (settings_tbl d) identity_key_setting = Some v \<and> b64_decode StdEncoding v = Some (idn_seed (ap_identity a)))
     \<and> pin_of_seed pub (idn_seed (ap_identity a)) = Inr (idn_pin (ap_identity a))
     \<and> map_of (settings_tbl d) epoch_key \<noteq> None"

lemma store_same: "same_auth d d' \<Longrightarrow> new_store f d' = new_store f d"
  by (cases f) (simp_all add: new_store_def same_auth_def)

lemma wire_ok: "registry_ok (r, d) \<Longrightarrow> registry_ok (wire_registry cfg r, d)"
  using set_transports_ok [of r d "cf_http_peers cfg" "cf_mtls_peers cfg"] by (simp add: wire_registry_def registry_ok_def)

lemma ready_epoch:
  assumes "db_ready d" "new_index f uuid d = (res, d')"
  shows "db_ready d' \<and> (\<exists>t. d' = d\<lparr>settings_tbl := t\<rparr> \<and> (\<forall>k v. map_of (settings_tbl d) k = Some v \<longrightarrow> map_of t k = Some v)
    \<and> (\<not> isl res \<longrightarrow> map_of t epoch_key \<noteq> None))"
proof (cases f)
  case None
  let ?t = "tbl_insert_ignore epoch_key uuid (settings_tbl d)"
  have r: "d' = d\<lparr>settings_tbl := ?t\<rparr>" using assms(2) None by (simp add: new_index_def)
  have "\<forall>k v. map_of (settings_tbl d) k = Some v \<longrightarrow> map_of ?t k = Some v" by simp
  moreover have "map_of ?t epoch_key \<noteq> None" by simp
  ultimately show ?thesis unfolding r using ready_settings [OF assms(1)] by blast
next
  case (Some e)
  then have r: "d' = d" "isl res" using assms(2) by (auto simp: new_index_def)
  have "d = d\<lparr>settings_tbl := settings_tbl d\<rparr>" by simp
  then show ?thesis unfolding r(1) using assms(1) r(2) by blast
qed

text \<open>The parts after the registry.\<close>

lemma registry_ok_settings: "registry_ok (r, d\<lparr>settings_tbl := t\<rparr>) = registry_ok (r, d)"
  by (simp add: registry_ok_def)

lemma traffic_ok_settings: "traffic_ok (c, d\<lparr>settings_tbl := t\<rparr>) = traffic_ok (c, d)" "stored (d\<lparr>settings_tbl := t\<rparr>) = stored d"
  by (simp_all add: traffic_ok_def stored_def fun_eq_iff)

lemma collector_ready:
  assumes "db_ready d" "new_collector f d = Inr c"
  shows "traffic_ok (c, d)" "total_of c p e = stored d p e"
proof -
  have f: "new_collector None d = Inr c" using assms(2) by (simp add: new_collector_def split: option.splits)
  have k: "keyed (peer_traffic d)" and dirs: "\<forall>k \<in> fst ` set (peer_traffic d). snd k \<in> range dir_name"
    using assms(1) by (simp_all add: db_ready_def db_keyed_def)
  show "traffic_ok (c, d)" by (rule traffic_ok_new [OF k dirs f])
  show "total_of c p e = stored d p e" using new_collector_total [OF k dirs f] by simp
qed

lemma settings_store: "store_ok (s, d\<lparr>settings_tbl := t\<rparr>) = store_ok (s, d)" "new_store f (d\<lparr>settings_tbl := t\<rparr>) = new_store f d"
  by (simp add: store_ok_def) (cases f; simp add: new_store_def)

lemma store_ok_same: "same_auth d d' \<Longrightarrow> store_ok (s, d) \<Longrightarrow> store_ok (s, d')"
  by (simp add: store_ok_def same_auth_def)

text \<open>A start in which no step fails.\<close>

definition smooth :: "start \<Rightarrow> bool" where
  "smooth sa \<longleftrightarrow> \<not> isl (bo_rand (sa_boot sa)) \<and> bo_save_fault (sa_boot sa) = None \<and> bo_read_fault (sa_boot sa) = None
     \<and> bo_create_fault (sa_boot sa) = None \<and> bo_parse_fault (sa_boot sa) = None \<and> sa_clients_fault sa = None \<and> sa_seed_fault sa = None
     \<and> sa_migrate_fault sa = None \<and> sa_peers_fault sa = None \<and> sa_traffic_fault sa = None \<and> sa_epoch_fault sa = None \<and> sa_web_fault sa = None"

lemma new_app_ready:
  assumes ready: "db_ready d"
  obtains res :: "string \<times> go_error + 'r :: zero app" and d' where "new_app pub century ip_of is_uuid cfg sa d = Some (res, d')" "db_ready d'"
    "\<And>a. res = Inr a \<Longrightarrow> app_ok pub a d' \<and> fst (load_or_create pub century (sa_boot sa) d) = Inr (ap_identity a)
       \<and> clients_tbl d' = clients_tbl d \<and> invites_tbl d' = invites_tbl d"
    "smooth sa \<Longrightarrow> \<not> isl (fst (load_or_create pub century (sa_boot sa) d)) \<Longrightarrow> isl res \<Longrightarrow> False"
proof -
  obtain i d1 where i: "load_or_create pub century (sa_boot sa) d = (i, d1)" by fastforce
  note r1 = load_or_create_ready [OF i ready]
  obtain res d2 where reg: "new_registry ip_of is_uuid (sa_seed_fault sa) (sa_migrate_fault sa) (sa_peers_fault sa) (sa_now sa) (cf_peers cfg) d1
      = Some (res, d2)" "db_ready d2" "same_auth d1 d2"
    "\<And>r. res = Inr r \<Longrightarrow> registry_ok (r, d2) \<and> rg_peers r = map (load_peer ip_of (sa_now sa)) (peers_tbl d2)"
    "sa_seed_fault sa = None \<Longrightarrow> sa_migrate_fault sa = None \<Longrightarrow> sa_peers_fault sa = None \<Longrightarrow> isl res \<Longrightarrow> False"
    by (rule registry_ready [OF r1]) (rule that, assumption+)
  obtain u d3 where ix: "new_index (sa_epoch_fault sa) (sa_epoch sa) d2 = (u, d3)" by fastforce
  from ready_epoch [OF reg(2) ix] obtain t where e: "db_ready d3" "d3 = d2\<lparr>settings_tbl := t\<rparr>"
    "\<And>k v. map_of (settings_tbl d2) k = Some v \<Longrightarrow> map_of t k = Some v" "\<not> isl u \<Longrightarrow> map_of t epoch_key \<noteq> None" by blast
  note N = new_app_def [of pub century ip_of is_uuid cfg sa d] i reg(1) ix
  show ?thesis
  proof (cases "isl i \<or> isl (new_store (sa_clients_fault sa) d1) \<or> isl res \<or> isl (new_collector (sa_traffic_fault sa) d2 :: go_error + 'r collector)
      \<or> isl u \<or> sa_web_fault sa \<noteq> None")
    case True
    then have "\<exists>p e d'. new_app pub century ip_of is_uuid cfg sa d = Some (Inl (p, e) :: string \<times> go_error + 'r app, d') \<and> d' \<in> {d1, d2, d3}"
      by (auto simp: N split: sum.split option.split)
    then obtain p err d' where n: "new_app pub century ip_of is_uuid cfg sa d = Some (Inl (p, err) :: string \<times> go_error + 'r app, d')" "d' \<in> {d1, d2, d3}"
      by blast
    have "\<not> smooth sa" if "\<not> isl i"
    proof
      assume "smooth sa"
      then have f: "sa_clients_fault sa = None" "sa_seed_fault sa = None" "sa_migrate_fault sa = None" "sa_peers_fault sa = None"
        "sa_traffic_fault sa = None" "sa_epoch_fault sa = None" "sa_web_fault sa = None" unfolding smooth_def by blast+
      have "\<not> isl (new_store (sa_clients_fault sa) d1)" "\<not> isl (new_collector (sa_traffic_fault sa) d2 :: go_error + 'r collector)"
        by (simp_all add: f new_store_def new_collector_def)
      moreover have "\<not> isl u" using ix by (auto simp: f new_index_def)
      ultimately show False using True that reg(5) f by blast
    qed
    then show ?thesis using that [OF n(1)] n(2) r1 reg(2) e(1) i by auto
  next
    case False
    then have n: "\<not> isl i" "\<not> isl (new_store (sa_clients_fault sa) d1)" "\<not> isl res"
      "\<not> isl (new_collector (sa_traffic_fault sa) d2 :: go_error + 'r collector)" "\<not> isl u" "sa_web_fault sa = None" by blast+
    obtain self where p1: "i = Inr self" using n(1) by (cases i) auto
    obtain auth where p2: "new_store (sa_clients_fault sa) d1 = Inr auth" using n(2) by (cases "new_store (sa_clients_fault sa) d1") auto
    obtain r where p3: "res = Inr r" using n(3) by (cases res) auto
    obtain c where p4: "new_collector (sa_traffic_fault sa) d2 = Inr (c :: 'r collector)"
      using n(4) by (cases "new_collector (sa_traffic_fault sa) d2 :: go_error + 'r collector") auto
    have p5: "u = Inr ()" using n(5) by (cases u) auto
    note parts = p1 p2 p3 p4 p5 n(6)
    let ?a = "\<lparr>ap_identity = self, ap_auth = auth, ap_registry = wire_registry cfg r, ap_collector = c,
          ap_tracker = [], ap_queue = new_queue, ap_limiter = new_limiter force_refresh_every\<rparr>"
    have n: "new_app pub century ip_of is_uuid cfg sa d = Some (Inr ?a, d3)" by (simp add: N parts)
    have "new_store None d1 = Inr auth" using parts(2) by (simp add: new_store_def split: option.splits)
    moreover have "store_ok (auth, d1)" using calculation new_store_ok r1 by (simp add: db_ready_def db_keyed_def)
    ultimately have st: "store_ok (auth, d3)" "new_store None d3 = Inr auth"
      unfolding e(2) settings_store using store_ok_same [OF reg(3)] store_same [OF reg(3)] by auto
    have rg: "registry_ok (wire_registry cfg r, d3)" unfolding e(2) registry_ok_settings by (rule wire_ok) (use reg(4) parts(3) in blast)
    have tr: "traffic_ok (c, d3)" "total_of c p e = stored d3 p e" for p e
      unfolding e(2) traffic_ok_settings using collector_ready [OF reg(2) parts(4)] by auto
    obtain v where v: "map_of (settings_tbl d1) identity_key_setting = Some v" "b64_decode StdEncoding v = Some (idn_seed self)"
      "pin_of_seed pub (idn_seed self) = Inr (idn_pin self)"
      using load_or_create_stored i parts(1) by blast
    have "map_of (settings_tbl d2) identity_key_setting = Some v" using v(1) reg(3) by (simp add: same_auth_def)
    then have "map_of (settings_tbl d3) identity_key_setting = Some v" using e(3) by (simp add: e(2))
    moreover have "map_of (settings_tbl d3) epoch_key \<noteq> None" using e(4) parts(5) by (simp add: e(2))
    ultimately have "app_ok pub ?a d3" using st rg tr v(2,3) by (simp add: app_ok_def)
    moreover have "clients_tbl d3 = clients_tbl d" "invites_tbl d3 = invites_tbl d"
      using load_or_create_db [OF i] reg(3) by (auto simp: e(2) same_auth_def)
    ultimately show ?thesis using that n e(1) i parts(1) by simp
  qed
qed

lemma load_or_create_smooth:
  assumes "map_of (settings_tbl d) identity_key_setting = Some v" "b64_decode StdEncoding v = Some seed" "pin_of_seed pub seed = Inr pin" "smooth sa"
  obtains i where "load_or_create pub century (sa_boot sa) d = (Inr i, d)" "idn_seed i = seed" "idn_pin i = pin"
proof -
  have "d\<lparr>settings_tbl := tbl_insert_ignore identity_key_setting w (settings_tbl d)\<rparr> = d" for w
    using assms(1) by (simp add: tbl_insert_ignore_def)
  moreover obtain x where "bo_rand (sa_boot sa) = Inr x" using assms(4) by (cases "bo_rand (sa_boot sa)") (auto simp: smooth_def)
  moreover have "length seed = seed_size" "pin = pin_of_key (pub seed)" using assms(3) by (auto simp: pin_of_seed_def split: if_splits)
  ultimately show ?thesis using that assms(1,2,4) by (simp add: load_or_create_def from_seed_def smooth_def Let_def)
qed

text \<open>C24: A node starts on any well formed database, of whatever content: the start returns, leaves the database well
  formed whatever fails on the way, with the library and the hidden items as they were and the catalog index well formed if it was; and when it
  succeeds every part with a state in memory satisfies the invariant its operations keep (the
  clients, the peers and the traffic in memory are those of the tables, the key is the stored one) and the feed has an epoch. Every later start without failures, with any
  configuration and whatever has been done to the database in between, as long as it is well formed and the stored key is
  left alone, succeeds, has the same key and the same pin, and the same clients and invites if those were left alone.\<close>

theorem starts_find_the_node:
  assumes "db_ready d"
  shows "\<exists>res d'. new_app pub century ip_of is_uuid cfg sa d = Some (res, d') \<and> db_ready d'
    \<and> (catalog_ok hash d \<longrightarrow> catalog_ok hash d') \<and> local_catalog d' = local_catalog d \<and> hidden_items d' = hidden_items d
    \<and> (\<forall>a :: 'r :: zero app. res = Inr a \<longrightarrow> app_ok pub a d'
        \<and> (\<forall>cfg' sa' d2. smooth sa' \<and> db_ready d2
             \<and> map_of (settings_tbl d2) identity_key_setting = map_of (settings_tbl d') identity_key_setting
           \<longrightarrow> (\<exists>(a' :: 'r app) d''. new_app pub century ip_of is_uuid cfg' sa' d2 = Some (Inr a', d'') \<and> app_ok pub a' d''
                 \<and> idn_seed (ap_identity a') = idn_seed (ap_identity a) \<and> idn_pin (ap_identity a') = idn_pin (ap_identity a)
                 \<and> (clients_tbl d2 = clients_tbl d' \<and> invites_tbl d2 = invites_tbl d' \<longrightarrow> ap_auth a' = ap_auth a))))"
proof -
  obtain res :: "string \<times> go_error + 'r app" and d' where first: "new_app pub century ip_of is_uuid cfg sa d = Some (res, d')" "db_ready d'"
    "\<And>a. res = Inr a \<Longrightarrow> app_ok pub a d'" by (rule new_app_ready [OF assms]) blast
  have again: "\<exists>(a' :: 'r app) d''. new_app pub century ip_of is_uuid cfg' sa' d2 = Some (Inr a', d'') \<and> app_ok pub a' d''
      \<and> idn_seed (ap_identity a') = idn_seed (ap_identity a) \<and> idn_pin (ap_identity a') = idn_pin (ap_identity a)
      \<and> (clients_tbl d2 = clients_tbl d' \<and> invites_tbl d2 = invites_tbl d' \<longrightarrow> ap_auth a' = ap_auth a)"
    if a: "app_ok pub a d'" and sa': "smooth sa'" and d2: "db_ready d2"
      "map_of (settings_tbl d2) identity_key_setting = map_of (settings_tbl d') identity_key_setting"
    for a :: "'r app" and cfg' sa' d2
  proof -
    obtain v where v: "map_of (settings_tbl d2) identity_key_setting = Some v" "b64_decode StdEncoding v = Some (idn_seed (ap_identity a))"
      using a d2(2) by (auto simp: app_ok_def)
    have pin: "pin_of_seed pub (idn_seed (ap_identity a)) = Inr (idn_pin (ap_identity a))" using a by (simp add: app_ok_def)
    obtain i where i: "load_or_create pub century (sa_boot sa') d2 = (Inr i, d2)"
      "idn_seed i = idn_seed (ap_identity a)" "idn_pin i = idn_pin (ap_identity a)"
      by (rule load_or_create_smooth [OF v pin sa'])
    obtain res2 :: "string \<times> go_error + 'r app" and d'' where second: "new_app pub century ip_of is_uuid cfg' sa' d2 = Some (res2, d'')"
      "\<And>a'. res2 = Inr a' \<Longrightarrow> app_ok pub a' d'' \<and> fst (load_or_create pub century (sa_boot sa') d2) = Inr (ap_identity a')
         \<and> clients_tbl d'' = clients_tbl d2 \<and> invites_tbl d'' = invites_tbl d2"
      "\<not> isl res2"
      using new_app_ready [OF d2(1), of pub century ip_of is_uuid cfg' sa'] sa' i(1) by (metis fst_conv sum.disc(2))
    obtain a' where r2: "res2 = Inr a'" using second(3) by (cases res2) auto
    have "new_store None d'' = new_store None d'" if "clients_tbl d2 = clients_tbl d'" "invites_tbl d2 = invites_tbl d'"
      using second(2) [OF r2] that by (simp add: new_store_def)
    then show ?thesis using second(1,2) r2 i a by (auto simp: app_ok_def)
  qed
  note kept = start_keeps_catalog [OF first(1), of hash, unfolded same_library_def]
  show ?thesis using first again kept by blast
qed

definition ex_cfg :: config where
  "ex_cfg = \<lparr>cf_node_id = ''tv'', cf_listen_addr = '':8080'', cf_peer_listen_addr = '':8443'', cf_http_peers = True, cf_mtls_peers = True,
     cf_public_url = [], cf_db_path = ''db'', cf_jellyfin_url = ''http://j'', cf_jellyfin_key = ''k'', cf_output_dir = ''/out'', cf_base_url = ''http://tv'',
     cf_peers = [(''nas'', ''http://nas'')], cf_stream_buffer_kb = 256, cf_jellyfin_timeout = second, cf_peer_fetch_timeout = second, cf_log_level = 0\<rparr>"

definition ex_start :: "char \<Rightarrow> start" where
  "ex_start c = \<lparr>sa_boot = \<lparr>bo_rand = Inr (replicate 32 c), bo_save_fault = None, bo_read_fault = None, bo_create_fault = None, bo_parse_fault = None, bo_now = 0\<rparr>,
     sa_clients_fault = None, sa_seed_fault = None, sa_migrate_fault = None, sa_peers_fault = None, sa_traffic_fault = None, sa_epoch_fault = None,
     sa_web_fault = None, sa_now = 0, sa_epoch = ''e'' @ [c]\<rparr>"

lemma ex_ready: "db_ready empty_db" "smooth (ex_start c)"
  by (simp_all add: db_ready_def pins_unique_def empty_db_def smooth_def ex_start_def db_keyed_def)

theorem starts_find_the_node_witness:
  "\<exists>(a :: int app) d' (a' :: int app) d''. new_app (\<lambda>s. s) (\<lambda>t. t) (\<lambda>_. []) (\<lambda>_. False) ex_cfg (ex_start CHR ''a'') empty_db = Some (Inr a, d')
     \<and> new_app (\<lambda>s. s) (\<lambda>t. t) (\<lambda>_. []) (\<lambda>_. False) ex_cfg (ex_start CHR ''b'') d' = Some (Inr a', d'')
     \<and> idn_seed (ap_identity a) = replicate 32 CHR ''a'' \<and> idn_seed (ap_identity a') = replicate 32 CHR ''a'' \<and> ap_auth a' = ap_auth a"
proof -
  obtain i d1 where i: "load_or_create (\<lambda>s. s) (\<lambda>t. t) (sa_boot (ex_start CHR ''a'')) empty_db = (Inr i, d1)" "idn_seed i = replicate 32 CHR ''a''"
    by (simp add: load_or_create_def ex_start_def empty_db_def tbl_insert_ignore_def from_seed_def seed_size_def Let_def)
  obtain res :: "string \<times> go_error + int app" and d' where n: "new_app (\<lambda>s. s) (\<lambda>t. t) (\<lambda>_. []) (\<lambda>_. False) ex_cfg (ex_start CHR ''a'') empty_db = Some (res, d')"
    "db_ready d'" "\<And>a. res = Inr a \<Longrightarrow> app_ok (\<lambda>s. s) a d' \<and> fst (load_or_create (\<lambda>s. s) (\<lambda>t. t) (sa_boot (ex_start CHR ''a'')) empty_db) = Inr (ap_identity a)
       \<and> clients_tbl d' = clients_tbl empty_db \<and> invites_tbl d' = invites_tbl empty_db"
    "smooth (ex_start CHR ''a'') \<Longrightarrow> \<not> isl (fst (load_or_create (\<lambda>s. s) (\<lambda>t. t) (sa_boot (ex_start CHR ''a'')) empty_db)) \<Longrightarrow> isl res \<Longrightarrow> False"
    by (rule new_app_ready [OF ex_ready(1)]) (rule that, assumption+)
  have "\<not> isl res" using n(4) [OF ex_ready(2)] i(1) by auto
  then obtain a where a: "res = Inr a" by (cases res) auto
  have seed: "idn_seed (ap_identity a) = replicate 32 CHR ''a''" using n(3) [OF a] i by simp
  note T = starts_find_the_node [OF ex_ready(1), where 'r = int, of "\<lambda>s. s" "\<lambda>t. t" "\<lambda>_. []" "\<lambda>_. False" ex_cfg "ex_start CHR ''a''" e_name, unfolded n(1) a]
  then have "\<forall>cfg' sa' d2. smooth sa' \<and> db_ready d2 \<and> map_of (settings_tbl d2) identity_key_setting = map_of (settings_tbl d') identity_key_setting
      \<longrightarrow> (\<exists>(a' :: int app) d''. new_app (\<lambda>s. s) (\<lambda>t. t) (\<lambda>_. []) (\<lambda>_. False) cfg' sa' d2 = Some (Inr a', d'') \<and> app_ok (\<lambda>s. s) a' d''
        \<and> idn_seed (ap_identity a') = idn_seed (ap_identity a) \<and> idn_pin (ap_identity a') = idn_pin (ap_identity a)
        \<and> (clients_tbl d2 = clients_tbl d' \<and> invites_tbl d2 = invites_tbl d' \<longrightarrow> ap_auth a' = ap_auth a))"
    by (elim exE conjE) (simp only: option.inject prod.inject, elim conjE, hypsubst, drule spec, drule mp, rule refl, erule conjunct2)
  from this [rule_format, of "ex_start CHR ''b''" d' ex_cfg, OF conjI [OF ex_ready(2) conjI [OF n(2) refl]]] obtain a' :: "int app" and d'' where
    "new_app (\<lambda>s. s) (\<lambda>t. t) (\<lambda>_. []) (\<lambda>_. False) ex_cfg (ex_start CHR ''b'') d' = Some (Inr a', d'')"
    "idn_seed (ap_identity a') = idn_seed (ap_identity a)" "ap_auth a' = ap_auth a" by blast
  then show ?thesis using n(1) unfolding a using seed by auto
qed

subsection \<open>What the migration of ids gets wrong\<close>

lemma start_migrates:
  assumes "keyed (peers_tbl d)" "new_registry ip_of is_uuid None None None now configured d = Some (Inr r, d')"
  shows "list_all2 (migrated_row is_uuid (fst ` set (seed_peers configured (peers_tbl d)))) (seed_peers configured (peers_tbl d)) (peers_tbl d')"
    "keyed (peers_tbl d')"
proof -
  let ?d = "d\<lparr>peers_tbl := seed_peers configured (peers_tbl d)\<rparr>"
  obtain d1 where m: "migrate_uuid_ids is_uuid None ?d = Some (Inr (), d1)" "keyed (peers_tbl d1)"
    "list_all2 (migrated_row is_uuid (fst ` set (peers_tbl ?d))) (peers_tbl ?d) (peers_tbl d1)"
    using migrate_ok [of ?d is_uuid] seed_peers_keyed [OF assms(1)] by auto
  then have "d1 = d'" using assms(2) by (simp add: new_registry_def)
  then show "list_all2 (migrated_row is_uuid (fst ` set (seed_peers configured (peers_tbl d)))) (seed_peers configured (peers_tbl d)) (peers_tbl d')"
    "keyed (peers_tbl d')" using m(2,3) by simp_all
qed

lemma length_upsert: "length (tbl_upsert k v t) = (if k \<in> fst ` set t then length t else Suc (length t))"
  unfolding tbl_upsert_def by (induction t) auto

text \<open>A peer that is configured under an id that is a UUID loses that id to the migration once its name is known, and the next start adds it
  again from the configuration: there is one more peer with the same address, which is renamed in its turn.\<close>

lemma configured_uuid_multiplies:
  assumes "keyed (peers_tbl d)" "is_uuid u" "map_of (peers_tbl d) u = Some x" "slug (pr_name x) \<noteq> []"
    and "new_registry ip_of is_uuid None None None now [(u, url)] d = Some (Inr r, d1)"
    and "new_registry ip_of is_uuid None None None now' [(u, url)] d1 = Some (Inr r', d2)"
  shows "map_of (peers_tbl d1) u = None" "length (peers_tbl d2) = Suc (length (peers_tbl d))"
proof -
  let ?t = "seed_peers [(u, url)] (peers_tbl d)"
  have t: "?t = tbl_upsert u (x\<lparr>pr_url := url\<rparr>) (peers_tbl d)" using assms(3) by simp
  have kt: "keyed ?t" using assms(1) by (simp add: seed_peers_keyed)
  have mem: "u \<in> fst ` set (peers_tbl d)" using assms(3) by (metis map_of_in_set fst_conv image_eqI)
  note M = start_migrates [OF assms(1,5)]
  have "u \<notin> fst ` set (peers_tbl d1)"
  proof
    assume "u \<in> fst ` set (peers_tbl d1)"
    then obtain k where k: "k < length (peers_tbl d1)" "fst (peers_tbl d1 ! k) = u" by (auto simp: in_set_conv_nth)
    have l: "k < length ?t" using M(1) k(1) by (auto dest: list_all2_lengthD)
    have row: "migrated_row is_uuid (fst ` set ?t) (?t ! k) (peers_tbl d1 ! k)" using M(1) l by (rule list_all2_nthD)
    have ids: "u \<in> fst ` set ?t" unfolding t keys_upsert by simp
    then have "fst (?t ! k) = u" using row k(2) by (auto simp: migrated_row_def split: if_splits)
    moreover have "?t ! k \<in> set ?t" using l by simp
    ultimately have "map_of ?t u = Some (snd (?t ! k))" using keyed_map_of_eq [OF kt] by (metis prod.collapse)
    then have "snd (?t ! k) = x\<lparr>pr_url := url\<rparr>" unfolding t by simp
    then have "needs_name is_uuid (fst (?t ! k), pr_name (snd (?t ! k)))" using \<open>fst (?t ! k) = u\<close> assms(2,4) by (simp add: needs_name_def)
    then show False using row k(2) ids by (simp add: migrated_row_def)
  qed
  then show no: "map_of (peers_tbl d1) u = None" by (simp add: map_of_eq_None_iff)
  have "length (peers_tbl d1) = length (peers_tbl d)" using list_all2_lengthD [OF M(1)] mem by (simp add: t length_upsert)
  moreover have "length (peers_tbl d2) = Suc (length (peers_tbl d1))"
    using list_all2_lengthD [OF start_migrates(1) [OF M(2) assms(6)]] \<open>u \<notin> fst ` set (peers_tbl d1)\<close> by (simp add: length_upsert)
  ultimately show "length (peers_tbl d2) = Suc (length (peers_tbl d))" by simp
qed

text \<open>And the new id is not checked against those of the clients, so that a peer may get the id of a client that is another node.\<close>

definition ex_named_uuid :: database where
  "ex_named_uuid = empty_db\<lparr>
     peers_tbl := [(''u-1'', \<lparr>pr_url = ''http://nas'', pr_state = ''online'', pr_last_seen_at = None, pr_version = ''1'', pr_name = ''nas'', pr_pin = ''P''\<rparr>)],
     clients_tbl := [(''nas'', \<lparr>cr_pin = ''Q'', cr_name = ''nas'', cr_created_at = 0, cr_last_seen_at = None\<rparr>)]\<rparr>"

lemma migration_takes_client_id:
  "\<exists>d. migrate_uuid_ids (\<lambda>i. i = ''u-1'') None ex_named_uuid = Some (Inr (), d)
     \<and> map (\<lambda>(i, x). (i, pr_pin x)) (peers_tbl d) = [(''nas'', ''P'')]
     \<and> map (\<lambda>(i, x). (i, cr_pin x)) (clients_tbl d) = [(''nas'', ''Q'')]"
proof -
  have "slug ''nas'' = ''nas''" by code_simp
  then show ?thesis
    by (simp add: ex_named_uuid_def migrate_uuid_ids_def id_for_def reserved_ids_def with_tx_def rename_peer_id_def rekey_def Let_def)
qed

end
