(* ===== verification/Process.thy ===== *)
theory Process
  imports AppTheorems ConfigTheorems DbOpen Proxy
begin

section \<open>The process (cmd/jellysync/main.go)\<close>

text \<open>
  \<open>main\<close> up to the point where it listens: the configuration is loaded, the database opened, the node built, and its
  Jellyfin asked for an answer; the first failure ends the process. The catalogue of the database file and the contents of its tables are two
  components of the state. \<open>Client.Ping\<close> is the request of the last step.
\<close>

text \<open>\<open>req_fault\<close> says whether a request for a URL cannot be built, \<open>get\<close> what answers it: an error or a status.\<close>

definition ping ::
  "(string \<Rightarrow> go_error option) \<Rightarrow> (string \<Rightarrow> string \<Rightarrow> go_error + int) \<Rightarrow> jellyfin \<Rightarrow> go_error + unit" where
  "ping req_fault get jf =
     (let url = request_url jf ''/System/Info/Public'' []
      in case req_fault url of
           Some e \<Rightarrow> Inl e
         | None \<Rightarrow>
             (case get url (auth_header jf) of
                Inl e \<Rightarrow> Inl (ErrMsg ''jellyfin unreachable'')
              | Inr status \<Rightarrow> if status \<noteq> 200 then Inl (ErrMsg (''jellyfin returned status '' @ fmt_int status)) else Inr ()))"

text \<open>What a process meets: whether the directory and the file of the database can be made, which statement of the schema fails, what
  happens during \<open>New\<close>, and the local Jellyfin.\<close>

record surroundings =
  su_mkdir_fails :: bool
  su_open_fails :: bool
  su_schema_fault :: "db_statement \<Rightarrow> bool"
  su_start :: start
  su_req_fault :: "string \<Rightarrow> go_error option"
  su_jellyfin :: "string \<Rightarrow> string \<Rightarrow> go_error + int"

text \<open>A process that serves does so on the dashboard's address, and on the peer port's when there is one.\<close>

datatype 'r process = Exited string go_error | Serving config "'r app" string "string option"

definition jellyfin_of :: "config \<Rightarrow> jellyfin" where
  "jellyfin_of cfg = new_jellyfin (cf_jellyfin_url cfg) (cf_jellyfin_key cfg) (cf_node_id cfg)"

definition main_process ::
  "(string \<Rightarrow> string) \<Rightarrow> (int \<Rightarrow> int) \<Rightarrow> (string \<Rightarrow> string) \<Rightarrow> (string \<Rightarrow> bool) \<Rightarrow> (string \<Rightarrow> url option) \<Rightarrow> (string \<Rightarrow> string)
     \<Rightarrow> surroundings \<Rightarrow> table_info \<times> database \<Rightarrow> ('r :: zero process \<times> table_info \<times> database) option" where
  "main_process pub century ip_of is_uuid parse env su sd =
     (let (s, d) = sd
      in case load_config parse env of
           Inl e \<Rightarrow> Some (Exited ''invalid configuration'' e, s, d)
         | Inr cfg \<Rightarrow>
        (case open_db (cf_db_path cfg) (su_mkdir_fails su) (su_open_fails su) (su_schema_fault su) s of
           (Inl e, s) \<Rightarrow> Some (Exited ''opening database'' e, s, d)
         | (Inr _, s) \<Rightarrow>
        (case new_app pub century ip_of is_uuid cfg (su_start su) d of
           None \<Rightarrow> None
         | Some (Inl (part, e), d) \<Rightarrow> Some (Exited ''starting node'' e, s, d)
         | Some (Inr node, d) \<Rightarrow>
        (case ping (su_req_fault su) (su_jellyfin su) (jellyfin_of cfg) of
           Inl e \<Rightarrow> Some (Exited ''cannot reach local jellyfin'' e, s, d)
         | Inr _ \<Rightarrow> Some (Serving cfg node (cf_listen_addr cfg) (if cf_mtls_peers cfg then Some (cf_peer_listen_addr cfg) else None), s, d)))))"

subsection \<open>When it serves\<close>

text \<open>What is in place when a process serves.\<close>

definition in_place ::
  "(string \<Rightarrow> string) \<Rightarrow> (string \<Rightarrow> url option) \<Rightarrow> (string \<Rightarrow> string) \<Rightarrow> surroundings \<Rightarrow> config \<Rightarrow> 'r :: zero app \<Rightarrow> table_info \<Rightarrow> database \<Rightarrow> bool" where
  "in_place pub parse env su cfg a s d \<longleftrightarrow> load_config parse env = Inr cfg \<and> config_ok cfg \<and> up_to_date s \<and> app_ok pub a d
     \<and> su_jellyfin su (request_url (jellyfin_of cfg) ''/System/Info/Public'' []) (auth_header (jellyfin_of cfg)) = Inr 200"

lemma ping_Inr: "ping req_fault get jf = Inr u \<Longrightarrow> get (request_url jf ''/System/Info/Public'' []) (auth_header jf) = Inr 200"
  by (auto simp: ping_def Let_def split: option.splits sum.splits if_splits)

text \<open>A process that meets no failure: its configuration can be loaded, no step of the opening and of the start fails, the key in the database, if there is
  one, can be read, and Jellyfin answers.\<close>

definition nothing_fails ::
  "(string \<Rightarrow> string) \<Rightarrow> (int \<Rightarrow> int) \<Rightarrow> surroundings \<Rightarrow> config \<Rightarrow> database \<Rightarrow> bool" where
  "nothing_fails pub century su cfg d \<longleftrightarrow> \<not> su_mkdir_fails su \<and> \<not> su_open_fails su \<and> su_schema_fault su = (\<lambda>_. False)
     \<and> smooth (su_start su) \<and> \<not> isl (fst (load_or_create pub century (sa_boot (su_start su)) d))
     \<and> \<not> isl (ping (su_req_fault su) (su_jellyfin su) (jellyfin_of cfg))"

text \<open>C39: Nothing is served unless everything is in place: the process always gets to the point where it serves or exits; it
  loses no column of the database and leaves the tables well formed; and when it serves, its configuration is
  valid, the schema complete, every part of the node satisfies its invariant, the local Jellyfin has answered with 200 to the request for its public
  information with the node's key, and the dashboard and, exactly when it is asked for, the peer port are at the addresses of the configuration, which
  differ. A process whose configuration loads and which meets no failure does serve.\<close>

theorem serves_when_ready:
  assumes ready: "db_ready d" and old: "earlier_version s"
  shows "\<exists>p s' d'. main_process pub century ip_of is_uuid parse env su (s, d) = Some (p, s', d') \<and> extends s s' \<and> db_ready d'
    \<and> (\<forall>cfg (a :: 'r :: zero app) addr peer. p = Serving cfg a addr peer \<longrightarrow> in_place pub parse env su cfg a s' d'
        \<and> addr = cf_listen_addr cfg \<and> peer = (if cf_mtls_peers cfg then Some (cf_peer_listen_addr cfg) else None) \<and> peer \<noteq> Some addr)
    \<and> (\<forall>cfg. load_config parse env = Inr cfg \<and> nothing_fails pub century su cfg d \<longrightarrow> (\<exists>a addr peer. p = Serving cfg a addr peer))"
proof (cases "load_config parse env")
  case (Inl e)
  then show ?thesis using ready by (auto simp: main_process_def)
next
  case (Inr cfg)
  note cfg = Inr
  obtain o1 s1 where o1: "open_db (cf_db_path cfg) (su_mkdir_fails su) (su_open_fails su) (su_schema_fault su) s = (o1, s1)" by fastforce
  have ext: "extends s s1" using open_db_extends o1 by (metis snd_conv)
  show ?thesis
  proof (cases o1)
    case (Inl e)
    then have "\<not> nothing_fails pub century su cfg d" using o1 open_db_no_fault [of "cf_db_path cfg" s] by (auto simp: nothing_fails_def)
    then show ?thesis using ready ext o1 Inl cfg by (simp add: main_process_def)
  next
    case (Inr u)
    then have up: "up_to_date s1" using open_db_up_to_date o1 old by simp
    obtain res :: "string \<times> go_error + 'r app" and d1 where n: "new_app pub century ip_of is_uuid cfg (su_start su) d = Some (res, d1)" "db_ready d1"
      "\<And>a. res = Inr a \<Longrightarrow> app_ok pub a d1"
      "smooth (su_start su) \<Longrightarrow> \<not> isl (fst (load_or_create pub century (sa_boot (su_start su)) d)) \<Longrightarrow> isl res \<Longrightarrow> False"
      by (rule new_app_ready [OF ready]) blast
    let ?ping = "ping (su_req_fault su) (su_jellyfin su) (jellyfin_of cfg)"
    note M = main_process_def [of pub century ip_of is_uuid parse env su "(s, d)"] o1 Inr n(1) cfg
    show ?thesis
    proof (cases "isl res \<or> isl ?ping")
      case True
      then obtain why err where "main_process pub century ip_of is_uuid parse env su (s, d) = Some (Exited why err :: 'r process, s1, d1)"
        by (cases res; cases ?ping) (auto simp: M)
      moreover have "\<not> nothing_fails pub century su cfg d" using True n(4) by (auto simp: nothing_fails_def)
      ultimately show ?thesis using n(2) ext cfg by simp
    next
      case False
      then obtain a v where a: "res = Inr a" "?ping = Inr v" by (cases res; cases ?ping) auto
      have c: "config_ok cfg" using load_config_ok cfg by blast
      then have "cf_listen_addr cfg \<noteq> cf_peer_listen_addr cfg" by (simp add: config_ok_def)
      moreover have "in_place pub parse env su cfg a s1 d1" using c cfg up n(3) [OF a(1)] ping_Inr [OF a(2)] by (simp add: in_place_def)
      ultimately show ?thesis using a ext n(2) cfg by (simp add: M)
    qed
  qed
qed

definition ex_surroundings :: surroundings where
  "ex_surroundings = \<lparr>su_mkdir_fails = False, su_open_fails = False, su_schema_fault = (\<lambda>_. False), su_start = ex_start CHR ''a'',
     su_req_fault = (\<lambda>_. None), su_jellyfin = (\<lambda>_ _. Inr 200)\<rparr>"

text \<open>A first start, with no file yet.\<close>

theorem serves_when_ready_witness:
  "\<exists>cfg (a :: int app) addr peer s' d'. main_process (\<lambda>s. s) (\<lambda>t. t) (\<lambda>_. []) (\<lambda>_. False) (\<lambda>_. None) ex_environment ex_surroundings ([], empty_db)
      = Some (Serving cfg a addr peer, s', d') \<and> up_to_date s'"
proof -
  have "case load_config (\<lambda>_. None) ex_environment of Inl e \<Rightarrow> False | Inr c \<Rightarrow> True" by code_simp
  then obtain cfg where cfg: "load_config (\<lambda>_. None) ex_environment = Inr cfg" by (auto split: sum.splits)
  have l: "\<not> isl (fst (load_or_create (\<lambda>s. s) (\<lambda>t. t) (sa_boot (ex_start CHR ''a'')) empty_db))"
    by (simp add: load_or_create_def ex_start_def empty_db_def tbl_insert_ignore_def from_seed_def seed_size_def Let_def)
  have n: "nothing_fails (\<lambda>s. s) (\<lambda>t. t) ex_surroundings cfg empty_db"
    using l ex_ready(2) by (simp add: nothing_fails_def ex_surroundings_def ping_def)
  have e: "earlier_version []" by (simp add: earlier_version_def)
  let ?run = "main_process (\<lambda>s. s) (\<lambda>t. t) (\<lambda>_. []) (\<lambda>_. False) (\<lambda>_. None) ex_environment ex_surroundings ([], empty_db)
      :: (int process \<times> table_info \<times> database) option"
  show ?thesis
    using serves_when_ready [OF ex_ready(1) e, where 'r = int and pub = "\<lambda>s. s" and century = "\<lambda>t. t" and ip_of = "\<lambda>_. []" and is_uuid = "\<lambda>_. False"
      and parse = "\<lambda>_. None" and env = ex_environment and su = ex_surroundings]
  proof (elim exE conjE)
    fix p :: "int process" and s' d'
    assume m: "?run = Some (p, s', d')"
      and ok: "\<forall>cfg a addr peer. p = Serving cfg a addr peer \<longrightarrow> in_place (\<lambda>s. s) (\<lambda>_. None) ex_environment ex_surroundings cfg a s' d'
        \<and> addr = cf_listen_addr cfg \<and> peer = (if cf_mtls_peers cfg then Some (cf_peer_listen_addr cfg) else None) \<and> peer \<noteq> Some addr"
      and ex: "\<forall>cfg. load_config (\<lambda>_. None) ex_environment = Inr cfg \<and> nothing_fails (\<lambda>s. s) (\<lambda>t. t) ex_surroundings cfg empty_db
        \<longrightarrow> (\<exists>a addr peer. p = Serving cfg a addr peer)"
    obtain a addr peer where p: "p = Serving cfg a addr peer" using ex cfg n by blast
    have "in_place (\<lambda>s. s) (\<lambda>_. None) ex_environment ex_surroundings cfg a s' d'" using ok p by blast
    then show ?thesis using m p unfolding in_place_def by blast
  qed
qed

end
