(* ===== verification/Dial.thy ===== *)
theory Dial
  imports Access PeersProps
begin

section \<open>Connections to peers (internal/peerauth/tls.go)\<close>

text \<open>
  What \<open>NewTransport\<close> makes of an \<open>https\<close> request: whether a proxy is used, which connection serves it, a kept one or one dialed for it, how the
  address is dialed, and what is known of the server at the other end. The network is an argument: dialing an address fails, or reaches a server, of which counts the chain
  of certificates it presents and for which host names the system's roots vouch for it. \<open>net.SplitHostPort\<close> is written out.
\<close>

subsection \<open>Host and port\<close>

fun index_char :: "char \<Rightarrow> string \<Rightarrow> nat option" where
  "index_char c [] = None"
| "index_char c (x # xs) = (if x = c then Some 0 else map_option Suc (index_char c xs))"

fun last_index :: "char \<Rightarrow> string \<Rightarrow> nat option" where
  "last_index c [] = None"
| "last_index c (x # xs) =
     (case last_index c xs of Some i \<Rightarrow> Some (Suc i) | None \<Rightarrow> if x = c then Some 0 else None)"

definition split_host_port :: "string \<Rightarrow> go_error + string \<times> string" where
  "split_host_port s =
     (case last_index CHR '':'' s of
        None \<Rightarrow> Inl (ErrMsg ''missing port in address'')
      | Some i \<Rightarrow>
          let found = (\<lambda>host j k.
                if CHR ''['' \<in> set (drop j s) then Inl (ErrMsg ''unexpected '[' in address'')
                else if CHR '']'' \<in> set (drop k s) then Inl (ErrMsg ''unexpected ']' in address'')
                else Inr (host, drop (Suc i) s))
          in if has_prefix ''['' s then
               (case index_char CHR '']'' s of
                  None \<Rightarrow> Inl (ErrMsg ''missing ']' in address'')
                | Some close \<Rightarrow>
                    if Suc close = length s then Inl (ErrMsg ''missing port in address'')
                    else if Suc close = i then found (drop 1 (take close s)) 1 (Suc close)
                    else if s ! Suc close = CHR '':'' then Inl (ErrMsg ''too many colons in address'')
                    else Inl (ErrMsg ''missing port in address''))
             else let host = take i s
                  in if CHR '':'' \<in> set host then Inl (ErrMsg ''too many colons in address'')
                     else found host 0 0)"

lemma last_index_append: "c \<notin> set p \<Longrightarrow> last_index c (h @ c # p) = Some (length h)"
proof -
  assume p: "c \<notin> set p"
  have "last_index c xs = None" if "c \<notin> set xs" for xs
    using that by (induction xs) auto
  then show ?thesis using p by (induction h) auto
qed

lemma index_char_append: "c \<notin> set h \<Longrightarrow> index_char c (h @ c # p) = Some (length h)"
  by (induction h) auto

text \<open>What \<open>JoinHostPort\<close> put together is taken apart again.\<close>

lemma split_join_host_port:
  assumes "set host \<inter> {CHR ''['', CHR '']''} = {}" "set port \<inter> {CHR ''['', CHR '']'', CHR '':''} = {}"
  shows "split_host_port (join_host_port host port) = Inr (host, port)"
proof (cases "CHR '':'' \<in> set host")
  case False
  have l: "last_index CHR '':'' (host @ CHR '':'' # port) = Some (length host)" using assms(2) by (intro last_index_append) auto
  have n: "\<not> has_prefix ''['' (host @ CHR '':'' # port)" using assms(1) by (cases host) (auto simp: has_prefix_def)
  show ?thesis using False assms by (auto simp: split_host_port_def join_host_port_def l n Let_def)
next
  case True
  let ?s = "(CHR ''['' # host @ [CHR '']'']) @ CHR '':'' # port"
  have j: "join_host_port host port = ?s" using True by (simp add: join_host_port_def)
  have l: "last_index CHR '':'' ?s = Some (length host + 2)" using assms(2) last_index_append [of "CHR '':''" port "CHR ''['' # host @ [CHR '']'']"] by auto
  have e: "index_char CHR '']'' ?s = Some (Suc (length host))"
    using assms(1) index_char_append [of "CHR '']''" "CHR ''['' # host" "CHR '':'' # port"] by auto
  have h: "has_prefix ''['' ?s" by (simp add: has_prefix_def)
  show ?thesis unfolding j split_host_port_def l e option.case Let_def using assms h by auto
qed

subsection \<open>Dialing\<close>

record server =
  sv_chain :: "certificate list"
  sv_vouched :: "string \<Rightarrow> bool"

text \<open>A connection: to whom, under which name the server was asked for, and the certificate shown to it.\<close>

record connection =
  cn_server :: server
  cn_name :: string
  cn_shown :: "certificate option"

definition dial_ca_verified :: "(string \<Rightarrow> go_error + server) \<Rightarrow> string \<Rightarrow> go_error + connection" where
  "dial_ca_verified net addr =
     (case split_host_port addr of
        Inl e \<Rightarrow> Inl e
      | Inr (host, port) \<Rightarrow>
          (case net addr of
             Inl e \<Rightarrow> Inl e
           | Inr sv \<Rightarrow> if sv_vouched sv host then Inr \<lparr>cn_server = sv, cn_name = host, cn_shown = None\<rparr>
                       else Inl (ErrMsg ''failed to verify certificate'')))"

definition dial_pinned :: "(string \<Rightarrow> go_error + server) \<Rightarrow> string \<Rightarrow> certificate \<Rightarrow> string \<Rightarrow> go_error + connection" where
  "dial_pinned net addr cert pin =
     (case split_host_port addr of
        Inl e \<Rightarrow> Inl e
      | Inr (host, port) \<Rightarrow>
          (case net addr of
             Inl e \<Rightarrow> Inl e
           | Inr sv \<Rightarrow>
               (case verify_server pin (sv_chain sv) of
                  Inl e \<Rightarrow> Inl e
                | Inr _ \<Rightarrow> Inr \<lparr>cn_server = sv, cn_name = host, cn_shown = Some cert\<rparr>)))"

text \<open>\<open>DialTLSContext\<close>; \<open>dial_tls\<close> says which of the two it is.\<close>

definition dial_context ::
  "identity option \<Rightarrow> (string \<Rightarrow> string option) \<Rightarrow> (string \<Rightarrow> go_error + server) \<Rightarrow> string \<Rightarrow> go_error + connection" where
  "dial_context self pinFor net addr =
     (case pinFor addr of
        None \<Rightarrow> dial_ca_verified net addr
      | Some pin \<Rightarrow>
          (case self of
             None \<Rightarrow> Inl (ErrMsg ''this node has no identity to authenticate with'')
           | Some i \<Rightarrow> dial_pinned net addr (idn_cert i) pin))"

lemma dial_context_cases:
  "dial_context self pinFor net addr =
     (case dial_tls (self \<noteq> None) pinFor addr of
        DialVerified \<Rightarrow> dial_ca_verified net addr
      | DialRefused \<Rightarrow> Inl (ErrMsg ''this node has no identity to authenticate with'')
      | DialPinned pin \<Rightarrow> dial_pinned net addr (idn_cert (the self)) pin)"
  by (cases self) (auto simp: dial_context_def dial_tls_def split: option.split)

subsection \<open>Requests and the pool of connections\<close>

text \<open>
  The transport keeps a connection that has served a request, under the address it was dialed for, and gives it to the next \<open>https\<close> request to
  that address. The pins are asked for when a connection is dialed and for the choice of a proxy, not when an idle connection is taken, and
  nothing in the repository closes idle connections when they change. \<open>env_proxy\<close> is whether the environment names a proxy for a URL; what is
  sent through a proxy has connections of its own and is not followed further.
\<close>

type_synonym network = "string \<Rightarrow> go_error + server"
type_synonym pool = "(string \<times> connection) list"

datatype route = Proxied | Direct "go_error + connection"

fun take_idle :: "string \<Rightarrow> pool \<Rightarrow> (connection \<times> pool) option" where
  "take_idle addr [] = None"
| "take_idle addr ((a, c) # cs) =
     (if a = addr then Some (c, cs) else map_option (map_prod id ((#) (a, c))) (take_idle addr cs))"

definition round_trip ::
  "identity option \<Rightarrow> (string \<Rightarrow> string option) \<Rightarrow> (url \<Rightarrow> bool) \<Rightarrow> network \<Rightarrow> pool \<Rightarrow> url \<Rightarrow> route \<times> pool" where
  "round_trip self pinFor env_proxy net idle u =
     (if use_proxy pinFor u \<and> env_proxy u then (Proxied, idle)
      else (case take_idle (canonical_addr u) idle of
              Some (c, rest) \<Rightarrow> (Direct (Inr c), rest)
            | None \<Rightarrow> (Direct (dial_context self pinFor net (canonical_addr u)), idle)))"

text \<open>
  The transport of a node in use. The registry it asks for pins may become another one at any time (\<open>PeersAre\<close>). A request is sent, with the network
  as it is then; a connection dialed for a request that was served by another one in the end is kept (\<open>Spare\<close>); a connection in use becomes idle,
  the latest first, or breaks; an idle one is closed by its age, by the limits of the pool or by the other side.
\<close>

record transport =
  tr_pins :: registry
  tr_idle :: pool
  tr_busy :: pool

datatype transport_event =
  PeersAre registry | Send url network | Spare string network | Finished nat | Broken nat | Expired nat

definition drop_nth :: "nat \<Rightarrow> 'a list \<Rightarrow> 'a list" where
  "drop_nth i xs = take i xs @ drop (Suc i) xs"

definition keep_connection :: "string \<Rightarrow> go_error + connection \<Rightarrow> pool \<Rightarrow> pool" where
  "keep_connection addr res cs = (case res of Inl _ \<Rightarrow> cs | Inr c \<Rightarrow> (addr, c) # cs)"

fun transport_step ::
  "identity option \<Rightarrow> (string \<Rightarrow> url option) \<Rightarrow> (url \<Rightarrow> bool) \<Rightarrow> transport \<Rightarrow> transport_event \<Rightarrow> transport" where
  "transport_step self parse env_proxy st (PeersAre r) = st\<lparr>tr_pins := r\<rparr>"
| "transport_step self parse env_proxy st (Send u net) =
     (case round_trip self (pin_for_addr parse (tr_pins st)) env_proxy net (tr_idle st) u of
        (Proxied, _) \<Rightarrow> st
      | (Direct res, idle) \<Rightarrow> st\<lparr>tr_idle := idle, tr_busy := keep_connection (canonical_addr u) res (tr_busy st)\<rparr>)"
| "transport_step self parse env_proxy st (Spare addr net) =
     st\<lparr>tr_idle := keep_connection addr (dial_context self (pin_for_addr parse (tr_pins st)) net addr) (tr_idle st)\<rparr>"
| "transport_step self parse env_proxy st (Finished i) =
     (if i < length (tr_busy st) then st\<lparr>tr_idle := tr_busy st ! i # tr_idle st, tr_busy := drop_nth i (tr_busy st)\<rparr> else st)"
| "transport_step self parse env_proxy st (Broken i) = st\<lparr>tr_busy := drop_nth i (tr_busy st)\<rparr>"
| "transport_step self parse env_proxy st (Expired i) = st\<lparr>tr_idle := drop_nth i (tr_idle st)\<rparr>"

definition new_transport :: "registry \<Rightarrow> transport" where
  "new_transport r = \<lparr>tr_pins = r, tr_idle = [], tr_busy = []\<rparr>"

definition transport_run ::
  "identity option \<Rightarrow> (string \<Rightarrow> url option) \<Rightarrow> (url \<Rightarrow> bool) \<Rightarrow> transport_event list \<Rightarrow> transport \<Rightarrow> transport" where
  "transport_run self parse env_proxy evs st = foldl (transport_step self parse env_proxy) st evs"

text \<open>The registries there have been.\<close>

definition registries :: "registry \<Rightarrow> transport_event list \<Rightarrow> registry set" where
  "registries r evs = insert r {r'. PeersAre r' \<in> set evs}"

subsection \<open>Whom a node talks to\<close>

definition paired_at :: "(string \<Rightarrow> url option) \<Rightarrow> string \<Rightarrow> peer \<Rightarrow> bool" where
  "paired_at parse addr p \<longleftrightarrow> p_pin p \<noteq> [] \<and> addr_of parse (p_url p) = Some addr"

lemma pin_for_addr_cases:
  "case pin_for_addr parse r addr of
     None \<Rightarrow> \<forall>p \<in> set (list_peers r). \<not> paired_at parse addr p
   | Some pin \<Rightarrow> \<exists>p \<in> set (list_peers r). paired_at parse addr p \<and> p_pin p = pin"
proof (cases "find (\<lambda>(i, p). p_pin p \<noteq> [] \<and> addr_of parse (p_url p) = Some addr) (rg_peers r)")
  case None
  then have "\<not> paired_at parse addr (snd x)" if "x \<in> set (rg_peers r)" for x
    using that unfolding find_None_iff paired_at_def by (cases x) fastforce
  moreover have "pin_for_addr parse r addr = None" by (simp add: pin_for_addr_def None)
  ultimately show ?thesis unfolding list_peers_def by auto
next
  case (Some x)
  then have "x \<in> set (rg_peers r)" "paired_at parse addr (snd x)"
    by (auto simp: find_Some_iff paired_at_def case_prod_unfold)
  then have "snd x \<in> set (list_peers r) \<and> paired_at parse addr (snd x)" by (auto simp: list_peers_def)
  moreover have "pin_for_addr parse r addr = Some (p_pin (snd x))" by (simp add: pin_for_addr_def Some)
  ultimately show ?thesis by auto
qed

definition plain_name :: "string \<Rightarrow> bool" where
  "plain_name s \<longleftrightarrow> set s \<inter> {CHR ''['', CHR '']''} = {}"

lemma split_canonical:
  assumes "plain_name (to_lower (u_hostname u))" "plain_name (u_port u)" "CHR '':'' \<notin> set (u_port u)"
  shows "\<exists>port. split_host_port (canonical_addr u) = Inr (to_lower (u_hostname u), port)"
proof -
  let ?port = "if u_port u = [] then ''443'' else u_port u"
  have "split_host_port (join_host_port (to_lower (u_hostname u)) ?port) = Inr (to_lower (u_hostname u), ?port)"
    by (rule split_join_host_port) (use assms in \<open>auto simp: plain_name_def\<close>)
  then show ?thesis by (simp add: canonical_addr_def Let_def)
qed

lemma dial_pinned_Inr:
  assumes "dial_pinned net addr cert pin = Inr c" "split_host_port addr = Inr (host, port)"
  shows "cn_name c = host \<and> cn_shown c = Some cert \<and> sv_chain (cn_server c) \<noteq> [] \<and> pin_of (hd (sv_chain (cn_server c))) = pin"
  using assms by (auto simp: dial_pinned_def verify_server_def split: sum.splits if_splits)

lemma dial_ca_Inr:
  assumes "dial_ca_verified net addr = Inr c" "split_host_port addr = Inr (host, port)"
  shows "cn_name c = host \<and> cn_shown c = None \<and> sv_vouched (cn_server c) host"
  using assms by (auto simp: dial_ca_verified_def split: sum.splits if_splits)

text \<open>A connection to a paired peer, and one to anybody else.\<close>

definition pinned_connection :: "(string \<Rightarrow> url option) \<Rightarrow> registry \<Rightarrow> identity \<Rightarrow> url \<Rightarrow> connection \<Rightarrow> bool" where
  "pinned_connection parse r self u c \<longleftrightarrow>
     cn_name c = to_lower (u_hostname u) \<and> cn_shown c = Some (idn_cert self) \<and> sv_chain (cn_server c) \<noteq> []
     \<and> (\<exists>p \<in> set (list_peers r). paired_at parse (canonical_addr u) p \<and> pin_of (hd (sv_chain (cn_server c))) = p_pin p)"

definition vouched_connection :: "url \<Rightarrow> connection \<Rightarrow> bool" where
  "vouched_connection u c \<longleftrightarrow>
     cn_name c = to_lower (u_hostname u) \<and> cn_shown c = None \<and> sv_vouched (cn_server c) (to_lower (u_hostname u))"

definition proper_connection :: "(string \<Rightarrow> url option) \<Rightarrow> registry \<Rightarrow> identity \<Rightarrow> url \<Rightarrow> connection \<Rightarrow> bool" where
  "proper_connection parse r self u c \<longleftrightarrow>
     (if \<exists>p \<in> set (list_peers r). paired_at parse (canonical_addr u) p then pinned_connection parse r self u c else vouched_connection u c)"

text \<open>What is dialed with a registry is proper by that registry.\<close>

lemma dial_context_proper:
  assumes "dial_context (Some self) (pin_for_addr parse r) net (canonical_addr u) = Inr c"
    and "plain_name (to_lower (u_hostname u))" "plain_name (u_port u)" "CHR '':'' \<notin> set (u_port u)"
  shows "proper_connection parse r self u c"
proof -
  let ?addr = "canonical_addr u"
  obtain port where s: "split_host_port ?addr = Inr (to_lower (u_hostname u), port)"
    using split_canonical [OF assms(2-4)] by blast
  note P = pin_for_addr_cases [where parse = parse and r = r and addr = ?addr]
  show ?thesis
  proof (cases "pin_for_addr parse r ?addr")
    case (Some pin)
    then obtain q where q: "q \<in> set (list_peers r)" "paired_at parse ?addr q" "p_pin q = pin" using P by auto
    have "dial_pinned net ?addr (idn_cert self) pin = Inr c" using assms(1) Some by (simp add: dial_context_def)
    from dial_pinned_Inr [OF this s] q have "pinned_connection parse r self u c" unfolding pinned_connection_def by auto
    then show ?thesis using q(1,2) by (auto simp: proper_connection_def)
  next
    case None
    then have no: "\<not> (\<exists>p \<in> set (list_peers r). paired_at parse ?addr p)" using P by simp
    have "dial_ca_verified net ?addr = Inr c" using None assms(1) by (simp add: dial_context_def)
    from dial_ca_Inr [OF this s] no show ?thesis by (simp add: proper_connection_def vouched_connection_def)
  qed
qed

text \<open>Every connection kept was dialed with one of the registries there have been.\<close>

definition dialed :: "identity option \<Rightarrow> (string \<Rightarrow> url option) \<Rightarrow> registry set \<Rightarrow> string \<times> connection \<Rightarrow> bool" where
  "dialed self parse R = (\<lambda>(addr, c). \<exists>r \<in> R. \<exists>net. dial_context self (pin_for_addr parse r) net addr = Inr c)"

definition transport_ok :: "identity option \<Rightarrow> (string \<Rightarrow> url option) \<Rightarrow> registry set \<Rightarrow> transport \<Rightarrow> bool" where
  "transport_ok self parse R st \<longleftrightarrow> tr_pins st \<in> R \<and> (\<forall>x \<in> set (tr_idle st) \<union> set (tr_busy st). dialed self parse R x)"

lemma take_idle_Some:
  assumes "take_idle addr cs = Some (c, rest)"
  shows "(addr, c) \<in> set cs \<and> set rest \<subseteq> set cs"
  using assms
proof (induction cs arbitrary: rest)
  case (Cons x cs)
  obtain a b where x: "x = (a, b)" by (cases x)
  show ?case
  proof (cases "a = addr")
    case False
    then obtain tl where "take_idle addr cs = Some (c, tl)" "rest = x # tl" using Cons.prems by (auto simp: x)
    then show ?thesis using Cons.IH by auto
  qed (use Cons.prems x in auto)
qed simp

lemma set_drop_nth: "set (drop_nth i xs) \<subseteq> set xs"
  using set_take_subset [of i xs] set_drop_subset [of "Suc i" xs] by (auto simp: drop_nth_def)

lemma round_trip_Direct:
  assumes "round_trip self pinFor env_proxy net idle u = (Direct res, rest)"
  shows "set rest \<subseteq> set idle \<and> ((\<exists>c. res = Inr c \<and> (canonical_addr u, c) \<in> set idle)
    \<or> res = dial_context self pinFor net (canonical_addr u) \<and> take_idle (canonical_addr u) idle = None)"
  using assms take_idle_Some [of "canonical_addr u" idle]
  by (cases "take_idle (canonical_addr u) idle") (auto simp: round_trip_def split: if_splits)

lemma dialed_mono: "dialed self parse R x \<Longrightarrow> R \<subseteq> S \<Longrightarrow> dialed self parse S x"
  unfolding dialed_def by auto

lemma dialed_now: "dial_context self (pin_for_addr parse r) net addr = Inr c \<Longrightarrow> r \<in> R \<Longrightarrow> dialed self parse R (addr, c)"
  unfolding dialed_def by auto

lemma transport_step_ok:
  assumes "transport_ok self parse R st" and "\<And>r. ev = PeersAre r \<Longrightarrow> r \<in> R"
  shows "transport_ok self parse R (transport_step self parse env_proxy st ev)"
proof (cases ev)
  case (Send u net)
  let ?rt = "round_trip self (pin_for_addr parse (tr_pins st)) env_proxy net (tr_idle st) u"
  show ?thesis
  proof (cases "fst ?rt")
    case (Direct res)
    then obtain rest where rt: "?rt = (Direct res, rest)" by (cases ?rt) auto
    have "dialed self parse R (canonical_addr u, c)" if "res = Inr c" for c
      using round_trip_Direct [OF rt] that assms(1) dialed_now unfolding transport_ok_def by (metis UnCI sum.inject(2))
    then show ?thesis using round_trip_Direct [OF rt] rt assms(1)
      by (auto simp: Send transport_ok_def keep_connection_def split: sum.split)
  qed (use assms(1) Send in \<open>cases ?rt, auto\<close>)
next
  case (Spare addr net)
  then show ?thesis using assms(1) dialed_now [where r = "tr_pins st" and R = R]
    by (auto simp: transport_ok_def keep_connection_def split: sum.split)
next
  case (Finished i)
  then show ?thesis using assms(1) set_drop_nth [of i "tr_busy st"] by (auto simp: transport_ok_def)
next
  case (Broken i)
  then show ?thesis using assms(1) set_drop_nth [of i "tr_busy st"] by (auto simp: transport_ok_def)
next
  case (Expired i)
  then show ?thesis using assms(1) set_drop_nth [of i "tr_idle st"] by (auto simp: transport_ok_def)
qed (use assms in \<open>auto simp: transport_ok_def\<close>)

lemma transport_run_ok:
  "transport_ok self parse (registries r evs) (transport_run self parse env_proxy evs (new_transport r))"
proof -
  have "transport_ok self parse R (foldl (transport_step self parse env_proxy) st es)"
    if "transport_ok self parse R st" "\<And>r. PeersAre r \<in> set es \<Longrightarrow> r \<in> R" for R st es
    using that
  proof (induction es arbitrary: st)
    case (Cons e es)
    have "transport_ok self parse R (transport_step self parse env_proxy st e)"
      by (rule transport_step_ok [OF Cons.prems(1)]) (use Cons.prems(2) in auto)
    from Cons.IH [OF this] Cons.prems(2) show ?case by simp
  qed simp
  note run = this
  show ?thesis unfolding transport_run_def by (rule run) (auto simp: transport_ok_def new_transport_def registries_def)
qed

text \<open>C19: Whom a node talks to over \<open>https\<close>, in any history of its transport: whatever requests were sent, whatever the network did, whichever
  connections were kept, reused or closed, and however the registry changed meanwhile. A request to the address of a peer paired now never goes
  through a proxy. The connection it is served on was dialed with the pins of one of the registries there have been and is proper by that
  one: where a peer was paired at the address then, the server presented the key that peer was known by and was shown this node's certificate; where
  none was, the certificate authorities vouched for the server under the name in the URL and it was not shown who asks. Where no idle connection
  to the address is left it is dialed with the pins of now, and proper by them.\<close>

theorem paired_peers_are_pinned:
  assumes "u_scheme u = ''https''" and "plain_name (to_lower (u_hostname u))" "plain_name (u_port u)" "CHR '':'' \<notin> set (u_port u)"
    and st: "st = transport_run (Some self) parse env_proxy evs (new_transport r)"
    and way: "way = fst (round_trip (Some self) (pin_for_addr parse (tr_pins st)) env_proxy net (tr_idle st) u)"
  shows "((\<exists>p \<in> set (list_peers (tr_pins st)). paired_at parse (canonical_addr u) p) \<longrightarrow> way \<noteq> Proxied)
    \<and> (\<forall>c. way = Direct (Inr c) \<longrightarrow> (\<exists>r' \<in> registries r evs. proper_connection parse r' self u c)
        \<and> (take_idle (canonical_addr u) (tr_idle st) = None \<longrightarrow> proper_connection parse (tr_pins st) self u c))"
proof -
  let ?addr = "canonical_addr u" and ?pins = "pin_for_addr parse (tr_pins st)"
  have ok: "transport_ok (Some self) parse (registries r evs) st" unfolding st by (rule transport_run_ok)
  have direct: "way \<noteq> Proxied" if "\<exists>p \<in> set (list_peers (tr_pins st)). paired_at parse ?addr p"
    using that assms(1) pin_for_addr_cases [where parse = parse and r = "tr_pins st" and addr = ?addr] unfolding way
    by (auto simp: round_trip_def use_proxy_def split: option.splits prod.splits)
  have "(\<exists>r' \<in> registries r evs. proper_connection parse r' self u c)
      \<and> (take_idle ?addr (tr_idle st) = None \<longrightarrow> proper_connection parse (tr_pins st) self u c)" if c: "way = Direct (Inr c)" for c
  proof -
    obtain rest where rt: "round_trip (Some self) ?pins env_proxy net (tr_idle st) u = (Direct (Inr c), rest)"
      using c unfolding way by (metis prod.collapse)
    have "dialed (Some self) parse (registries r evs) (?addr, c)"
      using round_trip_Direct [OF rt] ok dialed_now unfolding transport_ok_def by (metis UnCI sum.inject(2))
    then obtain r' net' where d: "r' \<in> registries r evs" "dial_context (Some self) (pin_for_addr parse r') net' ?addr = Inr c"
      by (auto simp: dialed_def)
    have now: "dial_context (Some self) ?pins net ?addr = Inr c" if "take_idle ?addr (tr_idle st) = None"
      using rt that by (auto simp: round_trip_def split: if_splits)
    show ?thesis using dial_context_proper [OF d(2) assms(2-4)] d(1) dial_context_proper [OF now assms(2-4)] by blast
  qed
  then show ?thesis using direct by blast
qed

definition ex_pinned_url :: url where
  "ex_pinned_url = \<lparr>u_scheme = ''https'', u_hostname = ''NAS'', u_port = ''8444'', u_has_user = False, u_path = [], u_raw_query = [], u_fragment = []\<rparr>"

definition ex_cert :: "char \<Rightarrow> certificate" where
  "ex_cert c = \<lparr>ce_serial = 1, ce_not_before = 0, ce_not_after = 1, ce_spki = [c]\<rparr>"

definition ex_paired :: registry where
  "ex_paired = \<lparr>rg_peers = [(''nas'', \<lparr>p_id = ''nas'', p_url = ''https://nas:8444'', p_state = Online, p_name = ''nas'', p_version = ''1'', p_ip = [],
      p_pin = pin_of (ex_cert CHR ''n''), p_last_seen = None, p_rtt = 0, p_missed = 0, p_offering = True\<rparr>)],
    rg_http_off = False, rg_mtls_off = False, rg_running = [], rg_has_callback = False\<rparr>"

definition ex_self :: identity where
  "ex_self = \<lparr>idn_cert = ex_cert CHR ''s'', idn_seed = [], idn_pin = pin_of (ex_cert CHR ''s'')\<rparr>"

definition ex_pool :: "transport_event list" where
  "ex_pool = [Send ex_pinned_url (\<lambda>_. Inr \<lparr>sv_chain = [ex_cert CHR ''n''], sv_vouched = (\<lambda>_. True)\<rparr>), Finished 0]"

definition ex_legacy :: registry where
  "ex_legacy = ex_paired\<lparr>rg_peers := []\<rparr>"

definition ex_vouched :: connection where
  "ex_vouched = \<lparr>cn_server = \<lparr>sv_chain = [ex_cert CHR ''n''], sv_vouched = (\<lambda>_. True)\<rparr>, cn_name = ''nas'', cn_shown = None\<rparr>"

lemma ex_pool_idle:
  "transport_run (Some ex_self) (\<lambda>_. Some ex_pinned_url) (\<lambda>_. False) (ex_pool @ [PeersAre r]) (new_transport ex_legacy)
    = \<lparr>tr_pins = r, tr_idle = [(canonical_addr ex_pinned_url, ex_vouched)], tr_busy = []\<rparr>"
proof -
  have s: "split_host_port (canonical_addr ex_pinned_url) = Inr (''nas'', ''8444'')" by code_simp
  have "pin_for_addr (\<lambda>_. Some ex_pinned_url) ex_legacy addr = None" for addr by (simp add: pin_for_addr_def ex_legacy_def)
  then show ?thesis
    by (simp add: transport_run_def ex_pool_def new_transport_def round_trip_def dial_context_def dial_ca_verified_def s
        keep_connection_def drop_nth_def ex_vouched_def)
qed

text \<open>What the pins of now do not reach: a connection dialed before a peer was paired at its address is still used for the requests to it, to a server
  that need not have the key of the peer, and without showing this node's certificate.\<close>

lemma idle_connection_outlives_pins:
  "round_trip self pinFor (\<lambda>_. False) net ((canonical_addr u, c) # idle) u = (Direct (Inr c), idle)"
  by (simp add: round_trip_def)

lemma stale_connection_serves_paired_peer:
  assumes "st = transport_run (Some ex_self) (\<lambda>_. Some ex_pinned_url) (\<lambda>_. False) (ex_pool @ [PeersAre ex_paired]) (new_transport ex_legacy)"
  shows "fst (round_trip (Some ex_self) (pin_for_addr (\<lambda>_. Some ex_pinned_url) (tr_pins st)) (\<lambda>_. False) net (tr_idle st) ex_pinned_url)
      = Direct (Inr ex_vouched)
    \<and> \<not> pinned_connection (\<lambda>_. Some ex_pinned_url) (tr_pins st) ex_self ex_pinned_url ex_vouched"
  unfolding assms ex_pool_idle by (simp add: idle_connection_outlives_pins pinned_connection_def ex_vouched_def)

text \<open>Once the connection from before the pairing is closed, the next request is served on a pinned one.\<close>

theorem paired_peers_are_pinned_witness:
  "\<exists>c. fst (round_trip (Some ex_self) (pin_for_addr (\<lambda>_. Some ex_pinned_url) ex_paired) (\<lambda>_. False)
        (\<lambda>_. Inr \<lparr>sv_chain = [ex_cert CHR ''n''], sv_vouched = (\<lambda>_. False)\<rparr>)
        (tr_idle (transport_run (Some ex_self) (\<lambda>_. Some ex_pinned_url) (\<lambda>_. False) (ex_pool @ [PeersAre ex_paired, Expired 0])
          (new_transport ex_legacy))) ex_pinned_url) = Direct (Inr c)
    \<and> pinned_connection (\<lambda>_. Some ex_pinned_url) ex_paired ex_self ex_pinned_url c"
proof -
  let ?parse = "\<lambda>_ :: string. Some ex_pinned_url" and ?evs = "ex_pool @ [PeersAre ex_paired, Expired 0]"
  let ?net = "\<lambda>_ :: string. Inr \<lparr>sv_chain = [ex_cert CHR ''n''], sv_vouched = (\<lambda>_. False)\<rparr> :: go_error + server"
  let ?st = "transport_run (Some ex_self) ?parse (\<lambda>_. False) ?evs (new_transport ex_legacy)" and ?p = "snd (hd (rg_peers ex_paired))"
  have names: "u_scheme ex_pinned_url = ''https''" "plain_name (to_lower (u_hostname ex_pinned_url))" "plain_name (u_port ex_pinned_url)"
    "CHR '':'' \<notin> set (u_port ex_pinned_url)" "split_host_port (canonical_addr ex_pinned_url) = Inr (''nas'', ''8444'')"
    "addr_of ?parse ''https://nas:8444'' = Some (canonical_addr ex_pinned_url)"
    by code_simp+
  have pin: "pin_of (ex_cert CHR ''n'') \<noteq> []"
  proof
    assume "pin_of (ex_cert CHR ''n'') = []"
    then have "valid_pin []" using valid_pin_hash by (metis pin_of_def)
    then show False by (simp add: valid_pin_def b64_decode_def)
  qed
  have at: "\<exists>p \<in> set (list_peers ex_paired). paired_at ?parse (canonical_addr ex_pinned_url) p"
    using names(6) pin by (simp add: paired_at_def ex_paired_def list_peers_def)
  have f: "pin_for_addr ?parse ex_paired (canonical_addr ex_pinned_url) = Some (pin_of (ex_cert CHR ''n''))"
    using names(6) pin by (simp add: pin_for_addr_def ex_paired_def)
  have st: "tr_pins ?st = ex_paired" "tr_idle ?st = []"
    using ex_pool_idle [of ex_paired] by (simp_all add: transport_run_def drop_nth_def)
  obtain c where c: "dial_pinned ?net (canonical_addr ex_pinned_url) (idn_cert ex_self) (pin_of (ex_cert CHR ''n'')) = Inr c"
    by (simp add: dial_pinned_def names(5) verify_server_def)
  then have r: "fst (round_trip (Some ex_self) (pin_for_addr ?parse ex_paired) (\<lambda>_. False) ?net [] ex_pinned_url) = Direct (Inr c)"
    using f by (simp add: round_trip_def dial_context_def)
  have T: "proper_connection ?parse ex_paired ex_self ex_pinned_url c"
    using paired_peers_are_pinned [OF names(1-4) refl refl, where parse = ?parse and env_proxy = "\<lambda>_. False" and evs = ?evs and r = ex_legacy
        and self = ex_self and net = ?net] r st by simp
  show ?thesis using T at r st by (simp add: proper_connection_def)
qed

end
