(* ===== verification/Spec2Isabelle.thy ===== *)
theory Spec2Isabelle
  imports CatalogTheorems PairingTheorems StrmTheorems SyncRunTheorems AccessTheorems ListingTheorems
    ConfigTheorems MetricsTheorems OpenMetricsTheorems ProxyTheorems IdentityTheorems DbOpen EntryJson AppTheorems Process Dial
begin

text \<open>
  \<^bold>\<open>jellysync\<close> lets several households with a Jellyfin server each show the films and series of all of them. A node
  reads its own library, serves it to its peers as a change feed, mirrors the feeds of its peers, elects one copy
  of every item, and writes a redirect file (\<open>.strm\<close>) for each item a peer is elected for; playing such a
  file streams the bytes through both nodes. This development models the node's logic and proves it correct.

  \<^bold>\<open>The parts and how they interact.\<close> One sync run (syncrun.go) refreshes the index of the local library
  (catalog/index.go, from jellyfin/client.go), pulls every peer's changes into its mirror (catalog/pull.go), elects and
  writes \<open>catalog_items\<close> (catalog/catalog.go), and reconciles the files on disk with it (strm.go). Runs are
  asked for by the schedule, the dashboard and peers, through a queue (syncrun.go, app.go). Which peers count is decided
  by the registry's heartbeats (peers/registry.go); who may ask this node for what by the clients it has paired with
  (peerauth). The user excludes folders of peers (catalog/folders.go) and hides items (catalog/hidden.go).

  \<^bold>\<open>Conventions.\<close> Theories named after a part hold its definitions, in the order of the code; theories ending in
  \<open>Props\<close> its invariants and lemmas; theories ending in \<open>Theorems\<close> the properties, each with a witness where it has
  hypotheses. A struct is a record, a SQLite table an association list by its key (one record \<open>database\<close> holds them all, Schema),
  a Go map one too, a fallible function returns \<open>go_error + 'a\<close>, a handler a \<open>response\<close>; a SQL statement or
  file operation that may fail is an argument that says whether it does; clocks and random ids are arguments; code that
  runs under a lock is one step. Strings are their bytes. Numbers are integers; where an overflow matters it is
  written out (Int64), counters that only count rows are natural numbers.

  \<^bold>\<open>Where is what.\<close>
  \<^item> Prelude: errors, keyed tables and their laws (locale \<open>store\<close>), transactions. GoStrings: \<open>strings\<close>, \<open>strconv\<close>
    and \<open>path/filepath\<close>. Sha256: the hash. Base64, Json: the codecs of entries, invites and keys (JsonProps: what they promise; the
    fuel of \<open>json_document\<close> is enough by \<open>json_same_fuel\<close>). Int64: wrap-around and \<open>Duration.Seconds\<close>. Schema: the tables of
    db/db.go and \<open>catalog.Entry\<close>; EntryJson: an entry's JSON and its hash; DbOpen: \<open>Open\<close> and its migrations.
  \<^item> Jellyfin: jellyfin/client.go and \<open>LocalEntries\<close>. Folders, Hidden, Index, Pull, Election: the files of internal/catalog.
    Index holds \<open>Refresh\<close>, the garbage collection of tombstones, \<open>Changes\<close> and the feed's handlers; Pull the cursors and pages.
  \<^item> Replication and FeedModel: the contract between a feed and its pullers as the locales \<open>change_feed\<close> and \<open>moving_feed\<close>, the
    puller's lemmas proved inside them, and their interpretation on \<open>Index.Changes\<close> and \<open>Refresh\<close>. Network: a serving
    and a pulling node as a step relation, with refreshes, failures, restarts and new databases in any order.
  \<^item> Strm, StrmFiles, StrmRun: strm.go with its file system; every file operation may fail.
  \<^item> Identity: peerauth/identity.go. Pairing: peerauth/store.go, invite.go, http.go and the URLs of tls.go. Peers: peers/ids.go, registry.go, http.go.
    Access: peerauth/auth.go, the handshakes of tls.go, and the routes of both ports of app.go.
  \<^item> SyncRun: syncrun.go, syncstatus.go, synctrigger/http.go and the loop of app.go, whose interleavings with those who ask for runs
    are the step relation \<open>loop_step\<close>.
  \<^item> Listings: catalog/status.go, stats.go, info.go. Config: config.go, settings, \<open>ParseLevel\<close>. Metrics: metrics.go,
    metrics/http.go, streams.go; OpenMetrics: the page \<open>GET /metrics\<close>. Proxy: proxy.go and trace.go.
  \<^item> AppStart: \<open>app.New\<close>, which loads the parts in order. Process: \<open>main\<close> until it listens. Dial: the transport of
    tls.go with its pool of connections, as events.

  \<^bold>\<open>What the properties show.\<close>
  \<^item> Replication: after the last page of a pull the mirror is what the server offers, in every reachable state of the network
    (\<open>complete_pull_mirrors\<close>); a pull returns within \<open>head + 2\<close> pages, the fuel \<open>pull_loop\<close> needs, when
    its first page gets past the garbage collection's horizon (\<open>pull_returns\<close>), and never otherwise (\<open>pull_never_returns\<close>).
  \<^item> The index and the election: what a refresh offers, that it keeps the index well formed, what a page of the feed holds, that
    \<open>elect\<close> computes the declarative rule, and that a sync ends with it in the table.
  \<^item> Files: a reconcile makes the files exactly those wanted, never takes the last file of a wanted item whatever fails, and
    touches no others; names fit and stay inside their folder. A whole run puts the election on disk.
  \<^item> Runs: no request for one is lost, in any interleaving; the node stays well formed whatever fails.
  \<^item> Access: an invite admits once over any sequence of operations and failures; memory mirrors the tables; which key reaches
    which handler; revocation; pairing; streams stay in the own library; heartbeat states. A node keeps its key across restarts, and an invite
    string brings its two ends together (\<open>invite_brings_together\<close>): it is read back, and both handshakes succeed.
    A start establishes the invariants of the parts, keeps the index and finds the node
    again (\<open>starts_find_the_node\<close>), and the process serves only a node that is complete (\<open>serves_when_ready\<close>). A connection dialed for a paired
    peer's address leads only to a server with a key of that peer, and a kept one to a server that was right when it was dialed
    (\<open>paired_peers_are_pinned\<close>). The table of peers follows memory, except for statements that failed (\<open>registry_mirrors_table\<close>). Opening the database of an earlier version completes its schema, whatever failed before (\<open>open_db_upgrades\<close>).
  \<^item> Dashboard and metrics: what of Jellyfin is listed, search, pages (SQLite's order of equal names is an argument), the round trip of excluded folders; the JSON of an entry loses nothing,
    so that the tables may hold entries, and equal content hashes mean equal entries up to collisions of SHA-256; the loaded configuration
    is well formed; traffic and stream counters are exact and survive restarts; the metrics page
    is well formed; a stream is relayed and accounted for.

  \<^bold>\<open>Flaws.\<close> \<open>pull_never_returns\<close>, \<open>stream_item_verbatim\<close>, \<open>stale_connection_serves_paired_peer\<close>, \<open>movies_of_one_name_repeat\<close>,
  \<open>clashing_path_loses_file\<close>, \<open>sync_interval_overflows\<close>, \<open>same_name_takes_traffic\<close>, \<open>strm_path_escapes\<close>,
  \<open>provider_id_ignores_type\<close>, \<open>valid_pin_lenient\<close>, \<open>byte_counter_without_total\<close>,
  \<open>configured_uuid_multiplies\<close>, \<open>migration_takes_client_id\<close> and \<open>windows_root_refused\<close> show behaviour the code does not mean to have.

  \<^bold>\<open>Parameters.\<close> Not under src/, and arguments where they are used: the URL and IP address parsers, the
  derivation of an Ed25519 key from its seed, random bytes, DNS, what other programs answer over HTTP. The two hash
  functions (\<open>content_hash\<close>, \<open>hash_parts\<close>) are arguments too, so that the assumption of no collision can be stated. Rates, \<open>float64\<close>
  values, are of an arbitrary type with an addition, and so are the formatting of floats and the verb \<open>%q\<close> on the metrics page arguments.

  \<^bold>\<open>Not modelled.\<close> Logs and the durations they show; timers and goroutines as such (their steps are the environment's); writing of
  responses (JSON, gzip); signing certificates and the TLS
  handshake beyond the checks of keys; sockets; the embedded web pages (webui.go); the building of listeners and handlers in \<open>app.New\<close>.
\<close>

end
